(* ===== verification/Prelude.thy ===== *)
theory Prelude
  imports Main "HOL-Library.Word"
begin

unbundle bit_operations_syntax

text \<open>
  Shared vocabulary of the development: the widths of the C integer types, the
  first-fit loop that the kernel writes in every table it keeps
  (\<open>for (i = lo; i < hi; i++) if (p (i)) return i;\<close>), and generic facts on lists,
  options and words that the component theories use.
\<close>

type_synonym u8 = "8 word"
type_synonym u16 = "16 word"
type_synonym u32 = "32 word"
type_synonym u64 = "64 word"

text \<open>
  \<open>kernel_frame\<close> collects the facts that an operation leaves a part of the state alone,
  \<open>kernel_inv\<close> the facts that an operation keeps a component's invariant.
\<close>

named_theorems kernel_frame "state components an operation does not touch"
named_theorems kernel_inv "preservation of component invariants"

subsection \<open>The first-fit loop\<close>

function first_from :: "(nat \<Rightarrow> bool) \<Rightarrow> nat \<Rightarrow> nat \<Rightarrow> nat option" where
  "first_from p lo hi =
     (if lo < hi then (if p lo then Some lo else first_from p (Suc lo) hi) else None)"
  by pat_completeness auto
termination
  by (relation "measure (\<lambda>(p, lo, hi). hi - lo)") auto

declare first_from.simps [simp del]

lemma first_from_SomeD:
  "first_from p lo hi = Some i \<Longrightarrow>
     lo \<le> i \<and> i < hi \<and> p i \<and> (\<forall>j. lo \<le> j \<longrightarrow> j < i \<longrightarrow> \<not> p j)"
proof (induction p lo hi rule: first_from.induct)
  case (1 p lo hi)
  show ?case
  proof (cases "lo < hi \<and> \<not> p lo")
    case True
    with "1.prems" have "first_from p (Suc lo) hi = Some i"
      by (simp add: first_from.simps [of p lo hi])
    with True "1.IH" have "Suc lo \<le> i \<and> i < hi \<and> p i \<and> (\<forall>j. Suc lo \<le> j \<longrightarrow> j < i \<longrightarrow> \<not> p j)"
      by blast
    with True show ?thesis
      by (metis Suc_leD Suc_leI le_neq_implies_less)
  next
    case False
    with "1.prems" show ?thesis
      by (auto simp: first_from.simps [of p lo hi] split: if_splits)
  qed
qed

lemma first_from_None_iff:
  "first_from p lo hi = None \<longleftrightarrow> (\<forall>j. lo \<le> j \<longrightarrow> j < hi \<longrightarrow> \<not> p j)"
proof (induction p lo hi rule: first_from.induct)
  case (1 p lo hi)
  show ?case
  proof (cases "lo < hi \<and> \<not> p lo")
    case True
    then have "first_from p lo hi = None \<longleftrightarrow> (\<forall>j. Suc lo \<le> j \<longrightarrow> j < hi \<longrightarrow> \<not> p j)"
      using "1.IH" by (simp add: first_from.simps [of p lo hi])
    with True show ?thesis
      by (metis Suc_leD Suc_leI le_neq_implies_less)
  next
    case False
    then show ?thesis
      by (auto simp: first_from.simps [of p lo hi])
  qed
qed

lemma first_from_Some_iff:
  "first_from p lo hi = Some i \<longleftrightarrow>
     lo \<le> i \<and> i < hi \<and> p i \<and> (\<forall>j. lo \<le> j \<longrightarrow> j < i \<longrightarrow> \<not> p j)"
proof
  assume "first_from p lo hi = Some i"
  then show "lo \<le> i \<and> i < hi \<and> p i \<and> (\<forall>j. lo \<le> j \<longrightarrow> j < i \<longrightarrow> \<not> p j)"
    by (rule first_from_SomeD)
next
  assume least: "lo \<le> i \<and> i < hi \<and> p i \<and> (\<forall>j. lo \<le> j \<longrightarrow> j < i \<longrightarrow> \<not> p j)"
  then obtain k where k: "first_from p lo hi = Some k"
    using first_from_None_iff [of p lo hi] by blast
  from first_from_SomeD [OF k] least have "k = i"
    by (meson linorder_neqE_nat)
  with k show "first_from p lo hi = Some i" by simp
qed

lemma first_from_cong:
  assumes "\<And>j. lo \<le> j \<Longrightarrow> j < hi \<Longrightarrow> p j = q j"
  shows "first_from p lo hi = first_from q lo hi"
proof (cases "first_from q lo hi")
  case None
  with assms have "first_from p lo hi = None" by (simp add: first_from_None_iff)
  with None show ?thesis by simp
next
  case (Some i)
  with assms have "first_from p lo hi = Some i" by (simp add: first_from_Some_iff)
  with Some show ?thesis by simp
qed

subsection \<open>Bits of machine words\<close>

lemma and_mask_bit_iff:
  fixes w :: "'a::len word"
  assumes "n < LENGTH('a)"
  shows "w AND push_bit n 1 \<noteq> 0 \<longleftrightarrow> bit w n"
proof
  assume "w AND push_bit n 1 \<noteq> 0"
  then obtain m where "bit (w AND push_bit n 1) m"
    using bit_eq_iff [of "w AND push_bit n 1" 0] by auto
  then show "bit w n"
    by (auto simp: bit_and_iff bit_exp_iff)
next
  assume "bit w n"
  with assms have "bit (w AND push_bit n 1) n"
    by (simp add: bit_and_iff bit_exp_iff)
  then show "w AND push_bit n 1 \<noteq> 0" by auto
qed

lemma unat_below: "unat (w :: 'a::len word) < 2 ^ LENGTH('a)"
  by (rule unsigned_less)

lemma unat_cast: "unat (ucast (w :: 'a::len word) :: 'b::len word) = unat w mod 2 ^ LENGTH('b)"
  by (simp add: unsigned_ucast_eq take_bit_eq_mod)

lemma unat_cast_small:
  "unat (w :: 'a::len word) < 2 ^ LENGTH('b) \<Longrightarrow> unat (ucast w :: 'b::len word) = unat w"
  by (simp add: unat_cast)

lemma unat_plus: "unat (a + b :: 'a::len word) = (unat a + unat b) mod 2 ^ LENGTH('a)"
  by (simp add: unat_word_ariths)

lemma unat_plus_small:
  "unat (a :: 'a::len word) + unat b < 2 ^ LENGTH('a) \<Longrightarrow> unat (a + b) = unat a + unat b"
  by (simp add: unat_plus)

lemma unat_minus_le: "(b :: 'a::len word) \<le> a \<Longrightarrow> unat (a - b) = unat a - unat b"
  by (simp add: unat_sub)

lemma unat_dec_small: "0 < unat w \<Longrightarrow> unat (w - 1) = unat (w :: 'a::len word) - 1"
  by (metis unat_gt_0 unat_minus_one)

lemma unat_of_nat_small: "n < 2 ^ LENGTH('a) \<Longrightarrow> unat (of_nat n :: 'a::len word) = n"
  by (simp add: unat_of_nat)

subsection \<open>Counting loops\<close>

text \<open>
  \<open>for (i = lo; i < hi; i++) s = f (i, s);\<close> without and with a body that may leave
  its defined behaviour (\<open>None\<close>). The two rules are the invariant rules of the loop; they
  say that the loop ends as well.
\<close>

function for_range :: "nat \<Rightarrow> nat \<Rightarrow> (nat \<Rightarrow> 's \<Rightarrow> 's) \<Rightarrow> 's \<Rightarrow> 's" where
  "for_range lo hi f s = (if lo < hi then for_range (Suc lo) hi f (f lo s) else s)"
  by pat_completeness auto
termination
  by (relation "measure (\<lambda>(lo, hi, f, s). hi - lo)") auto

function for_range_opt :: "nat \<Rightarrow> nat \<Rightarrow> (nat \<Rightarrow> 's \<Rightarrow> 's option) \<Rightarrow> 's \<Rightarrow> 's option" where
  "for_range_opt lo hi f s =
     (if lo < hi then
        (case f lo s of None \<Rightarrow> None | Some s' \<Rightarrow> for_range_opt (Suc lo) hi f s')
      else Some s)"
  by pat_completeness auto
termination
  by (relation "measure (\<lambda>(lo, hi, f, s). hi - lo)") auto

declare for_range.simps [simp del] for_range_opt.simps [simp del]

lemma for_range_rule:
  assumes "I lo s" and "lo \<le> hi"
    and "\<And>i s. lo \<le> i \<Longrightarrow> i < hi \<Longrightarrow> I i s \<Longrightarrow> I (Suc i) (f i s)"
  shows "I hi (for_range lo hi f s)"
  using assms
proof (induction lo hi f s rule: for_range.induct)
  case (1 lo hi f s)
  show ?case
  proof (cases "lo < hi")
    case True
    then have "I hi (for_range (Suc lo) hi f (f lo s))"
      using "1.prems" by (intro "1.IH") auto
    with True show ?thesis by (simp add: for_range.simps [of lo hi])
  next
    case False
    with "1.prems" show ?thesis by (auto simp: for_range.simps [of hi hi])
  qed
qed

lemma for_range_opt_rule:
  assumes "I lo s" and "lo \<le> hi"
    and "\<And>i s. lo \<le> i \<Longrightarrow> i < hi \<Longrightarrow> I i s \<Longrightarrow> \<exists>s'. f i s = Some s' \<and> I (Suc i) s'"
  shows "\<exists>s'. for_range_opt lo hi f s = Some s' \<and> I hi s'"
  using assms
proof (induction lo hi f s rule: for_range_opt.induct)
  case (1 lo hi f s)
  show ?case
  proof (cases "lo < hi")
    case True
    with "1.prems" obtain s1 where s1: "f lo s = Some s1" and inv1: "I (Suc lo) s1"
      by blast
    have "\<exists>s'. for_range_opt (Suc lo) hi f s1 = Some s' \<and> I hi s'"
      using True s1 inv1 "1.prems"(3) by (intro "1.IH") auto
    with True s1 show ?thesis by (simp add: for_range_opt.simps [of lo hi])
  next
    case False
    with "1.prems" show ?thesis by (auto simp: for_range_opt.simps [of hi hi])
  qed
qed

lemma for_range_skip: "hi \<le> lo \<Longrightarrow> for_range lo hi f s = s"
  by (simp add: for_range.simps)

lemma for_range_fold: "for_range lo hi f s = fold f [lo..<hi] s"
proof (induction lo hi f s rule: for_range.induct)
  case (1 lo hi f s)
  then show ?case by (cases "lo < hi") (simp_all add: for_range.simps [of lo hi] upt_conv_Cons)
qed

lemma for_range_Suc: "lo \<le> hi \<Longrightarrow> for_range lo (Suc hi) f s = f hi (for_range lo hi f s)"
  by (simp add: for_range_fold)

subsection \<open>C strings\<close>

text \<open>
  A \<open>const char *\<close> argument is the list of its bytes, with the terminating NUL read at
  the index after the last one; a \<open>char\<close> array is a list of bytes whose content as a
  string ends at the first NUL. \<open>copy_loop\<close> is the bounded copy that the kernel writes
  out in each component (\<open>strcpy_safe\<close>, \<open>str_copy\<close>, \<open>vfs_strcpy\<close>, and inline).
\<close>

definition cchar :: "u8 list \<Rightarrow> nat \<Rightarrow> u8" where
  "cchar s i = (if i < length s then s ! i else 0)"

definition cstr :: "u8 list \<Rightarrow> u8 list" where
  "cstr buf = takeWhile (\<lambda>c. c \<noteq> 0) buf"

function copy_loop :: "u8 list \<Rightarrow> u8 list \<Rightarrow> nat \<Rightarrow> nat \<Rightarrow> u8 list" where
  "copy_loop dest src lim i =
     (if cchar src i \<noteq> 0 \<and> i < lim then copy_loop (dest[i := cchar src i]) src lim (Suc i)
      else dest[i := 0])"
  by pat_completeness auto
termination
  by (relation "measure (\<lambda>(dest, src, lim, i). lim - i)") auto

declare copy_loop.simps [simp del]

lemma length_copy_loop [simp]: "length (copy_loop dest src lim i) = length dest"
proof (induction dest src lim i rule: copy_loop.induct)
  case (1 dest src lim i)
  then show ?case by (simp add: copy_loop.simps [of dest src lim i])
qed

lemma copy_loop_prefix:
  assumes "lim < length dest" and "i \<le> lim" and "i \<le> length (cstr src)"
    and "take i dest = take i (cstr src)"
  shows "cstr (copy_loop dest src lim i) = take lim (cstr src)"
  using assms
proof (induction dest src lim i rule: copy_loop.induct)
  case (1 dest src lim i)
  note prefix = "1.prems"(4)
  have nonzero: "c \<noteq> 0" if "c \<in> set (take i dest)" for c
    using that unfolding prefix cstr_def by (metis in_set_takeD set_takeWhileD)
  have same: "i < length (cstr src) \<Longrightarrow> cchar src i = cstr src ! i \<and> cstr src ! i \<noteq> 0"
    by (metis (mono_tags, lifting) cchar_def cstr_def length_takeWhile_le nth_mem
        order_less_le_trans set_takeWhileD takeWhile_nth)
  show ?case
  proof (cases "cchar src i \<noteq> 0 \<and> i < lim")
    case True
    have inside: "i < length (cstr src)"
    proof (rule ccontr)
      assume "\<not> i < length (cstr src)"
      with "1.prems"(3) have i: "i = length (cstr src)" by simp
      have "cchar src i = 0"
      proof (cases "i < length src")
        case True
        then have "src ! i = 0"
          using i nth_length_takeWhile [of "\<lambda>c. c \<noteq> 0" src] by (simp add: cstr_def)
        then show ?thesis by (simp add: cchar_def)
      next
        case False
        then show ?thesis by (simp add: cchar_def)
      qed
      with True show False by simp
    qed
    have "take (Suc i) (dest[i := cchar src i]) = take (Suc i) (cstr src)"
      using "1.prems" inside same prefix by (simp add: take_Suc_conv_app_nth)
    then have "cstr (copy_loop (dest[i := cchar src i]) src lim (Suc i)) = take lim (cstr src)"
      using True inside "1.prems" by (intro "1.IH") auto
    with True show ?thesis by (simp add: copy_loop.simps [of dest src lim i])
  next
    case False
    have stop: "i = lim \<or> i = length (cstr src)"
    proof (rule ccontr)
      assume "\<not> ?thesis"
      with "1.prems" have "i < lim" and "i < length (cstr src)" by auto
      with same False show False by auto
    qed
    have "cstr (dest[i := 0]) = take i dest"
    proof -
      have "dest[i := 0] = take i dest @ 0 # drop (Suc i) dest"
        using "1.prems" by (simp add: upd_conv_take_nth_drop)
      then show ?thesis
        unfolding cstr_def using nonzero by (simp add: takeWhile_append)
    qed
    moreover have "take i (cstr src) = take lim (cstr src)"
      using stop "1.prems" by auto
    ultimately show ?thesis
      using False prefix by (auto simp: copy_loop.simps [of dest src lim i])
  qed
qed

lemma cstr_copy_loop:
  "lim < length dest \<Longrightarrow> cstr (copy_loop dest src lim 0) = take lim (cstr src)"
  by (rule copy_loop_prefix) simp_all

subsection \<open>Little-endian memory\<close>

text \<open>
  Physical memory as the kernel dereferences it on i386: one byte per 32-bit address, pointer
  arithmetic wrapping at 4 GiB, multi-byte fields little-endian.
\<close>

type_synonym phys_mem = "u32 \<Rightarrow> u8"

definition le16 :: "u8 \<Rightarrow> u8 \<Rightarrow> u16" where
  "le16 b0 b1 = ucast b0 OR push_bit 8 (ucast b1)"

definition le32 :: "u8 \<Rightarrow> u8 \<Rightarrow> u8 \<Rightarrow> u8 \<Rightarrow> u32" where
  "le32 b0 b1 b2 b3 =
     ucast b0 OR push_bit 8 (ucast b1) OR push_bit 16 (ucast b2) OR push_bit 24 (ucast b3)"

definition read_u32 :: "phys_mem \<Rightarrow> u32 \<Rightarrow> u32" where
  "read_u32 m a = le32 (m a) (m (a + 1)) (m (a + 2)) (m (a + 3))"

definition read_u64 :: "phys_mem \<Rightarrow> u32 \<Rightarrow> u64" where
  "read_u64 m a = ucast (read_u32 m a) OR push_bit 32 (ucast (read_u32 m (a + 4)))"

end
