(* ===== verification/Bitmap.thy ===== *)
theory Bitmap
  imports Prelude
begin

unbundle bit_operations_syntax

text \<open>
  Allocation bitmaps. The physical memory manager, the task pool, the file descriptor
  table, the IPC tables and the swap area all keep an array of machine words with one bit per
  slot, and test, set and clear slot \<open>i\<close> as bit \<open>i % W\<close> of word \<open>i / W\<close>, where
  \<open>W\<close> is the width of the array's element type. \<open>bm_test\<close>, \<open>bm_set\<close> and
  \<open>bm_clear\<close> are those three expressions; the locale \<open>slot_bitmap\<close> states what a
  client may rely on, and its lemmas are what the tables' first-fit loops need.
\<close>

subsection \<open>The operations\<close>

definition bm_test :: "'a::len word list \<Rightarrow> nat \<Rightarrow> bool" where
  "bm_test bm i \<longleftrightarrow> bm ! (i div LENGTH('a)) AND push_bit (i mod LENGTH('a)) 1 \<noteq> 0"

definition bm_set :: "'a::len word list \<Rightarrow> nat \<Rightarrow> 'a word list" where
  "bm_set bm i =
     bm[i div LENGTH('a) := bm ! (i div LENGTH('a)) OR push_bit (i mod LENGTH('a)) 1]"

definition bm_clear :: "'a::len word list \<Rightarrow> nat \<Rightarrow> 'a word list" where
  "bm_clear bm i =
     bm[i div LENGTH('a) := bm ! (i div LENGTH('a)) AND NOT (push_bit (i mod LENGTH('a)) 1)]"

definition bm_used :: "nat \<Rightarrow> 'a::len word list \<Rightarrow> nat set" where
  "bm_used cap bm = {i. i < cap \<and> bm_test bm i}"

lemma bm_test_bit: "bm_test bm i \<longleftrightarrow> bit (bm ! (i div LENGTH('a))) (i mod LENGTH('a))"
  for bm :: "'a::len word list"
  unfolding bm_test_def by (rule and_mask_bit_iff) simp

lemma bm_slot_less:
  "i < length bm * LENGTH('a) \<Longrightarrow> i div LENGTH('a) < length bm"
  for bm :: "'a::len word list"
  by (simp add: less_mult_imp_div_less)

lemma same_slot_iff:
  "(i::nat) div w = j div w \<and> i mod w = j mod w \<longleftrightarrow> i = j"
  by (metis div_mult_mod_eq)

lemma bm_test_set:
  fixes bm :: "'a::len word list"
  assumes "i < length bm * LENGTH('a)"
  shows "bm_test (bm_set bm i) j \<longleftrightarrow> j = i \<or> bm_test bm j"
proof (cases "j div LENGTH('a) = i div LENGTH('a)")
  case True
  with bm_slot_less [OF assms]
  have "bm_test (bm_set bm i) j \<longleftrightarrow> bm_test bm j \<or> j mod LENGTH('a) = i mod LENGTH('a)"
    by (auto simp: bm_test_bit bm_set_def bit_or_iff bit_exp_iff)
  with True show ?thesis using same_slot_iff [of j "LENGTH('a)" i] by auto
next
  case False
  then show ?thesis by (auto simp: bm_test_bit bm_set_def)
qed

lemma bm_test_clear:
  fixes bm :: "'a::len word list"
  assumes "i < length bm * LENGTH('a)"
  shows "bm_test (bm_clear bm i) j \<longleftrightarrow> j \<noteq> i \<and> bm_test bm j"
proof (cases "j div LENGTH('a) = i div LENGTH('a)")
  case True
  with bm_slot_less [OF assms]
  have "bm_test (bm_clear bm i) j \<longleftrightarrow> bm_test bm j \<and> j mod LENGTH('a) \<noteq> i mod LENGTH('a)"
    by (auto simp: bm_test_bit bm_clear_def bit_and_iff bit_not_iff bit_exp_iff)
  with True show ?thesis using same_slot_iff [of j "LENGTH('a)" i] by auto
next
  case False
  then show ?thesis by (auto simp: bm_test_bit bm_clear_def)
qed

lemma length_bm_set [simp]: "length (bm_set bm i) = length bm"
  by (simp add: bm_set_def)

lemma length_bm_clear [simp]: "length (bm_clear bm i) = length bm"
  by (simp add: bm_clear_def)

lemma bm_test_zero:
  fixes n :: nat
  assumes "i < n * LENGTH('a)"
  shows "\<not> bm_test (replicate n (0::'a::len word)) i"
  using less_mult_imp_div_less [OF assms] by (simp add: bm_test_bit)

subsection \<open>The interface\<close>

text \<open>
  What a table relies on: \<open>mark\<close> and \<open>release\<close> change the one slot they name, as
  long as the slot is within the table's capacity.
\<close>

locale slot_bitmap =
  fixes test :: "'b \<Rightarrow> nat \<Rightarrow> bool"
    and mark :: "'b \<Rightarrow> nat \<Rightarrow> 'b"
    and release :: "'b \<Rightarrow> nat \<Rightarrow> 'b"
    and used :: "'b \<Rightarrow> nat set"
    and invar :: "'b \<Rightarrow> bool"
    and cap :: nat
  assumes test_mark: "invar b \<Longrightarrow> i < cap \<Longrightarrow> test (mark b i) j \<longleftrightarrow> j = i \<or> test b j"
    and test_release: "invar b \<Longrightarrow> i < cap \<Longrightarrow> test (release b i) j \<longleftrightarrow> j \<noteq> i \<and> test b j"
    and used_eq: "used b = {i. i < cap \<and> test b i}"
    and invar_mark: "invar b \<Longrightarrow> invar (mark b i)"
    and invar_release: "invar b \<Longrightarrow> invar (release b i)"
begin

lemma used_subset: "used b \<subseteq> {..<cap}"
  by (auto simp: used_eq)

lemma finite_used: "finite (used b)"
  using used_subset finite_subset by blast

lemma card_used_le: "card (used b) \<le> cap"
  using card_mono [OF _ used_subset] by simp

lemma used_mark: "invar b \<Longrightarrow> i < cap \<Longrightarrow> used (mark b i) = insert i (used b)"
  by (auto simp: used_eq test_mark)

lemma used_release: "invar b \<Longrightarrow> i < cap \<Longrightarrow> used (release b i) = used b - {i}"
  by (auto simp: used_eq test_release)

lemma card_used_mark:
  "invar b \<Longrightarrow> i < cap \<Longrightarrow> i \<notin> used b \<Longrightarrow> card (used (mark b i)) = Suc (card (used b))"
  by (simp add: used_mark finite_used)

lemma card_used_release:
  "invar b \<Longrightarrow> i \<in> used b \<Longrightarrow> card (used (release b i)) = card (used b) - 1"
  using used_subset [of b] by (subst used_release) auto

lemma first_free_Some:
  "first_from (\<lambda>i. \<not> test b i) 0 cap = Some i \<longleftrightarrow>
     i < cap \<and> i \<notin> used b \<and> {..<i} \<subseteq> used b"
  by (auto simp: first_from_Some_iff used_eq)

lemma first_free_None:
  "first_from (\<lambda>i. \<not> test b i) 0 cap = None \<longleftrightarrow> used b = {..<cap}"
  by (auto simp: first_from_None_iff used_eq)

lemma first_free_None_card:
  "first_from (\<lambda>i. \<not> test b i) 0 cap = None \<longleftrightarrow> card (used b) = cap"
proof -
  have "used b = {..<cap} \<longleftrightarrow> card (used b) = card {..<cap}"
    using card_subset_eq [OF _ used_subset] by auto
  then show ?thesis by (simp add: first_free_None)
qed

lemma release_mark_used:
  "invar b \<Longrightarrow> i < cap \<Longrightarrow> i \<notin> used b \<Longrightarrow> used (release (mark b i) i) = used b"
  by (simp add: used_release used_mark invar_mark)

lemma first_free_after_release:
  assumes "invar b" and "i < cap" and "{..<i} \<subseteq> used b"
  shows "first_from (\<lambda>j. \<not> test (release b i) j) 0 cap = Some i"
  using assms by (auto simp: first_free_Some used_release)

end

text \<open>
  Every array of \<open>n\<close> words of width \<open>w\<close> provides the interface with capacity
  \<open>n * w\<close>; a table's own interpretation fixes the two numbers.
\<close>

lemma bitmap_provides_slots:
  assumes "cap = n * LENGTH('a::len)"
  shows "slot_bitmap bm_test bm_set bm_clear (bm_used cap)
           (\<lambda>bm :: 'a word list. length bm = n) cap"
  using assms by unfold_locales (auto simp: bm_test_set bm_test_clear bm_used_def)

end
