(* ===== verification/Bootinfo.thy ===== *)
theory Bootinfo
  imports Prelude
begin

unbundle bit_operations_syntax

text \<open>
  The boot-information consumer, \<open>kernel/bootinfo.c\<close>, and the record types of
  \<open>include/boot/tocinboot.h\<close>. The loader's info block, the memory map and the command
  line are read from physical memory byte by byte, at the offsets the header pins with its
  static assertions. \<open>serial_printf\<close> output is left out.
\<close>

subsection \<open>The handoff structures\<close>

record tocinboot_mmap_entry =
  mm_base :: u64
  mm_length :: u64
  mm_type :: u32

record tocinboot_info =
  tb_magic :: u32
  tb_version :: u32
  tb_size :: u32
  tb_flags :: u32
  tb_memmap_addr :: u64
  tb_memmap_count :: u32
  tb_memmap_entry_size :: u32
  tb_fb_base :: u64
  tb_fb_width :: u32
  tb_fb_height :: u32
  tb_fb_pitch :: u32
  tb_fb_bpp :: u32
  tb_fb_format :: u32
  tb_fb_masks :: "u8 list"
  tb_rsdp_addr :: u64
  tb_cmdline_addr :: u64
  tb_cmdline_len :: u32
  tb_initrd_addr :: u64
  tb_initrd_size :: u64
  tb_kernel_phys_base :: u64
  tb_kernel_phys_end :: u64
  tb_kernel_entry :: u64
  tb_loader_name :: "u8 list"

text \<open>\<open>tb_fb_masks\<close> holds the eight mask bytes from \<open>fb_red_size\<close> to \<open>fb_rsvd_shift\<close>, in order.\<close>

record bootinfo_fb =
  fbi_base :: u64
  fbi_width :: u32
  fbi_height :: u32
  fbi_pitch :: u32
  fbi_bpp :: u32
  fbi_format :: u32
  fbi_masks :: "u8 list"

record bootinfo =
  info_copy :: tocinboot_info
  fb_info :: bootinfo_fb
  cmdline_buf :: "u8 list"
  usable_bytes :: u64
  info_valid :: bool
  fb_valid :: bool
  cmdline_valid :: bool

abbreviation (input) "TOCINBOOT_REG_MAGIC \<equiv> (0x70C1B007 :: u32)"
abbreviation (input) "TOCINBOOT_INFO_MAGIC \<equiv> (0x31494254 :: u32)"
abbreviation (input) "TOCINBOOT_VERSION \<equiv> (1 :: u32)"
abbreviation (input) "TOCINBOOT_INFO_SIZE_V1 \<equiv> (232 :: u32)"
abbreviation (input) "TOCINBOOT_F_FB \<equiv> (4 :: u32)"
abbreviation (input) "TOCINBOOT_F_CMDLINE \<equiv> (16 :: u32)"
abbreviation (input) "TOCINBOOT_MEM_USABLE \<equiv> (1 :: u32)"
abbreviation (input) "MMAP_ENTRY_SIZE \<equiv> (24 :: u32)"
abbreviation (input) "BOOTINFO_CMDLINE_MAX \<equiv> (256 :: nat)"

definition read_bytes :: "phys_mem \<Rightarrow> u32 \<Rightarrow> nat \<Rightarrow> u8 list" where
  "read_bytes m a n = map (\<lambda>i. m (a + of_nat i)) [0..<n]"

definition read_mmap_entry :: "phys_mem \<Rightarrow> u32 \<Rightarrow> tocinboot_mmap_entry" where
  "read_mmap_entry m p =
     \<lparr>mm_base = read_u64 m p, mm_length = read_u64 m (p + 8), mm_type = read_u32 m (p + 0x10)\<rparr>"

definition read_info :: "phys_mem \<Rightarrow> u32 \<Rightarrow> tocinboot_info" where
  "read_info m p =
     \<lparr>tb_magic = read_u32 m p,
      tb_version = read_u32 m (p + 0x04),
      tb_size = read_u32 m (p + 0x08),
      tb_flags = read_u32 m (p + 0x0C),
      tb_memmap_addr = read_u64 m (p + 0x10),
      tb_memmap_count = read_u32 m (p + 0x18),
      tb_memmap_entry_size = read_u32 m (p + 0x1C),
      tb_fb_base = read_u64 m (p + 0x20),
      tb_fb_width = read_u32 m (p + 0x28),
      tb_fb_height = read_u32 m (p + 0x2C),
      tb_fb_pitch = read_u32 m (p + 0x30),
      tb_fb_bpp = read_u32 m (p + 0x34),
      tb_fb_format = read_u32 m (p + 0x38),
      tb_fb_masks = read_bytes m (p + 0x3C) 8,
      tb_rsdp_addr = read_u64 m (p + 0x48),
      tb_cmdline_addr = read_u64 m (p + 0x50),
      tb_cmdline_len = read_u32 m (p + 0x58),
      tb_initrd_addr = read_u64 m (p + 0x60),
      tb_initrd_size = read_u64 m (p + 0x68),
      tb_kernel_phys_base = read_u64 m (p + 0x70),
      tb_kernel_phys_end = read_u64 m (p + 0x78),
      tb_kernel_entry = read_u64 m (p + 0x80),
      tb_loader_name = read_bytes m (p + 0x88) 32\<rparr>"

subsection \<open>Walking the memory map\<close>

text \<open>
  The map is walked by a pointer that advances by \<open>memmap_entry_size\<close>, never by the size of
  the entry type; \<open>mmap_walk\<close> is that loop with its body as an argument, and
  \<open>mmap_entries\<close> the list of entries it meets.
\<close>

fun mmap_walk ::
  "phys_mem \<Rightarrow> u32 \<Rightarrow> (tocinboot_mmap_entry \<Rightarrow> 's \<Rightarrow> 's) \<Rightarrow> nat \<Rightarrow> u32 \<Rightarrow> 's \<Rightarrow> 's" where
  "mmap_walk m stride f 0 p s = s"
| "mmap_walk m stride f (Suc n) p s =
     mmap_walk m stride f n (p + stride) (f (read_mmap_entry m p) s)"

definition mmap_entries :: "phys_mem \<Rightarrow> u32 \<Rightarrow> u32 \<Rightarrow> nat \<Rightarrow> tocinboot_mmap_entry list" where
  "mmap_entries m p stride n = map (\<lambda>i. read_mmap_entry m (p + of_nat i * stride)) [0..<n]"

lemma mmap_entries_Suc:
  "mmap_entries m p stride (Suc n) = read_mmap_entry m p # mmap_entries m (p + stride) stride n"
proof -
  have "[0..<Suc n] = 0 # map Suc [0..<n]"
    by (simp add: upt_conv_Cons map_Suc_upt del: upt_Suc)
  then show ?thesis
    by (simp add: mmap_entries_def algebra_simps del: upt_Suc)
qed

lemma mmap_walk_fold:
  "mmap_walk m stride f n p s = fold f (mmap_entries m p stride n) s"
proof (induction n arbitrary: p s)
  case 0
  then show ?case by (simp add: mmap_entries_def)
next
  case (Suc n)
  then show ?case by (simp add: mmap_entries_Suc)
qed

subsection \<open>\<open>bootinfo_init\<close> and the accessors\<close>

definition bootinfo_stash :: "phys_mem \<Rightarrow> tocinboot_info \<Rightarrow> bootinfo \<Rightarrow> bootinfo" where
  "bootinfo_stash m raw s =
     (let info = raw\<lparr>tb_loader_name := (tb_loader_name raw)[31 := 0]\<rparr>;
          s1 = s\<lparr>info_copy := info, info_valid := True\<rparr>;
          s2 = (if tb_memmap_addr info \<noteq> 0 \<and> tb_memmap_entry_size info \<ge> MMAP_ENTRY_SIZE
                then s1\<lparr>usable_bytes :=
                       mmap_walk m (tb_memmap_entry_size info)
                         (\<lambda>e total. if mm_type e = TOCINBOOT_MEM_USABLE
                                     then total + mm_length e else total)
                         (unat (tb_memmap_count info)) (ucast (tb_memmap_addr info))
                         (usable_bytes s1)\<rparr>
                else s1);
          s3 = (if tb_flags info AND TOCINBOOT_F_FB \<noteq> 0 \<and> tb_fb_base info \<noteq> 0
                then s2\<lparr>fb_info := \<lparr>fbi_base = tb_fb_base info,
                       fbi_width = tb_fb_width info, fbi_height = tb_fb_height info,
                       fbi_pitch = tb_fb_pitch info, fbi_bpp = tb_fb_bpp info,
                       fbi_format = tb_fb_format info, fbi_masks = tb_fb_masks info\<rparr>,
                       fb_valid := True\<rparr>
                else s2)
      in
      if tb_flags info AND TOCINBOOT_F_CMDLINE \<noteq> 0 \<and> tb_cmdline_addr info \<noteq> 0 then
        let n = (if tb_cmdline_len info > 255 then 255 else tb_cmdline_len info)
        in s3\<lparr>cmdline_buf :=
               copy_loop (cmdline_buf s3)
                 (read_bytes m (ucast (tb_cmdline_addr info)) (unat n)) (unat n) 0,
             cmdline_valid := True\<rparr>
      else s3)"

definition bootinfo_init :: "u32 \<Rightarrow> u32 \<Rightarrow> phys_mem \<Rightarrow> bootinfo \<Rightarrow> bootinfo" where
  "bootinfo_init magic_reg info_ptr m s0 =
     (let s = s0\<lparr>info_valid := False, fb_valid := False, cmdline_valid := False, usable_bytes := 0\<rparr>;
          raw = read_info m info_ptr
      in
      if magic_reg \<noteq> TOCINBOOT_REG_MAGIC \<or> info_ptr = 0 \<or> info_ptr AND 0xFFF \<noteq> 0 then s
      else if tb_magic raw \<noteq> TOCINBOOT_INFO_MAGIC
            \<or> tb_version raw < TOCINBOOT_VERSION
            \<or> tb_size raw < TOCINBOOT_INFO_SIZE_V1 then s
      else bootinfo_stash m raw s)"

definition bootinfo_present :: "bootinfo \<Rightarrow> bool" where
  "bootinfo_present s = info_valid s"

definition bootinfo_get :: "bootinfo \<Rightarrow> tocinboot_info option" where
  "bootinfo_get s = (if info_valid s then Some (info_copy s) else None)"

definition bootinfo_usable_memory_bytes :: "bootinfo \<Rightarrow> u64" where
  "bootinfo_usable_memory_bytes s = (if info_valid s then usable_bytes s else 0)"

definition bootinfo_framebuffer :: "bootinfo \<Rightarrow> bootinfo_fb option" where
  "bootinfo_framebuffer s = (if info_valid s \<and> fb_valid s then Some (fb_info s) else None)"

definition bootinfo_cmdline :: "bootinfo \<Rightarrow> u8 list option" where
  "bootinfo_cmdline s = (if info_valid s \<and> cmdline_valid s then Some (cmdline_buf s) else None)"

subsection \<open>What the handoff check accepts\<close>

definition handoff_ok :: "u32 \<Rightarrow> u32 \<Rightarrow> phys_mem \<Rightarrow> bool" where
  "handoff_ok magic_reg info_ptr m \<longleftrightarrow>
     magic_reg = TOCINBOOT_REG_MAGIC \<and> info_ptr \<noteq> 0 \<and> info_ptr AND 0xFFF = 0
     \<and> tb_magic (read_info m info_ptr) = TOCINBOOT_INFO_MAGIC
     \<and> tb_version (read_info m info_ptr) \<ge> TOCINBOOT_VERSION
     \<and> tb_size (read_info m info_ptr) \<ge> TOCINBOOT_INFO_SIZE_V1"

lemma info_valid_stash [simp]: "info_valid (bootinfo_stash m raw s)"
  by (simp add: bootinfo_stash_def Let_def)

lemma info_copy_stash:
  "info_copy (bootinfo_stash m raw s) = raw\<lparr>tb_loader_name := (tb_loader_name raw)[31 := 0]\<rparr>"
  by (simp add: bootinfo_stash_def Let_def)

lemma bootinfo_init_cases:
  "bootinfo_init magic_reg info_ptr m s0 =
     (let s = s0\<lparr>info_valid := False, fb_valid := False, cmdline_valid := False, usable_bytes := 0\<rparr>
      in if handoff_ok magic_reg info_ptr m then bootinfo_stash m (read_info m info_ptr) s else s)"
  unfolding bootinfo_init_def handoff_ok_def Let_def not_le [symmetric] by simp

lemma info_valid_init:
  "info_valid (bootinfo_init magic_reg info_ptr m s0) \<longleftrightarrow> handoff_ok magic_reg info_ptr m"
  by (simp add: bootinfo_init_cases Let_def)

lemma usable_walk_sum:
  "fold (\<lambda>e total. if mm_type e = TOCINBOOT_MEM_USABLE then total + mm_length e else total) es t
     = t + (\<Sum>e \<leftarrow> es. if mm_type e = TOCINBOOT_MEM_USABLE then mm_length e else 0)"
  by (induction es arbitrary: t) (auto simp: algebra_simps)

text \<open>The command line the loader passed, cut to the buffer: at most 255 bytes, ended by a NUL.\<close>

definition loader_cmdline :: "phys_mem \<Rightarrow> tocinboot_info \<Rightarrow> u8 list" where
  "loader_cmdline m info =
     take 255 (cstr (read_bytes m (ucast (tb_cmdline_addr info)) (unat (min 255 (tb_cmdline_len info)))))"

lemma usable_bytes_stash:
  "usable_bytes (bootinfo_stash m raw s) = usable_bytes s +
     (if tb_memmap_addr raw \<noteq> 0 \<and> tb_memmap_entry_size raw \<ge> MMAP_ENTRY_SIZE
      then (\<Sum>e \<leftarrow> mmap_entries m (ucast (tb_memmap_addr raw)) (tb_memmap_entry_size raw)
              (unat (tb_memmap_count raw)).
              if mm_type e = TOCINBOOT_MEM_USABLE then mm_length e else 0)
      else 0)"
  by (simp add: bootinfo_stash_def Let_def mmap_walk_fold usable_walk_sum)

text \<open>The framebuffer description in the block at \<open>p\<close>, at the offsets of \<open>tocinboot.h\<close>.\<close>

definition loader_fb :: "phys_mem \<Rightarrow> u32 \<Rightarrow> bootinfo_fb" where
  "loader_fb m p =
     \<lparr>fbi_base = read_u64 m (p + 0x20), fbi_width = read_u32 m (p + 0x28), fbi_height = read_u32 m (p + 0x2C),
      fbi_pitch = read_u32 m (p + 0x30), fbi_bpp = read_u32 m (p + 0x34), fbi_format = read_u32 m (p + 0x38),
      fbi_masks = read_bytes m (p + 0x3C) 8\<rparr>"

lemma fb_stash:
  assumes "\<not> fb_valid s"
  shows "fb_valid (bootinfo_stash m (read_info m p) s) \<longleftrightarrow>
           tb_flags (read_info m p) AND TOCINBOOT_F_FB \<noteq> 0 \<and> tb_fb_base (read_info m p) \<noteq> 0"
    and "fb_valid (bootinfo_stash m (read_info m p) s) \<Longrightarrow> fb_info (bootinfo_stash m (read_info m p) s) = loader_fb m p"
  using assms by (simp_all add: bootinfo_stash_def read_info_def loader_fb_def Let_def split: if_splits)

lemma cmdline_stash:
  assumes "\<not> cmdline_valid s" and "length (cmdline_buf s) = BOOTINFO_CMDLINE_MAX"
  shows "cmdline_valid (bootinfo_stash m raw s) \<longleftrightarrow>
           tb_flags raw AND TOCINBOOT_F_CMDLINE \<noteq> 0 \<and> tb_cmdline_addr raw \<noteq> 0"
    and "cmdline_valid (bootinfo_stash m raw s) \<Longrightarrow>
           length (cmdline_buf (bootinfo_stash m raw s)) = BOOTINFO_CMDLINE_MAX
           \<and> cstr (cmdline_buf (bootinfo_stash m raw s)) = loader_cmdline m raw"
proof -
  show "cmdline_valid (bootinfo_stash m raw s) \<longleftrightarrow>
      tb_flags raw AND TOCINBOOT_F_CMDLINE \<noteq> 0 \<and> tb_cmdline_addr raw \<noteq> 0"
    using assms(1) by (simp add: bootinfo_stash_def Let_def)
  let ?n = "min 255 (tb_cmdline_len raw)"
  have n: "unat ?n \<le> 255" using word_le_nat_alt [of ?n 255] by simp
  let ?src = "read_bytes m (ucast (tb_cmdline_addr raw)) (unat ?n)"
  have short: "length (cstr ?src) \<le> unat ?n"
    by (simp add: cstr_def read_bytes_def length_takeWhile_le [THEN le_trans])
  assume "cmdline_valid (bootinfo_stash m raw s)"
  then have "cmdline_buf (bootinfo_stash m raw s) = copy_loop (cmdline_buf s) ?src (unat ?n) 0"
    using assms(1) by (auto simp: bootinfo_stash_def Let_def min_def not_less)
  then show "length (cmdline_buf (bootinfo_stash m raw s)) = BOOTINFO_CMDLINE_MAX
      \<and> cstr (cmdline_buf (bootinfo_stash m raw s)) = loader_cmdline m raw"
    using n short assms(2) by (simp add: cstr_copy_loop loader_cmdline_def length_copy_loop)
qed

text \<open>
  C33. The consumer trusts a block only when both magics, the alignment, the version and the size
  check out, and then reports the sum of the usable regions, the framebuffer exactly
  when the block has one, with the base, size, pitch, depth, format and masks found in the block,
  and the command line as a NUL-terminated string that fits its
  buffer; otherwise every accessor reports that there is no information, whatever a previous
  initialisation left behind.
\<close>

theorem bootinfo_handoff:
  fixes s0 :: bootinfo and reg p :: u32 and m :: phys_mem
  assumes "length (cmdline_buf s0) = BOOTINFO_CMDLINE_MAX"
  defines "s \<equiv> bootinfo_init reg p m s0" and "info \<equiv> read_info m p"
  shows "if handoff_ok reg p m then
      bootinfo_present s
      \<and> bootinfo_get s = Some (info\<lparr>tb_loader_name := (tb_loader_name info)[31 := 0]\<rparr>)
      \<and> bootinfo_usable_memory_bytes s =
          (if tb_memmap_addr info \<noteq> 0 \<and> tb_memmap_entry_size info \<ge> MMAP_ENTRY_SIZE
           then (\<Sum>e \<leftarrow> mmap_entries m (ucast (tb_memmap_addr info)) (tb_memmap_entry_size info)
                   (unat (tb_memmap_count info)).
                   if mm_type e = TOCINBOOT_MEM_USABLE then mm_length e else 0)
           else 0)
      \<and> bootinfo_framebuffer s =
          (if tb_flags info AND TOCINBOOT_F_FB \<noteq> 0 \<and> tb_fb_base info \<noteq> 0 then Some (loader_fb m p) else None)
      \<and> (bootinfo_cmdline s \<noteq> None \<longleftrightarrow>
           tb_flags info AND TOCINBOOT_F_CMDLINE \<noteq> 0 \<and> tb_cmdline_addr info \<noteq> 0)
      \<and> (case bootinfo_cmdline s of None \<Rightarrow> True
         | Some buf \<Rightarrow> length buf = BOOTINFO_CMDLINE_MAX \<and> cstr buf = loader_cmdline m info)
    else
      \<not> bootinfo_present s \<and> bootinfo_get s = None \<and> bootinfo_usable_memory_bytes s = 0
      \<and> bootinfo_framebuffer s = None \<and> bootinfo_cmdline s = None"
proof -
  define clean where
    "clean = s0\<lparr>info_valid := False, fb_valid := False, cmdline_valid := False, usable_bytes := 0\<rparr>"
  have clean: "\<not> fb_valid clean" "\<not> cmdline_valid clean" "usable_bytes clean = 0" "\<not> info_valid clean"
    "length (cmdline_buf clean) = BOOTINFO_CMDLINE_MAX"
    using assms(1) by (simp_all add: clean_def)
  have s: "s = (if handoff_ok reg p m then bootinfo_stash m info clean else clean)"
    by (simp add: s_def info_def bootinfo_init_cases clean_def Let_def)
  show ?thesis
    using clean s fb_stash [OF clean(1), of m p, folded info_def] cmdline_stash [OF clean(2,5), of m info]
    by (auto simp: bootinfo_present_def bootinfo_get_def bootinfo_usable_memory_bytes_def
        bootinfo_framebuffer_def bootinfo_cmdline_def usable_bytes_stash info_copy_stash)
qed

text \<open>A block at \<open>0x1000\<close> with one usable and one reserved map entry, and the same block with a framebuffer.\<close>

definition sample_mem :: phys_mem where
  "sample_mem a =
     (if a = 0x1000 then 0x54 else if a = 0x1001 then 0x42 else if a = 0x1002 then 0x49
      else if a = 0x1003 then 0x31
      else if a = 0x1004 then 1 else if a = 0x1008 then 232
      else if a = 0x1011 then 0x20 else if a = 0x1018 then 2 else if a = 0x101C then 24
      else if a = 0x200A then 5 else if a = 0x2010 then 1
      else if a = 0x2022 then 7 else if a = 0x2028 then 2
      else 0)"

definition sample_fb_mem :: phys_mem where
  "sample_fb_mem a =
     (if a = 0x100C then 4 else if a = 0x1023 then 0xE0 else if a = 0x1029 then 4 else if a = 0x102D then 3
      else if a = 0x1031 then 0x10 else if a = 0x1034 then 32 else if a = 0x103D then 16 else sample_mem a)"

definition zero_bootinfo :: bootinfo where
  "zero_bootinfo =
     \<lparr>info_copy = read_info (\<lambda>a. 0) 0,
      fb_info = \<lparr>fbi_base = 0, fbi_width = 0, fbi_height = 0, fbi_pitch = 0, fbi_bpp = 0,
                 fbi_format = 0, fbi_masks = replicate 8 0\<rparr>,
      cmdline_buf = replicate 256 0, usable_bytes = 0, info_valid = False, fb_valid = False,
      cmdline_valid = False\<rparr>"

theorem bootinfo_handoff_witness:
  "bootinfo_usable_memory_bytes (bootinfo_init TOCINBOOT_REG_MAGIC 0x1000 sample_fb_mem zero_bootinfo) = 0x50000
   \<and> bootinfo_framebuffer (bootinfo_init TOCINBOOT_REG_MAGIC 0x1000 sample_fb_mem zero_bootinfo) =
       Some \<lparr>fbi_base = 0xE0000000, fbi_width = 1024, fbi_height = 768, fbi_pitch = 4096, fbi_bpp = 32, fbi_format = 0,
             fbi_masks = [0, 16, 0, 0, 0, 0, 0, 0]\<rparr>
   \<and> bootinfo_framebuffer (bootinfo_init TOCINBOOT_REG_MAGIC 0x1000 sample_mem zero_bootinfo) = None"
proof -
  have field: "tb_magic (read_info m p) = read_u32 m p" "tb_version (read_info m p) = read_u32 m (p + 4)"
    "tb_size (read_info m p) = read_u32 m (p + 8)" "tb_flags (read_info m p) = read_u32 m (p + 12)"
    "tb_memmap_addr (read_info m p) = read_u64 m (p + 16)" "tb_memmap_count (read_info m p) = read_u32 m (p + 24)"
    "tb_memmap_entry_size (read_info m p) = read_u32 m (p + 28)" "tb_fb_base (read_info m p) = read_u64 m (p + 32)" for m p
    by (simp_all add: read_info_def)
  note read = read_u64_def read_u32_def le32_def sample_mem_def sample_fb_mem_def
  have ok: "handoff_ok TOCINBOOT_REG_MAGIC 0x1000 sample_fb_mem" "handoff_ok TOCINBOOT_REG_MAGIC 0x1000 sample_mem"
    by (simp_all add: handoff_ok_def field) (simp_all add: read)
  have map: "tb_memmap_addr (read_info sample_fb_mem 0x1000) = 0x2000"
    "tb_memmap_entry_size (read_info sample_fb_mem 0x1000) = 24"
    "tb_memmap_count (read_info sample_fb_mem 0x1000) = 2"
    "tb_flags (read_info sample_fb_mem 0x1000) = 4" "tb_fb_base (read_info sample_fb_mem 0x1000) = 0xE0000000"
    "tb_flags (read_info sample_mem 0x1000) = 0"
    by (simp_all add: field) (simp_all add: read)
  have entries: "mmap_entries sample_fb_mem 0x2000 24 2 =
      [read_mmap_entry sample_fb_mem 0x2000, read_mmap_entry sample_fb_mem 0x2018]"
    by (simp add: mmap_entries_def numeral_2_eq_2)
  have entry: "mm_type (read_mmap_entry sample_fb_mem 0x2000) = 1" "mm_type (read_mmap_entry sample_fb_mem 0x2018) = 2"
    "mm_length (read_mmap_entry sample_fb_mem 0x2000) = 0x50000"
    by (simp_all add: read_mmap_entry_def) (simp_all add: read)
  have "[0..<8] = [0, 1, 2, 3, 4, 5, 6, 7 :: nat]" by (simp add: upt_conv_Cons)
  then have masks: "read_bytes sample_fb_mem 0x103C 8 = [0, 16, 0, 0, 0, 0, 0, 0]"
    by (simp add: read_bytes_def read)
  have fb: "loader_fb sample_fb_mem 0x1000 = \<lparr>fbi_base = 0xE0000000, fbi_width = 1024, fbi_height = 768, fbi_pitch = 4096,
      fbi_bpp = 32, fbi_format = 0, fbi_masks = [0, 16, 0, 0, 0, 0, 0, 0]\<rparr>"
    by (simp add: loader_fb_def masks) (simp add: read)
  have buf: "length (cmdline_buf zero_bootinfo) = 256" by (simp add: zero_bootinfo_def)
  show ?thesis
    using ok map entries entry fb bootinfo_handoff [OF buf, of TOCINBOOT_REG_MAGIC "0x1000" sample_fb_mem]
      bootinfo_handoff [OF buf, of TOCINBOOT_REG_MAGIC "0x1000" sample_mem]
    by simp
qed

end
