(* ===== verification/PMM.thy ===== *)
theory PMM
  imports Bitmap Bootinfo
begin

unbundle bit_operations_syntax

text \<open>
  The physical memory manager, \<open>kernel/mm/pmm.c\<close>: a bitmap of 32768 page frames (128 MiB)
  and a count of the used ones. \<open>pmm_set_page_used\<close> and \<open>pmm_free_page\<close> take any page
  number or address and do not check it; an access outside \<open>memory_bitmap\<close> is the result
  \<open>None\<close>. \<open>pmm_used\<close> is the abstract view, the set of used page numbers, and
  \<open>pmm_inv\<close> says that the counter agrees with it.
\<close>

abbreviation (input) "MEMORY_SIZE \<equiv> (134217728 :: u64)"
abbreviation (input) "PAGE_SIZE \<equiv> (4096 :: u32)"
abbreviation (input) "TOTAL_PAGES \<equiv> (32768 :: nat)"
abbreviation (input) "BITMAP_SIZE \<equiv> (4096 :: nat)"

record pmm =
  memory_bitmap :: "u8 list"
  total_pages :: u32
  used_pages :: u32

subsection \<open>Operations\<close>

definition pmm_set_page_used :: "u32 \<Rightarrow> pmm \<Rightarrow> pmm option" where
  "pmm_set_page_used page s =
     (if unat page div 8 < length (memory_bitmap s)
      then Some (s\<lparr>memory_bitmap := bm_set (memory_bitmap s) (unat page),
                   used_pages := used_pages s + 1\<rparr>)
      else None)"

definition pmm_init :: "pmm option" where
  "pmm_init =
     for_range_opt 0 (2 * 1024 * 1024 div 4096) (\<lambda>i. pmm_set_page_used (of_nat i))
       \<lparr>memory_bitmap = replicate BITMAP_SIZE 0, total_pages = 32768, used_pages = 0\<rparr>"

definition pmm_reserve_page :: "nat \<Rightarrow> pmm \<Rightarrow> pmm" where
  "pmm_reserve_page page s =
     (if \<not> bm_test (memory_bitmap s) page
      then s\<lparr>memory_bitmap := bm_set (memory_bitmap s) page, used_pages := used_pages s + 1\<rparr>
      else s)"

definition reserve_end :: "u64 \<Rightarrow> u64 \<Rightarrow> u64" where
  "reserve_end base len =
     (let end = base + len in if end < base \<or> end > MEMORY_SIZE then MEMORY_SIZE else end)"

definition reserve_first :: "u64 \<Rightarrow> u32" where
  "reserve_first base = ucast (base div 4096)"

definition reserve_last :: "u64 \<Rightarrow> u64 \<Rightarrow> u32" where
  "reserve_last base len = ucast ((reserve_end base len + 4096 - 1) div 4096)"

definition pmm_reserve_range :: "u64 \<Rightarrow> u64 \<Rightarrow> pmm \<Rightarrow> pmm" where
  "pmm_reserve_range base len s =
     (if len = 0 \<or> base \<ge> MEMORY_SIZE then s
      else for_range (unat (reserve_first base)) (unat (reserve_last base len)) pmm_reserve_page s)"

definition pmm_init_from_bootinfo :: "phys_mem \<Rightarrow> tocinboot_info option \<Rightarrow> pmm option" where
  "pmm_init_from_bootinfo m info_opt =
     (case pmm_init of
        None \<Rightarrow> None
      | Some s \<Rightarrow>
          (case info_opt of
             None \<Rightarrow> Some s
           | Some info \<Rightarrow>
               let s1 = (if tb_memmap_addr info \<noteq> 0 \<and> tb_memmap_count info \<noteq> 0
                           \<and> tb_memmap_entry_size info \<ge> MMAP_ENTRY_SIZE
                         then mmap_walk m (tb_memmap_entry_size info)
                                (\<lambda>e s. if mm_type e \<noteq> TOCINBOOT_MEM_USABLE
                                        then pmm_reserve_range (mm_base e) (mm_length e) s else s)
                                (unat (tb_memmap_count info)) (ucast (tb_memmap_addr info)) s
                         else s)
               in Some (if tb_flags info AND TOCINBOOT_F_FB \<noteq> 0 \<and> tb_fb_base info \<noteq> 0
                        then pmm_reserve_range (tb_fb_base info)
                               (ucast (tb_fb_pitch info) * ucast (tb_fb_height info)) s1
                        else s1)))"

definition pmm_alloc_page :: "pmm \<Rightarrow> u32 \<times> pmm" where
  "pmm_alloc_page s =
     (case first_from (\<lambda>i. \<not> bm_test (memory_bitmap s) i) 0 (unat (total_pages s)) of
        Some i \<Rightarrow> (of_nat i * PAGE_SIZE,
                   s\<lparr>memory_bitmap := bm_set (memory_bitmap s) i, used_pages := used_pages s + 1\<rparr>)
      | None \<Rightarrow> (0, s))"

definition pmm_free_page :: "u32 \<Rightarrow> pmm \<Rightarrow> pmm option" where
  "pmm_free_page address s =
     (let page = unat (address div PAGE_SIZE)
      in if page div 8 < length (memory_bitmap s)
         then Some (if bm_test (memory_bitmap s) page
                    then s\<lparr>memory_bitmap := bm_clear (memory_bitmap s) page,
                           used_pages := used_pages s - 1\<rparr>
                    else s)
         else None)"

definition pmm_get_total_pages :: "pmm \<Rightarrow> u32" where
  "pmm_get_total_pages s = total_pages s"

definition pmm_get_used_pages :: "pmm \<Rightarrow> u32" where
  "pmm_get_used_pages s = used_pages s"

definition pmm_get_free_pages :: "pmm \<Rightarrow> u32" where
  "pmm_get_free_pages s = total_pages s - used_pages s"

subsection \<open>Abstract view and invariant\<close>

interpretation pmm_slots:
  slot_bitmap "bm_test :: u8 list \<Rightarrow> nat \<Rightarrow> bool" bm_set bm_clear "bm_used TOTAL_PAGES"
    "\<lambda>bm. length bm = BITMAP_SIZE" TOTAL_PAGES
  by (rule bitmap_provides_slots) simp

definition pmm_used :: "pmm \<Rightarrow> nat set" where
  "pmm_used s = bm_used TOTAL_PAGES (memory_bitmap s)"

definition pmm_inv :: "pmm \<Rightarrow> bool" where
  "pmm_inv s \<longleftrightarrow> length (memory_bitmap s) = BITMAP_SIZE \<and> total_pages s = 32768
     \<and> unat (used_pages s) = card (pmm_used s)"

lemma pmm_invD:
  assumes "pmm_inv s"
  shows "length (memory_bitmap s) = BITMAP_SIZE" and "unat (total_pages s) = TOTAL_PAGES"
    and "unat (used_pages s) = card (pmm_used s)" and "card (pmm_used s) \<le> TOTAL_PAGES"
  using assms pmm_slots.card_used_le by (auto simp: pmm_inv_def pmm_used_def)

lemma unat_inc_small: "unat (w :: u32) \<le> TOTAL_PAGES \<Longrightarrow> unat (w + 1) = Suc (unat w)"
  by (simp add: unat_word_ariths)

lemma page_of_address: "i < TOTAL_PAGES \<Longrightarrow> unat ((of_nat i :: u32) * PAGE_SIZE) = i * 4096"
  by (simp add: unat_word_ariths unat_of_nat)

text \<open>Marking a free page and clearing a used one, the two steps every operation is made of.\<close>

lemma mark_page:
  assumes "pmm_inv s" and "p < TOTAL_PAGES" and "p \<notin> pmm_used s"
  defines "s' \<equiv> s\<lparr>memory_bitmap := bm_set (memory_bitmap s) p, used_pages := used_pages s + 1\<rparr>"
  shows "pmm_inv s'" and "pmm_used s' = insert p (pmm_used s)"
proof -
  note inv = pmm_invD [OF assms(1)]
  show used: "pmm_used s' = insert p (pmm_used s)"
    using inv assms(2) by (simp add: s'_def pmm_used_def pmm_slots.used_mark)
  have "card (pmm_used s') = Suc (card (pmm_used s))"
    using used assms(3) pmm_slots.finite_used [of "memory_bitmap s"] by (simp add: pmm_used_def)
  then show "pmm_inv s'"
    using inv assms(1) by (simp add: s'_def pmm_inv_def unat_inc_small)
qed

lemma clear_page:
  assumes "pmm_inv s" and "p \<in> pmm_used s"
  defines "s' \<equiv> s\<lparr>memory_bitmap := bm_clear (memory_bitmap s) p, used_pages := used_pages s - 1\<rparr>"
  shows "pmm_inv s'" and "pmm_used s' = pmm_used s - {p}"
proof -
  note inv = pmm_invD [OF assms(1)]
  have p: "p < TOTAL_PAGES" and fin: "finite (pmm_used s)"
    using assms(2) pmm_slots.used_subset pmm_slots.finite_used by (auto simp: pmm_used_def)
  show used: "pmm_used s' = pmm_used s - {p}"
    using inv p by (simp add: s'_def pmm_used_def pmm_slots.used_release)
  have "0 < card (pmm_used s)"
    using assms(2) fin card_gt_0_iff by blast
  then show "pmm_inv s'"
    using inv assms(1,2) fin used by (simp add: s'_def pmm_inv_def unat_dec_small)
qed

lemma in_pmm_used: "p \<in> pmm_used s \<longleftrightarrow> p < TOTAL_PAGES \<and> bm_test (memory_bitmap s) p"
  by (simp add: pmm_used_def bm_used_def)

subsection \<open>Initialisation\<close>

lemma pmm_init_correct:
  "\<exists>s. pmm_init = Some s \<and> pmm_inv s \<and> pmm_used s = {..<512}"
proof -
  let ?s = "\<lparr>memory_bitmap = replicate BITMAP_SIZE 0, total_pages = 32768, used_pages = 0\<rparr>"
  have "pmm_used ?s = {}"
    using bm_test_zero [where 'a = 8 and n = BITMAP_SIZE] by (auto simp: in_pmm_used)
  then have start: "pmm_inv ?s \<and> pmm_used ?s = {..<0}" by (simp add: pmm_inv_def)
  have step: "\<exists>s'. pmm_set_page_used (of_nat i) s = Some s' \<and> pmm_inv s' \<and> pmm_used s' = {..<Suc i}"
    if i: "i < 512" and inv: "pmm_inv s \<and> pmm_used s = {..<i}" for i s
  proof -
    have page: "unat (of_nat i :: u32) = i" using i by (simp add: unat_of_nat)
    have "pmm_set_page_used (of_nat i) s =
            Some (s\<lparr>memory_bitmap := bm_set (memory_bitmap s) i, used_pages := used_pages s + 1\<rparr>)"
      using i inv page pmm_invD(1) [of s] by (simp add: pmm_set_page_used_def)
    moreover note mark_page [of s i]
    ultimately show ?thesis using i inv by (auto simp: lessThan_Suc)
  qed
  show ?thesis
    using for_range_opt_rule [where I = "\<lambda>i s. pmm_inv s \<and> pmm_used s = {..<i}"
        and lo = 0 and hi = 512, OF start _ step]
    by (simp add: pmm_init_def)
qed

subsection \<open>Reserving ranges\<close>

text \<open>The pages a byte range overlaps, within the managed window; no arithmetic wraps here.\<close>

definition range_pages :: "u64 \<Rightarrow> u64 \<Rightarrow> nat set" where
  "range_pages base len =
     {p. p < TOTAL_PAGES \<and> len \<noteq> 0 \<and> p * 4096 < unat base + unat len \<and> unat base < (p + 1) * 4096}"

lemma reserve_page_step:
  assumes "pmm_inv s" and "p < TOTAL_PAGES"
  shows "pmm_inv (pmm_reserve_page p s) \<and> pmm_used (pmm_reserve_page p s) = insert p (pmm_used s)"
proof (cases "p \<in> pmm_used s")
  case True
  then show ?thesis using assms by (simp add: pmm_reserve_page_def in_pmm_used insert_absorb)
next
  case False
  then show ?thesis
    using assms mark_page [OF assms False] by (simp add: pmm_reserve_page_def in_pmm_used)
qed

lemma reserve_loop:
  assumes "pmm_inv s" and "lo \<le> hi" and "hi \<le> TOTAL_PAGES"
  shows "pmm_inv (for_range lo hi pmm_reserve_page s)
       \<and> pmm_used (for_range lo hi pmm_reserve_page s) = pmm_used s \<union> {lo..<hi}"
proof (rule for_range_rule [where I = "\<lambda>i t. pmm_inv t \<and> pmm_used t = pmm_used s \<union> {lo..<i}"])
  fix i t
  assume "lo \<le> i" and "i < hi" and "pmm_inv t \<and> pmm_used t = pmm_used s \<union> {lo..<i}"
  then show "pmm_inv (pmm_reserve_page i t)
           \<and> pmm_used (pmm_reserve_page i t) = pmm_used s \<union> {lo..<Suc i}"
    using reserve_page_step [of t i] assms(3) by (auto simp: atLeastLessThanSuc)
qed (use assms in auto)

lemma unat_reserve_end:
  assumes "base < MEMORY_SIZE"
  shows "unat (reserve_end base len) = min (unat base + unat len) 134217728"
proof -
  have b: "unat base < 134217728" using assms by (simp add: word_less_nat_alt)
  show ?thesis
  proof (cases "unat base + unat len < 2 ^ 64")
    case True
    then have "unat (base + len) = unat base + unat len" by (simp add: unat_word_ariths)
    then show ?thesis
      using b by (auto simp: reserve_end_def Let_def word_less_nat_alt)
  next
    case False
    have l: "unat len < 2 ^ 64" using unat_below [of len] by simp
    have "(unat base + unat len) mod 2 ^ 64 = unat base + unat len - 2 ^ 64"
      using False l b by (simp add: mod_if)
    then have "unat (base + len) < unat base"
      using False l by (simp add: unat_word_ariths)
    then show ?thesis
      using False by (simp add: reserve_end_def Let_def word_less_nat_alt)
  qed
qed

lemma unat_reserve_bounds:
  assumes "base < MEMORY_SIZE"
  shows "unat (reserve_first base) = unat base div 4096"
    and "unat (reserve_last base len) = (min (unat base + unat len) 134217728 + 4095) div 4096"
proof -
  have b: "unat base < 134217728" using assms by (simp add: word_less_nat_alt)
  show "unat (reserve_first base) = unat base div 4096"
    using b by (simp add: reserve_first_def unat_cast unat_div)
  let ?e = "min (unat base + unat len) 134217728"
  have "unat (reserve_end base len + 4096 - 1) = ?e + 4095"
    by (simp add: unat_word_ariths unat_reserve_end [OF assms] diff_conv_add_uminus [symmetric])
  then show "unat (reserve_last base len) = (?e + 4095) div 4096"
    by (simp add: reserve_last_def unat_cast unat_div)
qed

lemma reserve_range_correct:
  assumes "pmm_inv s"
  shows "pmm_inv (pmm_reserve_range base len s)
       \<and> pmm_used (pmm_reserve_range base len s) = pmm_used s \<union> range_pages base len"
proof (cases "len = 0 \<or> base \<ge> MEMORY_SIZE")
  case True
  then have "range_pages base len = {}"
    by (auto simp: range_pages_def word_le_nat_alt)
  with True assms show ?thesis by (simp add: pmm_reserve_range_def)
next
  case False
  then have b: "base < MEMORY_SIZE" and "unat len \<noteq> 0" by (auto simp: unat_eq_zero)
  let ?lo = "unat (reserve_first base)" and ?hi = "unat (reserve_last base len)"
  have bounds: "?lo \<le> ?hi" "?hi \<le> TOTAL_PAGES"
    unfolding unat_reserve_bounds [OF b] using b by (auto simp: word_less_nat_alt intro!: div_le_mono)
  have "{?lo..<?hi} = range_pages base len"
    unfolding unat_reserve_bounds [OF b] range_pages_def using False \<open>unat len \<noteq> 0\<close> by auto
  with False reserve_loop [OF assms bounds] show ?thesis
    by (simp add: pmm_reserve_range_def)
qed

lemma reserve_entries_correct:
  assumes "pmm_inv s"
  defines "f \<equiv> \<lambda>e s. if mm_type e \<noteq> TOCINBOOT_MEM_USABLE
                       then pmm_reserve_range (mm_base e) (mm_length e) s else s"
  shows "pmm_inv (fold f es s)
       \<and> pmm_used (fold f es s) = pmm_used s
           \<union> (\<Union>e \<in> {e \<in> set es. mm_type e \<noteq> TOCINBOOT_MEM_USABLE}. range_pages (mm_base e) (mm_length e))"
  using assms(1)
proof (induction es arbitrary: s)
  case Nil
  then show ?case by simp
next
  case (Cons e es)
  have step: "pmm_inv (f e s) \<and> pmm_used (f e s) = pmm_used s
      \<union> (if mm_type e \<noteq> TOCINBOOT_MEM_USABLE then range_pages (mm_base e) (mm_length e) else {})"
    using reserve_range_correct [OF Cons.prems] Cons.prems by (simp add: f_def)
  with Cons.IH [of "f e s"] show ?case by auto
qed

lemma pmm_init_state: "pmm_inv (the pmm_init)" "pmm_used (the pmm_init) = {..<512}"
  using pmm_init_correct by (metis option.sel)+

text \<open>A state with no page left.\<close>

definition full_pmm :: pmm where
  "full_pmm = \<lparr>memory_bitmap = replicate BITMAP_SIZE 255, total_pages = 32768, used_pages = 32768\<rparr>"

lemma full_pmm: "pmm_inv full_pmm" "pmm_used full_pmm = {..<TOTAL_PAGES}"
proof -
  have "bm_test (replicate BITMAP_SIZE (255 :: u8)) i" if "i < TOTAL_PAGES" for i
  proof -
    have "bit (255 :: u8) (i mod 8)" using bit_mask_iff [where ?'a = u8, of 8 "i mod 8"]
      by (simp add: mask_eq_exp_minus_1 possible_bit_word)
    then show ?thesis using that by (simp add: bm_test_bit)
  qed
  then show used: "pmm_used full_pmm = {..<TOTAL_PAGES}"
    by (auto simp: pmm_used_def bm_used_def full_pmm_def)
  then show "pmm_inv full_pmm" by (simp add: pmm_inv_def) (simp add: full_pmm_def)
qed

text \<open>The pages the boot protocol says must not be handed out, read off the info block.\<close>

definition boot_reserved :: "phys_mem \<Rightarrow> tocinboot_info \<Rightarrow> nat set" where
  "boot_reserved m info =
     (if tb_memmap_addr info \<noteq> 0 \<and> tb_memmap_entry_size info \<ge> MMAP_ENTRY_SIZE
      then \<Union>e \<in> {e \<in> set (mmap_entries m (ucast (tb_memmap_addr info)) (tb_memmap_entry_size info)
                             (unat (tb_memmap_count info))).
               mm_type e \<noteq> TOCINBOOT_MEM_USABLE}. range_pages (mm_base e) (mm_length e)
      else {})
     \<union> (if tb_flags info AND TOCINBOOT_F_FB \<noteq> 0 \<and> tb_fb_base info \<noteq> 0
        then range_pages (tb_fb_base info) (ucast (tb_fb_pitch info) * ucast (tb_fb_height info))
        else {})"

text \<open>
  C11. Initialising from a boot info block always succeeds, reserves exactly the first 2 MiB, the pages
  that overlap a non-usable memory map entry and those that overlap the framebuffer, and
  leaves the page counter exact, so that overlapping regions are not counted twice.
\<close>

theorem pmm_init_from_bootinfo_reserves:
  "\<exists>s. pmm_init_from_bootinfo m (Some info) = Some s \<and> pmm_inv s
     \<and> pmm_used s = {..<512} \<union> boot_reserved m info"
proof -
  obtain s0 where s0: "pmm_init = Some s0" and inv0: "pmm_inv s0" and used0: "pmm_used s0 = {..<512}"
    using pmm_init_correct by blast
  let ?f = "\<lambda>e s. if mm_type e \<noteq> TOCINBOOT_MEM_USABLE
                  then pmm_reserve_range (mm_base e) (mm_length e) s else s"
  let ?map = "tb_memmap_addr info \<noteq> 0 \<and> tb_memmap_entry_size info \<ge> MMAP_ENTRY_SIZE"
  let ?es = "mmap_entries m (ucast (tb_memmap_addr info)) (tb_memmap_entry_size info)
               (unat (tb_memmap_count info))"
  define s1 where "s1 = (if ?map then fold ?f ?es s0 else s0)"
  have s1: "pmm_inv s1 \<and> pmm_used s1 = {..<512} \<union>
      (if ?map then \<Union>e \<in> {e \<in> set ?es. mm_type e \<noteq> TOCINBOOT_MEM_USABLE}.
         range_pages (mm_base e) (mm_length e) else {})"
    using reserve_entries_correct [OF inv0, of ?es] inv0 used0 by (simp add: s1_def)
  have "pmm_init_from_bootinfo m (Some info) =
      Some (if tb_flags info AND TOCINBOOT_F_FB \<noteq> 0 \<and> tb_fb_base info \<noteq> 0
            then pmm_reserve_range (tb_fb_base info)
                   (ucast (tb_fb_pitch info) * ucast (tb_fb_height info)) s1
            else s1)"
    by (cases "tb_memmap_count info = 0")
      (simp_all add: pmm_init_from_bootinfo_def s0 s1_def mmap_walk_fold mmap_entries_def Let_def)
  with s1 reserve_range_correct [of s1 "tb_fb_base info"
      "ucast (tb_fb_pitch info) * ucast (tb_fb_height info)"]
  show ?thesis by (auto simp: boot_reserved_def)
qed

subsection \<open>Allocation and release\<close>

lemma pmm_alloc_page_cases:
  assumes "pmm_inv s"
  obtains (full) "pmm_used s = {..<TOTAL_PAGES}" "pmm_alloc_page s = (0, s)"
  | (page) p s' where "p < TOTAL_PAGES" "p \<notin> pmm_used s" "{..<p} \<subseteq> pmm_used s"
      "pmm_alloc_page s = (of_nat p * PAGE_SIZE, s')" "pmm_inv s'" "pmm_used s' = insert p (pmm_used s)"
proof (cases "first_from (\<lambda>i. \<not> bm_test (memory_bitmap s) i) 0 TOTAL_PAGES")
  case None
  then have "pmm_used s = {..<TOTAL_PAGES}" by (simp add: pmm_slots.first_free_None pmm_used_def)
  with None pmm_invD(2) [OF assms] full show ?thesis by (simp add: pmm_alloc_page_def)
next
  case (Some p)
  then have p: "p < TOTAL_PAGES" "p \<notin> pmm_used s" "{..<p} \<subseteq> pmm_used s"
    by (auto simp: pmm_slots.first_free_Some pmm_used_def)
  from Some pmm_invD(2) [OF assms] page [OF p] mark_page [OF assms p(1,2)] show ?thesis
    by (simp add: pmm_alloc_page_def)
qed

text \<open>
  C28. \<open>pmm_alloc_page\<close> hands out the lowest free page, page aligned and inside the 128 MiB
  window, and marks exactly that page; when every page is used it returns 0 and changes
  nothing. With page 0 reserved, a result of 0 means out of memory and nothing else.
\<close>

theorem pmm_alloc_page_spec:
  assumes "pmm_inv s" and "0 \<in> pmm_used s"
  shows "case pmm_alloc_page s of (a, s') \<Rightarrow>
     pmm_inv s'
     \<and> (a = 0 \<longleftrightarrow> pmm_used s = {..<TOTAL_PAGES})
     \<and> (a = 0 \<longrightarrow> s' = s)
     \<and> (a \<noteq> 0 \<longrightarrow> unat a mod 4096 = 0 \<and> unat a < 134217728
            \<and> unat a div 4096 = (LEAST p. p \<notin> pmm_used s)
            \<and> pmm_used s' = insert (unat a div 4096) (pmm_used s))"
  using assms(1)
proof (cases rule: pmm_alloc_page_cases)
  case full
  with assms show ?thesis by simp
next
  case (page p s')
  have a: "unat (of_nat p * PAGE_SIZE) = p * 4096" using page(1) by (rule page_of_address)
  have "p \<noteq> 0" using page(2) assms(2) by (metis)
  then have "of_nat p * PAGE_SIZE \<noteq> 0" using a by (metis mult_eq_0_iff unat_0 zero_neq_numeral)
  moreover have "(LEAST q. q \<notin> pmm_used s) = p"
    using page(2,3) by (intro Least_equality) (auto simp: not_less [symmetric])
  moreover have "pmm_used s \<noteq> {..<TOTAL_PAGES}" using page(1,2) by auto
  ultimately show ?thesis using page(1,4-6) a by simp
qed

theorem pmm_alloc_page_spec_witness:
  "pmm_inv (the pmm_init) \<and> fst (pmm_alloc_page (the pmm_init)) \<noteq> 0
   \<and> unat (fst (pmm_alloc_page (the pmm_init))) div 4096 = 512"
proof -
  obtain s0 where s0: "pmm_init = Some s0" "pmm_inv s0" "pmm_used s0 = {..<512}"
    using pmm_init_correct by blast
  have "(LEAST p. p \<notin> pmm_used s0) = 512" using s0 by (intro Least_equality) auto
  moreover have "pmm_used s0 \<noteq> {..<TOTAL_PAGES}" and zero: "0 \<in> pmm_used s0" unfolding s0(3) by simp_all
  ultimately show ?thesis
    using pmm_alloc_page_spec [OF s0(2) zero] s0(2) unfolding s0(1) option.sel case_prod_beta by metis
qed

lemma free_page_in_window:
  assumes "pmm_inv s" and "unat a < 134217728"
  shows "\<exists>s'. pmm_free_page a s = Some s' \<and> pmm_inv s'
     \<and> pmm_used s' = pmm_used s - {unat a div 4096}
     \<and> (unat a div 4096 \<notin> pmm_used s \<longrightarrow> s' = s)"
proof (cases "unat a div 4096 \<in> pmm_used s")
  case True
  then show ?thesis
    using pmm_invD(1) [OF assms(1)] assms(2) clear_page [OF assms(1) True]
    by (auto simp: pmm_free_page_def in_pmm_used Let_def unat_div)
next
  case False
  then show ?thesis
    using pmm_invD(1) [OF assms(1)] assms
    by (auto simp: pmm_free_page_def in_pmm_used Let_def unat_div)
qed

lemma unat_free_pages:
  "pmm_inv s \<Longrightarrow> unat (pmm_get_free_pages s) = TOTAL_PAGES - card (pmm_used s)"
  using pmm_invD [of s] by (simp add: pmm_get_free_pages_def unat_minus_le word_le_nat_alt)

text \<open>
  Freeing an address inside the window releases exactly its page, is a no-op on a page that
  is already free, and keeps the counter exact; an address outside the window reads and
  writes outside \<open>memory_bitmap\<close>.
\<close>

lemma pmm_free_page_spec:
  assumes "pmm_inv s"
  shows "(unat a < 134217728 \<longrightarrow>
            (\<exists>s'. pmm_free_page a s = Some s' \<and> pmm_inv s'
               \<and> pmm_used s' = pmm_used s - {unat a div 4096}
               \<and> (unat a div 4096 \<notin> pmm_used s \<longrightarrow> s' = s)))
       \<and> (134217728 \<le> unat a \<longrightarrow> pmm_free_page a s = None)"
  using free_page_in_window [OF assms] pmm_invD(1) [OF assms]
  by (auto simp: pmm_free_page_def Let_def unat_div)

text \<open>
  A run of \<open>n\<close> allocations, as the tests and the callers that grab a batch of frames make it.
\<close>

fun pmm_alloc_pages :: "nat \<Rightarrow> pmm \<Rightarrow> u32 list \<times> pmm" where
  "pmm_alloc_pages 0 s = ([], s)"
| "pmm_alloc_pages (Suc n) s =
     (let (a, s1) = pmm_alloc_page s; (as, s2) = pmm_alloc_pages n s1 in (a # as, s2))"

fun pmm_free_pages :: "u32 list \<Rightarrow> pmm \<Rightarrow> pmm option" where
  "pmm_free_pages [] s = Some s"
| "pmm_free_pages (a # as) s =
     (case pmm_free_page a s of None \<Rightarrow> None | Some s' \<Rightarrow> pmm_free_pages as s')"

lemma pmm_free_pages_used:
  assumes "pmm_inv s" and "\<forall>a \<in> set as. unat a < 134217728"
  shows "\<exists>s'. pmm_free_pages as s = Some s' \<and> pmm_inv s'
     \<and> pmm_used s' = pmm_used s - (\<lambda>a. unat a div 4096) ` set as"
  using assms
proof (induction as arbitrary: s)
  case Nil
  then show ?case by simp
next
  case (Cons a as)
  obtain s1 where s1: "pmm_free_page a s = Some s1" "pmm_inv s1" "pmm_used s1 = pmm_used s - {unat a div 4096}"
    using free_page_in_window [OF Cons.prems(1), of a] Cons.prems(2) by auto
  with Cons.IH [OF s1(2)] Cons.prems(2) show ?case by auto
qed

lemma pmm_alloc_pages_used:
  assumes "pmm_inv s" and "n \<le> TOTAL_PAGES - card (pmm_used s)"
  shows "case pmm_alloc_pages n s of (as, s') \<Rightarrow>
     pmm_inv s' \<and> length as = n \<and> (\<forall>a \<in> set as. unat a < 134217728)
     \<and> distinct (List.map (\<lambda>a. unat a div 4096) as)
     \<and> (\<lambda>a. unat a div 4096) ` set as \<inter> pmm_used s = {}
     \<and> pmm_used s' = pmm_used s \<union> (\<lambda>a. unat a div 4096) ` set as"
  using assms
proof (induction n arbitrary: s)
  case 0
  then show ?case by simp
next
  case (Suc n)
  from Suc.prems(1) show ?case
  proof (cases rule: pmm_alloc_page_cases)
    case full
    with Suc.prems(2) show ?thesis by simp
  next
    case (page p s1)
    have "card (pmm_used s1) = Suc (card (pmm_used s))"
      using page(2,6) pmm_slots.finite_used [of "memory_bitmap s"] by (simp add: pmm_used_def)
    with Suc.prems(2) have "n \<le> TOTAL_PAGES - card (pmm_used s1)" by simp
    from Suc.IH [OF page(5) this] page page_of_address [OF page(1)]
    show ?thesis by (auto simp: split: prod.splits)
  qed
qed

text \<open>
  C12. As long as free pages remain, a batch of allocations yields that many distinct pages, none
  of which was in use before, and freeing the batch restores the set of used pages and the
  free page count, whatever that state was.
\<close>

theorem pmm_alloc_free_roundtrip:
  assumes "pmm_inv s" and "n \<le> unat (pmm_get_free_pages s)"
  shows "case pmm_alloc_pages n s of (as, s') \<Rightarrow>
     length as = n \<and> distinct (List.map (\<lambda>a. unat a div 4096) as)
     \<and> (\<lambda>a. unat a div 4096) ` set as \<inter> pmm_used s = {}
     \<and> unat (pmm_get_free_pages s') = unat (pmm_get_free_pages s) - n
     \<and> (\<exists>s''. pmm_free_pages as s' = Some s'' \<and> pmm_used s'' = pmm_used s
           \<and> pmm_get_free_pages s'' = pmm_get_free_pages s)"
proof -
  obtain as s' where run: "pmm_alloc_pages n s = (as, s')" by fastforce
  note free = unat_free_pages
  have "n \<le> TOTAL_PAGES - card (pmm_used s)" using assms free by simp
  from pmm_alloc_pages_used [OF assms(1) this] run
  have alloc: "pmm_inv s'" "length as = n" "\<forall>a \<in> set as. unat a < 134217728"
    "distinct (List.map (\<lambda>a. unat a div 4096) as)"
    "(\<lambda>a. unat a div 4096) ` set as \<inter> pmm_used s = {}"
    "pmm_used s' = pmm_used s \<union> (\<lambda>a. unat a div 4096) ` set as" by auto
  have "card ((\<lambda>a. unat a div 4096) ` set as) = n"
    using alloc(2,4) by (metis distinct_card length_map list.set_map)
  then have "card (pmm_used s') = card (pmm_used s) + n"
    using alloc(5,6) pmm_slots.finite_used [of "memory_bitmap s"]
    by (simp add: pmm_used_def card_Un_disjoint Int_commute)
  moreover obtain s'' where s'': "pmm_free_pages as s' = Some s''" "pmm_inv s''"
      "pmm_used s'' = pmm_used s' - (\<lambda>a. unat a div 4096) ` set as"
    using pmm_free_pages_used [OF alloc(1,3)] by blast
  moreover from s''(3) alloc(5,6) have "pmm_used s'' = pmm_used s" by auto
  ultimately show ?thesis
    using run alloc free [OF assms(1)] free [OF alloc(1)] free [OF s''(2)]
    by (auto simp: word_unat_eq_iff)
qed

theorem pmm_alloc_free_roundtrip_witness:
  "case pmm_alloc_pages 32256 (the pmm_init) of (as, s') \<Rightarrow>
     length as = 32256 \<and> unat (pmm_get_free_pages s') = 0"
proof -
  obtain s0 where s0: "pmm_init = Some s0" "pmm_inv s0" "pmm_used s0 = {..<512}"
    using pmm_init_correct by blast
  then have "unat (pmm_get_free_pages s0) = 32256" using unat_free_pages by simp
  then show ?thesis
    using pmm_alloc_free_roundtrip [OF s0(2), of 32256] unfolding s0(1) option.sel case_prod_beta
    by (metis diff_self_eq_0 order_refl)
qed

end
