(* ===== verification/VMM.thy ===== *)
theory VMM
  imports PMM
begin

unbundle bit_operations_syntax

text \<open>
  The virtual memory manager, \<open>kernel/mm/vmm.c\<close>: two-level i386 paging. The page directory and
  the page tables live in physical memory, which is an explicit store here: \<open>vm_words\<close>
  gives the 32-bit word at every (4-aligned) byte address, so that two directory entries that name
  the same frame really share a table. Page tables come from the frame allocator of
  theory \<open>PMM\<close>. Loading \<open>CR3\<close> and \<open>CR0\<close> is left out, and with it the translation of the
  kernel's own accesses: the code dereferences the physical address of a table, which is the right
  one while paging is off or the table lies in the identity-mapped first 4 MiB; a fault on a table
  above is not modelled.
\<close>

abbreviation (input) "PAGE_PRESENT \<equiv> (1 :: u32)"
abbreviation (input) "PAGE_WRITE \<equiv> (2 :: u32)"
abbreviation (input) "PAGE_USER \<equiv> (4 :: u32)"
abbreviation (input) "KERNEL_DIRECTORY \<equiv> (0x9C000 :: u32)"
abbreviation (input) "FIRST_TABLE \<equiv> (0x9D000 :: u32)"

type_synonym word_mem = "u32 \<Rightarrow> u32"

record vmm =
  vm_words :: word_mem
  current_directory :: u32
  vm_frames :: pmm

subsection \<open>Operations\<close>

definition entry_addr :: "u32 \<Rightarrow> nat \<Rightarrow> u32" where
  "entry_addr table i = table + 4 * of_nat i"

definition frame_bits :: "u32 \<Rightarrow> u32" where
  "frame_bits e = e AND NOT 0xFFF"

definition dir_index :: "u32 \<Rightarrow> nat" where
  "dir_index va = unat (drop_bit 22 va)"

definition table_index :: "u32 \<Rightarrow> nat" where
  "table_index va = unat (drop_bit 12 va AND 0x3FF)"

definition fill_table :: "u32 \<Rightarrow> (nat \<Rightarrow> u32) \<Rightarrow> word_mem \<Rightarrow> word_mem" where
  "fill_table table f m = for_range 0 1024 (\<lambda>i m. m(entry_addr table i := f i)) m"

definition vmm_switch_directory :: "u32 \<Rightarrow> vmm \<Rightarrow> vmm" where
  "vmm_switch_directory dir s = s\<lparr>current_directory := dir\<rparr>"

definition vmm_get_current_directory :: "vmm \<Rightarrow> u32" where
  "vmm_get_current_directory s = current_directory s"

definition vmm_init :: "vmm \<Rightarrow> vmm" where
  "vmm_init s =
     (let m1 = fill_table KERNEL_DIRECTORY (\<lambda>i. 0) (vm_words s);
          m2 = fill_table FIRST_TABLE (\<lambda>i. of_nat i * 4096 OR PAGE_PRESENT OR PAGE_WRITE) m1;
          m3 = m2(entry_addr KERNEL_DIRECTORY 0 := FIRST_TABLE OR PAGE_PRESENT OR PAGE_WRITE)
      in vmm_switch_directory KERNEL_DIRECTORY (s\<lparr>vm_words := m3\<rparr>))"

definition vmm_map_page :: "u32 \<Rightarrow> u32 \<Rightarrow> u32 \<Rightarrow> vmm \<Rightarrow> vmm" where
  "vmm_map_page virtual_addr physical_addr flags s =
     (let pde = entry_addr KERNEL_DIRECTORY (dir_index virtual_addr);
          s1 = (if vm_words s pde AND PAGE_PRESENT = 0 then
                  let (table_phys, frames) = pmm_alloc_page (vm_frames s);
                      m1 = (vm_words s)(pde := table_phys OR PAGE_PRESENT OR PAGE_WRITE OR PAGE_USER);
                      m2 = fill_table table_phys (\<lambda>i. 0) m1
                  in s\<lparr>vm_words := m2, vm_frames := frames\<rparr>
                else s);
          table = frame_bits (vm_words s1 pde)
      in s1\<lparr>vm_words := (vm_words s1)(entry_addr table (table_index virtual_addr) :=
              physical_addr OR PAGE_PRESENT OR flags)\<rparr>)"

definition vmm_unmap_page :: "u32 \<Rightarrow> vmm \<Rightarrow> vmm" where
  "vmm_unmap_page virtual_addr s =
     (let pde = entry_addr KERNEL_DIRECTORY (dir_index virtual_addr)
      in if vm_words s pde AND PAGE_PRESENT \<noteq> 0 then
           let table = frame_bits (vm_words s pde)
           in s\<lparr>vm_words := (vm_words s)(entry_addr table (table_index virtual_addr) := 0)\<rparr>
         else s)"

definition vmm_get_physical :: "u32 \<Rightarrow> vmm \<Rightarrow> u32" where
  "vmm_get_physical virtual_addr s =
     (let pde = vm_words s (entry_addr KERNEL_DIRECTORY (dir_index virtual_addr))
      in if pde AND PAGE_PRESENT = 0 then 0
         else let pte = vm_words s (entry_addr (frame_bits pde) (table_index virtual_addr))
              in if pte AND PAGE_PRESENT = 0 then 0 else frame_bits pte)"

definition vmm_virt_to_phys :: "u32 \<Rightarrow> vmm \<Rightarrow> u32" where
  "vmm_virt_to_phys va s = vmm_get_physical va s"

text \<open>\<open>vmm_mark_cow\<close> and \<open>vmm_set_page_flags\<close> are stubs: they return 0 and change nothing.\<close>

definition vmm_mark_cow :: "u32 \<Rightarrow> vmm \<Rightarrow> int \<times> vmm" where
  "vmm_mark_cow va s = (0, s)"

definition vmm_set_page_flags :: "u32 \<Rightarrow> u32 \<Rightarrow> vmm \<Rightarrow> int \<times> vmm" where
  "vmm_set_page_flags va flags s = (0, s)"

subsection \<open>Address arithmetic\<close>

lemma low_mask12: "(0xFFF :: u32) = mask 12" and low_mask10: "(0x3FF :: u32) = mask 10"
  by (simp_all add: mask_eq_exp_minus_1)

lemma unat_frame_bits: "unat (frame_bits e) = unat e div 4096 * 4096"
proof -
  have "frame_bits e = push_bit 12 (drop_bit 12 e)"
    unfolding frame_bits_def low_mask12 by (rule bit_word_eqI) (auto simp: bit_simps)
  moreover have "unat e div 4096 * 4096 < 2 ^ 32"
    using unat_below [of e] by (simp add: div_times_less_eq_dividend [THEN le_less_trans])
  ultimately show ?thesis
    by (simp add: push_bit_eq_mult drop_bit_eq_div unat_word_ariths unat_div)
qed

lemma dir_index_div: "dir_index va = unat va div 4096 div 1024"
  by (simp add: dir_index_def drop_bit_eq_div unat_div div_mult2_eq [symmetric])

lemma table_index_mod: "table_index va = unat va div 4096 mod 1024"
  by (simp add: table_index_def low_mask10 take_bit_eq_mask [symmetric] unsigned_take_bit_eq
      take_bit_eq_mod drop_bit_eq_div unat_div unat_mod)

lemma index_bounds [simp]: "dir_index va < 1024" "table_index va < 1024"
  using unat_below [of va] by (simp_all add: dir_index_div table_index_mod)

lemma same_page_iff:
  "dir_index va = dir_index vb \<and> table_index va = table_index vb
     \<longleftrightarrow> unat va div 4096 = unat vb div 4096"
  unfolding dir_index_div table_index_mod by (metis div_mult_mod_eq)

lemma unat_entry_addr:
  assumes "unat t mod 4096 = 0" and "i < 1024"
  shows "unat (entry_addr t i) = unat t + 4 * i"
proof -
  have "unat t div 4096 * 4096 = unat t" using assms(1) by (simp add: mod_0_imp_dvd)
  moreover have "unat t div 4096 < 1048576" using unat_below [of t] by auto
  ultimately have "unat t + 4 * i < 2 ^ 32" using assms(2) by auto
  then show ?thesis using assms(2) by (simp add: entry_addr_def unat_word_ariths unat_of_nat)
qed

lemma entry_addr_eq_iff:
  assumes "unat t mod 4096 = 0" and "unat t' mod 4096 = 0" and "i < 1024" and "j < 1024"
  shows "entry_addr t i = entry_addr t' j \<longleftrightarrow> t = t' \<and> i = j"
proof
  assume "entry_addr t i = entry_addr t' j"
  then have eq: "unat t + 4 * i = unat t' + 4 * j" using unat_entry_addr assms by metis
  then have "(unat t + 4 * i) div 4096 = (unat t' + 4 * j) div 4096" by simp
  then have "unat t div 4096 = unat t' div 4096" using assms by (simp add: div_add1_eq [of "unat _"])
  then have "unat t = unat t'" using assms(1,2) by (metis div_mult_mod_eq)
  with eq show "t = t' \<and> i = j" by (simp add: word_unat_eq_iff)
qed simp

lemma frame_bits_aligned [simp]: "unat (frame_bits e) mod 4096 = 0"
  by (simp add: unat_frame_bits)

lemma fill_table_other:
  assumes "\<And>i. i < 1024 \<Longrightarrow> a \<noteq> entry_addr t i"
  shows "fill_table t f m a = m a"
proof -
  have "for_range 0 n (\<lambda>i m. m(entry_addr t i := f i)) m a = m a" if "n \<le> 1024" for n
    using that assms by (induction n) (auto simp: for_range_Suc for_range_skip)
  then show ?thesis by (simp add: fill_table_def)
qed

lemma fill_table_entry:
  assumes "unat t mod 4096 = 0" and "j < 1024"
  shows "fill_table t f m (entry_addr t j) = f j"
proof -
  have "for_range 0 n (\<lambda>i m. m(entry_addr t i := f i)) m (entry_addr t j) = f j"
    if "j < n" "n \<le> 1024" for n
    using that by (induction n) (auto simp: for_range_Suc entry_addr_eq_iff assms less_Suc_eq)
  then show ?thesis using assms(2) by (simp add: fill_table_def)
qed

subsection \<open>The page tables as a two-level map\<close>

definition vm_pde :: "vmm \<Rightarrow> nat \<Rightarrow> u32" where
  "vm_pde s i = vm_words s (entry_addr KERNEL_DIRECTORY i)"

definition vm_pte :: "vmm \<Rightarrow> nat \<Rightarrow> nat \<Rightarrow> u32" where
  "vm_pte s i j = vm_words s (entry_addr (frame_bits (vm_pde s i)) j)"

definition vm_present :: "vmm \<Rightarrow> nat \<Rightarrow> bool" where
  "vm_present s i \<longleftrightarrow> i < 1024 \<and> vm_pde s i AND PAGE_PRESENT \<noteq> 0"

definition vm_table :: "vmm \<Rightarrow> nat \<Rightarrow> nat" where
  "vm_table s i = unat (vm_pde s i) div 4096"

text \<open>
  Every present directory entry has a table of its own, held in a frame that the allocator
  knows to be used and that is not the directory's.
\<close>

definition vmm_inv :: "vmm \<Rightarrow> bool" where
  "vmm_inv s \<longleftrightarrow> pmm_inv (vm_frames s) \<and> {..<512} \<subseteq> pmm_used (vm_frames s)
     \<and> (\<forall>i. vm_present s i \<longrightarrow> vm_table s i \<in> pmm_used (vm_frames s) \<and> vm_table s i \<noteq> 0x9C)
     \<and> inj_on (vm_table s) {i. vm_present s i}"

lemma frame_bits_eq_iff: "frame_bits a = frame_bits b \<longleftrightarrow> unat a div 4096 = unat b div 4096"
  by (simp add: word_unat_eq_iff unat_frame_bits)

lemma vmm_get_physical_pte:
  "vmm_get_physical va s =
     (if vm_present s (dir_index va) \<and> vm_pte s (dir_index va) (table_index va) AND PAGE_PRESENT \<noteq> 0
      then frame_bits (vm_pte s (dir_index va) (table_index va)) else 0)"
  by (simp add: vmm_get_physical_def vm_present_def vm_pde_def vm_pte_def Let_def)

lemma directory_entry_eq_iff [simp]:
  "i < 1024 \<Longrightarrow> j < 1024 \<Longrightarrow> entry_addr KERNEL_DIRECTORY i = entry_addr KERNEL_DIRECTORY j \<longleftrightarrow> i = j"
  by (simp add: entry_addr_eq_iff)

lemma table_entry_not_directory:
  assumes "unat t mod 4096 = 0" and "unat t div 4096 \<noteq> 0x9C" and "i < 1024" and "j < 1024"
  shows "entry_addr t i \<noteq> entry_addr KERNEL_DIRECTORY j"
proof -
  have "t \<noteq> KERNEL_DIRECTORY" using assms(2) by auto
  then show ?thesis using assms by (simp add: entry_addr_eq_iff)
qed

text \<open>Writing a page table entry: the only change is at that entry.\<close>

lemma write_pte:
  fixes v :: u32
  assumes inv: "vmm_inv s" and d: "vm_present s d" and t: "t < 1024"
  defines "s' \<equiv> s\<lparr>vm_words := (vm_words s)(entry_addr (frame_bits (vm_pde s d)) t := v)\<rparr>"
  shows "i < 1024 \<Longrightarrow> vm_pde s' i = vm_pde s i"
    and "vm_present s i \<Longrightarrow> j < 1024 \<Longrightarrow> vm_pte s' i j = (if i = d \<and> j = t then v else vm_pte s i j)"
    and "vm_present s' i \<longleftrightarrow> vm_present s i"
    and "vmm_inv s'"
proof -
  have d': "d < 1024" "vm_table s d \<noteq> 0x9C" using inv d by (auto simp: vmm_inv_def vm_present_def)
  have pde: "vm_pde s' i = vm_pde s i" if "i < 1024" for i
    using table_entry_not_directory [of "frame_bits (vm_pde s d)" t i] that t d'
    by (auto simp: s'_def vm_pde_def vm_table_def unat_frame_bits)
  then show "i < 1024 \<Longrightarrow> vm_pde s' i = vm_pde s i" .
  have pres: "vm_present s' i \<longleftrightarrow> vm_present s i" for i using pde by (auto simp: vm_present_def)
  then show "vm_present s' i \<longleftrightarrow> vm_present s i" .
  show "vm_pte s' i j = (if i = d \<and> j = t then v else vm_pte s i j)" if "vm_present s i" "j < 1024"
  proof -
    have i: "i < 1024" using that by (simp add: vm_present_def)
    have "frame_bits (vm_pde s i) = frame_bits (vm_pde s d) \<longleftrightarrow> i = d"
      using inv that d by (auto simp: frame_bits_eq_iff vmm_inv_def vm_table_def inj_on_def)
    then show ?thesis using that t pde [OF i] by (auto simp: s'_def vm_pte_def entry_addr_eq_iff)
  qed
  have "vm_table s' i = vm_table s i" if "vm_present s i" for i
    using pde that by (simp add: vm_table_def vm_present_def)
  then show "vmm_inv s'"
    using inv pres by (auto simp: vmm_inv_def s'_def inj_on_def)
qed

text \<open>Hanging a fresh, zeroed table into an empty directory slot.\<close>

lemma install_table:
  assumes inv: "vmm_inv s" and d: "d < 1024" "\<not> vm_present s d"
    and p: "p < TOTAL_PAGES" "p \<notin> pmm_used (vm_frames s)"
    and fr: "pmm_inv fr" "pmm_used fr = insert p (pmm_used (vm_frames s))"
  defines "t \<equiv> of_nat p * PAGE_SIZE :: u32"
  defines "s' \<equiv> s\<lparr>vm_words := fill_table t (\<lambda>i. 0)
      ((vm_words s)(entry_addr KERNEL_DIRECTORY d := t OR PAGE_PRESENT OR PAGE_WRITE OR PAGE_USER)),
      vm_frames := fr\<rparr>"
  shows "vm_present s' i \<longleftrightarrow> vm_present s i \<or> i = d"
    and "vm_pde s' d = t OR PAGE_PRESENT OR PAGE_WRITE OR PAGE_USER"
    and "j < 1024 \<Longrightarrow> vm_pte s' d j = 0"
    and "vm_present s i \<Longrightarrow> j < 1024 \<Longrightarrow> vm_pte s' i j = vm_pte s i j"
    and "vmm_inv s'"
    and "i < 1024 \<Longrightarrow> vm_table s' i = (if i = d then p else vm_table s i)"
proof -
  have t: "unat t = p * 4096" unfolding t_def using p(1) by (rule page_of_address)
  have "(0x9C :: nat) \<in> {..<512}" by simp
  then have p9: "p \<noteq> 0x9C" using p(2) inv unfolding vmm_inv_def by blast
  have tm: "frame_bits (t OR PAGE_PRESENT OR PAGE_WRITE OR PAGE_USER) = t"
  proof -
    have "frame_bits t = t" using t by (simp add: word_unat_eq_iff unat_frame_bits)
    moreover have "frame_bits (t OR PAGE_PRESENT OR PAGE_WRITE OR PAGE_USER) = frame_bits t"
      by (simp add: frame_bits_def bit.conj_disj_distrib2)
    ultimately show ?thesis by simp
  qed
  have pde: "vm_pde s' i = (if i = d then t OR PAGE_PRESENT OR PAGE_WRITE OR PAGE_USER else vm_pde s i)"
    if "i < 1024" for i
  proof -
    have "fill_table t (\<lambda>i. 0) m (entry_addr KERNEL_DIRECTORY i) = m (entry_addr KERNEL_DIRECTORY i)" for m
    proof (rule fill_table_other)
      show "entry_addr KERNEL_DIRECTORY i \<noteq> entry_addr t k" if "k < 1024" for k
        using table_entry_not_directory [of t k i] t p9 that \<open>i < 1024\<close> by simp
    qed
    then show ?thesis using that d by (auto simp: s'_def vm_pde_def)
  qed
  then show dd: "vm_pde s' d = t OR PAGE_PRESENT OR PAGE_WRITE OR PAGE_USER" using d by simp
  have "(t OR PAGE_PRESENT OR PAGE_WRITE OR PAGE_USER) AND PAGE_PRESENT \<noteq> 0"
    by (simp add: bit.conj_disj_distrib2)
  then have pres: "vm_present s' i \<longleftrightarrow> vm_present s i \<or> i = d" for i
    using pde d by (auto simp: vm_present_def split: if_splits)
  then show "vm_present s' i \<longleftrightarrow> vm_present s i \<or> i = d" .
  show "j < 1024 \<Longrightarrow> vm_pte s' d j = 0"
    unfolding vm_pte_def dd tm using t by (simp add: s'_def fill_table_entry)
  have tab: "vm_table s' d = p" using tm t unat_frame_bits [of "vm_pde s' d"] dd
    by (simp add: vm_table_def)
  show "vm_table s' i = (if i = d then p else vm_table s i)" if "i < 1024"
    using pde [OF that] tab by (cases "i = d") (simp_all add: vm_table_def)
  have old: "vm_table s' i = vm_table s i" "vm_table s i \<noteq> p" "vm_table s i \<noteq> 0x9C" "i \<noteq> d" "i < 1024"
    if "vm_present s i" for i
    using pde that inv p(2) d by (auto simp: vm_table_def vm_present_def vmm_inv_def)
  show "vm_pte s' i j = vm_pte s i j" if "vm_present s i" "j < 1024"
  proof -
    note o = old [OF that(1)]
    have "frame_bits (vm_pde s i) \<noteq> t" using o(2) t unat_frame_bits [of "vm_pde s i"]
      by (auto simp: vm_table_def word_unat_eq_iff)
    then have "entry_addr (frame_bits (vm_pde s i)) j \<noteq> entry_addr t k" if "k < 1024" for k
      using that \<open>j < 1024\<close> t by (simp add: entry_addr_eq_iff)
    moreover have "entry_addr (frame_bits (vm_pde s i)) j \<noteq> entry_addr KERNEL_DIRECTORY d"
      using table_entry_not_directory [of "frame_bits (vm_pde s i)" j d] o(3) that(2) d
      by (simp add: vm_table_def unat_frame_bits)
    ultimately show ?thesis
      using pde o(4,5) by (simp add: vm_pte_def s'_def fill_table_other vm_pde_def)
  qed
  have "inj_on (vm_table s') {i. vm_present s' i}"
  proof (rule inj_onI)
    fix x y
    assume "x \<in> {i. vm_present s' i}" "y \<in> {i. vm_present s' i}" "vm_table s' x = vm_table s' y"
    moreover have "vm_present s x \<Longrightarrow> vm_present s y \<Longrightarrow> vm_table s x = vm_table s y \<Longrightarrow> x = y"
      using inv by (simp add: vmm_inv_def inj_on_def)
    ultimately show "x = y" using pres old(1,2) tab by (metis mem_Collect_eq)
  qed
  moreover have "vm_frames s' = fr" by (simp add: s'_def)
  ultimately show "vmm_inv s'"
    using inv pres old(1,3) tab fr p9 by (auto simp: vmm_inv_def)
qed

subsection \<open>Correctness of the operations\<close>

lemma present_bit_absorb:
  "(pa OR PAGE_PRESENT OR fl) AND PAGE_PRESENT \<noteq> 0"
  "frame_bits (pa OR PAGE_PRESENT OR fl) = frame_bits pa OR frame_bits fl"
  by (simp_all add: frame_bits_def bit.conj_disj_distrib2)

lemma frame_bits_flags: "unat fl < 4096 \<Longrightarrow> frame_bits fl = 0"
  by (simp add: word_unat_eq_iff unat_frame_bits)

text \<open>Mapping in the two phases of the code: make sure there is a table, then write its entry.\<close>

lemma ensure_table:
  assumes inv: "vmm_inv s"
    and room: "vm_present s (dir_index va) \<or> pmm_used (vm_frames s) \<noteq> {..<TOTAL_PAGES}"
  obtains s1 where "vmm_inv s1" and "vm_present s1 (dir_index va)"
    and "\<And>i. vm_present s1 i \<longleftrightarrow> vm_present s i \<or> i = dir_index va"
    and "\<And>i j. vm_present s i \<Longrightarrow> j < 1024 \<Longrightarrow> vm_pte s1 i j = vm_pte s i j"
    and "\<And>j. \<not> vm_present s (dir_index va) \<Longrightarrow> j < 1024 \<Longrightarrow> vm_pte s1 (dir_index va) j = 0"
    and "vm_present s (dir_index va) \<Longrightarrow> vm_frames s1 = vm_frames s"
    and "\<not> vm_present s (dir_index va) \<Longrightarrow> vm_frames s1 = snd (pmm_alloc_page (vm_frames s))"
    and "vmm_map_page va pa fl s =
      s1\<lparr>vm_words := (vm_words s1)(entry_addr (frame_bits (vm_pde s1 (dir_index va))) (table_index va)
           := pa OR PAGE_PRESENT OR fl)\<rparr>"
proof (cases "vm_present s (dir_index va)")
  case True
  show ?thesis
    by (rule that [of s])
      (use True inv in \<open>auto simp: vmm_map_page_def Let_def vm_present_def vm_pde_def\<close>)
next
  case False
  from inv have "pmm_inv (vm_frames s)" by (simp add: vmm_inv_def)
  then show ?thesis
  proof (cases rule: pmm_alloc_page_cases)
    case full
    with room False show ?thesis by simp
  next
    case (page p fr)
    let ?t = "of_nat p * PAGE_SIZE :: u32"
    let ?s1 = "s\<lparr>vm_words := fill_table ?t (\<lambda>i. 0) ((vm_words s)(entry_addr KERNEL_DIRECTORY (dir_index va)
        := ?t OR PAGE_PRESENT OR PAGE_WRITE OR PAGE_USER)), vm_frames := fr\<rparr>"
    note new = install_table [OF inv index_bounds(1) False page(1,2,5,6)]
    have "vm_words s (entry_addr KERNEL_DIRECTORY (dir_index va)) AND PAGE_PRESENT = 0"
      using False by (simp add: vm_present_def vm_pde_def)
    then have "vmm_map_page va pa fl s =
      ?s1\<lparr>vm_words := (vm_words ?s1)(entry_addr (frame_bits (vm_pde ?s1 (dir_index va))) (table_index va)
           := pa OR PAGE_PRESENT OR fl)\<rparr>"
      using page(4) by (simp add: vmm_map_page_def Let_def vm_pde_def)
    then show ?thesis
      by (rule that [rotated -1]) (use False page(4) new in auto)
  qed
qed

lemma map_page_effect:
  assumes "vmm_inv s" and "unat fl < 4096"
    and "vm_present s (dir_index va) \<or> pmm_used (vm_frames s) \<noteq> {..<TOTAL_PAGES}"
  shows "vmm_inv (vmm_map_page va pa fl s)
    \<and> vmm_get_physical vb (vmm_map_page va pa fl s) =
        (if unat vb div 4096 = unat va div 4096 then frame_bits pa else vmm_get_physical vb s)
    \<and> vm_frames (vmm_map_page va pa fl s) =
        (if vm_present s (dir_index va) then vm_frames s else snd (pmm_alloc_page (vm_frames s)))"
proof (rule ensure_table [OF assms(1,3), of pa fl])
  fix s1
  assume s1: "vmm_inv s1" "vm_present s1 (dir_index va)"
    "\<And>i. vm_present s1 i \<longleftrightarrow> vm_present s i \<or> i = dir_index va"
    "\<And>i j. vm_present s i \<Longrightarrow> j < 1024 \<Longrightarrow> vm_pte s1 i j = vm_pte s i j"
    "\<And>j. \<not> vm_present s (dir_index va) \<Longrightarrow> j < 1024 \<Longrightarrow> vm_pte s1 (dir_index va) j = 0"
    "vm_present s (dir_index va) \<Longrightarrow> vm_frames s1 = vm_frames s"
    "\<not> vm_present s (dir_index va) \<Longrightarrow> vm_frames s1 = snd (pmm_alloc_page (vm_frames s))"
    and map: "vmm_map_page va pa fl s =
      s1\<lparr>vm_words := (vm_words s1)(entry_addr (frame_bits (vm_pde s1 (dir_index va))) (table_index va)
           := pa OR PAGE_PRESENT OR fl)\<rparr>"
  note w = write_pte [OF s1(1,2) index_bounds(2) [of va], where v = "pa OR PAGE_PRESENT OR fl"]
  have "vmm_get_physical vb (vmm_map_page va pa fl s) =
      (if unat vb div 4096 = unat va div 4096 then frame_bits pa else vmm_get_physical vb s)"
  proof (cases "dir_index vb = dir_index va \<and> table_index vb = table_index va")
    case True
    then show ?thesis
      using same_page_iff [of vb va] s1(2) w(2,3)
      by (simp add: map vmm_get_physical_pte present_bit_absorb frame_bits_flags assms(2))
  next
    case False
    then show ?thesis
      using same_page_iff [of vb va] s1(2-5) w(2,3)
      by (cases "vm_present s (dir_index vb)") (auto simp: map vmm_get_physical_pte)
  qed
  then show ?thesis using map w(4) s1(6,7) by auto
qed

text \<open>
  Frames that hold data: known to the allocator as used, and neither the directory nor a page table.
  Mapping a page leaves their content alone.
\<close>

definition data_frame :: "vmm \<Rightarrow> nat \<Rightarrow> bool" where
  "data_frame s f \<longleftrightarrow> f \<in> pmm_used (vm_frames s) \<and> f \<noteq> 0x9C \<and> (\<forall>i. vm_present s i \<longrightarrow> vm_table s i \<noteq> f)"

lemma entry_addr_page:
  assumes "unat t mod 4096 = 0" and "i < 1024"
  shows "unat (entry_addr t i) div 4096 = unat t div 4096"
  using unat_entry_addr [OF assms] assms by (auto simp: mod_eq_0_iff_dvd elim!: dvdE)

lemma vmm_inv_low: "vmm_inv s \<Longrightarrow> p \<notin> pmm_used (vm_frames s) \<Longrightarrow> 512 \<le> p"
  by (rule ccontr) (metis lessThan_iff not_le subsetD vmm_inv_def)

lemma map_page_memory:
  assumes inv: "vmm_inv s" and room: "vm_present s (dir_index va) \<or> pmm_used (vm_frames s) \<noteq> {..<TOTAL_PAGES}"
    and f: "data_frame s (unat a div 4096)"
  shows "vm_words (vmm_map_page va pa fl s) a = vm_words s a"
proof (cases "vm_present s (dir_index va)")
  case True
  then have "unat (entry_addr (frame_bits (vm_pde s (dir_index va))) (table_index va)) div 4096 = vm_table s (dir_index va)"
    by (simp add: entry_addr_page unat_frame_bits vm_table_def)
  then have "a \<noteq> entry_addr (frame_bits (vm_pde s (dir_index va))) (table_index va)"
    using f True by (auto simp: data_frame_def)
  then show ?thesis using True by (simp add: vmm_map_page_def Let_def vm_present_def vm_pde_def)
next
  case False
  from inv have "pmm_inv (vm_frames s)" by (simp add: vmm_inv_def)
  then show ?thesis
  proof (cases rule: pmm_alloc_page_cases)
    case full
    with room False show ?thesis by simp
  next
    case (page p fr)
    let ?t = "of_nat p * PAGE_SIZE :: u32" and ?d = "entry_addr KERNEL_DIRECTORY (dir_index va)"
    have t: "unat ?t = p * 4096" using page_of_address [OF page(1)] .
    have "unat a div 4096 \<noteq> p" using f page(2) by (auto simp: data_frame_def)
    then have out: "a \<noteq> entry_addr ?t i" if "i < 1024" for i
      using entry_addr_page [of ?t i] that t by auto
    have dir: "a \<noteq> ?d" using f entry_addr_page [of KERNEL_DIRECTORY "dir_index va"] by (auto simp: data_frame_def)
    let ?m = "fill_table ?t (\<lambda>i. 0) ((vm_words s)(?d := ?t OR PAGE_PRESENT OR PAGE_WRITE OR PAGE_USER))"
    have "p \<noteq> 0x9C" using vmm_inv_low [OF inv page(2)] by simp
    then have "?d \<noteq> entry_addr ?t i" if "i < 1024" for i
      using table_entry_not_directory [of ?t i "dir_index va"] t that by auto
    then have "?m ?d = ?t OR PAGE_PRESENT OR PAGE_WRITE OR PAGE_USER"
      using fill_table_other [of ?d ?t] by simp
    moreover have "frame_bits (?t OR PAGE_PRESENT OR PAGE_WRITE OR PAGE_USER) = ?t"
    proof -
      have "frame_bits (?t OR PAGE_PRESENT OR (PAGE_WRITE OR PAGE_USER)) = frame_bits ?t OR frame_bits (PAGE_WRITE OR PAGE_USER)"
        by (rule present_bit_absorb(2))
      then show ?thesis using frame_bits_flags [of 6] t by (simp add: word_unat_eq_iff [of "frame_bits _"] unat_frame_bits)
    qed
    moreover have "vm_words s ?d AND PAGE_PRESENT = 0" using False by (simp add: vm_present_def vm_pde_def)
    ultimately show ?thesis
      using page(4) out dir by (simp add: vmm_map_page_def Let_def fill_table_other)
  qed
qed

lemma map_page_data:
  assumes inv: "vmm_inv s" and room: "vm_present s (dir_index va) \<or> pmm_used (vm_frames s) \<noteq> {..<TOTAL_PAGES}"
    and f: "data_frame s f"
  shows "data_frame (vmm_map_page va pa fl s) f"
proof -
  have change: "data_frame (s1\<lparr>vm_words := (vm_words s1)(entry_addr (frame_bits (vm_pde s1 d)) (table_index va) := x)\<rparr>) f"
    if s1: "vmm_inv s1" "vm_present s1 d" "data_frame s1 f" for s1 d x
    using write_pte(1,3) [OF s1(1,2) index_bounds(2) [of va], where v = x] s1(3)
    by (simp add: data_frame_def vm_table_def vm_present_def)
  show ?thesis
  proof (cases "vm_present s (dir_index va)")
    case True
    then show ?thesis
      using change [OF inv True f] by (simp add: vmm_map_page_def Let_def vm_present_def vm_pde_def)
  next
    case False
    from inv have "pmm_inv (vm_frames s)" by (simp add: vmm_inv_def)
    then show ?thesis
    proof (cases rule: pmm_alloc_page_cases)
      case full
      with room False show ?thesis by simp
    next
      case (page p fr)
      let ?t = "of_nat p * PAGE_SIZE :: u32"
      let ?s1 = "s\<lparr>vm_words := fill_table ?t (\<lambda>i. 0) ((vm_words s)(entry_addr KERNEL_DIRECTORY (dir_index va)
          := ?t OR PAGE_PRESENT OR PAGE_WRITE OR PAGE_USER)), vm_frames := fr\<rparr>"
      note new = install_table [OF inv index_bounds(1) False page(1,2,5,6)]
      have "data_frame ?s1 f"
        using f new(1,6) page(2,6) by (auto simp: data_frame_def vm_present_def)
      moreover have "vm_words s (entry_addr KERNEL_DIRECTORY (dir_index va)) AND PAGE_PRESENT = 0"
        using False by (simp add: vm_present_def vm_pde_def)
      ultimately show ?thesis
        using change [OF new(5), of "dir_index va"] new(1) page(4) by (simp add: vmm_map_page_def Let_def vm_pde_def)
    qed
  qed
qed

lemma alloc_data_frame:
  assumes inv: "vmm_inv s" and "pmm_alloc_page (vm_frames s) = (of_nat p * PAGE_SIZE, fr)" "p < TOTAL_PAGES"
    "p \<notin> pmm_used (vm_frames s)" "pmm_inv fr" "pmm_used fr = insert p (pmm_used (vm_frames s))"
  shows "vmm_inv (s\<lparr>vm_frames := fr\<rparr>)" and "data_frame (s\<lparr>vm_frames := fr\<rparr>) p"
proof -
  have "vm_present (s\<lparr>vm_frames := fr\<rparr>) = vm_present s" "vm_table (s\<lparr>vm_frames := fr\<rparr>) = vm_table s"
    by (simp_all add: vm_present_def vm_table_def vm_pde_def fun_eq_iff)
  then show "vmm_inv (s\<lparr>vm_frames := fr\<rparr>)" "data_frame (s\<lparr>vm_frames := fr\<rparr>) p"
    using assms vmm_inv_low [OF inv assms(4)] by (auto simp: vmm_inv_def data_frame_def)
qed

lemma unmap_page_effect:
  assumes "vmm_inv s"
  shows "vmm_inv (vmm_unmap_page va s)
    \<and> vmm_get_physical vb (vmm_unmap_page va s) =
        (if unat vb div 4096 = unat va div 4096 then 0 else vmm_get_physical vb s)
    \<and> vm_frames (vmm_unmap_page va s) = vm_frames s"
proof (cases "vm_present s (dir_index va)")
  case True
  note w = write_pte [OF assms True index_bounds(2) [of va], where v = 0]
  have "vmm_unmap_page va s =
      s\<lparr>vm_words := (vm_words s)(entry_addr (frame_bits (vm_pde s (dir_index va))) (table_index va) := 0)\<rparr>"
    using True by (simp add: vmm_unmap_page_def vm_present_def vm_pde_def Let_def)
  then show ?thesis
    using True w(2-4) same_page_iff [of vb va]
    by (cases "vm_present s (dir_index vb)") (auto simp: vmm_get_physical_pte)
next
  case False
  then have "vmm_unmap_page va s = s" by (simp add: vmm_unmap_page_def vm_present_def vm_pde_def Let_def)
  moreover have "vmm_get_physical vb s = 0" if "unat vb div 4096 = unat va div 4096"
    using False that same_page_iff [of vb va] by (simp add: vmm_get_physical_pte)
  ultimately show ?thesis using assms by simp
qed

text \<open>
  C6. \<open>vmm_map_page\<close> maps exactly one page: the addresses of that page translate to the given
  frame, every other address translates as before, and a page table is taken from the
  frame allocator only when the 4 MiB region had none. This holds as long as a needed
  table can be allocated.
\<close>

theorem vmm_map_page_correct:
  assumes "vmm_inv s" and "unat fl < 4096"
    and "vm_present s (dir_index va) \<or> pmm_used (vm_frames s) \<noteq> {..<TOTAL_PAGES}"
  shows "vmm_inv (vmm_map_page va pa fl s)
    \<and> vmm_get_physical vb (vmm_map_page va pa fl s) =
        (if unat vb div 4096 = unat va div 4096 then frame_bits pa else vmm_get_physical vb s)
    \<and> vm_frames (vmm_map_page va pa fl s) =
        (if vm_present s (dir_index va) then vm_frames s else snd (pmm_alloc_page (vm_frames s)))"
  using assms by (rule map_page_effect)

text \<open>The page tables \<open>vmm_init\<close> builds.\<close>

lemma vmm_init_pde:
  assumes "i < 1024"
  shows "vm_pde (vmm_init s) i = (if i = 0 then FIRST_TABLE OR PAGE_PRESENT OR PAGE_WRITE else 0)"
proof -
  have "entry_addr KERNEL_DIRECTORY i \<noteq> entry_addr FIRST_TABLE j" if "j < 1024" for j
    using that assms by (simp add: entry_addr_eq_iff)
  then show ?thesis
    using assms
    by (simp add: vmm_init_def Let_def vm_pde_def vmm_switch_directory_def fill_table_other fill_table_entry)
qed

lemma vmm_init_pte:
  assumes "j < 1024"
  shows "vm_pte (vmm_init s) 0 j = of_nat j * 4096 OR PAGE_PRESENT OR PAGE_WRITE"
proof -
  have "frame_bits (vm_pde (vmm_init s) 0) = FIRST_TABLE" by (simp add: vmm_init_pde frame_bits_def)
  moreover have "entry_addr KERNEL_DIRECTORY 0 \<noteq> entry_addr FIRST_TABLE j"
    using assms by (simp add: entry_addr_eq_iff)
  ultimately show ?thesis
    using assms
    by (simp add: vm_pte_def) (simp add: vmm_init_def Let_def vmm_switch_directory_def fill_table_entry)
qed

lemma vmm_init_present: "vm_present (vmm_init s) i \<longleftrightarrow> i = 0"
  using vmm_init_pde [of i s] by (auto simp: vm_present_def split: if_splits)

lemma vmm_init_frames: "vm_frames (vmm_init s) = vm_frames s"
  by (simp add: vmm_init_def Let_def vmm_switch_directory_def)

lemma vmm_init_inv:
  assumes "pmm_inv (vm_frames s)" and "{..<512} \<subseteq> pmm_used (vm_frames s)"
  shows "vmm_inv (vmm_init s)"
proof -
  have "vm_table (vmm_init s) 0 = 0x9D" by (simp add: vm_table_def vmm_init_pde)
  then show ?thesis using assms vmm_init_present vmm_init_frames by (auto simp: vmm_inv_def)
qed

text \<open>
  C25. \<open>vmm_init\<close> establishes the invariant on any initial memory, identity maps the first
  4 MiB and leaves every other address untranslated.
\<close>

theorem vmm_init_identity:
  assumes "pmm_inv (vm_frames s)" and "{..<512} \<subseteq> pmm_used (vm_frames s)"
  shows "vmm_inv (vmm_init s)
    \<and> vmm_get_physical va (vmm_init s) = (if unat va < 4194304 then frame_bits va else 0)
    \<and> vmm_get_current_directory (vmm_init s) = KERNEL_DIRECTORY"
proof -
  have "vmm_get_physical va (vmm_init s) = (if unat va < 4194304 then frame_bits va else 0)"
  proof (cases "unat va < 4194304")
    case True
    then have dir: "dir_index va = 0" by (simp add: dir_index_div)
    have "unat (of_nat (table_index va) * (4096 :: u32)) = unat va div 4096 * 4096"
      using True page_of_address [of "table_index va"] index_bounds(2) [of va]
      by (simp add: table_index_mod)
    then have "frame_bits (of_nat (table_index va) * 4096) = frame_bits va"
      by (simp add: frame_bits_eq_iff)
    then have "frame_bits (of_nat (table_index va) * 4096 OR PAGE_PRESENT OR PAGE_WRITE) = frame_bits va"
      by (simp add: frame_bits_def bit.conj_disj_distrib2)
    moreover have "(of_nat (table_index va) * 4096 OR PAGE_PRESENT OR PAGE_WRITE) AND PAGE_PRESENT \<noteq> 0"
      by (simp add: bit.conj_disj_distrib2)
    ultimately show ?thesis
      unfolding vmm_get_physical_pte vmm_init_present dir vmm_init_pte [OF index_bounds(2)]
      using True by simp
  next
    case False
    then have "dir_index va \<noteq> 0" by (auto simp: dir_index_div)
    with False show ?thesis by (simp add: vmm_get_physical_pte vmm_init_present)
  qed
  moreover have "vmm_get_current_directory (vmm_init s) = KERNEL_DIRECTORY"
    by (simp add: vmm_get_current_directory_def vmm_init_def vmm_switch_directory_def Let_def)
  ultimately show ?thesis using vmm_init_inv [OF assms] by simp
qed

text \<open>The state after \<open>pmm_init\<close> and \<open>vmm_init\<close> on zeroed memory, for the witnesses.\<close>

definition booted_vmm :: vmm where
  "booted_vmm = vmm_init \<lparr>vm_words = (\<lambda>a. 0), current_directory = 0, vm_frames = the pmm_init\<rparr>"

lemma booted_frames: "pmm_inv (vm_frames booted_vmm) \<and> pmm_used (vm_frames booted_vmm) = {..<512}"
  by (simp add: booted_vmm_def vmm_init_frames pmm_init_state)

lemma booted_inv: "vmm_inv booted_vmm"
  unfolding booted_vmm_def by (rule vmm_init_inv) (simp_all add: pmm_init_state)

lemma booted_room: "pmm_used (vm_frames booted_vmm) \<noteq> {..<TOTAL_PAGES}"
  unfolding booted_frames [THEN conjunct2] by (simp add: lessThan_eq_iff)

theorem vmm_init_identity_witness:
  "vmm_get_physical 0x3FF123 (vmm_init \<lparr>vm_words = (\<lambda>a. 0), current_directory = 0,
     vm_frames = the pmm_init\<rparr>) = 0x3FF000"
  using vmm_init_identity [of "\<lparr>vm_words = (\<lambda>a. 0), current_directory = 0, vm_frames = the pmm_init\<rparr>"
      "0x3FF123"]
  by (simp add: frame_bits_def pmm_init_state)

theorem vmm_map_page_correct_witness:
  "vmm_get_physical 0x40000123 (vmm_map_page 0x40000000 0x345000 PAGE_WRITE booted_vmm) = 0x345000
   \<and> vmm_get_physical 0x40001000 (vmm_map_page 0x40000000 0x345000 PAGE_WRITE booted_vmm)
       = vmm_get_physical 0x40001000 booted_vmm"
  using vmm_map_page_correct [OF booted_inv _ disjI2 [OF booted_room], of PAGE_WRITE "0x40000000" "0x345000"
      "0x40000123"]
    vmm_map_page_correct [OF booted_inv _ disjI2 [OF booted_room], of PAGE_WRITE "0x40000000" "0x345000"
      "0x40001000"]
  by (simp add: frame_bits_def)

text \<open>
  \<open>vmm_map_page\<close> does not check the result of \<open>pmm_alloc_page\<close>: with no frame left, the
  directory entry of an unmapped region is made to point at physical page 0, which is
  cleared and then used as its page table.
\<close>

lemma vmm_map_page_out_of_memory:
  assumes "vmm_inv s" and "\<not> vm_present s (dir_index va)"
    and "pmm_used (vm_frames s) = {..<TOTAL_PAGES}"
  shows "vm_pde (vmm_map_page va pa fl s) (dir_index va) = 7
    \<and> (j < 1024 \<longrightarrow> vm_words (vmm_map_page va pa fl s) (entry_addr 0 j) =
          (if j = table_index va then pa OR PAGE_PRESENT OR fl else 0))"
proof -
  have "pmm_inv (vm_frames s)" using assms(1) by (simp add: vmm_inv_def)
  then have "pmm_alloc_page (vm_frames s) = (0, vm_frames s)"
    by (cases rule: pmm_alloc_page_cases) (use assms(3) in auto)
  moreover have "vm_words s (entry_addr KERNEL_DIRECTORY (dir_index va)) AND PAGE_PRESENT = 0"
    using assms(2) by (simp add: vm_present_def vm_pde_def)
  moreover have "fill_table 0 f m (entry_addr KERNEL_DIRECTORY i) = m (entry_addr KERNEL_DIRECTORY i)"
    if "i < 1024" for f m i
    using that by (intro fill_table_other) (simp add: entry_addr_eq_iff)
  ultimately show ?thesis
    by (simp add: vmm_map_page_def Let_def vm_pde_def frame_bits_def entry_addr_eq_iff fill_table_entry)
qed

end
