(* ===== verification/Intrusive.thy ===== *)
theory Intrusive
  imports Prelude
begin

text \<open>
  Families of intrusive doubly linked lists. The buddy allocator (\<open>free_lists\<close>) and the scheduler
  (\<open>ready_lists\<close>) both keep an array of list heads over nodes of one static array that carry
  \<open>next\<close> and \<open>prev\<close> pointers; both push at the head and unlink in place. A pointer into the array
  is a \<open>nat option\<close>. The locale \<open>intrusive_lists\<close> is the contract of the two operations, stated
  on the three pointer maps, and its lemmas say what they do to the lists as lists.
\<close>

subsection \<open>One doubly linked list\<close>

fun dseg :: "(nat \<Rightarrow> nat option) \<Rightarrow> (nat \<Rightarrow> nat option) \<Rightarrow> nat option \<Rightarrow> nat option \<Rightarrow> nat list \<Rightarrow>
    nat option \<Rightarrow> nat option \<Rightarrow> bool" where
  "dseg nx pv before p [] after q \<longleftrightarrow> p = q \<and> after = before"
| "dseg nx pv before p (x # xs) after q \<longleftrightarrow>
     p = Some x \<and> pv x = before \<and> dseg nx pv (Some x) (nx x) xs after q"

definition dll :: "(nat \<Rightarrow> nat option) \<Rightarrow> (nat \<Rightarrow> nat option) \<Rightarrow> nat option \<Rightarrow> nat list \<Rightarrow> bool" where
  "dll nx pv p xs \<longleftrightarrow> (\<exists>e. dseg nx pv None p xs e None)"

lemma dseg_append:
  "dseg nx pv b p (xs @ ys) e q \<longleftrightarrow> (\<exists>c r. dseg nx pv b p xs c r \<and> dseg nx pv c r ys e q)"
  by (induction xs arbitrary: b p) auto

lemma dseg_cong:
  assumes "\<And>x. x \<in> set xs \<Longrightarrow> nx' x = nx x \<and> pv' x = pv x"
  shows "dseg nx' pv' b p xs e q \<longleftrightarrow> dseg nx pv b p xs e q"
  using assms by (induction xs arbitrary: b p) auto

lemma dseg_end: "dseg nx pv b p xs e q \<Longrightarrow> xs \<noteq> [] \<Longrightarrow> e = Some (last xs) \<and> nx (last xs) = q"
  by (induction xs arbitrary: b p) (auto split: if_splits)

lemma dseg_neighbour:
  assumes "dseg nx pv b p xs e q" and "a \<in> set xs"
  shows "pv a = Some y \<Longrightarrow> y \<in> set xs \<or> b = Some y" and "nx a = Some y \<Longrightarrow> y \<in> set xs \<or> q = Some y"
proof -
  obtain ys zs where xs: "xs = ys @ a # zs" using assms(2) by (meson split_list)
  with assms(1) have "dseg nx pv b p ys (pv a) (Some a)" "dseg nx pv (Some a) (nx a) zs e q"
    by (auto simp: dseg_append)
  then show "pv a = Some y \<Longrightarrow> y \<in> set xs \<or> b = Some y" "nx a = Some y \<Longrightarrow> y \<in> set xs \<or> q = Some y"
    using xs dseg_end [of nx pv b p ys] by (cases ys; cases zs; fastforce)+
qed

text \<open>Redirecting the last \<open>next\<close> pointer, and the first \<open>prev\<close> pointer, of a segment.\<close>

lemma dseg_redirect_next:
  assumes "dseg nx pv b p xs (Some y) q" and "distinct xs" and "xs \<noteq> []"
  shows "dseg (nx(y := r)) pv b p xs (Some y) r"
  using assms
proof (induction xs arbitrary: b p)
  case (Cons x xs)
  show ?case
  proof (cases "xs = []")
    case False
    then have "y = last xs" using Cons.prems(1) dseg_end [of nx pv "Some x" "nx x" xs "Some y" q] by simp
    then have "y \<in> set xs" using False by simp
    with Cons False show ?thesis by auto
  qed (use Cons in auto)
qed simp

lemma dseg_redirect_prev:
  assumes "dseg nx pv b (Some y) (y # xs) e q" and "distinct (y # xs)"
  shows "dseg nx (pv(y := b')) b' (Some y) (y # xs) e q"
proof -
  have "dseg nx (pv(y := b')) (Some y) (nx y) xs e q = dseg nx pv (Some y) (nx y) xs e q"
    using assms(2) by (intro dseg_cong) auto
  with assms(1) show ?thesis by simp
qed

lemma dll_tail_unique: "dseg nx pv b p xs e None \<Longrightarrow> dseg nx pv c p ys f None \<Longrightarrow> xs = ys"
proof (induction xs arbitrary: b c p ys)
  case Nil
  then show ?case by (cases ys) auto
next
  case (Cons x xs)
  then show ?case by (cases ys) auto
qed

lemma dll_distinct: "dll nx pv p xs \<Longrightarrow> distinct xs"
proof -
  have "dseg nx pv b p xs e None \<Longrightarrow> distinct xs" for b e
  proof (induction xs arbitrary: b p)
    case (Cons x xs)
    have "x \<notin> set xs"
    proof
      assume "x \<in> set xs"
      then obtain ys zs where xs: "xs = ys @ x # zs" by (auto simp: in_set_conv_decomp)
      with Cons.prems obtain c where "dseg nx pv c (Some x) (x # zs) e None"
        by (auto simp: dseg_append)
      then have "x # zs = x # xs" using Cons.prems dll_tail_unique by (metis dseg.simps(2))
      with xs show False by simp
    qed
    with Cons show ?case by auto
  qed simp
  then show "dll nx pv p xs \<Longrightarrow> distinct xs" by (auto simp: dll_def)
qed

lemma dll_Nil [simp]: "dll nx pv None []"
  by (simp add: dll_def)

lemma dll_None_iff [simp]: "dll nx pv None xs \<longleftrightarrow> xs = []"
  by (cases xs) (auto simp: dll_def)

lemma dll_SomeD: "dll nx pv (Some x) xs \<Longrightarrow> \<exists>ys. xs = x # ys"
  by (cases xs) (auto simp: dll_def)

lemma dll_cong:
  "(\<And>x. x \<in> set xs \<Longrightarrow> nx' x = nx x \<and> pv' x = pv x) \<Longrightarrow> dll nx' pv' p xs \<longleftrightarrow> dll nx pv p xs"
  unfolding dll_def by (intro ex_cong1 dseg_cong)

definition relink :: "nat option \<Rightarrow> nat option \<Rightarrow> (nat \<Rightarrow> nat option) \<Rightarrow> nat \<Rightarrow> nat option" where
  "relink p v pv = (case p of None \<Rightarrow> pv | Some y \<Rightarrow> pv(y := v))"

lemma dll_push:
  assumes "dll nx pv p xs" and "a \<notin> set xs"
  shows "dll (nx(a := p)) (relink p (Some a) (pv(a := None))) (Some a) (a # xs)"
proof -
  obtain e where e: "dseg nx pv None p xs e None" using assms(1) by (auto simp: dll_def)
  have dist: "distinct xs" using assms(1) by (rule dll_distinct)
  show ?thesis
  proof (cases xs)
    case Nil
    with e show ?thesis by (auto simp: dll_def relink_def)
  next
    case (Cons y ys)
    then have p: "p = Some y" using e by simp
    have "dseg nx (pv(y := Some a)) (Some a) (Some y) (y # ys) e None"
      using e dist Cons by (intro dseg_redirect_prev) auto
    then have "dseg (nx(a := p)) ((pv(a := None))(y := Some a)) (Some a) p xs e None"
      using assms(2) Cons p by (subst dseg_cong [where nx = nx and pv = "pv(y := Some a)"]) auto
    with assms(2) Cons p show ?thesis by (auto simp: dll_def relink_def)
  qed
qed

lemma dll_unlink:
  assumes "dll nx pv p xs" and "a \<in> set xs"
  shows "dll ((relink (pv a) (nx a) nx)(a := None)) ((relink (nx a) (pv a) pv)(a := None))
     (case pv a of None \<Rightarrow> nx a | Some b \<Rightarrow> p) (remove1 a xs)"
proof -
  obtain ys zs where xs: "xs = ys @ a # zs" "a \<notin> set ys" using assms(2) by (meson split_list_first)
  have dist: "distinct xs" using assms(1) by (rule dll_distinct)
  obtain e where "dseg nx pv None p xs e None" using assms(1) by (auto simp: dll_def)
  with xs have seg: "dseg nx pv None p ys (pv a) (Some a) \<and> dseg nx pv (Some a) (nx a) zs e None"
    by (auto simp: dseg_append)
  then have front: "dseg nx pv None p ys (pv a) (Some a)" ..
  from seg have rear: "dseg nx pv (Some a) (nx a) zs e None" ..
  let ?nx = "relink (pv a) (nx a) nx" and ?pv = "relink (nx a) (pv a) pv"
  let ?p = "case pv a of None \<Rightarrow> nx a | Some b \<Rightarrow> p"
  have nx_out: "?nx x = nx x" if "x \<in> set zs" for x
  proof (cases "ys = []")
    case False
    then have "pv a = Some (last ys)" "last ys \<in> set ys" using dseg_end [OF front] by simp_all
    then show ?thesis using that dist xs(1) by (auto simp: relink_def)
  qed (use front in \<open>simp add: relink_def\<close>)
  have pv_out: "?pv x = pv x" if "x \<in> set ys" for x
    using that rear dist xs by (cases zs) (auto simp: relink_def)
  have "dseg ?nx ?pv None ?p ys (pv a) (nx a)"
  proof (cases "ys = []")
    case False
    with front dseg_end obtain b where b: "pv a = Some b" by blast
    have "dseg (nx(b := nx a)) pv None p ys (pv a) (nx a)"
      using dseg_redirect_next [of nx pv None p ys b "Some a"] front b dist xs False by auto
    with b pv_out show ?thesis
      by (subst dseg_cong [where nx = "nx(b := nx a)" and pv = pv]) (auto simp: relink_def)
  qed (use front in auto)
  moreover have "\<exists>e'. dseg ?nx ?pv (pv a) (nx a) zs e' None"
  proof (cases zs)
    case (Cons y ws)
    then have y: "nx a = Some y" using rear by simp
    have "dseg nx (pv(y := pv a)) (pv a) (nx a) zs e None"
      using dseg_redirect_prev [of nx pv "Some a" y ws e None] rear y Cons dist xs by auto
    with y nx_out show ?thesis
      by (subst dseg_cong [where nx = nx and pv = "pv(y := pv a)"]) (auto simp: relink_def)
  qed (use rear in auto)
  ultimately have "\<exists>e'. dseg ?nx ?pv None ?p (ys @ zs) e' None" by (auto simp: dseg_append)
  moreover have "remove1 a xs = ys @ zs" using xs by (simp add: remove1_append)
  ultimately have "dll ?nx ?pv ?p (remove1 a xs)" by (simp add: dll_def)
  moreover have "a \<notin> set (remove1 a xs)" using dist by simp
  ultimately show ?thesis
    by (subst dll_cong [where nx = ?nx and pv = ?pv]) auto
qed

text \<open>
  Putting \<open>a\<close> between its neighbours \<open>before\<close> and \<open>after\<close>, the way the sorted area list of
  \<open>vma_insert\<close> does it.
\<close>

definition last_opt :: "'a list \<Rightarrow> 'a option" where
  "last_opt xs = (if xs = [] then None else Some (last xs))"

definition head_opt :: "'a list \<Rightarrow> 'a option" where
  "head_opt xs = (case xs of [] \<Rightarrow> None | x # _ \<Rightarrow> Some x)"

lemma opt_simps [simp]:
  "last_opt [] = None" "last_opt (xs @ [x]) = Some x" "head_opt [] = None" "head_opt (x # xs) = Some x"
  "last_opt (x # xs) = Some (last (x # xs))" "last_opt xs = None \<longleftrightarrow> xs = []" "head_opt xs = None \<longleftrightarrow> xs = []"
  by (auto simp: last_opt_def head_opt_def split: list.splits)

lemma last_opt_Some: "last_opt xs = Some x \<longleftrightarrow> (\<exists>ys. xs = ys @ [x])"
  by (cases xs rule: rev_cases) auto

lemma head_opt_Some: "head_opt xs = Some x \<longleftrightarrow> (\<exists>ys. xs = x # ys)"
  by (cases xs) auto

lemma dseg_ends: "dseg nx pv b p xs e q \<Longrightarrow>
    p = (case head_opt xs of None \<Rightarrow> q | Some x \<Rightarrow> Some x) \<and> e = (case last_opt xs of None \<Rightarrow> b | Some x \<Rightarrow> Some x)"
  using dseg_end [of nx pv b p xs e q] by (cases xs) auto

lemma dll_insert:
  assumes "dll nx pv p (ys @ zs)" and a: "a \<notin> set ys \<union> set zs"
  shows "dll ((relink (last_opt ys) (Some a) nx)(a := head_opt zs))
     ((relink (head_opt zs) (Some a) pv)(a := last_opt ys))
     (case last_opt ys of None \<Rightarrow> Some a | Some b \<Rightarrow> p) (ys @ a # zs)"
proof -
  let ?nx = "(relink (last_opt ys) (Some a) nx)(a := head_opt zs)"
  let ?pv = "(relink (head_opt zs) (Some a) pv)(a := last_opt ys)"
  have dist: "distinct (ys @ zs)" using assms(1) by (rule dll_distinct)
  obtain e c r where front: "dseg nx pv None p ys c r" and rear: "dseg nx pv c r zs e None"
    using assms(1) by (auto simp: dll_def dseg_append)
  have c: "c = last_opt ys" using dseg_ends [OF front] by (auto split: option.splits)
  have r: "r = head_opt zs" using dseg_ends [OF rear] by (auto split: option.splits)
  have "dseg ?nx ?pv None (case last_opt ys of None \<Rightarrow> Some a | Some b \<Rightarrow> p) ys (last_opt ys) (Some a)"
  proof (cases "last_opt ys")
    case (Some b)
    then have "ys \<noteq> []" by auto
    with Some front c dist have "dseg (nx(b := Some a)) pv None p ys (Some b) (Some a)"
      by (intro dseg_redirect_next [of nx pv None p ys b r]) auto
    moreover have "?nx x = (nx(b := Some a)) x \<and> ?pv x = pv x" if "x \<in> set ys" for x
      using that Some dist a by (auto simp: relink_def head_opt_Some split: option.splits)
    ultimately show ?thesis
      using Some by (subst dseg_cong [where nx = "nx(b := Some a)" and pv = pv]) auto
  qed auto
  moreover have "dseg ?nx ?pv (Some a) (head_opt zs) zs (if zs = [] then Some a else e) None"
  proof (cases zs)
    case (Cons y ws)
    have "dseg nx (pv(y := Some a)) (Some a) (Some y) (y # ws) e None"
      using rear r dist Cons by (intro dseg_redirect_prev) auto
    moreover have "?nx x = nx x \<and> ?pv x = (pv(y := Some a)) x" if "x \<in> set zs" for x
      using that Cons dist a by (auto simp: relink_def last_opt_Some split: option.splits)
    ultimately show ?thesis
      using Cons by (subst dseg_cong [where nx = nx and pv = "pv(y := Some a)"]) auto
  qed auto
  moreover have "dseg ?nx ?pv (last_opt ys) (Some a) [a] (Some a) (head_opt zs)" by simp
  ultimately have "dseg ?nx ?pv None (case last_opt ys of None \<Rightarrow> Some a | Some b \<Rightarrow> p) (ys @ [a] @ zs)
      (if zs = [] then Some a else e) None"
    unfolding dseg_append by blast
  then show ?thesis unfolding dll_def by auto
qed

subsection \<open>Walking and searching\<close>

fun walk :: "nat \<Rightarrow> (nat \<Rightarrow> nat option) \<Rightarrow> nat option \<Rightarrow> nat list" where
  "walk 0 nx p = []"
| "walk (Suc n) nx None = []"
| "walk (Suc n) nx (Some x) = x # walk n nx (nx x)"

lemma walk_dll:
  assumes "dll nx pv p xs" and "length xs \<le> n"
  shows "walk n nx p = xs"
proof -
  have "dseg nx pv b p xs e None \<Longrightarrow> length xs \<le> n \<Longrightarrow> walk n nx p = xs" for b e
  proof (induction xs arbitrary: b p n)
    case Nil
    then show ?case by (cases n) auto
  next
    case (Cons x xs)
    then show ?case by (cases n) auto
  qed
  with assms show ?thesis by (auto simp: dll_def)
qed

text \<open>
  The search loop \<open>while (curr) { if (curr == x) ...; curr = curr->next; }\<close>; on a cyclic list it does
  not end, which is the value \<open>None\<close>.
\<close>

partial_function (option) list_search :: "(nat \<Rightarrow> nat option) \<Rightarrow> nat \<Rightarrow> nat option \<Rightarrow> bool option" where
  "list_search nx x p =
     (case p of None \<Rightarrow> Some False
      | Some y \<Rightarrow> if y = x then Some True else list_search nx x (nx y))"

lemma list_search_dll:
  assumes "dll nx pv p xs"
  shows "list_search nx x p = Some (x \<in> set xs)"
proof -
  have "dseg nx pv b p xs e None \<Longrightarrow> list_search nx x p = Some (x \<in> set xs)" for b e
    by (induction xs arbitrary: b p) (auto simp: list_search.simps)
  with assms show ?thesis by (auto simp: dll_def)
qed

subsection \<open>A family of disjoint lists\<close>

definition lists_ok :: "(nat \<Rightarrow> nat option) \<Rightarrow> (nat \<Rightarrow> nat option) \<Rightarrow> (nat \<Rightarrow> nat option) \<Rightarrow>
    nat \<Rightarrow> nat \<Rightarrow> (nat \<Rightarrow> nat list) \<Rightarrow> bool" where
  "lists_ok nx pv hds Q N L \<longleftrightarrow>
     (\<forall>q < Q. dll nx pv (hds q) (L q) \<and> set (L q) \<subseteq> {..<N})
     \<and> (\<forall>q < Q. \<forall>r < Q. q \<noteq> r \<longrightarrow> set (L q) \<inter> set (L r) = {})"

lemma lists_okD:
  assumes "lists_ok nx pv hds Q N L" and "q < Q"
  shows "dll nx pv (hds q) (L q)" and "set (L q) \<subseteq> {..<N}" and "distinct (L q)"
    and "\<And>r. r < Q \<Longrightarrow> q \<noteq> r \<Longrightarrow> set (L q) \<inter> set (L r) = {}"
  using assms dll_distinct unfolding lists_ok_def by blast+

lemma lists_ok_walk:
  assumes "lists_ok nx pv hds Q N L" and "q < Q"
  shows "walk N nx (hds q) = L q"
proof -
  have "length (L q) = card (set (L q))" using lists_okD(3) [OF assms] by (simp add: distinct_card)
  also have "\<dots> \<le> N" using card_mono [OF _ lists_okD(2) [OF assms]] by simp
  finally show ?thesis using lists_okD(1) [OF assms] walk_dll by blast
qed

lemma lists_ok_cong:
  "(\<And>q. q < Q \<Longrightarrow> L' q = L q) \<Longrightarrow> lists_ok nx pv hds Q N L' \<longleftrightarrow> lists_ok nx pv hds Q N L"
  unfolding lists_ok_def by simp

lemma lists_ok_head_empty:
  assumes "lists_ok nx pv hds Q N L" and "q < Q"
  shows "hds q = None \<longleftrightarrow> L q = []"
  using lists_okD(1) [OF assms] by (cases "hds q") (auto dest: dll_SomeD)

lemma lists_ok_head_Some:
  assumes "lists_ok nx pv hds Q N L" and "q < Q" and "hds q = Some x"
  shows "\<exists>xs. L q = x # xs"
  using lists_okD(1) [OF assms(1,2)] assms(3) by (auto dest: dll_SomeD)

lemma lists_ok_push:
  assumes ok: "lists_ok nx pv hds Q N L" and q: "q < Q" and a: "a < N"
    and new: "\<And>r. r < Q \<Longrightarrow> a \<notin> set (L r)"
  shows "lists_ok (nx(a := hds q)) (relink (hds q) (Some a) (pv(a := None))) (hds(q := Some a)) Q N
           (L(q := a # L q))"
proof -
  let ?nx = "nx(a := hds q)" and ?pv = "relink (hds q) (Some a) (pv(a := None))"
  have "dll ?nx ?pv ((hds(q := Some a)) r) ((L(q := a # L q)) r)" if r: "r < Q" for r
  proof (cases "r = q")
    case True
    then show ?thesis using dll_push [OF lists_okD(1) [OF ok q] new [OF q]] by simp
  next
    case False
    have "?nx x = nx x \<and> ?pv x = pv x" if "x \<in> set (L r)" for x
    proof -
      have "x \<noteq> a" using new r that by auto
      moreover have "hds q \<noteq> Some x"
        using lists_ok_head_Some [OF ok q] lists_okD(4) [OF ok q r] False that by fastforce
      ultimately show ?thesis by (auto simp: relink_def split: option.splits)
    qed
    then have "dll ?nx ?pv (hds r) (L r) \<longleftrightarrow> dll nx pv (hds r) (L r)" by (rule dll_cong)
    then show ?thesis using False lists_okD(1) [OF ok r] by simp
  qed
  moreover have "set ((L(q := a # L q)) r) \<inter> set ((L(q := a # L q)) r') = {}"
    if "r < Q" "r' < Q" "r \<noteq> r'" for r r'
    using lists_okD(4) [OF ok that] new that by auto
  moreover have "set ((L(q := a # L q)) r) \<subseteq> {..<N}" if "r < Q" for r
    using lists_okD(2) [OF ok that] a by auto
  ultimately show ?thesis unfolding lists_ok_def by blast
qed

lemma lists_ok_unlink:
  assumes ok: "lists_ok nx pv hds Q N L" and q: "q < Q" and a: "a \<in> set (L q)"
  shows "lists_ok ((relink (pv a) (nx a) nx)(a := None)) ((relink (nx a) (pv a) pv)(a := None))
           (hds(q := (case pv a of None \<Rightarrow> nx a | Some b \<Rightarrow> hds q))) Q N (L(q := remove1 a (L q)))"
proof -
  let ?nx = "(relink (pv a) (nx a) nx)(a := None)" and ?pv = "(relink (nx a) (pv a) pv)(a := None)"
  have near: "y \<in> set (L q)" if "pv a = Some y \<or> nx a = Some y" for y
    using lists_okD(1) [OF ok q] a that unfolding dll_def by (auto dest: dseg_neighbour)
  have "dll ?nx ?pv ((hds(q := (case pv a of None \<Rightarrow> nx a | Some b \<Rightarrow> hds q))) r)
      ((L(q := remove1 a (L q))) r)" if r: "r < Q" for r
  proof (cases "r = q")
    case True
    then show ?thesis using dll_unlink [OF lists_okD(1) [OF ok q] a] by simp
  next
    case False
    have "?nx x = nx x \<and> ?pv x = pv x" if "x \<in> set (L r)" for x
    proof -
      have "x \<notin> set (L q)" using lists_okD(4) [OF ok q r] False that by auto
      then show ?thesis using a near by (auto simp: relink_def split: option.splits)
    qed
    then have "dll ?nx ?pv (hds r) (L r) \<longleftrightarrow> dll nx pv (hds r) (L r)" by (rule dll_cong)
    then show ?thesis using False lists_okD(1) [OF ok r] by simp
  qed
  moreover have sub: "set ((L(q := remove1 a (L q))) r) \<subseteq> set (L r)" for r
    by (auto dest: set_remove1_subset [THEN subsetD])
  moreover have "set ((L(q := remove1 a (L q))) r) \<inter> set ((L(q := remove1 a (L q))) r') = {}"
    if "r < Q" "r' < Q" "r \<noteq> r'" for r r'
    using lists_okD(4) [OF ok that] sub [of r] sub [of r'] by blast
  moreover have "set ((L(q := remove1 a (L q))) r) \<subseteq> {..<N}" if "r < Q" for r
    using lists_okD(2) [OF ok that] sub [of r] by (rule subset_trans [rotated])
  ultimately show ?thesis unfolding lists_ok_def by simp
qed

lemma lists_ok_insert:
  assumes ok: "lists_ok nx pv hds Q N L" and q: "q < Q" and L: "L q = ys @ zs" and a: "a < N"
    and new: "\<And>r. r < Q \<Longrightarrow> a \<notin> set (L r)"
  shows "lists_ok ((relink (last_opt ys) (Some a) nx)(a := head_opt zs))
     ((relink (head_opt zs) (Some a) pv)(a := last_opt ys))
     (hds(q := (case last_opt ys of None \<Rightarrow> Some a | Some b \<Rightarrow> hds q))) Q N (L(q := ys @ a # zs))"
proof -
  let ?nx = "(relink (last_opt ys) (Some a) nx)(a := head_opt zs)"
  let ?pv = "(relink (head_opt zs) (Some a) pv)(a := last_opt ys)"
  have "dll ?nx ?pv ((hds(q := (case last_opt ys of None \<Rightarrow> Some a | Some b \<Rightarrow> hds q))) r)
      ((L(q := ys @ a # zs)) r)" if r: "r < Q" for r
  proof (cases "r = q")
    case True
    then show ?thesis using dll_insert [of nx pv "hds q" ys zs a] lists_okD(1) [OF ok q] new [OF q] L by auto
  next
    case False
    have "?nx x = nx x \<and> ?pv x = pv x" if "x \<in> set (L r)" for x
    proof -
      have "x \<notin> set (L q)" using lists_okD(4) [OF ok q r] False that by auto
      moreover have "x \<noteq> a" using new r that by auto
      ultimately show ?thesis
        using L by (auto simp: relink_def head_opt_Some last_opt_Some split: option.splits)
    qed
    then have "dll ?nx ?pv (hds r) (L r) \<longleftrightarrow> dll nx pv (hds r) (L r)" by (rule dll_cong)
    then show ?thesis using False lists_okD(1) [OF ok r] by simp
  qed
  moreover have set_eq: "set ((L(q := ys @ a # zs)) r) = (if r = q then insert a (set (L q)) else set (L r))" for r
    using L by auto
  moreover have "set ((L(q := ys @ a # zs)) r) \<inter> set ((L(q := ys @ a # zs)) r') = {}"
    if "r < Q" "r' < Q" "r \<noteq> r'" for r r'
    unfolding set_eq using lists_okD(4) [OF ok that] new that by auto
  moreover have "set ((L(q := ys @ a # zs)) r) \<subseteq> {..<N}" if "r < Q" for r
    unfolding set_eq using lists_okD(2) [OF ok that] a q lists_okD(2) [OF ok q] by auto
  ultimately show ?thesis unfolding lists_ok_def by blast
qed

subsection \<open>The contract of push and unlink\<close>

text \<open>
  \<open>push a q\<close> puts node \<open>a\<close> at the head of list \<open>q\<close> and \<open>unlink a q\<close> takes it out of it, in terms of
  the pointer maps \<open>nxt\<close>, \<open>prv\<close> and \<open>head\<close> of the state. The laws are the pointer assignments;
  everything about lists follows from them.
\<close>

locale intrusive_lists =
  fixes nxt prv head :: "'s \<Rightarrow> nat \<Rightarrow> nat option"
    and push unlink :: "nat \<Rightarrow> nat \<Rightarrow> 's \<Rightarrow> 's"
    and Q N :: nat
  assumes push_nxt: "q < Q \<Longrightarrow> nxt (push a q s) = (nxt s)(a := head s q)"
    and push_prv: "q < Q \<Longrightarrow> prv (push a q s) = relink (head s q) (Some a) ((prv s)(a := None))"
    and push_head: "q < Q \<Longrightarrow> head (push a q s) = (head s)(q := Some a)"
    and unlink_nxt: "q < Q \<Longrightarrow> nxt (unlink a q s) = (relink (prv s a) (nxt s a) (nxt s))(a := None)"
    and unlink_prv: "q < Q \<Longrightarrow> prv (unlink a q s) = (relink (nxt s a) (prv s a) (prv s))(a := None)"
    and unlink_head: "q < Q \<Longrightarrow> head (unlink a q s) =
          (head s)(q := (case prv s a of None \<Rightarrow> nxt s a | Some b \<Rightarrow> head s q))"
begin

definition list_of :: "'s \<Rightarrow> nat \<Rightarrow> nat list" where
  "list_of s q = walk N (nxt s) (head s q)"

definition well_linked :: "'s \<Rightarrow> bool" where
  "well_linked s \<longleftrightarrow> lists_ok (nxt s) (prv s) (head s) Q N (list_of s)"

lemma well_linkedI:
  assumes "lists_ok (nxt s) (prv s) (head s) Q N L"
  shows "well_linked s" and "q < Q \<Longrightarrow> list_of s q = L q"
proof -
  show eq: "list_of s q = L q" if "q < Q" for q
    using lists_ok_walk [OF assms that] by (simp add: list_of_def)
  show "well_linked s" unfolding well_linked_def using assms eq by (subst lists_ok_cong [of Q _ L]) auto
qed

lemma push_well_linked:
  assumes "well_linked s" and "q < Q" and "a < N" and "\<And>r. r < Q \<Longrightarrow> a \<notin> set (list_of s r)"
  shows "well_linked (push a q s)"
    and "r < Q \<Longrightarrow> list_of (push a q s) r = (if r = q then a # list_of s q else list_of s r)"
proof -
  have ok: "lists_ok (nxt (push a q s)) (prv (push a q s)) (head (push a q s)) Q N
      ((list_of s)(q := a # list_of s q))"
    unfolding push_nxt [OF assms(2)] push_prv [OF assms(2)] push_head [OF assms(2)]
    using assms by (intro lists_ok_push) (auto simp: well_linked_def)
  show "well_linked (push a q s)" using ok by (rule well_linkedI)
  show "r < Q \<Longrightarrow> list_of (push a q s) r = (if r = q then a # list_of s q else list_of s r)"
    using well_linkedI(2) [OF ok] by simp
qed

lemma unlink_well_linked:
  assumes "well_linked s" and "q < Q" and "a \<in> set (list_of s q)"
  shows "well_linked (unlink a q s)"
    and "r < Q \<Longrightarrow> list_of (unlink a q s) r = (if r = q then remove1 a (list_of s q) else list_of s r)"
proof -
  have ok: "lists_ok (nxt (unlink a q s)) (prv (unlink a q s)) (head (unlink a q s)) Q N
      ((list_of s)(q := remove1 a (list_of s q)))"
    unfolding unlink_nxt [OF assms(2)] unlink_prv [OF assms(2)] unlink_head [OF assms(2)]
    using assms by (intro lists_ok_unlink) (auto simp: well_linked_def)
  show "well_linked (unlink a q s)" using ok by (rule well_linkedI)
  show "r < Q \<Longrightarrow> list_of (unlink a q s) r = (if r = q then remove1 a (list_of s q) else list_of s r)"
    using well_linkedI(2) [OF ok] by simp
qed

lemma well_linkedD:
  assumes "well_linked s" and "q < Q"
  shows "distinct (list_of s q)" and "set (list_of s q) \<subseteq> {..<N}"
    and "head s q = None \<longleftrightarrow> list_of s q = []"
    and "head s q = Some x \<Longrightarrow> list_of s q = x # tl (list_of s q)"
    and "r < Q \<Longrightarrow> q \<noteq> r \<Longrightarrow> set (list_of s q) \<inter> set (list_of s r) = {}"
    and "list_search (nxt s) x (head s q) = Some (x \<in> set (list_of s q))"
proof -
  have ok: "lists_ok (nxt s) (prv s) (head s) Q N (list_of s)" using assms(1) by (simp add: well_linked_def)
  show "distinct (list_of s q)" and "set (list_of s q) \<subseteq> {..<N}" and "head s q = None \<longleftrightarrow> list_of s q = []"
    and "r < Q \<Longrightarrow> q \<noteq> r \<Longrightarrow> set (list_of s q) \<inter> set (list_of s r) = {}"
    and "list_search (nxt s) x (head s q) = Some (x \<in> set (list_of s q))"
    using lists_okD [OF ok assms(2)] lists_ok_head_empty [OF ok assms(2)] list_search_dll by blast+
  show "list_of s q = x # tl (list_of s q)" if "head s q = Some x"
    using lists_ok_head_Some [OF ok assms(2) that] by auto
qed

lemma empty_well_linked:
  assumes "\<And>q. q < Q \<Longrightarrow> head s q = None"
  shows "well_linked s" and "q < Q \<Longrightarrow> list_of s q = []"
proof -
  have ok: "lists_ok (nxt s) (prv s) (head s) Q N (\<lambda>q. [])" using assms by (simp add: lists_ok_def)
  show "well_linked s" using ok by (rule well_linkedI)
  show "q < Q \<Longrightarrow> list_of s q = []" using well_linkedI(2) [OF ok] .
qed

lemma frame_well_linked:
  assumes "nxt s' = nxt s" and "prv s' = prv s" and "head s' = head s"
  shows "well_linked s' = well_linked s" and "list_of s' = list_of s"
proof -
  show "list_of s' = list_of s" using assms by (intro ext) (simp add: list_of_def)
  then show "well_linked s' = well_linked s" using assms by (simp add: well_linked_def)
qed

end

end
