(* ===== verification/Buddy.thy ===== *)
theory Buddy
  imports Intrusive
begin

unbundle bit_operations_syntax

text \<open>
  The buddy allocator, \<open>kernel/mm/buddy.c\<close>, over the 31744 pages from 4 MiB to 128 MiB. A
  \<open>buddy_page_t *\<close> is the index of the descriptor in \<open>page_descriptors\<close>; orders are natural
  numbers (the code compares them with \<open>MAX_ORDER\<close> before any use), addresses and the
  counters keep their width. A free list search that does not end is the result \<open>None\<close>.
\<close>

abbreviation (input) "BUDDY_START_ADDR \<equiv> (0x400000 :: u32)"
abbreviation (input) "BUDDY_END_ADDR \<equiv> (0x8000000 :: u32)"
abbreviation (input) "BUDDY_TOTAL_PAGES \<equiv> (31744 :: nat)"
abbreviation (input) "MAX_ORDER \<equiv> (11 :: nat)"

record buddy_page =
  bp_next :: "nat option"
  bp_prev :: "nat option"
  bp_order :: nat
  bp_flags :: u32
  bp_ref_count :: u32

record buddy =
  free_lists :: "nat \<Rightarrow> nat option"
  free_pages :: "nat \<Rightarrow> u32"
  total_free :: u64
  total_used :: u64
  page_descriptors :: "nat \<Rightarrow> buddy_page"
  buddy_initialized :: bool

subsection \<open>Helpers\<close>

definition addr_to_page :: "u32 \<Rightarrow> nat option" where
  "addr_to_page addr =
     (if addr < BUDDY_START_ADDR \<or> addr \<ge> BUDDY_END_ADDR then None
      else Some (unat ((addr - BUDDY_START_ADDR) div 4096)))"

definition page_to_addr :: "nat \<Rightarrow> u32" where
  "page_to_addr page = BUDDY_START_ADDR + of_nat page * 4096"

definition get_buddy :: "u32 \<Rightarrow> nat \<Rightarrow> u32" where
  "get_buddy addr order = addr XOR push_bit order 4096"

definition upd_page :: "(buddy_page \<Rightarrow> buddy_page) \<Rightarrow> nat \<Rightarrow> buddy \<Rightarrow> buddy" where
  "upd_page f i s = s\<lparr>page_descriptors := (page_descriptors s)(i := f (page_descriptors s i))\<rparr>"

definition page_next :: "buddy \<Rightarrow> nat \<Rightarrow> nat option" where
  "page_next s i = bp_next (page_descriptors s i)"

definition page_prev :: "buddy \<Rightarrow> nat \<Rightarrow> nat option" where
  "page_prev s i = bp_prev (page_descriptors s i)"

definition remove_from_free_list :: "nat \<Rightarrow> nat \<Rightarrow> buddy \<Rightarrow> buddy" where
  "remove_from_free_list page order s =
     (let s1 = (case bp_prev (page_descriptors s page) of
                  Some p \<Rightarrow> upd_page (bp_next_update (\<lambda>_. bp_next (page_descriptors s page))) p s
                | None \<Rightarrow> s\<lparr>free_lists := (free_lists s)(order := bp_next (page_descriptors s page))\<rparr>);
          s2 = (case bp_next (page_descriptors s1 page) of
                  Some n \<Rightarrow> upd_page (bp_prev_update (\<lambda>_. bp_prev (page_descriptors s1 page))) n s1
                | None \<Rightarrow> s1);
          s3 = upd_page (bp_prev_update (\<lambda>_. None)) page (upd_page (bp_next_update (\<lambda>_. None)) page s2)
      in s3\<lparr>free_pages := (free_pages s3)(order := free_pages s3 order - 1)\<rparr>)"

definition add_to_free_list :: "nat \<Rightarrow> nat \<Rightarrow> buddy \<Rightarrow> buddy" where
  "add_to_free_list page order s =
     (let s1 = upd_page (\<lambda>p. p\<lparr>bp_order := order, bp_next := free_lists s order, bp_prev := None\<rparr>) page s;
          s2 = (case free_lists s1 order of
                  Some h \<Rightarrow> upd_page (bp_prev_update (\<lambda>_. Some page)) h s1
                | None \<Rightarrow> s1)
      in s2\<lparr>free_lists := (free_lists s2)(order := Some page),
            free_pages := (free_pages s2)(order := free_pages s2 order + 1)\<rparr>)"

subsection \<open>Operations\<close>

definition buddy_init :: "buddy \<Rightarrow> buddy" where
  "buddy_init s =
     (if buddy_initialized s then s
      else
        let s1 = for_range 0 MAX_ORDER
                   (\<lambda>i s. s\<lparr>free_lists := (free_lists s)(i := None), free_pages := (free_pages s)(i := 0)\<rparr>) s;
            s2 = s1\<lparr>total_free := 0, total_used := 0\<rparr>;
            s3 = for_range 0 BUDDY_TOTAL_PAGES
                   (upd_page (\<lambda>p. p\<lparr>bp_next := None, bp_prev := None, bp_order := 0, bp_flags := 0,
                                 bp_ref_count := 0\<rparr>)) s2;
            max_block_size = push_bit (MAX_ORDER - 1) 4096 :: u32;
            num_max_blocks = (BUDDY_END_ADDR - BUDDY_START_ADDR) div max_block_size;
            s4 = for_range 0 (unat num_max_blocks)
                   (\<lambda>i s. case addr_to_page (BUDDY_START_ADDR + of_nat i * max_block_size) of
                       Some page \<Rightarrow> (add_to_free_list page (MAX_ORDER - 1) s)
                         \<lparr>total_free := total_free s + 2 ^ (MAX_ORDER - 1)\<rparr>
                     | None \<Rightarrow> s) s3
        in s4\<lparr>buddy_initialized := True\<rparr>)"

fun buddy_split :: "nat \<Rightarrow> nat \<Rightarrow> nat \<Rightarrow> buddy \<Rightarrow> buddy" where
  "buddy_split page order 0 s = s"
| "buddy_split page order (Suc cur) s =
     (if order < Suc cur then
        buddy_split page order cur
          (case addr_to_page (get_buddy (page_to_addr page) cur) of
             Some b \<Rightarrow> add_to_free_list b cur s
           | None \<Rightarrow> s)
      else s)"

definition buddy_alloc :: "nat \<Rightarrow> buddy \<Rightarrow> u32 \<times> buddy" where
  "buddy_alloc order s =
     (if \<not> buddy_initialized s \<or> order \<ge> MAX_ORDER then (0, s)
      else
        case first_from (\<lambda>k. free_lists s k \<noteq> None) order MAX_ORDER of
          None \<Rightarrow> (0, s)
        | Some current_order \<Rightarrow>
            let page = the (free_lists s current_order);
                s1 = remove_from_free_list page current_order s;
                s2 = buddy_split page order current_order s1;
                s3 = upd_page (\<lambda>p. p\<lparr>bp_order := order, bp_ref_count := 1, bp_flags := 0\<rparr>) page s2
            in (page_to_addr page,
                s3\<lparr>total_free := total_free s3 - 2 ^ order, total_used := total_used s3 + 2 ^ order\<rparr>))"

function buddy_coalesce :: "u32 \<Rightarrow> nat \<Rightarrow> nat \<Rightarrow> buddy \<Rightarrow> (nat \<times> nat \<times> buddy) option" where
  "buddy_coalesce addr page order s =
     (if order < MAX_ORDER - 1 then
        let buddy_addr = get_buddy addr order
        in case addr_to_page buddy_addr of
             None \<Rightarrow> Some (page, order, s)
           | Some b \<Rightarrow>
               if bp_order (page_descriptors s b) \<noteq> order \<or> bp_ref_count (page_descriptors s b) \<noteq> 0
               then Some (page, order, s)
               else (case list_search (page_next s) b (free_lists s order) of
                       None \<Rightarrow> None
                     | Some False \<Rightarrow> Some (page, order, s)
                     | Some True \<Rightarrow>
                         let s1 = remove_from_free_list b order s
                         in if buddy_addr < addr then buddy_coalesce buddy_addr b (Suc order) s1
                            else buddy_coalesce addr page (Suc order) s1)
      else Some (page, order, s))"
  by pat_completeness auto
termination
  by (relation "measure (\<lambda>(addr, page, order, s). MAX_ORDER - order)") auto

definition buddy_free :: "u32 \<Rightarrow> nat \<Rightarrow> buddy \<Rightarrow> buddy option" where
  "buddy_free addr order s =
     (if \<not> buddy_initialized s \<or> addr = 0 \<or> order \<ge> MAX_ORDER then Some s
      else case addr_to_page addr of
        None \<Rightarrow> Some s
      | Some page \<Rightarrow>
          let s1 = (if bp_ref_count (page_descriptors s page) > 0
                    then upd_page (\<lambda>p. p\<lparr>bp_ref_count := bp_ref_count p - 1\<rparr>) page s else s)
          in if bp_ref_count (page_descriptors s1 page) > 0 then Some s1
             else
               let s2 = s1\<lparr>total_free := total_free s1 + 2 ^ order, total_used := total_used s1 - 2 ^ order\<rparr>
               in case buddy_coalesce addr page order s2 of
                    None \<Rightarrow> None
                  | Some (page', order', s3) \<Rightarrow>
                      Some (add_to_free_list page' order' (upd_page (bp_order_update (\<lambda>_. order')) page' s3)))"

function get_order_loop :: "u32 \<Rightarrow> u32 \<Rightarrow> nat \<Rightarrow> nat" where
  "get_order_loop sz block_size order =
     (if block_size < sz \<and> order < MAX_ORDER - 1
      then get_order_loop sz (push_bit 1 block_size) (Suc order) else order)"
  by pat_completeness auto
termination
  by (relation "measure (\<lambda>(sz, block_size, order). MAX_ORDER - order)") auto

definition buddy_get_order :: "u32 \<Rightarrow> nat" where
  "buddy_get_order sz = get_order_loop sz 4096 0"

definition buddy_alloc_pages :: "u32 \<Rightarrow> buddy \<Rightarrow> u32 \<times> buddy" where
  "buddy_alloc_pages num_pages s =
     (if num_pages = 0 then (0, s) else buddy_alloc (buddy_get_order (num_pages * 4096)) s)"

definition buddy_free_pages :: "u32 \<Rightarrow> u32 \<Rightarrow> buddy \<Rightarrow> buddy option" where
  "buddy_free_pages addr num_pages s =
     (if addr = 0 \<or> num_pages = 0 then Some s
      else buddy_free addr (buddy_get_order (num_pages * 4096)) s)"

declare buddy_coalesce.simps [simp del] get_order_loop.simps [simp del]

subsection \<open>Blocks and tilings\<close>

text \<open>A block is a start page and an order; blocks are aligned to their size.\<close>

type_synonym block = "nat \<times> nat"

definition block_pages :: "block \<Rightarrow> nat set" where
  "block_pages b = {fst b ..< fst b + 2 ^ snd b}"

definition block_ok :: "block \<Rightarrow> bool" where
  "block_ok b \<longleftrightarrow> snd b < MAX_ORDER \<and> 2 ^ snd b dvd fst b"

definition tiling :: "block set \<Rightarrow> bool" where
  "tiling B \<longleftrightarrow> (\<forall>b \<in> B. block_ok b) \<and> (\<forall>p < BUDDY_TOTAL_PAGES. \<exists>b \<in> B. p \<in> block_pages b)
     \<and> (\<forall>b \<in> B. block_pages b \<subseteq> {..<BUDDY_TOTAL_PAGES})
     \<and> (\<forall>b \<in> B. \<forall>c \<in> B. b \<noteq> c \<longrightarrow> block_pages b \<inter> block_pages c = {})"

definition buddy_of :: "nat \<Rightarrow> nat \<Rightarrow> nat" where
  "buddy_of i k = (if even (i div 2 ^ k) then i + 2 ^ k else i - 2 ^ k)"

lemma mem_block_pages: "2 ^ k dvd i \<Longrightarrow> q \<in> block_pages (i, k) \<longleftrightarrow> q div 2 ^ k = i div 2 ^ k"
proof -
  assume "2 ^ k dvd i"
  then obtain a where i: "i = 2 ^ k * a" ..
  have "q div 2 ^ k = a \<longleftrightarrow> 2 ^ k * a \<le> q \<and> q < 2 ^ k * a + 2 ^ k"
    by (simp add: div_nat_eqI [symmetric] mult.commute) (metis add.commute div_nat_eqI dividend_less_times_div
      mult.commute mult_Suc times_div_less_eq_dividend zero_less_numeral zero_less_power)
  then show ?thesis by (simp add: i block_pages_def)
qed

lemma start_mem_block [simp]: "i \<in> block_pages (i, k)"
  by (simp add: block_pages_def)

lemma card_block_pages [simp]: "card (block_pages (i, k)) = 2 ^ k" and finite_block_pages [simp]: "finite (block_pages b)"
  by (simp_all add: block_pages_def)

lemma div_power_Suc: "(q :: nat) div 2 ^ Suc k = q div 2 ^ k div 2"
  by (simp add: div_mult2_eq [symmetric] mult.commute)

lemma block_pages_Suc:
  assumes "2 ^ Suc k dvd i"
  shows "block_pages (i, Suc k) = block_pages (i, k) \<union> block_pages (i + 2 ^ k, k)"
    and "block_pages (i, k) \<inter> block_pages (i + 2 ^ k, k) = {}"
  by (auto simp: block_pages_def)

lemma buddy_of_div: "buddy_of i k div 2 ^ k = (if even (i div 2 ^ k) then i div 2 ^ k + 1 else i div 2 ^ k - 1)"
proof (cases "even (i div 2 ^ k)")
  case False
  then have "2 ^ k \<le> i" by (metis div_less even_zero not_le)
  then have "i - 2 ^ k + 2 ^ k = i" by simp
  then have "i div 2 ^ k = (i - 2 ^ k) div 2 ^ k + 1"
    by (metis div_add_self2 power_not_zero zero_neq_numeral)
  with False show ?thesis by (simp add: buddy_of_def)
qed (simp add: buddy_of_def div_add_self2)

lemma buddy_of_div_Suc: "buddy_of i k div 2 ^ Suc k = i div 2 ^ Suc k"
  unfolding div_power_Suc buddy_of_div by (cases "even (i div 2 ^ k)") (auto elim!: evenE oddE)

lemma buddy_of_range:
  assumes "i < BUDDY_TOTAL_PAGES" and "k < 10"
  shows "buddy_of i k < BUDDY_TOTAL_PAGES"
proof -
  have split: "(1024 :: nat) = 2 ^ Suc k * 2 ^ (9 - k)" using assms(2) by (simp flip: power_add power_Suc)
  have "buddy_of i k div 1024 = i div 1024"
    unfolding split div_mult2_eq buddy_of_div_Suc ..
  moreover have "i div 1024 < 31" using assms(1) by (simp add: div_less_iff_less_mult)
  ultimately have "buddy_of i k div 1024 < 31" by simp
  then show ?thesis by (simp add: div_less_iff_less_mult)
qed

lemma buddy_of_neq: "buddy_of i k \<noteq> i"
proof
  assume "buddy_of i k = i"
  then show False using buddy_of_div [of i k] by (auto split: if_splits elim!: oddE)
qed

lemma buddy_of_aligned: "2 ^ k dvd i \<Longrightarrow> 2 ^ k dvd buddy_of i k"
  by (auto simp: buddy_of_def dvd_diff_nat)

lemma aligned_start: "2 ^ k dvd (i :: nat) \<Longrightarrow> i div 2 ^ k * 2 ^ k = i"
  by simp

lemma min_buddy_start:
  assumes "2 ^ k dvd i"
  shows "2 ^ Suc k dvd min i (buddy_of i k)"
    and "buddy_of i k < i \<Longrightarrow> i = buddy_of i k + 2 ^ k"
    and "\<not> buddy_of i k < i \<Longrightarrow> buddy_of i k = i + 2 ^ k"
proof -
  obtain a where i: "i = 2 ^ k * a" using assms ..
  have a: "i div 2 ^ k = a" by (simp add: i)
  show "2 ^ Suc k dvd min i (buddy_of i k)"
  proof (cases "even a")
    case True
    then obtain b where "a = 2 * b" ..
    then show ?thesis by (simp add: buddy_of_def a i)
  next
    case False
    then obtain b where "a = 2 * b + 1" ..
    then show ?thesis by (simp add: buddy_of_def a i min_def)
  qed
  show "buddy_of i k < i \<Longrightarrow> i = buddy_of i k + 2 ^ k" "\<not> buddy_of i k < i \<Longrightarrow> buddy_of i k = i + 2 ^ k"
    using a i by (auto simp: buddy_of_def split: if_splits elim!: oddE)
qed

lemma buddy_of_low: "2 ^ Suc k dvd i \<Longrightarrow> buddy_of i k = i + 2 ^ k"
proof -
  assume "2 ^ Suc k dvd i"
  then obtain a where "i = 2 ^ Suc k * a" ..
  then have "i div 2 ^ k = 2 * a" by simp
  then show ?thesis by (simp add: buddy_of_def)
qed

text \<open>Splitting a block in two halves and merging two halves keep a tiling a tiling.\<close>

lemma tilingD:
  assumes "tiling B"
  shows "b \<in> B \<Longrightarrow> block_ok b" and "b \<in> B \<Longrightarrow> block_pages b \<subseteq> {..<BUDDY_TOTAL_PAGES}"
    and "b \<in> B \<Longrightarrow> c \<in> B \<Longrightarrow> p \<in> block_pages b \<Longrightarrow> p \<in> block_pages c \<Longrightarrow> b = c"
    and "p < BUDDY_TOTAL_PAGES \<Longrightarrow> \<exists>b \<in> B. p \<in> block_pages b"
  using assms unfolding tiling_def by blast+

lemma tiling_start: "tiling B \<Longrightarrow> (i, k) \<in> B \<Longrightarrow> i < BUDDY_TOTAL_PAGES"
  using tilingD(2) [of B "(i, k)"] start_mem_block [of i k] by blast

lemma tilingI:
  assumes "\<And>b. b \<in> B \<Longrightarrow> block_ok b" and "\<And>b. b \<in> B \<Longrightarrow> block_pages b \<subseteq> {..<BUDDY_TOTAL_PAGES}"
    and "\<And>b c p. b \<in> B \<Longrightarrow> c \<in> B \<Longrightarrow> p \<in> block_pages b \<Longrightarrow> p \<in> block_pages c \<Longrightarrow> b = c"
    and "\<And>p. p < BUDDY_TOTAL_PAGES \<Longrightarrow> \<exists>b \<in> B. p \<in> block_pages b"
  shows "tiling B"
  using assms unfolding tiling_def by blast

lemma tiling_split:
  assumes B: "tiling (insert (i, Suc k) B)" and new: "(i, Suc k) \<notin> B"
  shows "tiling (insert (i, k) (insert (i + 2 ^ k, k) B))"
proof (rule tilingI)
  have ok: "block_ok (i, Suc k)" using B by (rule tilingD) simp
  then have al: "2 ^ Suc k dvd i" and k: "Suc k < MAX_ORDER" by (simp_all add: block_ok_def)
  note pages = block_pages_Suc [OF al]
  have out: "p \<notin> block_pages (i, Suc k)" if "b \<in> B" "p \<in> block_pages b" for b p
    using tilingD(3) [OF B, of b "(i, Suc k)" p] that new by auto
  show "block_ok b" if "b \<in> insert (i, k) (insert (i + 2 ^ k, k) B)" for b
    using that tilingD(1) [OF B, of b] k al by (auto simp: block_ok_def elim: dvdE)
  show "block_pages b \<subseteq> {..<BUDDY_TOTAL_PAGES}" if "b \<in> insert (i, k) (insert (i + 2 ^ k, k) B)" for b
    using that tilingD(2) [OF B, of "(i, Suc k)"] tilingD(2) [OF B, of b] pages by auto
  show "b = c" if "b \<in> insert (i, k) (insert (i + 2 ^ k, k) B)" "c \<in> insert (i, k) (insert (i + 2 ^ k, k) B)"
      "p \<in> block_pages b" "p \<in> block_pages c" for b c p
    using that tilingD(3) [OF B, of b c p] out [of b p] out [of c p] pages by auto
  show "\<exists>b \<in> insert (i, k) (insert (i + 2 ^ k, k) B). p \<in> block_pages b" if "p < BUDDY_TOTAL_PAGES" for p
    using tilingD(4) [OF B that] pages by auto
qed

lemma tiling_merge:
  assumes B: "tiling (insert (i, k) (insert (i + 2 ^ k, k) B))"
    and new: "(i, k) \<notin> B" "(i + 2 ^ k, k) \<notin> B" and al: "2 ^ Suc k dvd i" and k: "Suc k < MAX_ORDER"
  shows "tiling (insert (i, Suc k) B)"
proof (rule tilingI)
  note pages = block_pages_Suc [OF al]
  have out: "p \<notin> block_pages (i, Suc k)" if "b \<in> B" "p \<in> block_pages b" for b p
    using tilingD(3) [OF B, of b "(i, k)" p] tilingD(3) [OF B, of b "(i + 2 ^ k, k)" p] that new pages
    by auto
  show "block_ok b" if "b \<in> insert (i, Suc k) B" for b
    using that tilingD(1) [OF B, of b] k al by (auto simp: block_ok_def)
  show "block_pages b \<subseteq> {..<BUDDY_TOTAL_PAGES}" if "b \<in> insert (i, Suc k) B" for b
    using that tilingD(2) [OF B, of "(i, k)"] tilingD(2) [OF B, of "(i + 2 ^ k, k)"] tilingD(2) [OF B, of b] pages
    by auto
  show "b = c" if "b \<in> insert (i, Suc k) B" "c \<in> insert (i, Suc k) B"
      "p \<in> block_pages b" "p \<in> block_pages c" for b c p
    using that tilingD(3) [OF B, of b c p] out [of b p] out [of c p] by auto
  show "\<exists>b \<in> insert (i, Suc k) B. p \<in> block_pages b" if "p < BUDDY_TOTAL_PAGES" for p
    using tilingD(4) [OF B that] pages by auto
qed

subsection \<open>The free lists as intrusive lists\<close>

lemmas buddy_list_defs = remove_from_free_list_def add_to_free_list_def upd_page_def page_next_def page_prev_def

interpretation fl: intrusive_lists page_next page_prev free_lists add_to_free_list remove_from_free_list
    MAX_ORDER BUDDY_TOTAL_PAGES
  by unfold_locales
    (auto simp: buddy_list_defs Let_def relink_def fun_eq_iff split: option.splits)

definition free_list :: "buddy \<Rightarrow> nat \<Rightarrow> nat list" where
  "free_list s k = walk BUDDY_TOTAL_PAGES (page_next s) (free_lists s k)"

lemma fl_list [simp]: "fl.list_of s k = free_list s k"
  by (simp add: fl.list_of_def free_list_def)

lemma remove_frame [kernel_frame]:
  "bp_order (page_descriptors (remove_from_free_list i k s) j) = bp_order (page_descriptors s j)"
  "bp_ref_count (page_descriptors (remove_from_free_list i k s) j) = bp_ref_count (page_descriptors s j)"
  "free_pages (remove_from_free_list i k s) = (free_pages s)(k := free_pages s k - 1)"
  "total_free (remove_from_free_list i k s) = total_free s"
  "total_used (remove_from_free_list i k s) = total_used s"
  "buddy_initialized (remove_from_free_list i k s) = buddy_initialized s"
  by (auto simp: buddy_list_defs Let_def split: option.splits)

lemma add_frame [kernel_frame]:
  "bp_order (page_descriptors (add_to_free_list i k s) j) = (if j = i then k else bp_order (page_descriptors s j))"
  "bp_ref_count (page_descriptors (add_to_free_list i k s) j) = bp_ref_count (page_descriptors s j)"
  "free_pages (add_to_free_list i k s) = (free_pages s)(k := free_pages s k + 1)"
  "total_free (add_to_free_list i k s) = total_free s"
  "total_used (add_to_free_list i k s) = total_used s"
  "buddy_initialized (add_to_free_list i k s) = buddy_initialized s"
  by (auto simp: buddy_list_defs Let_def split: option.splits)

subsection \<open>Well-formed states\<close>

definition free_blocks :: "buddy \<Rightarrow> block set" where
  "free_blocks s = {(i, k). k < MAX_ORDER \<and> i \<in> set (free_list s k)}"

definition alloc_blocks :: "buddy \<Rightarrow> block set" where
  "alloc_blocks s = {(i, k). i < BUDDY_TOTAL_PAGES \<and> bp_ref_count (page_descriptors s i) \<noteq> 0
                            \<and> bp_order (page_descriptors s i) = k}"

text \<open>
  The blocks on the free lists, the allocated ones and those in \<open>T\<close>, which an operation holds in
  its hands, tile the managed range.
\<close>

definition buddy_wf :: "buddy \<Rightarrow> block set \<Rightarrow> bool" where
  "buddy_wf s T \<longleftrightarrow> fl.well_linked s
     \<and> (\<forall>(i, k) \<in> free_blocks s. bp_order (page_descriptors s i) = k \<and> bp_ref_count (page_descriptors s i) = 0)
     \<and> (\<forall>k < MAX_ORDER. unat (free_pages s k) = length (free_list s k))
     \<and> tiling (free_blocks s \<union> alloc_blocks s \<union> T)
     \<and> (free_blocks s \<union> alloc_blocks s) \<inter> T = {}"

lemma buddy_wfD:
  assumes "buddy_wf s T"
  shows "fl.well_linked s"
    and "(i, k) \<in> free_blocks s \<Longrightarrow> bp_order (page_descriptors s i) = k \<and> bp_ref_count (page_descriptors s i) = 0"
    and "k < MAX_ORDER \<Longrightarrow> unat (free_pages s k) = length (free_list s k)"
    and "tiling (free_blocks s \<union> alloc_blocks s \<union> T)"
    and "(free_blocks s \<union> alloc_blocks s) \<inter> T = {}" and "free_blocks s \<inter> alloc_blocks s = {}"
  using assms unfolding buddy_wf_def alloc_blocks_def by (auto split: prod.splits)

lemma wf_totals [simp]:
  "page_next (s\<lparr>total_free := a\<rparr>) = page_next s" "page_next (s\<lparr>total_used := a\<rparr>) = page_next s"
  "page_prev (s\<lparr>total_free := a\<rparr>) = page_prev s" "page_prev (s\<lparr>total_used := a\<rparr>) = page_prev s"
  "free_list (s\<lparr>total_free := a\<rparr>) = free_list s" "free_list (s\<lparr>total_used := a\<rparr>) = free_list s"
  "free_blocks (s\<lparr>total_free := a\<rparr>) = free_blocks s" "free_blocks (s\<lparr>total_used := a\<rparr>) = free_blocks s"
  "alloc_blocks (s\<lparr>total_free := a\<rparr>) = alloc_blocks s" "alloc_blocks (s\<lparr>total_used := a\<rparr>) = alloc_blocks s"
  "buddy_wf (s\<lparr>total_free := a\<rparr>) T = buddy_wf s T" "buddy_wf (s\<lparr>total_used := a\<rparr>) T = buddy_wf s T"
  "buddy_wf (s\<lparr>buddy_initialized := c\<rparr>) T = buddy_wf s T"
  "free_blocks (s\<lparr>buddy_initialized := c\<rparr>) = free_blocks s" "alloc_blocks (s\<lparr>buddy_initialized := c\<rparr>) = alloc_blocks s"
proof -
  have links: "page_next (s\<lparr>buddy_initialized := c\<rparr>) = page_next s" "page_prev (s\<lparr>buddy_initialized := c\<rparr>) = page_prev s"
    by (auto simp: page_next_def page_prev_def)
  then have "free_list (s\<lparr>buddy_initialized := c\<rparr>) = free_list s" by (intro ext) (simp add: free_list_def)
  note init_eq = links this
  then show init_blocks: "free_blocks (s\<lparr>buddy_initialized := c\<rparr>) = free_blocks s"
    "alloc_blocks (s\<lparr>buddy_initialized := c\<rparr>) = alloc_blocks s"
    by (auto simp: free_blocks_def alloc_blocks_def)
  show "buddy_wf (s\<lparr>buddy_initialized := c\<rparr>) T = buddy_wf s T"
    using fl.frame_well_linked(1) [of "s\<lparr>buddy_initialized := c\<rparr>" s] by (simp add: buddy_wf_def init_eq init_blocks)
  show next_eq: "page_next (s\<lparr>total_free := a\<rparr>) = page_next s" "page_next (s\<lparr>total_used := a\<rparr>) = page_next s"
    and prev_eq: "page_prev (s\<lparr>total_free := a\<rparr>) = page_prev s" "page_prev (s\<lparr>total_used := a\<rparr>) = page_prev s"
    by (auto simp: page_next_def page_prev_def)
  show list_eq: "free_list (s\<lparr>total_free := a\<rparr>) = free_list s" "free_list (s\<lparr>total_used := a\<rparr>) = free_list s"
    by (auto simp: free_list_def next_eq)
  show blocks_eq: "free_blocks (s\<lparr>total_free := a\<rparr>) = free_blocks s" "free_blocks (s\<lparr>total_used := a\<rparr>) = free_blocks s"
    by (auto simp: free_blocks_def list_eq)
  show alloc_eq: "alloc_blocks (s\<lparr>total_free := a\<rparr>) = alloc_blocks s" "alloc_blocks (s\<lparr>total_used := a\<rparr>) = alloc_blocks s"
    by (auto simp: alloc_blocks_def)
  show "buddy_wf (s\<lparr>total_free := a\<rparr>) T = buddy_wf s T" "buddy_wf (s\<lparr>total_used := a\<rparr>) T = buddy_wf s T"
    using fl.frame_well_linked(1) [of "s\<lparr>total_free := a\<rparr>" s] fl.frame_well_linked(1) [of "s\<lparr>total_used := a\<rparr>" s]
    by (simp_all add: buddy_wf_def next_eq prev_eq list_eq blocks_eq alloc_eq)
qed

lemma unat_power_small: "k < MAX_ORDER \<Longrightarrow> unat (2 ^ k :: u64) = 2 ^ k"
proof -
  assume "k < MAX_ORDER"
  then have "(2 :: nat) ^ k < 2 ^ 64" by (intro power_strict_increasing) auto
  then have "unat (of_nat (2 ^ k) :: u64) = 2 ^ k" by (intro unat_of_nat_small) simp
  then show ?thesis by (simp only: of_nat_power of_nat_numeral)
qed

lemma free_list_short:
  assumes "fl.well_linked s" and "k < MAX_ORDER"
  shows "length (free_list s k) \<le> BUDDY_TOTAL_PAGES"
proof -
  have "length (free_list s k) = card (set (free_list s k))"
    using fl.well_linkedD(1) [OF assms] by (simp add: distinct_card)
  also have "\<dots> \<le> BUDDY_TOTAL_PAGES" using card_mono [OF _ fl.well_linkedD(2) [OF assms]] by simp
  finally show ?thesis .
qed

text \<open>Taking a block off its free list.\<close>

lemma take_block:
  assumes wf: "buddy_wf s T" and b: "(i, k) \<in> free_blocks s"
  defines "s' \<equiv> remove_from_free_list i k s"
  shows "buddy_wf s' (insert (i, k) T)" and "free_blocks s' = free_blocks s - {(i, k)}"
    and "alloc_blocks s' = alloc_blocks s"
proof -
  have k: "k < MAX_ORDER" "i \<in> set (free_list s k)" using b by (auto simp: free_blocks_def)
  note u = fl.unlink_well_linked [OF buddy_wfD(1) [OF wf] k(1), of i, unfolded fl_list, OF k(2)]
  have dist: "distinct (free_list s k)" using fl.well_linkedD(1) [OF buddy_wfD(1) [OF wf] k(1)] by simp
  show free: "free_blocks s' = free_blocks s - {(i, k)}"
    using u(2) dist by (auto simp: free_blocks_def s'_def split: if_splits)
  show alloc: "alloc_blocks s' = alloc_blocks s" by (simp add: alloc_blocks_def s'_def kernel_frame)
  have "length (free_list s k) > 0" using k(2) by (cases "free_list s k") auto
  then have "unat (free_pages s' j) = length (free_list s' j)" if "j < MAX_ORDER" for j
    using u(2) [OF that] buddy_wfD(3) [OF wf that] k(2)
    by (auto simp: s'_def kernel_frame length_remove1 unat_dec_small)
  moreover have "free_blocks s' \<union> alloc_blocks s' \<union> insert (i, k) T = free_blocks s \<union> alloc_blocks s \<union> T"
    using b free alloc by auto
  ultimately show "buddy_wf s' (insert (i, k) T)"
    using wf u(1) b free alloc buddy_wfD(6) [OF wf] unfolding buddy_wf_def
    by (auto simp: s'_def kernel_frame)
qed

text \<open>Putting a block on a free list.\<close>

lemma put_block:
  assumes wf: "buddy_wf s (insert (i, k) T)" and new: "(i, k) \<notin> T"
  defines "s' \<equiv> add_to_free_list i k s"
  shows "buddy_wf s' T" and "free_blocks s' = insert (i, k) (free_blocks s)"
    and "alloc_blocks s' = alloc_blocks s"
proof -
  note tile = buddy_wfD(4) [OF wf]
  have ok: "block_ok (i, k)" using tile by (rule tilingD) simp
  then have k: "k < MAX_ORDER" by (simp add: block_ok_def)
  have i: "i < BUDDY_TOTAL_PAGES" using tiling_start [OF tile, of i k] by simp
  have alone: "(i, j) \<notin> free_blocks s \<union> alloc_blocks s" for j
  proof
    assume "(i, j) \<in> free_blocks s \<union> alloc_blocks s"
    moreover from this have "(i, j) = (i, k)" using tilingD(3) [OF tile, of "(i, j)" "(i, k)" i] by simp
    ultimately show False using buddy_wfD(5) [OF wf] by auto
  qed
  then have fresh: "i \<notin> set (free_list s r)" if "r < MAX_ORDER" for r
    using that by (auto simp: free_blocks_def)
  have ref: "bp_ref_count (page_descriptors s i) = 0" using alone i by (auto simp: alloc_blocks_def)
  have p: "fl.well_linked s'"
    "\<And>r. r < MAX_ORDER \<Longrightarrow> free_list s' r = (if r = k then i # free_list s k else free_list s r)"
    using fl.push_well_linked [OF buddy_wfD(1) [OF wf] k i, unfolded fl_list] fresh by (simp_all add: s'_def)
  show free: "free_blocks s' = insert (i, k) (free_blocks s)"
    using p(2) k by (auto simp: free_blocks_def split: if_splits)
  show alloc: "alloc_blocks s' = alloc_blocks s" using ref by (auto simp: alloc_blocks_def s'_def kernel_frame)
  have "unat (free_pages s' j) = length (free_list s' j)" if "j < MAX_ORDER" for j
    using p(2) [OF that] buddy_wfD(3) [OF wf that] free_list_short [OF buddy_wfD(1) [OF wf] that]
    by (auto simp: s'_def kernel_frame unat_word_ariths)
  moreover have "free_blocks s' \<union> alloc_blocks s' \<union> T = free_blocks s \<union> alloc_blocks s \<union> insert (i, k) T"
    using free alloc by auto
  moreover have "(free_blocks s' \<union> alloc_blocks s') \<inter> T = {}"
    using buddy_wfD(5) [OF wf] new free alloc by auto
  moreover have "bp_order (page_descriptors s' j) = m \<and> bp_ref_count (page_descriptors s' j) = 0"
    if "(j, m) \<in> free_blocks s'" for j m
    using that buddy_wfD(2) [OF wf] free ref alone by (auto simp: s'_def kernel_frame)
  ultimately show "buddy_wf s' T"
    using wf p(1) unfolding buddy_wf_def by auto
qed

text \<open>Splitting, merging, handing out and taking back the block in transit.\<close>

lemma split_transit:
  assumes wf: "buddy_wf s (insert (i, Suc k) T)" and new: "(i, Suc k) \<notin> T"
  shows "buddy_wf s (insert (i + 2 ^ k, k) (insert (i, k) T))"
    and "(i + 2 ^ k, k) \<notin> insert (i, k) T" and "(i, k) \<notin> T"
proof -
  let ?B = "free_blocks s \<union> alloc_blocks s \<union> T"
  have tile: "tiling (insert (i, Suc k) ?B)" using buddy_wfD(4) [OF wf] by simp
  have fresh: "(i, Suc k) \<notin> ?B" using buddy_wfD(5) [OF wf] new by auto
  have tile': "tiling (insert (i, k) (insert (i + 2 ^ k, k) ?B))" using tile fresh by (rule tiling_split)
  have half: "p \<in> block_pages (i, Suc k)" if "p = i \<or> p = i + 2 ^ k" for p
    using that by (auto simp: block_pages_def)
  have out: "(j, m) \<notin> ?B" if "j = i \<or> j = i + 2 ^ k" for j m
    using tilingD(3) [OF tile, of "(j, m)" "(i, Suc k)" j] half [OF that] fresh by auto
  show "buddy_wf s (insert (i + 2 ^ k, k) (insert (i, k) T))"
    using wf tile' out [of i k] out [of "i + 2 ^ k" k]
    unfolding buddy_wf_def by (auto simp: insert_commute)
  show "(i + 2 ^ k, k) \<notin> insert (i, k) T" "(i, k) \<notin> T" using out by auto
qed

lemma merge_transit:
  assumes wf: "buddy_wf s {(i, k), (i + 2 ^ k, k)}" and al: "2 ^ Suc k dvd i" and k: "Suc k < MAX_ORDER"
  shows "buddy_wf s {(i, Suc k)}"
proof -
  let ?B = "free_blocks s \<union> alloc_blocks s"
  have tile: "tiling (insert (i, k) (insert (i + 2 ^ k, k) ?B))" using buddy_wfD(4) [OF wf] by simp
  have new: "(i, k) \<notin> ?B" "(i + 2 ^ k, k) \<notin> ?B" using buddy_wfD(5) [OF wf] by auto
  have "tiling (insert (i, Suc k) ?B)" using tile new al k by (rule tiling_merge)
  moreover have "(i, Suc k) \<notin> ?B"
    using tilingD(3) [OF tile, of "(i, Suc k)" "(i, k)" i] by auto
  ultimately show ?thesis using wf unfolding buddy_wf_def by auto
qed

lemma mark_allocated:
  assumes wf: "buddy_wf s {(i, k)}"
  defines "s' \<equiv> upd_page (\<lambda>p. p\<lparr>bp_order := k, bp_ref_count := 1, bp_flags := 0\<rparr>) i s"
  shows "buddy_wf s' {}" and "free_blocks s' = free_blocks s" and "alloc_blocks s' = insert (i, k) (alloc_blocks s)"
proof -
  note tile = buddy_wfD(4) [OF wf]
  have i: "i < BUDDY_TOTAL_PAGES" using tiling_start [OF tile, of i k] by simp
  have alone: "(i, j) \<notin> free_blocks s \<union> alloc_blocks s" for j
    using tilingD(3) [OF tile, of "(i, j)" "(i, k)" i] buddy_wfD(5) [OF wf] by auto
  have links: "page_next s' = page_next s" "page_prev s' = page_prev s" "free_lists s' = free_lists s"
    by (auto simp: s'_def buddy_list_defs fun_eq_iff)
  have list: "free_list s' = free_list s" by (intro ext) (simp add: free_list_def links)
  show free: "free_blocks s' = free_blocks s" by (simp add: free_blocks_def list)
  have ref: "bp_ref_count (page_descriptors s i) = 0" using alone i by (auto simp: alloc_blocks_def)
  show alloc: "alloc_blocks s' = insert (i, k) (alloc_blocks s)"
    using i ref by (auto simp: alloc_blocks_def s'_def upd_page_def split: if_splits)
  have "fl.well_linked s'" using fl.frame_well_linked(1) [OF links] buddy_wfD(1) [OF wf] by simp
  moreover have "free_pages s' = free_pages s" by (simp add: s'_def upd_page_def)
  moreover have "bp_order (page_descriptors s' j) = m \<and> bp_ref_count (page_descriptors s' j) = 0"
    if "(j, m) \<in> free_blocks s'" for j m
    using that alone free buddy_wfD(2) [OF wf] by (auto simp: s'_def upd_page_def)
  moreover have "free_blocks s \<union> alloc_blocks s \<union> {(i, k)} = free_blocks s' \<union> alloc_blocks s' \<union> {}"
    using free alloc by auto
  ultimately show "buddy_wf s' {}"
    using wf list unfolding buddy_wf_def by auto
qed

lemma unmark_allocated:
  assumes wf: "buddy_wf s {}" and b: "(i, k) \<in> alloc_blocks s"
  defines "s' \<equiv> upd_page (\<lambda>p. p\<lparr>bp_ref_count := 0\<rparr>) i s"
  shows "buddy_wf s' {(i, k)}" and "free_blocks s' = free_blocks s" and "alloc_blocks s' = alloc_blocks s - {(i, k)}"
proof -
  have links: "page_next s' = page_next s" "page_prev s' = page_prev s" "free_lists s' = free_lists s"
    by (auto simp: s'_def buddy_list_defs fun_eq_iff)
  have list: "free_list s' = free_list s" by (intro ext) (simp add: free_list_def links)
  show free: "free_blocks s' = free_blocks s" by (simp add: free_blocks_def list)
  show alloc: "alloc_blocks s' = alloc_blocks s - {(i, k)}"
    using b by (auto simp: alloc_blocks_def s'_def upd_page_def split: if_splits)
  have "fl.well_linked s'" using fl.frame_well_linked(1) [OF links] buddy_wfD(1) [OF wf] by simp
  moreover have "free_pages s' = free_pages s" by (simp add: s'_def upd_page_def)
  moreover have "bp_order (page_descriptors s' j) = bp_order (page_descriptors s j)"
    "bp_ref_count (page_descriptors s j) = 0 \<longrightarrow> bp_ref_count (page_descriptors s' j) = 0" for j
    by (auto simp: s'_def upd_page_def)
  moreover have "free_blocks s \<union> alloc_blocks s \<union> {} = free_blocks s' \<union> alloc_blocks s' \<union> {(i, k)}"
    using free alloc b by auto
  moreover have "(free_blocks s' \<union> alloc_blocks s') \<inter> {(i, k)} = {}"
    using free alloc b buddy_wfD(6) [OF wf] by auto
  ultimately show "buddy_wf s' {(i, k)}"
    using wf free list unfolding buddy_wf_def by (auto split: prod.splits)
qed

subsection \<open>Addresses\<close>

lemma unat_page_to_addr:
  assumes "i < BUDDY_TOTAL_PAGES"
  shows "unat (page_to_addr i) = 0x400000 + i * 4096"
  using assms by (simp add: page_to_addr_def unat_word_ariths unat_of_nat)

lemma addr_to_page_of_page:
  assumes "i < BUDDY_TOTAL_PAGES"
  shows "addr_to_page (page_to_addr i) = Some i"
proof -
  have u: "unat (page_to_addr i) = 0x400000 + i * 4096" using assms by (rule unat_page_to_addr)
  then have "unat (page_to_addr i - 0x400000) = i * 4096" by (simp add: unat_minus_le word_le_nat_alt)
  with u assms show ?thesis by (simp add: addr_to_page_def word_less_nat_alt word_le_nat_alt unat_div)
qed

lemma xor_power: "(a :: 'a::len word) XOR push_bit n 1 = (if bit a n then a - 2 ^ n else a + 2 ^ n)"
  by (simp add: flip_bit_def [symmetric] flip_bit_eq_if set_bit_eq unset_bit_eq del: push_bit_of_1)

lemma bit_page_to_addr:
  assumes "i < BUDDY_TOTAL_PAGES" and "k < 10"
  shows "bit (page_to_addr i) (12 + k) \<longleftrightarrow> odd (i div 2 ^ k)"
proof -
  have "bit (page_to_addr i) (12 + k) \<longleftrightarrow> odd (unat (page_to_addr i) div 2 ^ (12 + k))"
    using assms(2) bit_unsigned_iff [where ?'a = nat and w = "page_to_addr i" and n = "12 + k"]
    by (simp add: bit_iff_odd)
  also have "unat (page_to_addr i) = (1024 + i) * 2 ^ 12"
    unfolding unat_page_to_addr [OF assms(1)] by simp
  also have "(1024 + i) * 2 ^ 12 div 2 ^ (12 + k) = (1024 + i) div 2 ^ k"
    unfolding power_add by (metis div_mult2_eq nonzero_mult_div_cancel_right power_not_zero zero_neq_numeral)
  also have "(1024 :: nat) = 2 ^ k * (2 * 2 ^ (9 - k))"
    using assms(2) by (simp flip: power_add power_Suc)
  finally show ?thesis by simp
qed

lemma get_buddy_page:
  assumes "i < BUDDY_TOTAL_PAGES" and "k < 10"
  shows "get_buddy (page_to_addr i) k = page_to_addr (buddy_of i k)"
proof -
  have "push_bit k (4096 :: u32) = push_bit (12 + k) 1"
    by (simp add: push_bit_eq_mult power_add)
  then have eq: "get_buddy (page_to_addr i) k =
      (if odd (i div 2 ^ k) then page_to_addr i - 2 ^ (12 + k) else page_to_addr i + 2 ^ (12 + k))"
    unfolding get_buddy_def by (simp only: xor_power bit_page_to_addr [OF assms])
  show ?thesis
  proof (cases "odd (i div 2 ^ k)")
    case True
    then have "2 ^ k \<le> i" by (metis div_less even_zero not_le)
    then show ?thesis using True eq by (simp add: buddy_of_def page_to_addr_def power_add algebra_simps of_nat_diff)
  next
    case False
    then show ?thesis using eq by (simp add: buddy_of_def page_to_addr_def power_add algebra_simps)
  qed
qed

lemma page_to_addr_less:
  "i < BUDDY_TOTAL_PAGES \<Longrightarrow> j < BUDDY_TOTAL_PAGES \<Longrightarrow> page_to_addr i < page_to_addr j \<longleftrightarrow> i < j"
  by (simp add: word_less_nat_alt unat_page_to_addr)

subsection \<open>Allocation\<close>

text \<open>The blocks that splitting \<open>(i, m)\<close> down to order \<open>k\<close> puts on the free lists.\<close>

definition split_blocks :: "nat \<Rightarrow> nat \<Rightarrow> nat \<Rightarrow> block set" where
  "split_blocks i k m = {(i + 2 ^ j, j) | j. k \<le> j \<and> j < m}"

lemma split_blocks_Suc: "k \<le> m \<Longrightarrow> split_blocks i k (Suc m) = insert (i + 2 ^ m, m) (split_blocks i k m)"
  by (auto simp: split_blocks_def less_Suc_eq)

lemma buddy_split_correct:
  assumes "buddy_wf s {(i, m)}" and "k \<le> m"
  shows "buddy_wf (buddy_split i k m s) {(i, k)}
    \<and> free_blocks (buddy_split i k m s) = free_blocks s \<union> split_blocks i k m
    \<and> alloc_blocks (buddy_split i k m s) = alloc_blocks s
    \<and> total_free (buddy_split i k m s) = total_free s \<and> total_used (buddy_split i k m s) = total_used s
    \<and> buddy_initialized (buddy_split i k m s) = buddy_initialized s
    \<and> (\<lambda>j. bp_ref_count (page_descriptors (buddy_split i k m s) j)) = (\<lambda>j. bp_ref_count (page_descriptors s j))"
  using assms
proof (induction m arbitrary: s)
  case 0
  then show ?case by (simp add: split_blocks_def)
next
  case (Suc m)
  show ?case
  proof (cases "k = Suc m")
    case True
    moreover have "split_blocks i (Suc m) (Suc m) = {}" by (auto simp: split_blocks_def)
    ultimately show ?thesis using Suc.prems by simp
  next
    case False
    then have k: "k \<le> m" using Suc.prems(2) by simp
    note tile = buddy_wfD(4) [OF Suc.prems(1)]
    have i: "i < BUDDY_TOTAL_PAGES" using tiling_start [OF tile, of i "Suc m"] by simp
    have ok: "block_ok (i, Suc m)" using tile by (rule tilingD) simp
    have buddy: "buddy_of i m = i + 2 ^ m" and m: "m < 10"
      using ok by (auto simp: block_ok_def buddy_of_low)
    have b: "addr_to_page (get_buddy (page_to_addr i) m) = Some (i + 2 ^ m)"
      using get_buddy_page [OF i m] addr_to_page_of_page [OF buddy_of_range [OF i m]] buddy by simp
    note tr = split_transit [OF Suc.prems(1)]
    have tr1: "buddy_wf s (insert (i + 2 ^ m, m) {(i, m)})" using tr(1) by simp
    have tr2: "(i + 2 ^ m, m) \<notin> {(i, m)}" by simp
    note put = put_block [OF tr1 tr2]
    from Suc.IH [OF put(1) k] put(2,3) b k show ?thesis
      by (simp add: kernel_frame split_blocks_Suc)
  qed
qed

definition free_set :: "buddy \<Rightarrow> nat set" where
  "free_set s = \<Union> (block_pages ` free_blocks s)"

definition used_set :: "buddy \<Rightarrow> nat set" where
  "used_set s = \<Union> (block_pages ` alloc_blocks s)"

text \<open>No two buddies are both free: the allocator always merges as far as it can.\<close>

definition coalesced :: "buddy \<Rightarrow> bool" where
  "coalesced s \<longleftrightarrow> (\<forall>i k. (i, k) \<in> free_blocks s \<longrightarrow> k < 10 \<longrightarrow> (buddy_of i k, k) \<notin> free_blocks s)"

definition buddy_inv :: "buddy \<Rightarrow> bool" where
  "buddy_inv s \<longleftrightarrow> buddy_initialized s \<and> buddy_wf s {} \<and> coalesced s
     \<and> unat (total_free s) = card (free_set s) \<and> unat (total_used s) = card (used_set s)
     \<and> (\<forall>j < BUDDY_TOTAL_PAGES. bp_ref_count (page_descriptors s j) \<le> 1)"

lemma wf_partition:
  assumes "buddy_wf s {}"
  shows "free_set s = {..<BUDDY_TOTAL_PAGES} - used_set s" and "used_set s \<subseteq> {..<BUDDY_TOTAL_PAGES}"
proof -
  have tile: "tiling (free_blocks s \<union> alloc_blocks s)" using buddy_wfD(4) [OF assms] by simp
  show "used_set s \<subseteq> {..<BUDDY_TOTAL_PAGES}"
    using tilingD(2) [OF tile] by (auto simp: used_set_def)
  show "free_set s = {..<BUDDY_TOTAL_PAGES} - used_set s"
  proof (intro set_eqI iffI)
    fix p assume "p \<in> free_set s"
    then obtain b where b: "b \<in> free_blocks s" "p \<in> block_pages b" by (auto simp: free_set_def)
    then have "p \<notin> block_pages c" if "c \<in> alloc_blocks s" for c
      using tilingD(3) [OF tile, of b c p] that buddy_wfD(6) [OF assms] by auto
    moreover have "p < BUDDY_TOTAL_PAGES" using tilingD(2) [OF tile, of b] b by auto
    ultimately show "p \<in> {..<BUDDY_TOTAL_PAGES} - used_set s" by (auto simp: used_set_def)
  next
    fix p assume "p \<in> {..<BUDDY_TOTAL_PAGES} - used_set s"
    then show "p \<in> free_set s" using tilingD(4) [OF tile, of p] by (auto simp: free_set_def used_set_def)
  qed
qed

lemma buddy_invD:
  assumes "buddy_inv s"
  shows "buddy_initialized s" and "buddy_wf s {}" and "coalesced s"
    and "unat (total_free s) = card (free_set s)" and "unat (total_used s) = card (used_set s)"
    and "j < BUDDY_TOTAL_PAGES \<Longrightarrow> bp_ref_count (page_descriptors s j) \<le> 1"
  using assms by (simp_all add: buddy_inv_def)

lemma buddy_of_buddy: "buddy_of (buddy_of i k) k = i"
proof (cases "even (i div 2 ^ k)")
  case True
  then show ?thesis using buddy_of_div [of i k] by (simp add: buddy_of_def)
next
  case False
  then have "2 ^ k \<le> i" by (metis div_less even_zero not_le)
  then show ?thesis using False buddy_of_div [of i k] by (simp add: buddy_of_def)
qed

text \<open>
  The heart of the buddy system: in a coalesced state an aligned run of free pages lies in one
  free block.
\<close>

lemma coalesced_region:
  assumes wf: "buddy_wf s {}" and co: "coalesced s" and k: "k < MAX_ORDER" and al: "2 ^ k dvd r"
    and region: "block_pages (r, k) \<subseteq> free_set s"
  shows "\<exists>j m. (j, m) \<in> free_blocks s \<and> k \<le> m \<and> r \<in> block_pages (j, m)"
proof (rule ccontr)
  assume none: "\<not> ?thesis"
  have tile: "tiling (free_blocks s \<union> alloc_blocks s)" using buddy_wfD(4) [OF wf] by simp
  have al': "2 ^ m dvd x" if "(x, m) \<in> free_blocks s" for x m
    using tilingD(1) [OF tile, of "(x, m)"] that by (auto simp: block_ok_def)
  have small: "m < k" if "(x, m) \<in> free_blocks s" "p \<in> block_pages (x, m)" "p div 2 ^ k = r div 2 ^ k" for x m p
  proof (rule ccontr)
    assume "\<not> m < k"
    then have m: "k \<le> m" by simp
    have "r div 2 ^ k div 2 ^ (m - k) = p div 2 ^ k div 2 ^ (m - k)" using that(3) by simp
    then have "r div 2 ^ m = p div 2 ^ m" using m by (simp add: div_mult2_eq [symmetric] power_add [symmetric])
    then have "r \<in> block_pages (x, m)" using that(2) mem_block_pages [OF al' [OF that(1)]] by simp
    with none that(1) m show False by blast
  qed
  have owner: "\<exists>x m. (x, m) \<in> free_blocks s \<and> p \<in> block_pages (x, m)" if "p div 2 ^ k = r div 2 ^ k" for p
    using that region mem_block_pages [OF al] by (fastforce simp: free_set_def)
  let ?P = "\<lambda>m. \<exists>x. (x, m) \<in> free_blocks s \<and> x div 2 ^ k = r div 2 ^ k"
  have up: "x div 2 ^ k = p div 2 ^ k"
    if "(x, m) \<in> free_blocks s" "p \<in> block_pages (x, m)" "p div 2 ^ k = r div 2 ^ k" for x m p
  proof -
    have "p div 2 ^ m = x div 2 ^ m" using mem_block_pages [OF al' [OF that(1)]] that(2) by simp
    then have "p div 2 ^ m div 2 ^ (k - m) = x div 2 ^ m div 2 ^ (k - m)" by simp
    then show ?thesis using small [OF that] by (simp add: div_mult2_eq [symmetric] power_add [symmetric])
  qed
  have "\<exists>m. ?P m" using owner [of r] up by metis
  then have ex: "?P (LEAST m. ?P m)" by (rule LeastI_ex)
  define m where "m = (LEAST m. ?P m)"
  obtain x where x: "(x, m) \<in> free_blocks s" "x div 2 ^ k = r div 2 ^ k" using ex by (auto simp: m_def)
  have m: "m < k" using small [OF x(1) _ x(2)] by simp
  let ?y = "buddy_of x m"
  have near: "?y div 2 ^ l = x div 2 ^ l" if "m < l" for l
  proof -
    have "?y div 2 ^ Suc m div 2 ^ (l - Suc m) = x div 2 ^ Suc m div 2 ^ (l - Suc m)"
      by (simp only: buddy_of_div_Suc)
    then show ?thesis using that by (simp add: div_mult2_eq [symmetric] power_add [symmetric] flip: power_Suc)
  qed
  then have y: "?y div 2 ^ k = r div 2 ^ k" using m x(2) by simp
  then obtain z l where z: "(z, l) \<in> free_blocks s" "?y \<in> block_pages (z, l)" using owner by blast
  have "m \<le> l" unfolding m_def using z(1) up [OF z y] y by (intro Least_le) auto
  moreover have "\<not> m < l"
  proof
    assume "m < l"
    then have "x \<in> block_pages (z, l)" using near z mem_block_pages [OF al' [OF z(1)]] by simp
    then have "(x, m) = (z, l)" using tilingD(3) [OF tile, of "(x, m)" "(z, l)" x] x(1) z(1) by simp
    with \<open>m < l\<close> show False by simp
  qed
  ultimately have "l = m" by simp
  then have "?y div 2 ^ m = z div 2 ^ m" using z mem_block_pages [OF al' [OF z(1)]] by simp
  then have "?y = z" using al' [OF z(1)] buddy_of_aligned [OF al' [OF x(1)]] \<open>l = m\<close>
    by (metis dvd_div_mult_self)
  then show False using co z(1) x(1) \<open>l = m\<close> m k by (auto simp: coalesced_def)
qed

lemma free_head_block:
  assumes "buddy_wf s T" and "k < MAX_ORDER" and "free_lists s k = Some i"
  shows "(i, k) \<in> free_blocks s"
proof -
  have "free_list s k = i # tl (free_list s k)"
    using fl.well_linkedD(4) [OF buddy_wfD(1) [OF assms(1)] assms(2,3)] by simp
  then show ?thesis using assms(2) by (auto simp: free_blocks_def) (metis list.set_intros(1))
qed

lemma coalesced_after_split:
  assumes wf': "buddy_wf s' {}" and co: "coalesced s" and al: "2 ^ m dvd i"
    and free: "free_blocks s' \<subseteq> free_blocks s \<union> split_blocks i k m" and used: "(i, k) \<in> alloc_blocks s'"
  shows "coalesced s'"
  unfolding coalesced_def
proof (intro allI impI notI)
  fix x j
  assume x: "(x, j) \<in> free_blocks s'" "j < 10" and y: "(buddy_of x j, j) \<in> free_blocks s'"
  have tile: "tiling (free_blocks s' \<union> alloc_blocks s')" using buddy_wfD(4) [OF wf'] by simp
  have i: "(i, j) \<notin> free_blocks s'"
    using tilingD(3) [OF tile, of "(i, j)" "(i, k)" i] used buddy_wfD(6) [OF wf'] by auto
  have low: "buddy_of (i + 2 ^ j) j = i" if "j < m"
  proof -
    have "2 ^ Suc j dvd i" using al that by (meson Suc_leI dvd_trans le_imp_power_dvd)
    then show ?thesis using buddy_of_low [of j i] buddy_of_buddy [of i j] by simp
  qed
  have "(x, j) \<notin> split_blocks i k m" using low y i by (auto simp: split_blocks_def)
  moreover have "(buddy_of x j, j) \<notin> split_blocks i k m"
    using low x(1) i buddy_of_buddy [of x j] by (auto simp: split_blocks_def)
  ultimately show False using x y free co by (auto simp: coalesced_def)
qed

lemma buddy_alloc_none:
  assumes "buddy_inv s" and "k < MAX_ORDER" and "\<And>j m. (j, m) \<in> free_blocks s \<Longrightarrow> m < k"
  shows "buddy_alloc k s = (0, s)"
proof -
  have "free_lists s m = None" if "k \<le> m" "m < MAX_ORDER" for m
  proof (rule ccontr)
    assume "free_lists s m \<noteq> None"
    then obtain a where "free_lists s m = Some a" by auto
    then have "(a, m) \<in> free_blocks s" by (rule free_head_block [OF buddy_invD(2) [OF assms(1)] that(2)])
    then have "m < k" by (rule assms(3))
    with that show False by simp
  qed
  then have "first_from (\<lambda>k. free_lists s k \<noteq> None) k MAX_ORDER = None"
    by (simp add: first_from_None_iff)
  then show ?thesis by (simp add: buddy_alloc_def)
qed

text \<open>The counters follow when a block changes hands.\<close>

lemma account_alloc:
  assumes inv: "buddy_inv s" and wf': "buddy_wf s' {}" and k: "k < MAX_ORDER"
    and alloc: "alloc_blocks s' = insert (i, k) (alloc_blocks s)" and sub: "block_pages (i, k) \<subseteq> free_set s"
    and tot: "total_free s' = total_free s - 2 ^ k" "total_used s' = total_used s + 2 ^ k"
  shows "free_set s' = free_set s - block_pages (i, k)"
    and "unat (total_free s') = card (free_set s')" and "unat (total_used s') = card (used_set s')"
proof -
  note wf = buddy_invD(2) [OF inv]
  have used: "used_set s' = used_set s \<union> block_pages (i, k)" unfolding used_set_def alloc by auto
  show fset: "free_set s' = free_set s - block_pages (i, k)"
    using wf_partition(1) [OF wf'] wf_partition(1) [OF wf] used by auto
  have fin: "finite (free_set s)" "finite (used_set s)"
    using wf_partition [OF wf] finite_subset by auto
  have disj: "used_set s \<inter> block_pages (i, k) = {}" using sub wf_partition(1) [OF wf] by auto
  have cards: "card (free_set s') = card (free_set s) - 2 ^ k" "card (used_set s') = card (used_set s) + 2 ^ k"
    using fin sub disj by (simp_all add: fset used card_Diff_subset card_Un_disjoint)
  have "2 ^ k \<le> card (free_set s)" using card_mono [OF fin(1) sub] by simp
  then show "unat (total_free s') = card (free_set s')"
    using cards(1) buddy_invD(4) [OF inv] unat_power_small [OF k]
    by (simp add: tot unat_minus_le word_le_nat_alt)
  have "card (used_set s') \<le> BUDDY_TOTAL_PAGES" using card_mono [OF _ wf_partition(2) [OF wf']] by simp
  then show "unat (total_used s') = card (used_set s')"
    using cards(2) buddy_invD(5) [OF inv] unat_power_small [OF k] by (simp add: tot unat_plus_small)
qed

lemma account_free:
  assumes inv: "buddy_inv s" and wf': "buddy_wf s' {}" and b: "(i, k) \<in> alloc_blocks s"
    and alloc: "alloc_blocks s' = alloc_blocks s - {(i, k)}"
    and tot: "total_free s' = total_free s + 2 ^ k" "total_used s' = total_used s - 2 ^ k"
  shows "free_set s' = free_set s \<union> block_pages (i, k)"
    and "unat (total_free s') = card (free_set s')" and "unat (total_used s') = card (used_set s')"
proof -
  note wf = buddy_invD(2) [OF inv]
  have tile: "tiling (free_blocks s \<union> alloc_blocks s)" using buddy_wfD(4) [OF wf] by simp
  have k: "k < MAX_ORDER" using tilingD(1) [OF tile, of "(i, k)"] b by (simp add: block_ok_def)
  have sub: "block_pages (i, k) \<subseteq> used_set s" using b by (auto simp: used_set_def)
  have used: "used_set s' = used_set s - block_pages (i, k)"
    using tilingD(3) [OF tile, of _ "(i, k)"] b unfolding used_set_def alloc by blast
  show fset: "free_set s' = free_set s \<union> block_pages (i, k)"
    using wf_partition [OF wf'] wf_partition [OF wf] used sub by auto
  have fin: "finite (free_set s)" "finite (used_set s)"
    using wf_partition [OF wf] finite_subset by auto
  have disj: "free_set s \<inter> block_pages (i, k) = {}" using sub wf_partition(1) [OF wf] by auto
  have cards: "card (used_set s') = card (used_set s) - 2 ^ k" "card (free_set s') = card (free_set s) + 2 ^ k"
    using fin sub disj by (simp_all add: fset used card_Diff_subset card_Un_disjoint)
  have "2 ^ k \<le> card (used_set s)" using card_mono [OF fin(2) sub] by simp
  then show "unat (total_used s') = card (used_set s')"
    using cards(1) buddy_invD(5) [OF inv] unat_power_small [OF k]
    by (simp add: tot unat_minus_le word_le_nat_alt)
  have "free_set s' \<subseteq> {..<BUDDY_TOTAL_PAGES}" using wf_partition(1) [OF wf'] by auto
  then have "card (free_set s') \<le> BUDDY_TOTAL_PAGES" using card_mono [of "{..<BUDDY_TOTAL_PAGES}"] by simp
  then show "unat (total_free s') = card (free_set s')"
    using cards(2) buddy_invD(4) [OF inv] unat_power_small [OF k] by (simp add: tot unat_plus_small)
qed

text \<open>The block \<open>buddy_alloc\<close> works on: the head of the first non-empty list from \<open>k\<close> on.\<close>

lemma buddy_alloc_run:
  assumes inv: "buddy_inv s" and k: "k < MAX_ORDER" and ex: "(j0, m0) \<in> free_blocks s" "k \<le> m0"
  obtains i m s' where "buddy_alloc k s = (page_to_addr i, s')" and "(i, m) \<in> free_blocks s" and "k \<le> m"
    and "buddy_wf s' {}" and "alloc_blocks s' = insert (i, k) (alloc_blocks s)"
    and "free_blocks s' = free_blocks s - {(i, m)} \<union> split_blocks i k m"
    and "total_free s' = total_free s - 2 ^ k" and "total_used s' = total_used s + 2 ^ k" and "buddy_initialized s'"
    and "\<And>j. j < BUDDY_TOTAL_PAGES \<Longrightarrow> bp_ref_count (page_descriptors s' j) \<le> 1"
proof -
  note wf = buddy_invD(2) [OF inv]
  have "m0 < MAX_ORDER" "free_lists s m0 \<noteq> None"
    using ex(1) fl.well_linkedD(3) [OF buddy_wfD(1) [OF wf], of m0] by (auto simp: free_blocks_def)
  then have "first_from (\<lambda>k. free_lists s k \<noteq> None) k MAX_ORDER \<noteq> None"
    using ex(2) by (auto simp: first_from_None_iff)
  then obtain m where m: "first_from (\<lambda>k. free_lists s k \<noteq> None) k MAX_ORDER = Some m" by auto
  then have km: "k \<le> m" "m < MAX_ORDER" "free_lists s m \<noteq> None" by (auto dest: first_from_SomeD)
  then obtain i where i: "free_lists s m = Some i" by auto
  have b: "(i, m) \<in> free_blocks s" using wf km(2) i by (rule free_head_block)
  note take = take_block [OF wf b]
  define s2 where "s2 = buddy_split i k m (remove_from_free_list i m s)"
  note split = buddy_split_correct [OF take(1) km(1), folded s2_def]
  define s3 where "s3 = upd_page (\<lambda>p. p\<lparr>bp_order := k, bp_ref_count := 1, bp_flags := 0\<rparr>) i s2"
  note mark = mark_allocated [of s2 i k, folded s3_def]
  have tot: "total_free s3 = total_free s" "total_used s3 = total_used s" "buddy_initialized s3"
    using split buddy_invD(1) [OF inv] by (simp_all add: s3_def upd_page_def kernel_frame)
  have "(\<lambda>j. bp_ref_count (page_descriptors s2 j)) = (\<lambda>j. bp_ref_count (page_descriptors s j))"
    using split by (simp add: kernel_frame)
  then have ref: "bp_ref_count (page_descriptors s3 j) \<le> 1" if "j < BUDDY_TOTAL_PAGES" for j
    using that buddy_invD(6) [OF inv, of j] by (auto simp: s3_def upd_page_def dest: fun_cong [where x = j])
  let ?s' = "s3\<lparr>total_free := total_free s3 - 2 ^ k, total_used := total_used s3 + 2 ^ k\<rparr>"
  have "buddy_alloc k s = (page_to_addr i, ?s')"
    using buddy_invD(1) [OF inv] k m i by (simp add: buddy_alloc_def Let_def s3_def s2_def)
  then show thesis
    by (rule that [OF _ b km(1)]) (use split take mark tot ref in simp_all)
qed

lemma buddy_alloc_some:
  assumes inv: "buddy_inv s" and k: "k < MAX_ORDER" and ex: "(j0, m0) \<in> free_blocks s" "k \<le> m0"
  obtains i s' where "buddy_alloc k s = (page_to_addr i, s')" and "buddy_inv s'" and "i < BUDDY_TOTAL_PAGES"
    and "2 ^ k dvd i" and "block_pages (i, k) \<subseteq> free_set s"
    and "alloc_blocks s' = insert (i, k) (alloc_blocks s)" and "(i, k) \<notin> alloc_blocks s"
    and "free_set s' = free_set s - block_pages (i, k)"
proof (rule buddy_alloc_run [OF assms])
  fix i m s'
  assume run: "buddy_alloc k s = (page_to_addr i, s')" and b: "(i, m) \<in> free_blocks s" and km: "k \<le> m"
    and wf': "buddy_wf s' {}" and alloc: "alloc_blocks s' = insert (i, k) (alloc_blocks s)"
    and free: "free_blocks s' = free_blocks s - {(i, m)} \<union> split_blocks i k m"
    and tot: "total_free s' = total_free s - 2 ^ k" "total_used s' = total_used s + 2 ^ k" and ini: "buddy_initialized s'"
    and ref: "\<And>j. j < BUDDY_TOTAL_PAGES \<Longrightarrow> bp_ref_count (page_descriptors s' j) \<le> 1"
  note wf = buddy_invD(2) [OF inv]
  have tile: "tiling (free_blocks s \<union> alloc_blocks s)" using buddy_wfD(4) [OF wf] by simp
  have i': "i < BUDDY_TOTAL_PAGES" "2 ^ m dvd i"
    using tiling_start [OF tile, of i m] tilingD(1) [OF tile, of "(i, m)"] b by (auto simp: block_ok_def)
  have "(2 :: nat) ^ k \<le> 2 ^ m" using km by simp
  then have "block_pages (i, k) \<subseteq> block_pages (i, m)" by (auto simp: block_pages_def)
  then have sub: "block_pages (i, k) \<subseteq> free_set s" using b by (auto simp: free_set_def)
  note acc = account_alloc [OF inv wf' k alloc sub tot]
  have "coalesced s'"
    by (rule coalesced_after_split [OF wf' buddy_invD(3) [OF inv] i'(2), of k]) (auto simp: free alloc)
  then have "buddy_inv s'" using wf' ini acc ref by (simp add: buddy_inv_def)
  moreover have "2 ^ k dvd i" using i'(2) km by (meson dvd_trans le_imp_power_dvd)
  moreover have "(i, k) \<notin> alloc_blocks s"
    using tilingD(3) [OF tile, of "(i, k)" "(i, m)" i] b buddy_wfD(6) [OF wf] by auto
  ultimately show thesis using that run i'(1) sub alloc acc(1) by blast
qed

text \<open>
  C23. \<open>buddy_alloc\<close> is complete and safe: it succeeds exactly when some aligned run of
  \<open>2^order\<close> pages is free, however the free memory is cut up; the block it returns is aligned to
  its size, lies in the managed range, was free, and is the only thing that changes
  hands. When there is no such run it returns 0 and changes nothing.
\<close>

theorem buddy_alloc_correct:
  assumes "buddy_inv s" and "k < MAX_ORDER"
  shows "case buddy_alloc k s of (a, s') \<Rightarrow>
     if \<exists>r. 2 ^ k dvd r \<and> block_pages (r, k) \<subseteq> free_set s
     then buddy_inv s' \<and> unat a mod (4096 * 2 ^ k) = 0 \<and> a \<noteq> 0
       \<and> (\<exists>i. addr_to_page a = Some i \<and> block_pages (i, k) \<subseteq> free_set s
            \<and> alloc_blocks s' = insert (i, k) (alloc_blocks s) \<and> (i, k) \<notin> alloc_blocks s
            \<and> free_set s' = free_set s - block_pages (i, k))
     else a = 0 \<and> s' = s"
proof (cases "\<exists>j m. (j, m) \<in> free_blocks s \<and> k \<le> m")
  case True
  then obtain j0 m0 where ex: "(j0, m0) \<in> free_blocks s" "k \<le> m0" by auto
  show ?thesis
  proof (rule buddy_alloc_some [OF assms ex])
    fix i s'
    assume r: "buddy_alloc k s = (page_to_addr i, s')" "buddy_inv s'" "i < BUDDY_TOTAL_PAGES" "2 ^ k dvd i"
      "block_pages (i, k) \<subseteq> free_set s" "alloc_blocks s' = insert (i, k) (alloc_blocks s)"
      "(i, k) \<notin> alloc_blocks s" "free_set s' = free_set s - block_pages (i, k)"
    have u: "unat (page_to_addr i) = (1024 + i) * 4096" using unat_page_to_addr [OF r(3)] by simp
    have "(1024 :: nat) = 2 ^ k * 2 ^ (10 - k)" using assms(2) by (simp flip: power_add)
    then have "2 ^ k dvd 1024 + i" using r(4) by (metis dvd_add dvd_triv_left)
    then have "2 ^ k * 4096 dvd (1024 + i) * 4096" by (intro mult_dvd_mono) simp_all
    then have "unat (page_to_addr i) mod (4096 * 2 ^ k) = 0"
      unfolding u mult.commute [of 4096 "2 ^ k"] by (rule dvd_imp_mod_0)
    moreover have "page_to_addr i \<noteq> 0" using u by auto
    ultimately show ?thesis using r addr_to_page_of_page [OF r(3)] by auto
  qed
next
  case False
  then have "\<not> (\<exists>r. 2 ^ k dvd r \<and> block_pages (r, k) \<subseteq> free_set s)"
    using coalesced_region [OF buddy_invD(2,3) [OF assms(1)] assms(2)] by blast
  moreover have "buddy_alloc k s = (0, s)"
    using buddy_alloc_none [OF assms] False by (meson not_le)
  ultimately show ?thesis by simp
qed

subsection \<open>Release\<close>

lemma buddy_coalesce_correct:
  assumes "buddy_wf s {(i, k)}" and "coalesced s"
  shows "\<exists>i' k' s'. buddy_coalesce (page_to_addr i) i k s = Some (i', k', s')
    \<and> buddy_wf s' {(i', k')} \<and> coalesced s' \<and> (k' < 10 \<longrightarrow> (buddy_of i' k', k') \<notin> free_blocks s')
    \<and> alloc_blocks s' = alloc_blocks s \<and> total_free s' = total_free s \<and> total_used s' = total_used s
    \<and> buddy_initialized s' = buddy_initialized s
    \<and> (\<lambda>j. bp_ref_count (page_descriptors s' j)) = (\<lambda>j. bp_ref_count (page_descriptors s j))"
  using assms
proof (induction "10 - k" arbitrary: i k s)
  case 0
  then have "buddy_coalesce (page_to_addr i) i k s = Some (i, k, s)"
    by (subst buddy_coalesce.simps) simp
  with 0 show ?case by auto
next
  case (Suc n)
  then have k: "k < 10" by simp
  note wf = Suc.prems(1)
  note tile = buddy_wfD(4) [OF wf]
  have i: "i < BUDDY_TOTAL_PAGES" using tiling_start [OF tile, of i k] by simp
  have al: "2 ^ k dvd i" using tilingD(1) [OF tile, of "(i, k)"] by (simp add: block_ok_def)
  let ?b = "buddy_of i k"
  have b: "?b < BUDDY_TOTAL_PAGES" using buddy_of_range [OF i k] .
  note ga = get_buddy_page [OF i k] addr_to_page_of_page [OF b]
  have search: "list_search (page_next s) ?b (free_lists s k) = Some ((?b, k) \<in> free_blocks s)"
    using fl.well_linkedD(6) [OF buddy_wfD(1) [OF wf], of k ?b] k by (simp add: free_blocks_def)
  show ?case
  proof (cases "(?b, k) \<in> free_blocks s")
    case False
    then have "buddy_coalesce (page_to_addr i) i k s = Some (i, k, s)"
      using k ga search by (subst buddy_coalesce.simps) (simp add: Let_def)
    with False Suc.prems show ?thesis by auto
  next
    case True
    note take = take_block [OF wf True]
    let ?s1 = "remove_from_free_list ?b k s"
    let ?i = "min i ?b"
    have co: "coalesced ?s1" using Suc.prems(2) take(2) by (auto simp: coalesced_def)
    have "insert (?b, k) {(i, k)} = {(?i, k), (?i + 2 ^ k, k)}"
      using min_buddy_start(2,3) [OF al] by (cases "?b < i") (auto simp: min_def)
    then have "buddy_wf ?s1 {(?i, Suc k)}"
      using take(1) min_buddy_start(1) [OF al] k by (intro merge_transit) auto
    from Suc.hyps(1) [OF _ this co] Suc.hyps(2) take(3)
    have ih: "\<exists>i' k' s'. buddy_coalesce (page_to_addr ?i) ?i (Suc k) ?s1 = Some (i', k', s')
      \<and> buddy_wf s' {(i', k')} \<and> coalesced s' \<and> (k' < 10 \<longrightarrow> (buddy_of i' k', k') \<notin> free_blocks s')
      \<and> alloc_blocks s' = alloc_blocks s \<and> total_free s' = total_free s \<and> total_used s' = total_used s
      \<and> buddy_initialized s' = buddy_initialized s
      \<and> (\<lambda>j. bp_ref_count (page_descriptors s' j)) = (\<lambda>j. bp_ref_count (page_descriptors s j))"
      by (simp add: kernel_frame)
    have "bp_order (page_descriptors s ?b) = k" "bp_ref_count (page_descriptors s ?b) = 0"
      using buddy_wfD(2) [OF wf True] by auto
    then have "buddy_coalesce (page_to_addr i) i k s = buddy_coalesce (page_to_addr ?i) ?i (Suc k) ?s1"
      using k ga search True page_to_addr_less [OF b i]
      by (subst buddy_coalesce.simps) (simp add: Let_def min_def)
    with ih show ?thesis by simp
  qed
qed

lemma coalesced_put:
  assumes "coalesced s" and "k < 10 \<longrightarrow> (buddy_of i k, k) \<notin> free_blocks s"
    and "free_blocks s' = insert (i, k) (free_blocks s)"
  shows "coalesced s'"
  unfolding coalesced_def
proof (intro allI impI)
  fix x j
  assume x: "(x, j) \<in> free_blocks s'" "j < 10"
  show "(buddy_of x j, j) \<notin> free_blocks s'"
  proof (cases "(x, j) = (i, k)")
    case True
    then show ?thesis using x assms buddy_of_neq [of i k] by auto
  next
    case False
    then have "(buddy_of x j, j) \<notin> free_blocks s" using x assms by (auto simp: coalesced_def)
    moreover have "(buddy_of x j, j) \<noteq> (i, k)"
      using False x assms buddy_of_buddy [of x j] by auto
    ultimately show ?thesis using assms(3) by simp
  qed
qed

lemma add_to_free_list_order:
  "add_to_free_list i k (upd_page (bp_order_update (\<lambda>_. m)) i s) = add_to_free_list i k s"
  by (simp add: add_to_free_list_def upd_page_def Let_def)

lemma buddy_free_block:
  assumes inv: "buddy_inv s" and b: "(i, k) \<in> alloc_blocks s"
  shows "\<exists>s'. buddy_free (page_to_addr i) k s = Some s' \<and> buddy_inv s'
     \<and> alloc_blocks s' = alloc_blocks s - {(i, k)}
     \<and> free_set s' = free_set s \<union> block_pages (i, k)"
proof -
  note wf = buddy_invD(2) [OF inv]
  have tile: "tiling (free_blocks s \<union> alloc_blocks s)" using buddy_wfD(4) [OF wf] by simp
  have i: "i < BUDDY_TOTAL_PAGES" and k: "k < MAX_ORDER"
    using tiling_start [OF tile, of i k] tilingD(1) [OF tile, of "(i, k)"] b by (auto simp: block_ok_def)
  have ref: "bp_ref_count (page_descriptors s i) = 1"
    using buddy_invD(6) [OF inv i] b by (auto simp: alloc_blocks_def word_le_nat_alt word_unat_eq_iff)
  define s1 where "s1 = upd_page (\<lambda>p. p\<lparr>bp_ref_count := 0\<rparr>) i s"
  note un = unmark_allocated [OF wf b, folded s1_def]
  define s2 where "s2 = s1\<lparr>total_free := total_free s1 + 2 ^ k, total_used := total_used s1 - 2 ^ k\<rparr>"
  have "buddy_wf s2 {(i, k)}" "coalesced s2"
    using un(1,2) buddy_invD(3) [OF inv] by (simp_all add: s2_def coalesced_def)
  from buddy_coalesce_correct [OF this] obtain i' k' s3
    where run: "buddy_coalesce (page_to_addr i) i k s2 = Some (i', k', s3)" and wf3: "buddy_wf s3 {(i', k')}"
      and co3: "coalesced s3" "k' < 10 \<longrightarrow> (buddy_of i' k', k') \<notin> free_blocks s3"
      and same: "alloc_blocks s3 = alloc_blocks s2" "total_free s3 = total_free s2" "total_used s3 = total_used s2"
        "buddy_initialized s3 = buddy_initialized s2"
      and refs: "(\<lambda>j. bp_ref_count (page_descriptors s3 j)) = (\<lambda>j. bp_ref_count (page_descriptors s2 j))"
    by blast
  let ?s' = "add_to_free_list i' k' s3"
  note put = put_block [OF wf3, simplified]
  have "page_to_addr i \<noteq> 0" using unat_page_to_addr [OF i] by auto
  moreover have "(if bp_ref_count (page_descriptors s i) > 0
      then upd_page (\<lambda>p. p\<lparr>bp_ref_count := bp_ref_count p - 1\<rparr>) i s else s) = s1"
    using ref by (simp add: s1_def upd_page_def)
  moreover have "bp_ref_count (page_descriptors s1 i) = 0" by (simp add: s1_def upd_page_def)
  ultimately have free: "buddy_free (page_to_addr i) k s = Some ?s'"
    using buddy_invD(1) [OF inv] k run addr_to_page_of_page [OF i]
    by (simp add: buddy_free_def Let_def s2_def add_to_free_list_order)
  have alloc: "alloc_blocks ?s' = alloc_blocks s - {(i, k)}" using put(3) same un(3) by (simp add: s2_def)
  have tot: "total_free ?s' = total_free s + 2 ^ k" "total_used ?s' = total_used s - 2 ^ k" "buddy_initialized ?s'"
    using same buddy_invD(1) [OF inv] by (simp_all add: kernel_frame s2_def s1_def upd_page_def)
  have "bp_ref_count (page_descriptors ?s' j) \<le> 1" if "j < BUDDY_TOTAL_PAGES" for j
    using that fun_cong [OF refs, of j] buddy_invD(6) [OF inv, of j]
    by (auto simp: kernel_frame s2_def s1_def upd_page_def split: if_splits)
  moreover have "coalesced ?s'" using co3 put(2) by (rule coalesced_put)
  moreover note acc = account_free [OF inv put(1) b alloc tot(1,2)]
  ultimately have "buddy_inv ?s'" using put(1) tot(3) by (simp add: buddy_inv_def)
  with free alloc acc(1) show ?thesis by blast
qed

lemma buddy_free_inv:
  "buddy_inv s \<Longrightarrow> (i, k) \<in> alloc_blocks s \<Longrightarrow> buddy_free (page_to_addr i) k s = Some s' \<Longrightarrow> buddy_inv s'"
  using buddy_free_block by fastforce

text \<open>
  C24. Freeing an allocated block with its order always terminates, returns exactly its pages to
  the free memory, keeps the counters exact and leaves no two free buddies unmerged.
\<close>

theorem buddy_free_correct:
  assumes "buddy_inv s" and "(i, k) \<in> alloc_blocks s"
  shows "\<exists>s'. buddy_free (page_to_addr i) k s = Some s' \<and> buddy_inv s' \<and> coalesced s'
     \<and> alloc_blocks s' = alloc_blocks s - {(i, k)}
     \<and> free_set s' = free_set s \<union> block_pages (i, k)"
  using buddy_free_block [OF assms] buddy_invD(3) by blast

subsection \<open>Initialisation\<close>

definition max_blocks :: "nat \<Rightarrow> block set" where
  "max_blocks n = (\<lambda>l. (1024 * l, 10)) ` {n..<31}"

lemma tiling_max_blocks: "tiling (max_blocks 0)"
proof (rule tilingI)
  show "block_ok b" if "b \<in> max_blocks 0" for b
    using that by (auto simp: max_blocks_def block_ok_def)
  show "block_pages b \<subseteq> {..<BUDDY_TOTAL_PAGES}" if "b \<in> max_blocks 0" for b
    using that by (auto simp: max_blocks_def block_pages_def)
  show "b = c" if "b \<in> max_blocks 0" "c \<in> max_blocks 0" "p \<in> block_pages b" "p \<in> block_pages c" for b c p
    using that by (auto simp: max_blocks_def block_pages_def)
  show "\<exists>b \<in> max_blocks 0. p \<in> block_pages b" if "p < BUDDY_TOTAL_PAGES" for p
  proof
    have "p div 1024 < 31" using that by (simp add: div_less_iff_less_mult)
    then show "(1024 * (p div 1024), 10) \<in> max_blocks 0" by (auto simp: max_blocks_def)
    show "p \<in> block_pages (1024 * (p div 1024), 10)"
      using mult_div_mod_eq [of 1024 p] mod_less_divisor [of 1024 p] by (auto simp: block_pages_def)
  qed
qed

lemma max_blocks_Suc: "n < 31 \<Longrightarrow> max_blocks n = insert (1024 * n, 10) (max_blocks (Suc n))"
proof -
  assume "n < 31"
  then have "{n..<31} = insert n {Suc n..<31}" by auto
  then show ?thesis by (simp add: max_blocks_def)
qed

lemma clear_lists_loop:
  assumes "n \<le> MAX_ORDER"
  shows "let s' = for_range 0 n
      (\<lambda>i s. s\<lparr>free_lists := (free_lists s)(i := None), free_pages := (free_pages s)(i := 0)\<rparr>) s
    in (\<forall>k < n. free_lists s' k = None \<and> free_pages s' k = 0) \<and> buddy_initialized s' = buddy_initialized s"
  using assms by (induction n) (auto simp: for_range_Suc for_range_skip Let_def)

lemma clear_pages_loop:
  fixes f defines "f \<equiv> \<lambda>p :: buddy_page. p\<lparr>bp_next := None, bp_prev := None, bp_order := 0, bp_flags := 0, bp_ref_count := 0\<rparr>"
  shows "for_range 0 n (upd_page f) s = s\<lparr>page_descriptors := \<lambda>i. if i < n then f (page_descriptors s i) else page_descriptors s i\<rparr>"
proof (induction n)
  case 0
  then show ?case by (simp add: for_range_skip)
next
  case (Suc n)
  then show ?case by (simp add: for_range_Suc upd_page_def fun_eq_iff less_Suc_eq)
qed

lemma max_block_page:
  assumes "l < 31"
  shows "addr_to_page (BUDDY_START_ADDR + of_nat l * push_bit (MAX_ORDER - 1) 4096) = Some (1024 * l)"
proof -
  have "BUDDY_START_ADDR + of_nat l * push_bit (MAX_ORDER - 1) 4096 = page_to_addr (1024 * l)"
    by (simp add: page_to_addr_def push_bit_eq_mult)
  then show ?thesis using addr_to_page_of_page [of "1024 * l"] assms by simp
qed

lemma add_max_blocks_loop:
  assumes wf: "buddy_wf s (max_blocks 0)" and none: "free_blocks s = {}" and n: "n \<le> 31"
  defines "body \<equiv> \<lambda>i s. case addr_to_page (BUDDY_START_ADDR + of_nat i * push_bit (MAX_ORDER - 1) 4096) of
      Some page \<Rightarrow> (add_to_free_list page (MAX_ORDER - 1) s)\<lparr>total_free := total_free s + 2 ^ (MAX_ORDER - 1)\<rparr>
    | None \<Rightarrow> s"
  shows "let s' = for_range 0 n body s in
      buddy_wf s' (max_blocks n) \<and> free_blocks s' = max_blocks 0 - max_blocks n \<and> alloc_blocks s' = alloc_blocks s
      \<and> total_free s' = total_free s + of_nat n * 1024 \<and> total_used s' = total_used s
      \<and> (\<lambda>j. bp_ref_count (page_descriptors s' j)) = (\<lambda>j. bp_ref_count (page_descriptors s j))"
  using n
proof (induction n)
  case 0
  then show ?case using wf none by (simp add: for_range_skip)
next
  case (Suc n)
  let ?s = "for_range 0 n body s"
  have ih: "buddy_wf ?s (max_blocks n)" "free_blocks ?s = max_blocks 0 - max_blocks n"
    "alloc_blocks ?s = alloc_blocks s" "total_free ?s = total_free s + of_nat n * 1024" "total_used ?s = total_used s"
    "(\<lambda>j. bp_ref_count (page_descriptors ?s j)) = (\<lambda>j. bp_ref_count (page_descriptors s j))"
    using Suc by (simp_all add: Let_def)
  have new: "(1024 * n, 10) \<notin> max_blocks (Suc n)" by (auto simp: max_blocks_def)
  have wfn: "buddy_wf ?s (insert (1024 * n, 10) (max_blocks (Suc n)))" using ih(1) max_blocks_Suc [of n] Suc.prems by simp
  note put = put_block [OF wfn new]
  have "body n ?s = (add_to_free_list (1024 * n) 10 ?s)\<lparr>total_free := total_free ?s + 1024\<rparr>"
    using max_block_page [of n] Suc.prems by (simp add: body_def)
  moreover have "(1024 * n, 10) \<in> max_blocks 0" using Suc.prems by (auto simp: max_blocks_def)
  ultimately show ?case
    using put ih(2-6) new max_blocks_Suc [of n] Suc.prems
    by (auto simp: for_range_Suc Let_def kernel_frame algebra_simps)
qed

lemma buddy_init_state:
  assumes "\<not> buddy_initialized s"
  shows "buddy_inv (buddy_init s)" and "free_blocks (buddy_init s) = max_blocks 0"
    and "alloc_blocks (buddy_init s) = {}"
proof -
  define s1 where "s1 = for_range 0 MAX_ORDER
      (\<lambda>i s. s\<lparr>free_lists := (free_lists s)(i := None), free_pages := (free_pages s)(i := 0)\<rparr>) s"
  have s1: "\<And>k. k < MAX_ORDER \<Longrightarrow> free_lists s1 k = None \<and> free_pages s1 k = 0"
    using clear_lists_loop [of MAX_ORDER s] by (simp add: s1_def Let_def)
  define f where "f = (\<lambda>p :: buddy_page. p\<lparr>bp_next := None, bp_prev := None, bp_order := 0, bp_flags := 0, bp_ref_count := 0\<rparr>)"
  define s3 where "s3 = for_range 0 BUDDY_TOTAL_PAGES (upd_page f) (s1\<lparr>total_free := 0, total_used := 0\<rparr>)"
  have heads: "free_lists s3 k = None" "free_pages s3 k = 0" if "k < MAX_ORDER" for k
    using s1 [OF that] by (simp_all add: s3_def f_def clear_pages_loop)
  have refs: "bp_ref_count (page_descriptors s3 j) = 0" if "j < BUDDY_TOTAL_PAGES" for j
    using that by (simp add: s3_def f_def clear_pages_loop)
  have tot: "total_free s3 = 0" "total_used s3 = 0" by (simp_all add: s3_def f_def clear_pages_loop)
  have lists: "fl.well_linked s3" "\<And>k. k < MAX_ORDER \<Longrightarrow> free_list s3 k = []"
    using fl.empty_well_linked [of s3] heads(1) by simp_all
  then have none: "free_blocks s3 = {}" "alloc_blocks s3 = {}"
    using refs by (auto simp: free_blocks_def alloc_blocks_def)
  then have wf3: "buddy_wf s3 (max_blocks 0)"
    using lists heads tiling_max_blocks by (simp add: buddy_wf_def)
  define s4 where "s4 = for_range 0 31 (\<lambda>i s.
      case addr_to_page (BUDDY_START_ADDR + of_nat i * push_bit (MAX_ORDER - 1) 4096) of
        Some page \<Rightarrow> (add_to_free_list page (MAX_ORDER - 1) s)\<lparr>total_free := total_free s + 2 ^ (MAX_ORDER - 1)\<rparr>
      | None \<Rightarrow> s) s3"
  have empty: "max_blocks 31 = {}" by (simp add: max_blocks_def)
  have s4: "buddy_wf s4 {}" "free_blocks s4 = max_blocks 0" "alloc_blocks s4 = {}"
    "total_free s4 = 31744" "total_used s4 = 0"
    "(\<lambda>j. bp_ref_count (page_descriptors s4 j)) = (\<lambda>j. bp_ref_count (page_descriptors s3 j))"
    using add_max_blocks_loop [OF wf3 none(1) order_refl] none(2) tot unfolding s4_def Let_def empty by simp_all
  have run: "buddy_init s = s4\<lparr>buddy_initialized := True\<rparr>"
    using assms by (simp add: buddy_init_def Let_def s4_def s3_def s1_def f_def)
  show free: "free_blocks (buddy_init s) = max_blocks 0" and alloc: "alloc_blocks (buddy_init s) = {}"
    using s4 by (simp_all add: run)
  have wf: "buddy_wf (buddy_init s) {}" using s4 by (simp add: run)
  have "used_set (buddy_init s) = {}" by (simp add: used_set_def alloc)
  then have "card (free_set (buddy_init s)) = 31744" using wf_partition(1) [OF wf] by simp
  moreover have "coalesced (buddy_init s)" unfolding coalesced_def free by (auto simp: max_blocks_def)
  moreover have "bp_ref_count (page_descriptors (buddy_init s) j) \<le> 1" if "j < BUDDY_TOTAL_PAGES" for j
    using fun_cong [OF s4(6), of j] refs [OF that] by (simp add: run)
  ultimately show "buddy_inv (buddy_init s)"
    using wf s4(4,5) \<open>used_set (buddy_init s) = {}\<close> by (simp add: buddy_inv_def run)
qed

text \<open>With nothing allocated, coalescing has rebuilt the maximal blocks.\<close>

lemma all_free_max_blocks:
  assumes inv: "buddy_inv s" and none: "alloc_blocks s = {}"
  shows "free_blocks s = max_blocks 0"
proof -
  note wf = buddy_invD(2) [OF inv]
  have tile: "tiling (free_blocks s)" using buddy_wfD(4) [OF wf] none by simp
  have all: "free_set s = {..<BUDDY_TOTAL_PAGES}"
    using wf_partition(1) [OF wf] none by (simp add: used_set_def)
  have big: "(1024 * l, 10) \<in> free_blocks s" if l: "l < 31" for l
  proof -
    have "block_pages (1024 * l, 10) \<subseteq> free_set s" using l by (auto simp: all block_pages_def)
    from coalesced_region [OF wf buddy_invD(3) [OF inv] _ _ this]
    obtain j m where jm: "(j, m) \<in> free_blocks s" "10 \<le> m" "1024 * l \<in> block_pages (j, m)" by auto
    then have ok: "m < MAX_ORDER" "2 ^ m dvd j" using tilingD(1) [OF tile, of "(j, m)"] by (auto simp: block_ok_def)
    then have m: "m = 10" using jm(2) by simp
    then have al: "2 ^ 10 dvd j" using ok by simp
    have "1024 * l div 2 ^ 10 = j div 2 ^ 10" using jm(3) mem_block_pages [OF al, of "1024 * l"] m by simp
    then have "l = j div 1024" by simp
    then have "j = 1024 * l" using al by simp
    with jm(1) m show ?thesis by simp
  qed
  show ?thesis
  proof (intro set_eqI iffI)
    fix b assume "b \<in> max_blocks 0"
    then show "b \<in> free_blocks s" using big by (auto simp: max_blocks_def)
  next
    fix b assume b: "b \<in> free_blocks s"
    obtain i k where ik: "b = (i, k)" by (cases b)
    let ?c = "(1024 * (i div 1024), 10)"
    have "i < BUDDY_TOTAL_PAGES" using tiling_start [OF tile] b ik by blast
    then have l: "i div 1024 < 31" by (simp add: div_less_iff_less_mult)
    have "i \<in> block_pages ?c"
      using mult_div_mod_eq [of 1024 i] mod_less_divisor [of 1024 i] by (auto simp: block_pages_def)
    then have "b = ?c" using tilingD(3) [OF tile b big [OF l], of i] ik by simp
    then show "b \<in> max_blocks 0" using l by (auto simp: max_blocks_def)
  qed
qed

subsection \<open>Reachable states\<close>

text \<open>
  The allocator as a state machine: it is initialised once, then any sequence of allocations of any
  order, and of releases of allocated blocks with their order.
\<close>

inductive buddy_reachable :: "buddy \<Rightarrow> bool" where
  init: "\<not> buddy_initialized s \<Longrightarrow> buddy_reachable (buddy_init s)"
| alloc: "buddy_reachable s \<Longrightarrow> buddy_reachable (snd (buddy_alloc k s))"
| free: "buddy_reachable s \<Longrightarrow> (i, k) \<in> alloc_blocks s \<Longrightarrow> buddy_free (page_to_addr i) k s = Some s'
     \<Longrightarrow> buddy_reachable s'"

lemma buddy_alloc_inv [kernel_inv]:
  assumes "buddy_inv s"
  shows "buddy_inv (snd (buddy_alloc k s))"
proof (cases "k < MAX_ORDER \<and> (\<exists>j m. (j, m) \<in> free_blocks s \<and> k \<le> m)")
  case True
  then obtain j m where ex: "k < MAX_ORDER" "(j, m) \<in> free_blocks s" "k \<le> m" by auto
  show ?thesis by (rule buddy_alloc_some [OF assms ex]) simp
next
  case False
  have "buddy_alloc k s = (0, s)"
  proof (cases "k < MAX_ORDER")
    case True
    with False buddy_alloc_none [OF assms True] show ?thesis by (meson not_le)
  qed (simp add: buddy_alloc_def)
  with assms show ?thesis by simp
qed

lemma reachable_inv: "buddy_reachable s \<Longrightarrow> buddy_inv s"
proof (induction rule: buddy_reachable.induct)
  case (init s)
  then show ?case by (rule buddy_init_state)
next
  case (alloc s k)
  then show ?case by (simp add: kernel_inv)
next
  case (free s i k s')
  then show ?case by (simp add: buddy_free_inv)
qed

text \<open>
  C1. In every reachable state the free and the allocated blocks partition the managed range, the
  two counters are the sizes of the two parts, and once everything has been freed the
  allocator is back to 31 blocks of the largest order, with nothing lost to fragmentation.
\<close>

theorem buddy_reachable_partition:
  assumes "buddy_reachable s"
  shows "free_set s \<union> used_set s = {..<BUDDY_TOTAL_PAGES} \<and> free_set s \<inter> used_set s = {}
    \<and> unat (total_free s) = card (free_set s) \<and> unat (total_used s) = card (used_set s)
    \<and> (alloc_blocks s = {} \<longrightarrow> free_blocks s = (\<lambda>l. (1024 * l, 10)) ` {..<31})"
proof -
  have inv: "buddy_inv s" using assms by (rule reachable_inv)
  have part: "free_set s \<union> used_set s = {..<BUDDY_TOTAL_PAGES}" "free_set s \<inter> used_set s = {}"
    using wf_partition [OF buddy_invD(2) [OF inv]] by auto
  have "free_blocks s = (\<lambda>l. (1024 * l, 10)) ` {..<31}" if "alloc_blocks s = {}"
    using all_free_max_blocks [OF inv that] by (simp add: max_blocks_def lessThan_atLeast0)
  with part buddy_invD(4,5) [OF inv] show ?thesis by blast
qed

subsection \<open>Orders\<close>

lemma get_order_loop_correct:
  assumes "unat bs = 4096 * 2 ^ order" and "order \<le> 10" and "order = 0 \<or> 4096 * 2 ^ (order - 1) < unat sz"
  defines "r \<equiv> get_order_loop sz bs order"
  shows "r \<le> 10 \<and> (r = 10 \<or> unat sz \<le> 4096 * 2 ^ r) \<and> (r = 0 \<or> 4096 * 2 ^ (r - 1) < unat sz)"
  using assms(1-3) unfolding r_def
proof (induction sz bs order rule: get_order_loop.induct)
  case (1 sz bs order)
  show ?case
  proof (cases "bs < sz \<and> order < MAX_ORDER - 1")
    case True
    then have o: "order < 10" by simp
    then have "(2 :: nat) ^ order \<le> 2 ^ 9" by (intro power_increasing) auto
    then have "unat (push_bit 1 bs) = 4096 * 2 ^ Suc order"
      using "1.prems"(1) by (simp add: push_bit_eq_mult unat_word_ariths)
    moreover have "4096 * 2 ^ (Suc order - 1) < unat sz" using True "1.prems"(1) by (simp add: word_less_nat_alt)
    ultimately have "let r = get_order_loop sz (push_bit 1 bs) (Suc order) in
        r \<le> 10 \<and> (r = 10 \<or> unat sz \<le> 4096 * 2 ^ r) \<and> (r = 0 \<or> 4096 * 2 ^ (r - 1) < unat sz)"
      using "1.IH" [OF True] o by (simp add: Let_def)
    then show ?thesis using True by (simp add: get_order_loop.simps [of sz bs order] Let_def)
  next
    case False
    then show ?thesis using "1.prems" by (auto simp: get_order_loop.simps [of sz bs order] word_less_nat_alt)
  qed
qed

text \<open>
  \<open>buddy_alloc_pages\<close> picks the smallest order that covers a request of up to 1024 pages. A
  larger request is not refused: it is served with a block of 1024 pages, fewer than were asked for.
\<close>

lemma buddy_alloc_pages_order:
  assumes "0 < unat n" and "unat n < 2 ^ 20"
  shows "\<exists>k < MAX_ORDER. buddy_alloc_pages n s = buddy_alloc k s
     \<and> (unat n \<le> 1024 \<longrightarrow> unat n \<le> 2 ^ k \<and> (k = 0 \<or> 2 ^ (k - 1) < unat n))
     \<and> (1024 < unat n \<longrightarrow> k = 10 \<and> 2 ^ k < unat n)"
proof -
  have size: "unat (n * 4096) = unat n * 4096" using assms(2) by (simp add: unat_word_ariths)
  let ?k = "buddy_get_order (n * 4096)"
  have k: "?k \<le> 10 \<and> (?k = 10 \<or> unat n \<le> 2 ^ ?k) \<and> (?k = 0 \<or> 2 ^ (?k - 1) < unat n)"
    using get_order_loop_correct [of 4096 0 "n * 4096"] by (auto simp: buddy_get_order_def size)
  moreover have "?k = 10" if "1024 < unat n"
  proof (rule ccontr)
    assume "?k \<noteq> 10"
    with k have "unat n \<le> 2 ^ ?k" "?k \<le> 10" by auto
    moreover from this have "(2 :: nat) ^ ?k \<le> 2 ^ 10" by (intro power_increasing) auto
    ultimately show False using that by simp
  qed
  moreover have "n \<noteq> 0" using assms(1) by auto
  ultimately show ?thesis
    by (intro exI [of _ ?k]) (auto simp: buddy_alloc_pages_def)
qed

subsection \<open>Witnesses on a freshly initialised allocator\<close>

definition zero_buddy :: buddy where
  "zero_buddy = \<lparr>free_lists = (\<lambda>k. None), free_pages = (\<lambda>k. 0), total_free = 0, total_used = 0,
     page_descriptors = (\<lambda>i. \<lparr>bp_next = None, bp_prev = None, bp_order = 0, bp_flags = 0, bp_ref_count = 0\<rparr>),
     buddy_initialized = False\<rparr>"

definition booted_buddy :: buddy where
  "booted_buddy = buddy_init zero_buddy"

lemma booted_buddy_inv: "buddy_inv booted_buddy" "alloc_blocks booted_buddy = {}" "(0, 10) \<in> free_blocks booted_buddy"
  "free_set booted_buddy = {..<BUDDY_TOTAL_PAGES}"
proof -
  have "\<not> buddy_initialized zero_buddy" by (simp add: zero_buddy_def)
  note ini = buddy_init_state [OF this, folded booted_buddy_def]
  show inv: "buddy_inv booted_buddy" and alloc: "alloc_blocks booted_buddy = {}" by (rule ini)+
  show "(0, 10) \<in> free_blocks booted_buddy" unfolding ini(2) by (auto simp: max_blocks_def)
  show "free_set booted_buddy = {..<BUDDY_TOTAL_PAGES}"
    using wf_partition(1) [OF buddy_invD(2) [OF inv]] alloc by (simp add: used_set_def)
qed

theorem buddy_alloc_correct_witness:
  "fst (buddy_alloc 3 booted_buddy) \<noteq> 0 \<and> unat (fst (buddy_alloc 3 booted_buddy)) mod 32768 = 0"
proof -
  have "block_pages (0, 3) \<subseteq> free_set booted_buddy" by (auto simp: booted_buddy_inv block_pages_def)
  then have "\<exists>r. 2 ^ 3 dvd r \<and> block_pages (r, 3) \<subseteq> free_set booted_buddy" by (intro exI [of _ 0]) simp
  with buddy_alloc_correct [OF booted_buddy_inv(1), of 3] show ?thesis by (simp add: case_prod_beta)
qed

theorem buddy_free_correct_witness:
  "\<exists>i s1 s2. buddy_alloc 3 booted_buddy = (page_to_addr i, s1) \<and> (i, 3) \<in> alloc_blocks s1
     \<and> buddy_free (page_to_addr i) 3 s1 = Some s2 \<and> free_set s2 = {..<BUDDY_TOTAL_PAGES}"
proof (rule buddy_alloc_some [OF booted_buddy_inv(1) _ booted_buddy_inv(3), of 3])
  fix i s1
  assume r: "buddy_alloc 3 booted_buddy = (page_to_addr i, s1)" "buddy_inv s1"
    "alloc_blocks s1 = insert (i, 3) (alloc_blocks booted_buddy)"
    "block_pages (i, 3) \<subseteq> free_set booted_buddy" "free_set s1 = free_set booted_buddy - block_pages (i, 3)"
  then have "free_set s1 \<union> block_pages (i, 3) = {..<BUDDY_TOTAL_PAGES}" by (auto simp: booted_buddy_inv(4))
  with buddy_free_correct [of s1 i 3] r(1-3) show ?thesis by auto
qed simp_all

theorem buddy_reachable_partition_witness:
  "buddy_reachable booted_buddy \<and> free_blocks booted_buddy = (\<lambda>l. (1024 * l, 10)) ` {..<31}"
proof -
  have "buddy_reachable booted_buddy"
    unfolding booted_buddy_def by (rule buddy_reachable.init) (simp add: zero_buddy_def)
  with buddy_reachable_partition [of booted_buddy] booted_buddy_inv(2) show ?thesis by blast
qed

end
