(* ===== verification/Memory.thy ===== *)
theory Memory
  imports Prelude
begin

unbundle bit_operations_syntax

text \<open>
  Byte-wise stores to physical memory and what later loads see of them. \<open>write_bytes\<close> is the copy
  loop \<open>dest[i] = src[i]\<close>; multi-byte fields are stored little-endian.
\<close>

primrec write_bytes :: "phys_mem \<Rightarrow> u32 \<Rightarrow> u8 list \<Rightarrow> phys_mem" where
  "write_bytes m a [] = m"
| "write_bytes m a (b # bs) = write_bytes (m(a := b)) (a + 1) bs"

definition mem_bytes :: "phys_mem \<Rightarrow> u32 \<Rightarrow> nat \<Rightarrow> u8 list" where
  "mem_bytes m a n = map (\<lambda>i. m (a + of_nat i)) [0..<n]"

definition bytes32 :: "u32 \<Rightarrow> u8 list" where
  "bytes32 w = [ucast w, ucast (drop_bit 8 w), ucast (drop_bit 16 w), ucast (drop_bit 24 w)]"

definition bytes64 :: "u64 \<Rightarrow> u8 list" where
  "bytes64 w = bytes32 (ucast w) @ bytes32 (ucast (drop_bit 32 w))"

definition write_u32 :: "phys_mem \<Rightarrow> u32 \<Rightarrow> u32 \<Rightarrow> phys_mem" where
  "write_u32 m a w = write_bytes m a (bytes32 w)"

definition write_u64 :: "phys_mem \<Rightarrow> u32 \<Rightarrow> u64 \<Rightarrow> phys_mem" where
  "write_u64 m a w = write_bytes m a (bytes64 w)"

lemma length_bytes [simp]: "length (bytes32 w) = 4" "length (bytes64 v) = 8" "length (mem_bytes m a n) = n"
  by (simp_all add: bytes32_def bytes64_def mem_bytes_def)

lemma write_bytes_apply:
  assumes "length bs \<le> 2 ^ 32"
  shows "write_bytes m a bs x = (if unat (x - a) < length bs then bs ! unat (x - a) else m x)"
  using assms
proof (induction bs arbitrary: m a)
  case (Cons b bs)
  have IH: "write_bytes (m(a := b)) (a + 1) bs x =
      (if unat (x - (a + 1)) < length bs then bs ! unat (x - (a + 1)) else (m(a := b)) x)"
    using Cons by simp
  show ?case
  proof (cases "x = a")
    case True
    then have "unat (x - (a + 1)) = 2 ^ 32 - 1" by (simp add: unsigned_minus_1_eq_mask mask_eq_exp_minus_1)
    then show ?thesis using IH True Cons.prems by simp
  next
    case False
    then have "0 < unat (x - a)" by (simp add: unat_gt_0)
    then have "unat (x - (a + 1)) = unat (x - a) - 1" using unat_dec_small [of "x - a"] by (simp add: diff_diff_eq)
    then show ?thesis using IH False \<open>0 < unat (x - a)\<close> by (auto simp: nth_Cons')
  qed
qed simp

text \<open>Address ranges, by their offset from the first address.\<close>

definition in_range :: "u32 \<Rightarrow> nat \<Rightarrow> u32 \<Rightarrow> bool" where
  "in_range a n x \<longleftrightarrow> unat (x - a) < n"

definition apart :: "u32 \<Rightarrow> nat \<Rightarrow> u32 \<Rightarrow> nat \<Rightarrow> bool" where
  "apart a n b k \<longleftrightarrow> (\<forall>x. \<not> (in_range a n x \<and> in_range b k x))"

lemma write_bytes_other: "length bs \<le> 2 ^ 32 \<Longrightarrow> \<not> in_range a (length bs) x \<Longrightarrow> write_bytes m a bs x = m x"
  by (simp add: write_bytes_apply in_range_def)

lemma mem_bytes_write_same:
  assumes "length bs \<le> 2 ^ 32"
  shows "mem_bytes (write_bytes m a bs) a (length bs) = bs"
  using assms by (intro nth_equalityI) (auto simp: mem_bytes_def write_bytes_apply unat_of_nat)

lemma mem_bytes_write_apart:
  assumes "length bs \<le> 2 ^ 32" and "apart a (length bs) b n" and "n \<le> 2 ^ 32"
  shows "mem_bytes (write_bytes m a bs) b n = mem_bytes m b n"
proof -
  have "\<not> in_range a (length bs) (b + of_nat i)" if "i < n" for i
    using assms(2,3) that by (auto simp: apart_def in_range_def unat_of_nat)
  then show ?thesis by (simp add: mem_bytes_def write_bytes_other [OF assms(1)])
qed

lemma apart_offsets:
  fixes base :: u32
  assumes "i + n \<le> j \<or> j + k \<le> i" and "i + n \<le> 2 ^ 32" and "j + k \<le> 2 ^ 32"
  shows "apart (base + of_nat i) n (base + of_nat j) k"
  unfolding apart_def
proof (intro allI notI)
  fix x assume "in_range (base + of_nat i) n x \<and> in_range (base + of_nat j) k x"
  then have a: "unat (x - base - of_nat i) < n" and b: "unat (x - base - of_nat j) < k"
    by (simp_all add: in_range_def diff_diff_eq)
  have eq: "unat (x - base) = c + d" if "unat (x - base - of_nat c) = d" "c + d < 2 ^ 32" for c d
  proof -
    have "unat ((x - base - of_nat c) + of_nat c) = (d + c) mod 2 ^ 32"
      unfolding unat_plus using that by (simp add: unat_of_nat)
    then show ?thesis using that(2) by simp
  qed
  have "unat (x - base) = i + unat (x - base - of_nat i)" using a assms(2) by (intro eq) auto
  moreover have "unat (x - base) = j + unat (x - base - of_nat j)" using b assms(3) by (intro eq) auto
  ultimately show False using a b assms(1) by linarith
qed

lemma le32_bytes32:
  "le32 (ucast w) (ucast (drop_bit 8 w)) (ucast (drop_bit 16 w)) (ucast (drop_bit 24 w)) = w"
proof (rule bit_word_eqI)
  fix n assume "n < LENGTH(32)"
  then have "n < 8 \<or> 8 \<le> n \<and> n < 16 \<or> 16 \<le> n \<and> n < 24 \<or> 24 \<le> n \<and> n < 32" by auto
  then show "bit (le32 (ucast w) (ucast (drop_bit 8 w)) (ucast (drop_bit 16 w)) (ucast (drop_bit 24 w))) n = bit w n"
    by (elim disjE conjE; simp add: le32_def bit_or_iff bit_push_bit_iff bit_ucast_iff bit_drop_bit_eq not_le less_diff_conv2)
qed

lemma read_u32_bytes: "read_u32 m a = (case mem_bytes m a 4 of [b0, b1, b2, b3] \<Rightarrow> le32 b0 b1 b2 b3 | _ \<Rightarrow> 0)"
  by (simp add: read_u32_def mem_bytes_def numeral_eq_Suc)

lemma read_u32_written: "mem_bytes m a 4 = bytes32 w \<Longrightarrow> read_u32 m a = w"
  by (simp add: read_u32_bytes bytes32_def le32_bytes32)

lemma read_u32_cong: "mem_bytes m a 4 = mem_bytes m' a 4 \<Longrightarrow> read_u32 m a = read_u32 m' a"
  by (simp add: read_u32_bytes)

lemma read_u64_written: "mem_bytes m a 8 = bytes64 w \<Longrightarrow> read_u64 m a = w"
proof -
  assume eq: "mem_bytes m a 8 = bytes64 w"
  have "mem_bytes m a 8 = mem_bytes m a 4 @ mem_bytes m (a + 4) 4"
    by (simp add: mem_bytes_def numeral_eq_Suc add.assoc)
  then have parts: "mem_bytes m a 4 = bytes32 (ucast w)" "mem_bytes m (a + 4) 4 = bytes32 (ucast (drop_bit 32 w))"
    using eq by (simp_all add: bytes64_def)
  show ?thesis
    unfolding read_u64_def read_u32_written [OF parts(1)] read_u32_written [OF parts(2)]
    by (rule bit_word_eqI) (auto simp: bit_or_iff bit_push_bit_iff bit_ucast_iff bit_drop_bit_eq)
qed

lemma read_u64_cong: "mem_bytes m a 8 = mem_bytes m' a 8 \<Longrightarrow> read_u64 m a = read_u64 m' a"
  by (simp add: read_u64_def read_u32_def mem_bytes_def numeral_eq_Suc add.assoc)

lemma write_bytes_append:
  "write_bytes m a (xs @ ys) = write_bytes (write_bytes m a xs) (a + of_nat (length xs)) ys"
  by (induction xs arbitrary: m a) (simp_all add: add.assoc)

lemma mem_bytes_sub:
  "i + n \<le> N \<Longrightarrow> mem_bytes m (a + of_nat i) n = take n (drop i (mem_bytes m a N))"
  by (rule nth_equalityI) (simp_all add: mem_bytes_def add.assoc)

end
