(* ===== verification/Ring.thy ===== *)
theory Ring
  imports Prelude
begin

text \<open>
  Circular buffers. The message queues of \<open>ipc.c\<close> and the byte streams of \<open>tcp.c\<close> both keep an
  array, the index of the oldest element and a count. \<open>ring_buffer\<close> states what appending at the
  tail and taking from the head do to the array and the indices; its lemmas show that the array
  then behaves as a first-in first-out list.
\<close>

lemma wrap_eq: "h < n \<Longrightarrow> a \<le> n \<Longrightarrow> (h + a) mod n = (if h + a < n then h + a else h + a - n)" for h a n :: nat
  by (simp add: le_mod_geq)

lemma wrap_inj: "h < n \<Longrightarrow> a < n \<Longrightarrow> b < n \<Longrightarrow> (h + a) mod n = (h + b) mod n \<longleftrightarrow> a = b" for h a b n :: nat
  by (auto simp: wrap_eq split: if_splits)

lemma wrap_Suc: "(Suc h mod n + k) mod n = (h + Suc k) mod n" for h k n :: nat
  by (simp add: mod_add_left_eq)

locale ring_buffer =
  fixes slot :: "'s \<Rightarrow> nat \<Rightarrow> 'a"
    and oldest :: "'s \<Rightarrow> nat"
    and filled :: "'s \<Rightarrow> nat"
    and room :: "'s \<Rightarrow> nat"
    and ok :: "'s \<Rightarrow> bool"
    and fits :: "'s \<Rightarrow> 'a \<Rightarrow> bool"
    and put :: "'a \<Rightarrow> 's \<Rightarrow> 's"
    and take_one :: "'s \<Rightarrow> 's"
  assumes indices: "ok s \<Longrightarrow> oldest s < room s \<and> filled s \<le> room s"
    and put_ok: "ok s \<Longrightarrow> filled s < room s \<Longrightarrow> fits s x \<Longrightarrow> ok (put x s)"
    and put_indices: "ok s \<Longrightarrow> filled s < room s \<Longrightarrow> fits s x \<Longrightarrow>
        oldest (put x s) = oldest s \<and> filled (put x s) = Suc (filled s) \<and> room (put x s) = room s"
    and put_new: "ok s \<Longrightarrow> filled s < room s \<Longrightarrow> fits s x \<Longrightarrow>
        slot (put x s) ((oldest s + filled s) mod room s) = x"
    and put_old: "ok s \<Longrightarrow> filled s < room s \<Longrightarrow> fits s x \<Longrightarrow> k < filled s \<Longrightarrow>
        slot (put x s) ((oldest s + k) mod room s) = slot s ((oldest s + k) mod room s)"
    and take_ok: "ok s \<Longrightarrow> 0 < filled s \<Longrightarrow> ok (take_one s)"
    and take_indices: "ok s \<Longrightarrow> 0 < filled s \<Longrightarrow>
        oldest (take_one s) = Suc (oldest s) mod room s \<and> filled (take_one s) = filled s - 1
        \<and> room (take_one s) = room s"
    and take_slot: "ok s \<Longrightarrow> k < filled s \<Longrightarrow>
        slot (take_one s) ((oldest s + k) mod room s) = slot s ((oldest s + k) mod room s)"
    and put_fits: "fits (put x s) y \<longleftrightarrow> fits s y"
begin

definition contents :: "'s \<Rightarrow> 'a list" where
  "contents s = map (\<lambda>k. slot s ((oldest s + k) mod room s)) [0..<filled s]"

lemma length_contents [simp]: "length (contents s) = filled s"
  by (simp add: contents_def)

lemma take_contents: "n \<le> filled s \<Longrightarrow> take n (contents s) = map (\<lambda>k. slot s ((oldest s + k) mod room s)) [0..<n]"
  by (simp add: contents_def take_map)

lemma contents_put:
  assumes "ok s" and "filled s < room s" and "fits s x"
  shows "contents (put x s) = contents s @ [x]"
  using put_indices [OF assms] put_new [OF assms] put_old [OF assms] by (simp add: contents_def)

lemma contents_take:
  assumes "ok s" and "0 < filled s"
  shows "contents s = slot s (oldest s) # contents (take_one s)"
proof -
  note i = indices [OF assms(1)] and t = take_indices [OF assms]
  obtain n where n: "filled s = Suc n" using assms(2) by (cases "filled s") auto
  have "slot (take_one s) ((Suc (oldest s) mod room s + k) mod room s) = slot s ((oldest s + Suc k) mod room s)" if "k < n" for k
    using take_slot [OF assms(1), of "Suc k"] n that by (simp add: wrap_Suc)
  then show ?thesis
    using i t n unfolding contents_def by (simp add: upt_conv_Cons map_Suc_upt [symmetric] del: upt_Suc)
qed

lemma contents_put_many:
  assumes "ok s" and "filled s + length xs \<le> room s" and "\<And>x. x \<in> set xs \<Longrightarrow> fits s x"
  shows "ok (fold put xs s) \<and> contents (fold put xs s) = contents s @ xs
     \<and> filled (fold put xs s) = filled s + length xs \<and> oldest (fold put xs s) = oldest s \<and> room (fold put xs s) = room s"
  using assms
proof (induction xs arbitrary: s)
  case (Cons x xs)
  have free: "filled s < room s" and x: "fits s x" using Cons.prems by auto
  note p = put_indices [OF Cons.prems(1) free x]
  have "ok (fold put xs (put x s)) \<and> contents (fold put xs (put x s)) = contents (put x s) @ xs
     \<and> filled (fold put xs (put x s)) = filled (put x s) + length xs \<and> oldest (fold put xs (put x s)) = oldest (put x s)
     \<and> room (fold put xs (put x s)) = room (put x s)"
    using Cons.prems p by (intro Cons.IH put_ok [OF Cons.prems(1) free x]) (auto simp: put_fits)
  then show ?case using p contents_put [OF Cons.prems(1) free x] by simp
qed simp

lemma contents_take_many:
  assumes "ok s" and "n \<le> filled s"
  shows "ok ((take_one ^^ n) s) \<and> contents ((take_one ^^ n) s) = drop n (contents s)
     \<and> filled ((take_one ^^ n) s) = filled s - n \<and> room ((take_one ^^ n) s) = room s
     \<and> oldest ((take_one ^^ n) s) = (oldest s + n) mod room s"
  using assms
proof (induction n)
  case 0
  then show ?case using indices [OF 0(1)] by simp
next
  case (Suc n)
  let ?t = "(take_one ^^ n) s"
  have t: "ok ?t" "contents ?t = drop n (contents s)" "filled ?t = filled s - n" "room ?t = room s"
    "oldest ?t = (oldest s + n) mod room s"
    using Suc by auto
  have pos: "0 < filled ?t" using t(3) Suc.prems by simp
  have "contents (take_one ?t) = drop 1 (contents ?t)" using contents_take [OF t(1) pos] by simp
  then show ?case
    using t take_ok [OF t(1) pos] take_indices [OF t(1) pos] by (simp add: mod_Suc_eq)
qed

end

end
