(* ===== verification/Scheduler.thy ===== *)
theory Scheduler
  imports PMM Intrusive "HOL-Library.Monad_Syntax" "HOL-Library.Signed_Division"
begin

unbundle bit_operations_syntax

text \<open>
  The task scheduler, \<open>kernel/task/scheduler.c\<close>, with the types of \<open>include/kernel/task.h\<close> and the
  tick counter of \<open>kernel/timer.c\<close>. A \<open>task_t *\<close> is an index into \<open>task_pool\<close>, a run queue an
  index into \<open>cpu_runqueues\<close>. Priorities and nice values are C \<open>int\<close>s and are integers here; the
  index \<open>ready_lists[task->priority]\<close> with a negative priority is outside the array, which
  is the result \<open>None\<close>. Task stacks come from theory \<open>PMM\<close>. The fields that only
  \<open>thread.c\<close> uses, console output and the context switch itself are left out.
\<close>

subsection \<open>Data\<close>

abbreviation (input) "MAX_TASKS \<equiv> (256 :: nat)"
abbreviation (input) "MAX_CPUS \<equiv> (64 :: nat)"
abbreviation (input) "MAX_NORMAL_PRIORITY \<equiv> (139 :: int)"
abbreviation (input) "NUM_PRIORITIES \<equiv> (140 :: nat)"
abbreviation (input) "CPU_MASK_ALL \<equiv> (- 1 :: u64)"
abbreviation (input) "DEFAULT_STACK_SIZE \<equiv> (16384 :: u32)"

datatype sched_policy = SCHED_NORMAL | SCHED_FIFO | SCHED_RR | SCHED_BATCH | SCHED_IDLE

datatype task_state =
  TASK_NEW | TASK_READY | TASK_RUNNING | TASK_BLOCKED | TASK_SLEEPING | TASK_ZOMBIE | TASK_TERMINATED

record task_stats =
  exec_time :: u64
  wait_time :: u64
  ctx_switches :: u64
  preemptions :: u64
  migrations :: u64

record task =
  t_id :: u32
  t_name :: "u8 list"
  t_esp :: u32
  t_ebp :: u32
  t_eip :: u32
  t_eflags :: u32
  t_cr3 :: u32
  t_policy :: sched_policy
  t_priority :: int
  t_static_priority :: int
  t_nice :: int
  t_state :: task_state
  t_cpu :: nat
  t_affinity :: u64
  t_time_slice :: u64
  t_exec_start :: u64
  t_sleep_until :: u64
  t_blocked_on :: int
  t_pi_waiters :: "nat option"
  t_effective_priority :: int
  t_stats :: task_stats
  t_stack_base :: u32
  t_stack_size :: u32
  t_next :: "nat option"
  t_prev :: "nat option"

record cpu_runqueue =
  rq_current :: "nat option"
  rq_idle_task :: "nat option"
  ready_lists :: "nat \<Rightarrow> nat option"
  nr_running :: u32
  load_weight :: u64
  last_balance :: u64

record scheduler_stats =
  total_ctx_switches :: u64
  total_migrations :: u64
  total_preemptions :: u64
  load_balance_count :: u64
  idle_time :: u64

record sched =
  task_pool :: "nat \<Rightarrow> task"
  task_bitmap :: "u32 list"
  cpu_runqueues :: "nat \<Rightarrow> cpu_runqueue"
  num_cpus :: nat
  current_cpu :: nat
  scheduler_enabled :: bool
  preemption_enabled :: bool
  preemption_count :: int
  global_stats :: scheduler_stats
  sched_frames :: pmm
  timer_ticks :: u32

definition upd_task :: "(task \<Rightarrow> task) \<Rightarrow> nat \<Rightarrow> sched \<Rightarrow> sched" where
  "upd_task f i s = s\<lparr>task_pool := (task_pool s)(i := f (task_pool s i))\<rparr>"

definition upd_rq :: "(cpu_runqueue \<Rightarrow> cpu_runqueue) \<Rightarrow> nat \<Rightarrow> sched \<Rightarrow> sched" where
  "upd_rq f c s = s\<lparr>cpu_runqueues := (cpu_runqueues s)(c := f (cpu_runqueues s c))\<rparr>"

definition upd_stats :: "(scheduler_stats \<Rightarrow> scheduler_stats) \<Rightarrow> sched \<Rightarrow> sched" where
  "upd_stats f s = s\<lparr>global_stats := f (global_stats s)\<rparr>"

text \<open>\<open>timer_get_ticks\<close> returns the 32-bit counter; the scheduler widens it.\<close>

definition timer_get_ticks :: "sched \<Rightarrow> u32" where
  "timer_get_ticks s = timer_ticks s"

definition timer_handler :: "sched \<Rightarrow> sched" where
  "timer_handler s = s\<lparr>timer_ticks := timer_ticks s + 1\<rparr>"

subsection \<open>Helpers\<close>

definition strcpy_safe :: "u8 list \<Rightarrow> u8 list \<Rightarrow> nat \<Rightarrow> u8 list" where
  "strcpy_safe dest src max_len = copy_loop dest src (max_len - 1) 0"

definition alloc_task_id :: "sched \<Rightarrow> nat option \<times> sched" where
  "alloc_task_id s =
     (case first_from (\<lambda>i. \<not> bm_test (task_bitmap s) i) 0 MAX_TASKS of
        Some i \<Rightarrow> (Some i, s\<lparr>task_bitmap := bm_set (task_bitmap s) i\<rparr>)
      | None \<Rightarrow> (None, s))"

definition free_task_id :: "int \<Rightarrow> sched \<Rightarrow> sched" where
  "free_task_id task_id s =
     (if task_id \<ge> 0 \<and> task_id < int MAX_TASKS
      then s\<lparr>task_bitmap := bm_clear (task_bitmap s) (nat task_id)\<rparr> else s)"

definition get_task :: "int \<Rightarrow> sched \<Rightarrow> nat option" where
  "get_task task_id s =
     (if task_id \<ge> 0 \<and> task_id < int MAX_TASKS \<and> bm_test (task_bitmap s) (nat task_id)
      then Some (nat task_id) else None)"

text \<open>The pointer assignments of \<open>enqueue_task\<close> and \<open>dequeue_task\<close>, at a given priority.\<close>

definition link_task :: "nat \<Rightarrow> nat \<Rightarrow> nat \<Rightarrow> sched \<Rightarrow> sched" where
  "link_task t c p s =
     (let s1 = upd_task (\<lambda>k. k\<lparr>t_next := ready_lists (cpu_runqueues s c) p, t_prev := None\<rparr>) t s;
          s2 = (case ready_lists (cpu_runqueues s1 c) p of
                  Some h \<Rightarrow> upd_task (t_prev_update (\<lambda>_. Some t)) h s1
                | None \<Rightarrow> s1)
      in upd_rq (\<lambda>r. r\<lparr>ready_lists := (ready_lists r)(p := Some t), nr_running := nr_running r + 1\<rparr>) c s2)"

definition unlink_task :: "nat \<Rightarrow> nat \<Rightarrow> nat \<Rightarrow> sched \<Rightarrow> sched" where
  "unlink_task t c p s =
     (let s1 = (case t_prev (task_pool s t) of
                  Some b \<Rightarrow> upd_task (t_next_update (\<lambda>_. t_next (task_pool s t))) b s
                | None \<Rightarrow> upd_rq (\<lambda>r. r\<lparr>ready_lists := (ready_lists r)(p := t_next (task_pool s t))\<rparr>) c s);
          s2 = (case t_next (task_pool s1 t) of
                  Some n \<Rightarrow> upd_task (t_prev_update (\<lambda>_. t_prev (task_pool s1 t))) n s1
                | None \<Rightarrow> s1);
          s3 = upd_task (\<lambda>k. k\<lparr>t_next := None, t_prev := None\<rparr>) t s2
      in upd_rq (\<lambda>r. r\<lparr>nr_running := nr_running r - 1\<rparr>) c s3)"

definition enqueue_task :: "nat \<Rightarrow> nat \<Rightarrow> sched \<Rightarrow> sched option" where
  "enqueue_task c t s =
     (if t_priority (task_pool s t) > MAX_NORMAL_PRIORITY then Some s
      else if t_priority (task_pool s t) < 0 then None
      else Some (link_task t c (nat (t_priority (task_pool s t))) s))"

definition dequeue_task :: "nat \<Rightarrow> nat \<Rightarrow> sched \<Rightarrow> sched option" where
  "dequeue_task c t s =
     (if t_priority (task_pool s t) > MAX_NORMAL_PRIORITY then Some s
      else if t_priority (task_pool s t) < 0 then None
      else Some (unlink_task t c (nat (t_priority (task_pool s t))) s))"

definition pick_next_task :: "nat \<Rightarrow> sched \<Rightarrow> nat option" where
  "pick_next_task c s =
     (case first_from (\<lambda>i. ready_lists (cpu_runqueues s c) i \<noteq> None) 0 NUM_PRIORITIES of
        Some i \<Rightarrow> ready_lists (cpu_runqueues s c) i
      | None \<Rightarrow> rq_idle_task (cpu_runqueues s c))"

definition PRIORITY_TO_NICE :: "int \<Rightarrow> int" where
  "PRIORITY_TO_NICE prio = prio - 120"

definition NICE_TO_PRIORITY :: "int \<Rightarrow> int" where
  "NICE_TO_PRIORITY nice = 120 + nice"

definition calculate_time_slice :: "task \<Rightarrow> u64" where
  "calculate_time_slice t =
     (case t_policy t of
        SCHED_FIFO \<Rightarrow> 100 * 10
      | SCHED_RR \<Rightarrow> 100
      | SCHED_BATCH \<Rightarrow> 10 * 5
      | SCHED_IDLE \<Rightarrow> 10 div 2
      | SCHED_NORMAL \<Rightarrow> word_of_int (10 * (20 - PRIORITY_TO_NICE (t_priority t)) sdiv 20))"

subsection \<open>Initialisation and task creation\<close>

definition scheduler_init_cpu :: "nat \<Rightarrow> sched \<Rightarrow> sched" where
  "scheduler_init_cpu cpu_id s =
     (if cpu_id \<ge> MAX_CPUS then s
      else
        let s1 = upd_rq (\<lambda>r. r\<lparr>rq_current := None, rq_idle_task := None, nr_running := 0, load_weight := 0,
                                last_balance := 0\<rparr>) cpu_id s
        in for_range 0 NUM_PRIORITIES
             (\<lambda>i. upd_rq (\<lambda>r. r\<lparr>ready_lists := (ready_lists r)(i := None)\<rparr>) cpu_id) s1)"

definition scheduler_init :: "sched \<Rightarrow> sched" where
  "scheduler_init s =
     (let s1 = for_range 0 MAX_TASKS (upd_task (\<lambda>t. t\<lparr>t_state := TASK_TERMINATED, t_id := 0\<rparr>)) s;
          s2 = s1\<lparr>task_bitmap := replicate (MAX_TASKS div 32) 0\<rparr>;
          s3 = for_range 0 (num_cpus s2) scheduler_init_cpu s2
      in s3\<lparr>scheduler_enabled := False\<rparr>)"

definition task_fill :: "u8 list option \<Rightarrow> sched_policy \<Rightarrow> int \<Rightarrow> u64 \<Rightarrow> nat \<Rightarrow> nat \<Rightarrow> task \<Rightarrow> task" where
  "task_fill name policy priority affinity cpu task_id t =
     (let t1 = t\<lparr>t_id := of_nat task_id,
                 t_name := strcpy_safe (t_name t)
                   (case name of Some n \<Rightarrow> n | None \<Rightarrow> [0x75, 0x6E, 0x6E, 0x61, 0x6D, 0x65, 0x64]) 32,
                 t_policy := policy, t_static_priority := priority, t_priority := priority,
                 t_effective_priority := priority, t_nice := PRIORITY_TO_NICE priority, t_state := TASK_NEW,
                 t_cpu := cpu, t_affinity := affinity\<rparr>
      in t1\<lparr>t_time_slice := calculate_time_slice t1, t_exec_start := 0, t_sleep_until := 0,
            t_blocked_on := - 1, t_pi_waiters := None,
            t_stats := \<lparr>exec_time = 0, wait_time = 0, ctx_switches = 0, preemptions = 0, migrations = 0\<rparr>\<rparr>)"

definition task_create_ex ::
  "u32 \<Rightarrow> u8 list option \<Rightarrow> sched_policy \<Rightarrow> int \<Rightarrow> u64 \<Rightarrow> u32 \<Rightarrow> sched \<Rightarrow> (int \<times> sched) option" where
  "task_create_ex entry_point name policy priority affinity stack_size s =
     (case alloc_task_id s of
        (None, s') \<Rightarrow> Some (- 1, s')
      | (Some task_id, s1) \<Rightarrow>
          let s2 = upd_task (task_fill name policy priority affinity (current_cpu s1) task_id) task_id s1;
              size = (if stack_size < 4096 then 4096 else stack_size);
              (base, frames) = pmm_alloc_page (sched_frames s2);
              s3 = upd_task (\<lambda>t. t\<lparr>t_stack_size := size, t_stack_base := base\<rparr>) task_id
                     (s2\<lparr>sched_frames := frames\<rparr>)
          in if base = 0 then Some (- 1, free_task_id (int task_id) s3)
             else
               let s4 = upd_task (\<lambda>t. t\<lparr>t_esp := base + size, t_ebp := base + size, t_eip := entry_point,
                          t_eflags := 0x202, t_cr3 := 0, t_next := None, t_prev := None,
                          t_state := TASK_READY\<rparr>) task_id s3
               in do { s5 \<leftarrow> enqueue_task (t_cpu (task_pool s4 task_id)) task_id s4;
                       Some (int task_id, s5) })"

definition task_create :: "u32 \<Rightarrow> u8 list option \<Rightarrow> sched_policy \<Rightarrow> int \<Rightarrow> sched \<Rightarrow> (int \<times> sched) option" where
  "task_create entry_point name policy priority =
     task_create_ex entry_point name policy priority CPU_MASK_ALL DEFAULT_STACK_SIZE"

subsection \<open>Scheduling\<close>

definition scheduler_schedule :: "sched \<Rightarrow> sched option" where
  "scheduler_schedule s =
     (if \<not> scheduler_enabled s \<or> \<not> preemption_enabled s then Some s
      else
        let c = current_cpu s; prev = rq_current (cpu_runqueues s c)
        in do {
          s1 \<leftarrow> (case prev of
                  Some p \<Rightarrow> if t_state (task_pool s p) = TASK_RUNNING
                            then enqueue_task c p (upd_task (t_state_update (\<lambda>_. TASK_READY)) p s)
                            else Some s
                | None \<Rightarrow> Some s);
          case pick_next_task c s1 of
            None \<Rightarrow> Some s1
          | Some n \<Rightarrow> do {
              s2 \<leftarrow> (if t_state (task_pool s1 n) = TASK_READY then dequeue_task c n s1 else Some s1);
              let s3 = upd_task (\<lambda>t. t\<lparr>t_state := TASK_RUNNING, t_time_slice := calculate_time_slice t,
                                       t_exec_start := ucast (timer_get_ticks s2)\<rparr>) n s2;
                  s4 = (case prev of
                          Some p \<Rightarrow> if p \<noteq> n
                            then upd_stats (\<lambda>g. g\<lparr>total_ctx_switches := total_ctx_switches g + 1\<rparr>)
                                   (upd_task (\<lambda>t. t\<lparr>t_stats := (t_stats t)\<lparr>ctx_switches := ctx_switches (t_stats t) + 1\<rparr>\<rparr>)
                                      p s3)
                            else s3
                        | None \<Rightarrow> s3)
              in Some (upd_rq (rq_current_update (\<lambda>_. Some n)) c s4) } })"

definition task_wakeup :: "int \<Rightarrow> sched \<Rightarrow> sched option" where
  "task_wakeup task_id s =
     (case get_task task_id s of
        None \<Rightarrow> Some s
      | Some t \<Rightarrow>
          if t_state (task_pool s t) \<noteq> TASK_SLEEPING then Some s
          else let s1 = upd_task (\<lambda>k. k\<lparr>t_state := TASK_READY, t_sleep_until := 0\<rparr>) t s
               in enqueue_task (t_cpu (task_pool s1 t)) t s1)"

definition wake_sleeper :: "nat \<Rightarrow> sched \<Rightarrow> sched option" where
  "wake_sleeper i s =
     (if bm_test (task_bitmap s) i \<and> t_state (task_pool s i) = TASK_SLEEPING
         \<and> ucast (timer_get_ticks s) \<ge> t_sleep_until (task_pool s i)
      then task_wakeup (sint (t_id (task_pool s i))) s else Some s)"

definition scheduler_tick :: "sched \<Rightarrow> sched option" where
  "scheduler_tick s =
     (if \<not> scheduler_enabled s then Some s
      else case rq_current (cpu_runqueues s (current_cpu s)) of
        None \<Rightarrow> Some s
      | Some t \<Rightarrow>
          let s1 = upd_task (\<lambda>k. k\<lparr>t_stats := (t_stats k)\<lparr>exec_time := exec_time (t_stats k) + 1\<rparr>,
                                   t_time_slice := (if t_time_slice k > 0 then t_time_slice k - 1
                                                    else t_time_slice k)\<rparr>) t s
          in if t_time_slice (task_pool s1 t) = 0 \<and> t_policy (task_pool s1 t) = SCHED_FIFO
             then Some (upd_task (\<lambda>k. k\<lparr>t_time_slice := calculate_time_slice k\<rparr>) t s1)
             else do {
               s2 \<leftarrow> (if t_time_slice (task_pool s1 t) = 0
                     then scheduler_schedule
                            (upd_stats (\<lambda>g. g\<lparr>total_preemptions := total_preemptions g + 1\<rparr>)
                               (upd_task (\<lambda>k. k\<lparr>t_stats := (t_stats k)\<lparr>preemptions := preemptions (t_stats k) + 1\<rparr>\<rparr>)
                                  t s1))
                     else Some s1);
               for_range_opt 0 MAX_TASKS wake_sleeper s2 })"

definition scheduler_start :: "sched \<Rightarrow> sched option" where
  "scheduler_start s =
     (if scheduler_enabled s then Some s else scheduler_schedule (s\<lparr>scheduler_enabled := True\<rparr>))"

subsection \<open>State changes of tasks\<close>

definition task_block :: "int \<Rightarrow> sched \<Rightarrow> sched option" where
  "task_block resource_id s =
     (case rq_current (cpu_runqueues s (current_cpu s)) of
        None \<Rightarrow> Some s
      | Some t \<Rightarrow> scheduler_schedule
          (upd_task (\<lambda>k. k\<lparr>t_state := TASK_BLOCKED, t_blocked_on := resource_id\<rparr>) t s))"

definition task_unblock :: "int \<Rightarrow> sched \<Rightarrow> sched option" where
  "task_unblock task_id s =
     (case get_task task_id s of
        None \<Rightarrow> Some s
      | Some t \<Rightarrow>
          if t_state (task_pool s t) \<noteq> TASK_BLOCKED then Some s
          else let s1 = upd_task (\<lambda>k. k\<lparr>t_state := TASK_READY, t_blocked_on := - 1\<rparr>) t s
               in enqueue_task (t_cpu (task_pool s1 t)) t s1)"

definition task_sleep :: "u64 \<Rightarrow> sched \<Rightarrow> sched option" where
  "task_sleep ticks s =
     (case rq_current (cpu_runqueues s (current_cpu s)) of
        None \<Rightarrow> Some s
      | Some t \<Rightarrow> scheduler_schedule
          (upd_task (\<lambda>k. k\<lparr>t_state := TASK_SLEEPING, t_sleep_until := ucast (timer_get_ticks s) + ticks\<rparr>) t s))"

definition task_exit :: "int \<Rightarrow> sched \<Rightarrow> sched option" where
  "task_exit exit_code s =
     (case rq_current (cpu_runqueues s (current_cpu s)) of
        None \<Rightarrow> Some s
      | Some t \<Rightarrow>
          let s1 = upd_task (t_state_update (\<lambda>_. TASK_ZOMBIE)) t s
          in do {
            frames \<leftarrow> (if t_stack_base (task_pool s1 t) \<noteq> 0
                       then pmm_free_page (t_stack_base (task_pool s1 t)) (sched_frames s1)
                       else Some (sched_frames s1));
            scheduler_schedule (free_task_id (sint (t_id (task_pool s1 t))) (s1\<lparr>sched_frames := frames\<rparr>)) })"

definition task_yield :: "sched \<Rightarrow> sched option" where
  "task_yield s = scheduler_schedule s"

definition task_get_current :: "sched \<Rightarrow> nat option" where
  "task_get_current s = rq_current (cpu_runqueues s (current_cpu s))"

definition task_get_current_id :: "sched \<Rightarrow> int" where
  "task_get_current_id s =
     (case rq_current (cpu_runqueues s (current_cpu s)) of
        Some t \<Rightarrow> sint (t_id (task_pool s t)) | None \<Rightarrow> - 1)"

subsection \<open>Priorities, policies and affinity\<close>

definition requeue_with :: "(task \<Rightarrow> task) \<Rightarrow> nat \<Rightarrow> sched \<Rightarrow> sched option" where
  "requeue_with f t s = do {
     s1 \<leftarrow> dequeue_task (t_cpu (task_pool s t)) t s;
     let s2 = upd_task f t s1 in enqueue_task (t_cpu (task_pool s t)) t s2 }"

definition task_set_priority :: "int \<Rightarrow> int \<Rightarrow> sched \<Rightarrow> (int \<times> sched) option" where
  "task_set_priority task_id priority s =
     (case get_task task_id s of
        None \<Rightarrow> Some (- 1, s)
      | Some t \<Rightarrow>
          if priority > MAX_NORMAL_PRIORITY then Some (- 1, s)
          else
            let f = (\<lambda>k. k\<lparr>t_priority := priority, t_static_priority := priority\<rparr>)
            in if t_state (task_pool s t) = TASK_READY
               then do { s' \<leftarrow> requeue_with f t s; Some (0, s') }
               else Some (0, upd_task f t s))"

definition task_get_priority :: "int \<Rightarrow> sched \<Rightarrow> int" where
  "task_get_priority task_id s =
     (case get_task task_id s of Some t \<Rightarrow> t_priority (task_pool s t) | None \<Rightarrow> - 1)"

definition task_set_policy :: "int \<Rightarrow> sched_policy \<Rightarrow> sched \<Rightarrow> int \<times> sched" where
  "task_set_policy task_id policy s =
     (case get_task task_id s of
        None \<Rightarrow> (- 1, s)
      | Some t \<Rightarrow> (0, upd_task (\<lambda>k. let k1 = k\<lparr>t_policy := policy\<rparr>
                                     in k1\<lparr>t_time_slice := calculate_time_slice k1\<rparr>) t s))"

definition task_migrate :: "int \<Rightarrow> int \<Rightarrow> sched \<Rightarrow> (int \<times> sched) option" where
  "task_migrate task_id target_cpu s =
     (case get_task task_id s of
        None \<Rightarrow> Some (- 1, s)
      | Some t \<Rightarrow>
          if target_cpu \<ge> int (num_cpus s) \<or> target_cpu = int (t_cpu (task_pool s t)) then Some (- 1, s)
          else if target_cpu < 0 then None
          else if t_affinity (task_pool s t) AND push_bit (nat target_cpu) 1 = 0 then Some (- 1, s)
          else do {
            s1 \<leftarrow> (if t_state (task_pool s t) = TASK_READY
                  then dequeue_task (t_cpu (task_pool s t)) t s else Some s);
            let s2 = upd_stats (\<lambda>g. g\<lparr>total_migrations := total_migrations g + 1\<rparr>)
                       (upd_task (\<lambda>k. k\<lparr>t_cpu := nat target_cpu,
                          t_stats := (t_stats k)\<lparr>migrations := migrations (t_stats k) + 1\<rparr>\<rparr>) t s1)
            in do {
              s3 \<leftarrow> (if t_state (task_pool s2 t) = TASK_READY
                    then enqueue_task (nat target_cpu) t s2 else Some s2);
              Some (0, s3) } })"

definition task_set_affinity :: "int \<Rightarrow> u64 \<Rightarrow> sched \<Rightarrow> (int \<times> sched) option" where
  "task_set_affinity task_id affinity s =
     (case get_task task_id s of
        None \<Rightarrow> Some (- 1, s)
      | Some t \<Rightarrow>
          if affinity = 0 then Some (- 1, s)
          else
            let s1 = upd_task (t_affinity_update (\<lambda>_. affinity)) t s
            in if affinity AND push_bit (t_cpu (task_pool s1 t)) 1 = 0
               then (case first_from (\<lambda>cpu. affinity AND push_bit cpu 1 \<noteq> 0) 0 (num_cpus s1) of
                       Some cpu \<Rightarrow> task_migrate task_id (int cpu) s1
                     | None \<Rightarrow> Some (0, s1))
               else Some (0, s1))"

definition task_get_affinity :: "int \<Rightarrow> sched \<Rightarrow> u64 option" where
  "task_get_affinity task_id s = map_option (\<lambda>t. t_affinity (task_pool s t)) (get_task task_id s)"

definition task_set_nice :: "int \<Rightarrow> int \<Rightarrow> sched \<Rightarrow> (int \<times> sched) option" where
  "task_set_nice task_id nice s =
     (if nice < - 20 \<or> nice > 19 then Some (- 1, s)
      else task_set_priority task_id (NICE_TO_PRIORITY nice) s)"

definition task_pi_boost :: "int \<Rightarrow> int \<Rightarrow> sched \<Rightarrow> sched option" where
  "task_pi_boost task_id priority s =
     (case get_task task_id s of
        None \<Rightarrow> Some s
      | Some t \<Rightarrow>
          if priority < t_effective_priority (task_pool s t) then
            let s1 = upd_task (t_effective_priority_update (\<lambda>_. priority)) t s
            in if t_state (task_pool s1 t) = TASK_READY
               then requeue_with (t_priority_update (\<lambda>_. priority)) t s1 else Some s1
          else Some s)"

definition task_pi_deboost :: "int \<Rightarrow> sched \<Rightarrow> sched" where
  "task_pi_deboost task_id s =
     (case get_task task_id s of
        None \<Rightarrow> s
      | Some t \<Rightarrow> upd_task (\<lambda>k. k\<lparr>t_effective_priority := t_static_priority k,
                                  t_priority := t_static_priority k\<rparr>) t s)"

subsection \<open>Load balancing, statistics and preemption control\<close>

definition scan_loads :: "sched \<Rightarrow> (nat \<times> u32) \<times> (nat \<times> u32)" where
  "scan_loads s =
     for_range 1 (num_cpus s)
       (\<lambda>i ((max_cpu, max_load), (min_cpu, min_load)).
          let load = nr_running (cpu_runqueues s i)
          in (if load > max_load then (i, load) else (max_cpu, max_load),
              if load < min_load then (i, load) else (min_cpu, min_load)))
       ((0, nr_running (cpu_runqueues s 0)), (0, nr_running (cpu_runqueues s 0)))"

definition scheduler_balance_load :: "sched \<Rightarrow> sched option" where
  "scheduler_balance_load s =
     (if num_cpus s < 2 then Some s
      else
        let current_time = ucast (timer_get_ticks s) :: u64; c = current_cpu s
        in if current_time - last_balance (cpu_runqueues s c) < 100 then Some s
           else
             let s1 = upd_stats (\<lambda>g. g\<lparr>load_balance_count := load_balance_count g + 1\<rparr>)
                        (upd_rq (last_balance_update (\<lambda>_. current_time)) c s);
                 ((max_cpu, max_load), (min_cpu, min_load)) = scan_loads s1
             in if max_load > min_load + 2 then
                  (case first_from (\<lambda>j. case ready_lists (cpu_runqueues s1 max_cpu) (139 - j) of
                                        Some t \<Rightarrow> t_affinity (task_pool s1 t) AND push_bit min_cpu 1 \<noteq> 0
                                      | None \<Rightarrow> False) 0 NUM_PRIORITIES of
                     Some j \<Rightarrow>
                       map_option snd (task_migrate
                         (sint (t_id (task_pool s1 (the (ready_lists (cpu_runqueues s1 max_cpu) (139 - j))))))
                         (int min_cpu) s1)
                   | None \<Rightarrow> Some s1)
                else Some s1)"

definition task_get_stats :: "int \<Rightarrow> sched \<Rightarrow> task_stats option" where
  "task_get_stats task_id s = map_option (\<lambda>t. t_stats (task_pool s t)) (get_task task_id s)"

definition scheduler_get_stats :: "sched \<Rightarrow> scheduler_stats" where
  "scheduler_get_stats s = global_stats s"

definition scheduler_enable_preemption :: "sched \<Rightarrow> sched" where
  "scheduler_enable_preemption s =
     (let n = (if preemption_count s > 0 then preemption_count s - 1 else preemption_count s)
      in s\<lparr>preemption_count := n, preemption_enabled := (if n = 0 then True else preemption_enabled s)\<rparr>)"

definition scheduler_disable_preemption :: "sched \<Rightarrow> sched" where
  "scheduler_disable_preemption s = s\<lparr>preemption_enabled := False, preemption_count := preemption_count s + 1\<rparr>"

definition scheduler_preemption_enabled :: "sched \<Rightarrow> bool" where
  "scheduler_preemption_enabled s = preemption_enabled s"

end
