(* ===== verification/Ipc.thy ===== *)
theory Ipc
  imports Memory Ring Scheduler
begin

unbundle bit_operations_syntax

text \<open>
  Inter-process communication, \<open>kernel/ipc.c\<close> with the types of \<open>include/kernel/ipc.h\<close>: message
  queues, semaphores and mutexes. The message buffer of a queue is one frame of theory
  \<open>PMM\<close>, and messages are written to physical memory at the addresses the code computes, 8208
  bytes apart. Blocking calls \<open>task_block\<close> of theory \<open>Scheduler\<close>, which returns to its caller;
  the wait loops are partial functions, whose value \<open>None\<close> is a loop that does not end.
  A buffer argument is the list of the caller's bytes, \<open>None\<close> the null pointer; reading past its
  end is the result \<open>None\<close>. Counters of type \<open>int\<close> are integers. The \<open>blocked_tasks\<close> pointers,
  which stay null, are left out.
\<close>

subsection \<open>Data\<close>

abbreviation (input) "MAX_MSG_QUEUES \<equiv> (64 :: nat)"
abbreviation (input) "MAX_MSG_SIZE \<equiv> (8192 :: nat)"
abbreviation (input) "MAX_MSGS_PER_QUEUE \<equiv> (32 :: nat)"
abbreviation (input) "MAX_SEMAPHORES \<equiv> (128 :: nat)"
abbreviation (input) "MAX_MUTEXES \<equiv> (128 :: nat)"
abbreviation (input) "MSG_BYTES \<equiv> (8208 :: nat)"
abbreviation (input) "IPC_CREAT \<equiv> (1 :: u32)"
abbreviation (input) "IPC_EXCL \<equiv> (2 :: u32)"
abbreviation (input) "IPC_NOWAIT \<equiv> (4 :: u32)"

record ipc_message =
  msg_type :: u32
  msg_size :: u32
  msg_timestamp :: u64
  msg_data :: "u8 list"

record ipc_msgqueue =
  mq_id :: int
  mq_name :: "u8 list"
  mq_flags :: u32
  mq_max_msgs :: int
  mq_max_msg_size :: int
  mq_cur_msgs :: int
  mq_messages :: u32
  mq_head :: int
  mq_tail :: int
  mq_owner :: int
  mq_blocked_readers :: int
  mq_blocked_writers :: int

record ipc_semaphore =
  sem_id :: int
  sem_name :: "u8 list"
  sem_value :: int
  sem_max_value :: int
  sem_flags :: u32
  sem_owner :: int
  sem_num_blocked :: int

datatype mutex_type = MUTEX_NORMAL | MUTEX_RECURSIVE | MUTEX_ERRORCHECK

record ipc_mutex =
  mx_id :: int
  mx_name :: "u8 list"
  mx_type :: mutex_type
  mx_locked :: bool
  mx_owner :: int
  mx_recursion_count :: int
  mx_num_blocked :: int
  mx_priority_ceiling :: int

record ipc =
  ipc_sched :: sched
  ipc_mem :: phys_mem
  msgqueues :: "nat \<Rightarrow> ipc_msgqueue"
  msgqueue_bitmap :: "u32 list"
  semaphores :: "nat \<Rightarrow> ipc_semaphore"
  semaphore_bitmap :: "u32 list"
  mutexes :: "nat \<Rightarrow> ipc_mutex"
  mutex_bitmap :: "u32 list"

definition upd_mq :: "(ipc_msgqueue \<Rightarrow> ipc_msgqueue) \<Rightarrow> nat \<Rightarrow> ipc \<Rightarrow> ipc" where
  "upd_mq f q s = s\<lparr>msgqueues := (msgqueues s)(q := f (msgqueues s q))\<rparr>"

definition upd_sem :: "(ipc_semaphore \<Rightarrow> ipc_semaphore) \<Rightarrow> nat \<Rightarrow> ipc \<Rightarrow> ipc" where
  "upd_sem f i s = s\<lparr>semaphores := (semaphores s)(i := f (semaphores s i))\<rparr>"

definition upd_mutex :: "(ipc_mutex \<Rightarrow> ipc_mutex) \<Rightarrow> nat \<Rightarrow> ipc \<Rightarrow> ipc" where
  "upd_mutex f i s = s\<lparr>mutexes := (mutexes s)(i := f (mutexes s i))\<rparr>"

text \<open>A call of \<open>task_block\<close> from one of the operations.\<close>

definition ipc_block :: "int \<Rightarrow> ipc \<Rightarrow> ipc option" where
  "ipc_block r s = map_option (\<lambda>c. s\<lparr>ipc_sched := c\<rparr>) (task_block r (ipc_sched s))"

text \<open>The comparison loop of \<open>find_msgqueue\<close> and \<open>find_semaphore\<close>.\<close>

function name_matches :: "u8 list \<Rightarrow> u8 list \<Rightarrow> nat \<Rightarrow> bool" where
  "name_matches name stored j =
     (if cchar name j \<noteq> 0 \<and> cchar stored j \<noteq> 0
      then if cchar name j \<noteq> cchar stored j then False else name_matches name stored (Suc j)
      else cchar name j = cchar stored j)"
  by pat_completeness auto
termination
  by (relation "measure (\<lambda>(name, stored, j). length name - j)") (auto simp: cchar_def split: if_splits)

declare name_matches.simps [simp del]

subsection \<open>Message queues\<close>

definition find_msgqueue :: "u8 list \<Rightarrow> ipc \<Rightarrow> nat option" where
  "find_msgqueue name s =
     first_from (\<lambda>i. bm_test (msgqueue_bitmap s) i \<and> cchar (mq_name (msgqueues s i)) 0 \<noteq> 0
                   \<and> name_matches name (mq_name (msgqueues s i)) 0) 0 MAX_MSG_QUEUES"

definition mq_create :: "u8 list option \<Rightarrow> u32 \<Rightarrow> int \<Rightarrow> int \<Rightarrow> ipc \<Rightarrow> int \<times> ipc" where
  "mq_create name flags max_msgs max_msg_size s =
     (case name of
        None \<Rightarrow> (- 1, s)
      | Some nm \<Rightarrow>
          if max_msgs \<le> 0 \<or> max_msg_size \<le> 0 \<or> max_msg_size > int MAX_MSG_SIZE then (- 1, s)
          else (case find_msgqueue nm s of
            Some existing \<Rightarrow> if flags AND IPC_EXCL \<noteq> 0 then (- 1, s) else (int existing, s)
          | None \<Rightarrow>
              if flags AND IPC_CREAT = 0 then (- 1, s)
              else (case first_from (\<lambda>i. \<not> bm_test (msgqueue_bitmap s) i) 0 MAX_MSG_QUEUES of
                None \<Rightarrow> (- 1, s)
              | Some mqid \<Rightarrow>
                  let (msg_buf, frames) = pmm_alloc_page (sched_frames (ipc_sched s));
                      s1 = s\<lparr>ipc_sched := (ipc_sched s)\<lparr>sched_frames := frames\<rparr>\<rparr>
                  in if msg_buf = 0 then (- 1, s1)
                     else
                       let s2 = upd_mq (\<lambda>mq. mq\<lparr>mq_id := int mqid, mq_name := copy_loop (mq_name mq) nm 31 0,
                                  mq_flags := flags,
                                  mq_max_msgs := (if max_msgs < int MAX_MSGS_PER_QUEUE then max_msgs
                                                  else int MAX_MSGS_PER_QUEUE),
                                  mq_max_msg_size := max_msg_size, mq_cur_msgs := 0, mq_messages := msg_buf,
                                  mq_head := 0, mq_tail := 0, mq_owner := task_get_current_id (ipc_sched s1),
                                  mq_blocked_readers := 0, mq_blocked_writers := 0\<rparr>) mqid s1
                       in (int mqid, s2\<lparr>msgqueue_bitmap := bm_set (msgqueue_bitmap s2) mqid\<rparr>))))"

definition mq_open :: "u8 list option \<Rightarrow> u32 \<Rightarrow> ipc \<Rightarrow> int \<times> ipc" where
  "mq_open name flags s =
     mq_create name (flags AND NOT IPC_CREAT) (int MAX_MSGS_PER_QUEUE) (int MAX_MSG_SIZE) s"

text \<open>The address of message \<open>i\<close> of a buffer, and the two copies between message and memory.\<close>

definition mq_slot :: "u32 \<Rightarrow> int \<Rightarrow> u32" where
  "mq_slot base i = base + of_nat (nat i * MSG_BYTES)"

definition write_message :: "u32 \<Rightarrow> ipc_message \<Rightarrow> phys_mem \<Rightarrow> phys_mem" where
  "write_message a msg m =
     (let m1 = write_u32 m a (msg_type msg);
          m2 = write_u32 m1 (a + 4) (msg_size msg);
          m3 = write_u64 m2 (a + 8) (msg_timestamp msg)
      in write_bytes m3 (a + 16) (msg_data msg))"

definition mq_put :: "nat \<Rightarrow> ipc_message \<Rightarrow> ipc \<Rightarrow> ipc" where
  "mq_put q msg s =
     (let mq = msgqueues s q
      in upd_mq (\<lambda>mq. mq\<lparr>mq_tail := (mq_tail mq + 1) mod mq_max_msgs mq, mq_cur_msgs := mq_cur_msgs mq + 1\<rparr>) q
           (s\<lparr>ipc_mem := write_message (mq_slot (mq_messages mq) (mq_tail mq)) msg (ipc_mem s)\<rparr>))"

definition mq_send :: "int \<Rightarrow> u8 list option \<Rightarrow> u32 \<Rightarrow> u32 \<Rightarrow> ipc \<Rightarrow> (int \<times> ipc) option" where
  "mq_send mqid msg_ptr sz ty s =
     (if mqid < 0 \<or> mqid \<ge> int MAX_MSG_QUEUES \<or> msg_ptr = None then Some (- 1, s)
      else
        let q = nat mqid; mq = msgqueues s q
        in if \<not> bm_test (msgqueue_bitmap s) q then Some (- 1, s)
           else if sz > of_int (mq_max_msg_size mq) then Some (- 1, s)
           else if mq_cur_msgs mq \<ge> mq_max_msgs mq \<and> mq_flags mq AND IPC_NOWAIT \<noteq> 0 then Some (- 1, s)
           else do {
             s1 \<leftarrow> (if mq_cur_msgs mq \<ge> mq_max_msgs mq then do {
                    s' \<leftarrow> ipc_block mqid (upd_mq (\<lambda>mq. mq\<lparr>mq_blocked_writers := mq_blocked_writers mq + 1\<rparr>) q s);
                    Some (upd_mq (\<lambda>mq. mq\<lparr>mq_blocked_writers := mq_blocked_writers mq - 1\<rparr>) q s') }
                  else Some s);
             if length (the msg_ptr) < unat sz then None
             else Some (0, mq_put q \<lparr>msg_type = ty, msg_size = sz,
                    msg_timestamp = ucast (timer_get_ticks (ipc_sched s1)),
                    msg_data = take (unat sz) (the msg_ptr)\<rparr> s1) })"

definition read_message :: "phys_mem \<Rightarrow> u32 \<Rightarrow> ipc_message" where
  "read_message m a =
     \<lparr>msg_type = read_u32 m a, msg_size = read_u32 m (a + 4), msg_timestamp = read_u64 m (a + 8),
      msg_data = mem_bytes m (a + 16) (unat (read_u32 m (a + 4)))\<rparr>"

definition mq_take :: "nat \<Rightarrow> ipc \<Rightarrow> ipc" where
  "mq_take q s =
     upd_mq (\<lambda>mq. mq\<lparr>mq_head := (mq_head mq + 1) mod mq_max_msgs mq, mq_cur_msgs := mq_cur_msgs mq - 1\<rparr>) q s"

text \<open>The result of \<open>mq_receive\<close> holds what it stores through its three pointers.\<close>

definition mq_receive :: "int \<Rightarrow> bool \<Rightarrow> ipc \<Rightarrow> (int \<times> (u8 list \<times> u32 \<times> u32) option \<times> ipc) option" where
  "mq_receive mqid msg_ptr_null s =
     (if mqid < 0 \<or> mqid \<ge> int MAX_MSG_QUEUES \<or> msg_ptr_null then Some (- 1, None, s)
      else
        let q = nat mqid; mq = msgqueues s q
        in if \<not> bm_test (msgqueue_bitmap s) q then Some (- 1, None, s)
           else if mq_cur_msgs mq = 0 \<and> mq_flags mq AND IPC_NOWAIT \<noteq> 0 then Some (- 1, None, s)
           else do {
             s1 \<leftarrow> (if mq_cur_msgs mq = 0 then do {
                    s' \<leftarrow> ipc_block mqid (upd_mq (\<lambda>mq. mq\<lparr>mq_blocked_readers := mq_blocked_readers mq + 1\<rparr>) q s);
                    Some (upd_mq (\<lambda>mq. mq\<lparr>mq_blocked_readers := mq_blocked_readers mq - 1\<rparr>) q s') }
                  else Some s);
             let mq1 = msgqueues s1 q;
                 msg = read_message (ipc_mem s1) (mq_slot (mq_messages mq1) (mq_head mq1))
             in Some (0, Some (msg_data msg, msg_size msg, msg_type msg), mq_take q s1) })"

definition mq_close :: "int \<Rightarrow> int" where
  "mq_close mqid = 0"

definition mq_unlink :: "u8 list \<Rightarrow> ipc \<Rightarrow> (int \<times> ipc) option" where
  "mq_unlink name s =
     (case find_msgqueue name s of
        None \<Rightarrow> Some (- 1, s)
      | Some q \<Rightarrow> do {
          frames \<leftarrow> (if mq_messages (msgqueues s q) \<noteq> 0
                     then pmm_free_page (mq_messages (msgqueues s q)) (sched_frames (ipc_sched s))
                     else Some (sched_frames (ipc_sched s)));
          let s1 = s\<lparr>ipc_sched := (ipc_sched s)\<lparr>sched_frames := frames\<rparr>\<rparr>;
              s2 = upd_mq (\<lambda>mq. mq\<lparr>mq_name := (mq_name mq)[0 := 0]\<rparr>) q s1
          in Some (0, s2\<lparr>msgqueue_bitmap := bm_clear (msgqueue_bitmap s2) q\<rparr>) })"

subsection \<open>Semaphores\<close>

definition find_semaphore :: "u8 list \<Rightarrow> ipc \<Rightarrow> nat option" where
  "find_semaphore name s =
     first_from (\<lambda>i. bm_test (semaphore_bitmap s) i \<and> cchar (sem_name (semaphores s i)) 0 \<noteq> 0
                   \<and> name_matches name (sem_name (semaphores s i)) 0) 0 MAX_SEMAPHORES"

definition sem_create :: "u8 list option \<Rightarrow> int \<Rightarrow> u32 \<Rightarrow> ipc \<Rightarrow> int \<times> ipc" where
  "sem_create name initial_value flags s =
     (case name of
        None \<Rightarrow> (- 1, s)
      | Some nm \<Rightarrow>
          if initial_value < 0 then (- 1, s)
          else (case find_semaphore nm s of
            Some existing \<Rightarrow> if flags AND IPC_EXCL \<noteq> 0 then (- 1, s) else (int existing, s)
          | None \<Rightarrow>
              if flags AND IPC_CREAT = 0 then (- 1, s)
              else (case first_from (\<lambda>i. \<not> bm_test (semaphore_bitmap s) i) 0 MAX_SEMAPHORES of
                None \<Rightarrow> (- 1, s)
              | Some semid \<Rightarrow>
                  let s1 = upd_sem (\<lambda>m. m\<lparr>sem_id := int semid, sem_name := copy_loop (sem_name m) nm 31 0,
                             sem_value := initial_value, sem_max_value := 0x7FFFFFFF, sem_flags := flags,
                             sem_owner := task_get_current_id (ipc_sched s), sem_num_blocked := 0\<rparr>) semid s
                  in (int semid, s1\<lparr>semaphore_bitmap := bm_set (semaphore_bitmap s1) semid\<rparr>))))"

definition sem_valid :: "int \<Rightarrow> ipc \<Rightarrow> bool" where
  "sem_valid semid s \<longleftrightarrow> \<not> (semid < 0 \<or> semid \<ge> int MAX_SEMAPHORES) \<and> bm_test (semaphore_bitmap s) (nat semid)"

partial_function (option) sem_wait_loop :: "nat \<Rightarrow> ipc \<Rightarrow> ipc option" where
  "sem_wait_loop i s =
     (if sem_value (semaphores s i) \<le> 0 then do {
        s1 \<leftarrow> ipc_block (int i) (upd_sem (\<lambda>m. m\<lparr>sem_num_blocked := sem_num_blocked m + 1\<rparr>) i s);
        sem_wait_loop i (upd_sem (\<lambda>m. m\<lparr>sem_num_blocked := sem_num_blocked m - 1\<rparr>) i s1) }
      else Some s)"

definition sem_wait :: "int \<Rightarrow> ipc \<Rightarrow> (int \<times> ipc) option" where
  "sem_wait semid s =
     (if \<not> sem_valid semid s then Some (- 1, s)
      else do {
        s1 \<leftarrow> sem_wait_loop (nat semid) s;
        Some (0, upd_sem (\<lambda>m. m\<lparr>sem_value := sem_value m - 1\<rparr>) (nat semid) s1) })"

definition sem_trywait :: "int \<Rightarrow> ipc \<Rightarrow> int \<times> ipc" where
  "sem_trywait semid s =
     (if \<not> sem_valid semid s then (- 1, s)
      else if sem_value (semaphores s (nat semid)) \<le> 0 then (- 1, s)
      else (0, upd_sem (\<lambda>m. m\<lparr>sem_value := sem_value m - 1\<rparr>) (nat semid) s))"

definition sem_post :: "int \<Rightarrow> ipc \<Rightarrow> int \<times> ipc" where
  "sem_post semid s =
     (if \<not> sem_valid semid s then (- 1, s)
      else (0, upd_sem (\<lambda>m. if sem_value m < sem_max_value m then m\<lparr>sem_value := sem_value m + 1\<rparr> else m)
                 (nat semid) s))"

definition sem_getvalue :: "int \<Rightarrow> bool \<Rightarrow> ipc \<Rightarrow> int \<times> int option" where
  "sem_getvalue semid value_null s =
     (if value_null \<or> \<not> sem_valid semid s then (- 1, None)
      else (0, Some (sem_value (semaphores s (nat semid)))))"

definition sem_close :: "int \<Rightarrow> int" where
  "sem_close semid = 0"

definition sem_unlink :: "u8 list \<Rightarrow> ipc \<Rightarrow> int \<times> ipc" where
  "sem_unlink name s =
     (case find_semaphore name s of
        None \<Rightarrow> (- 1, s)
      | Some i \<Rightarrow>
          let s1 = upd_sem (\<lambda>m. m\<lparr>sem_name := (sem_name m)[0 := 0]\<rparr>) i s
          in (0, s1\<lparr>semaphore_bitmap := bm_clear (semaphore_bitmap s1) i\<rparr>))"

subsection \<open>Mutexes\<close>

definition mutex_create :: "u8 list option \<Rightarrow> mutex_type \<Rightarrow> u32 \<Rightarrow> ipc \<Rightarrow> int \<times> ipc" where
  "mutex_create name type flags s =
     (case name of
        None \<Rightarrow> (- 1, s)
      | Some nm \<Rightarrow>
          (case first_from (\<lambda>i. \<not> bm_test (mutex_bitmap s) i) 0 MAX_MUTEXES of
             None \<Rightarrow> (- 1, s)
           | Some mutexid \<Rightarrow>
               let s1 = upd_mutex (\<lambda>m. m\<lparr>mx_id := int mutexid, mx_name := copy_loop (mx_name m) nm 31 0,
                          mx_type := type, mx_locked := False, mx_owner := - 1, mx_recursion_count := 0,
                          mx_num_blocked := 0, mx_priority_ceiling := 0\<rparr>) mutexid s
               in (int mutexid, s1\<lparr>mutex_bitmap := bm_set (mutex_bitmap s1) mutexid\<rparr>)))"

definition mutex_valid :: "int \<Rightarrow> ipc \<Rightarrow> bool" where
  "mutex_valid mutexid s \<longleftrightarrow> \<not> (mutexid < 0 \<or> mutexid \<ge> int MAX_MUTEXES) \<and> bm_test (mutex_bitmap s) (nat mutexid)"

definition mutex_acquire :: "int \<Rightarrow> ipc_mutex \<Rightarrow> ipc_mutex" where
  "mutex_acquire current_task m = m\<lparr>mx_locked := True, mx_owner := current_task, mx_recursion_count := 1\<rparr>"

partial_function (option) mutex_lock_loop :: "nat \<Rightarrow> ipc \<Rightarrow> ipc option" where
  "mutex_lock_loop i s =
     (if mx_locked (mutexes s i) then do {
        s1 \<leftarrow> ipc_block (int i) (upd_mutex (\<lambda>m. m\<lparr>mx_num_blocked := mx_num_blocked m + 1\<rparr>) i s);
        mutex_lock_loop i (upd_mutex (\<lambda>m. m\<lparr>mx_num_blocked := mx_num_blocked m - 1\<rparr>) i s1) }
      else Some s)"

definition mutex_lock :: "int \<Rightarrow> ipc \<Rightarrow> (int \<times> ipc) option" where
  "mutex_lock mutexid s =
     (if \<not> mutex_valid mutexid s then Some (- 1, s)
      else
        let i = nat mutexid; m = mutexes s i; current_task = task_get_current_id (ipc_sched s)
        in if mx_type m = MUTEX_RECURSIVE \<and> mx_owner m = current_task
           then Some (0, upd_mutex (\<lambda>m. m\<lparr>mx_recursion_count := mx_recursion_count m + 1\<rparr>) i s)
           else if mx_type m = MUTEX_ERRORCHECK \<and> mx_owner m = current_task then Some (- 1, s)
           else do {
             s1 \<leftarrow> mutex_lock_loop i s;
             Some (0, upd_mutex (mutex_acquire current_task) i s1) })"

definition mutex_trylock :: "int \<Rightarrow> ipc \<Rightarrow> int \<times> ipc" where
  "mutex_trylock mutexid s =
     (if \<not> mutex_valid mutexid s then (- 1, s)
      else
        let i = nat mutexid; m = mutexes s i; current_task = task_get_current_id (ipc_sched s)
        in if mx_locked m then
             if mx_type m = MUTEX_RECURSIVE \<and> mx_owner m = current_task
             then (0, upd_mutex (\<lambda>m. m\<lparr>mx_recursion_count := mx_recursion_count m + 1\<rparr>) i s)
             else (- 1, s)
           else (0, upd_mutex (mutex_acquire current_task) i s))"

definition mutex_unlock :: "int \<Rightarrow> ipc \<Rightarrow> int \<times> ipc" where
  "mutex_unlock mutexid s =
     (if \<not> mutex_valid mutexid s then (- 1, s)
      else
        let i = nat mutexid; m = mutexes s i; current_task = task_get_current_id (ipc_sched s)
        in if mx_type m = MUTEX_ERRORCHECK \<and> mx_owner m \<noteq> current_task then (- 1, s)
           else if mx_type m = MUTEX_RECURSIVE \<and> mx_recursion_count m > 1
           then (0, upd_mutex (\<lambda>m. m\<lparr>mx_recursion_count := mx_recursion_count m - 1\<rparr>) i s)
           else (0, upd_mutex (\<lambda>m. m\<lparr>mx_locked := False, mx_owner := - 1, mx_recursion_count := 0\<rparr>) i s))"

definition mutex_destroy :: "int \<Rightarrow> ipc \<Rightarrow> int \<times> ipc" where
  "mutex_destroy mutexid s =
     (if \<not> mutex_valid mutexid s then (- 1, s)
      else if mx_locked (mutexes s (nat mutexid)) then (- 1, s)
      else
        let s1 = upd_mutex (\<lambda>m. m\<lparr>mx_name := (mx_name m)[0 := 0]\<rparr>) (nat mutexid) s
        in (0, s1\<lparr>mutex_bitmap := bm_clear (mutex_bitmap s1) (nat mutexid)\<rparr>))"

subsection \<open>Initialisation and cleanup\<close>

definition ipc_init :: "ipc \<Rightarrow> ipc" where
  "ipc_init s =
     (let s1 = for_range 0 (MAX_MSG_QUEUES div 32) (\<lambda>i s. s\<lparr>msgqueue_bitmap := (msgqueue_bitmap s)[i := 0]\<rparr>) s;
          s2 = for_range 0 (MAX_SEMAPHORES div 32) (\<lambda>i s. s\<lparr>semaphore_bitmap := (semaphore_bitmap s)[i := 0]\<rparr>) s1
      in for_range 0 (MAX_MUTEXES div 32) (\<lambda>i s. s\<lparr>mutex_bitmap := (mutex_bitmap s)[i := 0]\<rparr>) s2)"

definition ipc_cleanup_task :: "int \<Rightarrow> ipc \<Rightarrow> ipc" where
  "ipc_cleanup_task task_id s =
     for_range 0 MAX_MUTEXES
       (\<lambda>i s. if bm_test (mutex_bitmap s) i \<and> mx_owner (mutexes s i) = task_id
              then upd_mutex (\<lambda>m. m\<lparr>mx_locked := False, mx_owner := - 1\<rparr>) i s else s) s"

end
