(* ===== verification/SchedulerInv.thy ===== *)
theory SchedulerInv
  imports Scheduler
begin

text \<open>
  The invariant of the scheduler and what its operations do. The ready lists are the family of
  intrusive lists of theory \<open>Intrusive\<close>; the invariant says that they hold exactly the live \<open>READY\<close>
  tasks, each in the list of its priority, that only the current task is \<open>RUNNING\<close>, and
  that every live task owns a stack frame of its own.
\<close>

subsection \<open>The ready lists as intrusive lists\<close>

definition task_next :: "sched \<Rightarrow> nat \<Rightarrow> nat option" where
  "task_next s i = t_next (task_pool s i)"

definition task_prev :: "sched \<Rightarrow> nat \<Rightarrow> nat option" where
  "task_prev s i = t_prev (task_pool s i)"

definition ready_heads :: "sched \<Rightarrow> nat \<Rightarrow> nat option" where
  "ready_heads s p = ready_lists (cpu_runqueues s 0) p"

lemmas sched_list_defs = task_next_def task_prev_def ready_heads_def upd_task_def upd_rq_def

interpretation rl: intrusive_lists task_next task_prev ready_heads
    "\<lambda>t p. link_task t 0 p" "\<lambda>t p. unlink_task t 0 p" NUM_PRIORITIES MAX_TASKS
  by unfold_locales
    (auto simp: sched_list_defs link_task_def unlink_task_def Let_def relink_def fun_eq_iff split: option.splits)

definition ready_list :: "sched \<Rightarrow> nat \<Rightarrow> nat list" where
  "ready_list s p = walk MAX_TASKS (task_next s) (ready_lists (cpu_runqueues s 0) p)"

lemma rl_list [simp]: "rl.list_of s p = ready_list s p"
  by (simp add: rl.list_of_def ready_list_def ready_heads_def)

definition queued :: "sched \<Rightarrow> (nat \<times> nat) set" where
  "queued s = {(t, p). p < NUM_PRIORITIES \<and> t \<in> set (ready_list s p)}"

subsection \<open>The rest of the state\<close>

text \<open>Two states that differ in nothing but list pointers and queue lengths.\<close>

definition core :: "task \<Rightarrow> task" where
  "core t = t\<lparr>t_next := None, t_prev := None\<rparr>"

definition rq_core :: "cpu_runqueue \<Rightarrow> cpu_runqueue" where
  "rq_core r = r\<lparr>ready_lists := (\<lambda>p. None), nr_running := 0\<rparr>"

definition unlinked :: "sched \<Rightarrow> sched" where
  "unlinked s = s\<lparr>task_pool := \<lambda>i. core (task_pool s i), cpu_runqueues := \<lambda>c. rq_core (cpu_runqueues s c)\<rparr>"

definition relinked :: "sched \<Rightarrow> sched \<Rightarrow> bool" where
  "relinked s s' \<longleftrightarrow> unlinked s' = unlinked s"

lemma core_eqD:
  assumes "core a = core b"
  shows "t_id a = t_id b" "t_state a = t_state b" "t_priority a = t_priority b" "t_cpu a = t_cpu b"
    "t_static_priority a = t_static_priority b" "t_effective_priority a = t_effective_priority b"
    "t_stack_base a = t_stack_base b" "t_policy a = t_policy b" "t_sleep_until a = t_sleep_until b"
    "t_affinity a = t_affinity b" "t_time_slice a = t_time_slice b"
  using assms unfolding core_def by (cases a; cases b; simp)+

lemma rq_core_eqD:
  assumes "rq_core a = rq_core b"
  shows "rq_current a = rq_current b" "rq_idle_task a = rq_idle_task b"
  using assms unfolding rq_core_def by (cases a; cases b; simp)+

lemma relinked_core:
  assumes "relinked s s'"
  shows "core (task_pool s' i) = core (task_pool s i)" "rq_core (cpu_runqueues s' c) = rq_core (cpu_runqueues s c)"
  using arg_cong [OF assms [unfolded relinked_def], of "\<lambda>s. task_pool s i"]
    arg_cong [OF assms [unfolded relinked_def], of "\<lambda>s. cpu_runqueues s c"]
  by (simp_all add: unlinked_def)

lemma relinkedD:
  assumes "relinked s s'"
  shows "task_bitmap s' = task_bitmap s" "num_cpus s' = num_cpus s" "current_cpu s' = current_cpu s"
    "scheduler_enabled s' = scheduler_enabled s" "preemption_enabled s' = preemption_enabled s"
    "sched_frames s' = sched_frames s" "timer_ticks s' = timer_ticks s"
    "timer_get_ticks s' = timer_get_ticks s"
  using assms [unfolded relinked_def, THEN arg_cong, of task_bitmap]
    assms [unfolded relinked_def, THEN arg_cong, of num_cpus]
    assms [unfolded relinked_def, THEN arg_cong, of current_cpu]
    assms [unfolded relinked_def, THEN arg_cong, of scheduler_enabled]
    assms [unfolded relinked_def, THEN arg_cong, of preemption_enabled]
    assms [unfolded relinked_def, THEN arg_cong, of sched_frames]
    assms [unfolded relinked_def, THEN arg_cong, of timer_ticks]
  by (simp_all add: unlinked_def timer_get_ticks_def)

lemmas relinked_taskD = core_eqD [OF relinked_core(1)] rq_core_eqD [OF relinked_core(2)]

lemmas relinked_simps = relinkedD relinked_taskD

lemma link_relinked: "relinked s (link_task t c p s)"
  by (auto simp: relinked_def unlinked_def link_task_def upd_task_def fun_eq_iff upd_rq_def core_def rq_core_def Let_def split: option.splits)

lemma unlink_relinked: "relinked s (unlink_task t c p s)"
  by (auto simp: relinked_def unlinked_def unlink_task_def upd_task_def fun_eq_iff upd_rq_def core_def rq_core_def Let_def split: option.splits)

lemmas relink_frame [simp] = relinked_simps [OF link_relinked] relinked_simps [OF unlink_relinked]

subsection \<open>The invariant\<close>

interpretation task_slots:
  slot_bitmap "bm_test :: u32 list \<Rightarrow> nat \<Rightarrow> bool" bm_set bm_clear "bm_used MAX_TASKS"
    "\<lambda>bm. length bm = 8" MAX_TASKS
  by (rule bitmap_provides_slots) simp

definition live :: "sched \<Rightarrow> nat set" where
  "live s = bm_used MAX_TASKS (task_bitmap s)"

text \<open>
  The frame a task owns: the one page \<open>task_create_ex\<close> allocates, at \<open>stack_base\<close>. The stack itself,
  \<open>stack_size\<close> bytes from there, is that page only for a stack of one page.
\<close>

definition stack_page :: "sched \<Rightarrow> nat \<Rightarrow> nat" where
  "stack_page s t = unat (t_stack_base (task_pool s t)) div 4096"

definition task_ok :: "sched \<Rightarrow> nat \<Rightarrow> bool" where
  "task_ok s t \<longleftrightarrow> t_id (task_pool s t) = of_nat t \<and> t_cpu (task_pool s t) = 0
     \<and> 0 \<le> t_priority (task_pool s t) \<and> t_priority (task_pool s t) \<le> MAX_NORMAL_PRIORITY
     \<and> 0 \<le> t_static_priority (task_pool s t) \<and> t_static_priority (task_pool s t) \<le> MAX_NORMAL_PRIORITY
     \<and> unat (t_stack_base (task_pool s t)) < 134217728 \<and> unat (t_stack_base (task_pool s t)) mod 4096 = 0
     \<and> stack_page s t \<noteq> 0
     \<and> stack_page s t \<in> pmm_used (sched_frames s)"

definition static_inv :: "sched \<Rightarrow> bool" where
  "static_inv s \<longleftrightarrow> length (task_bitmap s) = 8 \<and> num_cpus s = 1 \<and> current_cpu s = 0
     \<and> rq_idle_task (cpu_runqueues s 0) = None
     \<and> (\<forall>t. rq_current (cpu_runqueues s 0) = Some t \<longrightarrow> t < MAX_TASKS)
     \<and> pmm_inv (sched_frames s) \<and> 0 \<in> pmm_used (sched_frames s)
     \<and> (\<forall>t \<in> live s. task_ok s t) \<and> inj_on (stack_page s) (live s)"

definition ready_pairs :: "sched \<Rightarrow> (nat \<times> nat) set" where
  "ready_pairs s = {(t, p). t \<in> live s \<and> t_state (task_pool s t) = TASK_READY
                           \<and> t_priority (task_pool s t) = int p}"

definition running_ok :: "sched \<Rightarrow> bool" where
  "running_ok s \<longleftrightarrow> (\<forall>t < MAX_TASKS. t_state (task_pool s t) = TASK_RUNNING \<longrightarrow>
     t \<in> live s \<and> rq_current (cpu_runqueues s 0) = Some t)"

definition sched_wf :: "sched \<Rightarrow> bool" where
  "sched_wf s \<longleftrightarrow> rl.well_linked s \<and> unat (nr_running (cpu_runqueues s 0)) = card (queued s) \<and> static_inv s"

definition sched_inv :: "sched \<Rightarrow> bool" where
  "sched_inv s \<longleftrightarrow> sched_wf s \<and> queued s = ready_pairs s \<and> running_ok s"

lemma live_less: "t \<in> live s \<Longrightarrow> t < MAX_TASKS"
  by (simp add: live_def bm_used_def)

lemma running_okD:
  assumes "sched_inv s" and "t < MAX_TASKS" and "t_state (task_pool s t) = TASK_RUNNING"
  shows "t \<in> live s" and "rq_current (cpu_runqueues s 0) = Some t"
  using assms unfolding sched_inv_def running_ok_def by blast+

lemma sched_invD:
  assumes "sched_inv s"
  shows "sched_wf s" and "queued s = ready_pairs s" and "rl.well_linked s" and "static_inv s"
    and "current_cpu s = 0" and "num_cpus s = 1" and "rq_current (cpu_runqueues s 0) = Some t \<Longrightarrow> t < MAX_TASKS"
    and "u \<in> live s \<Longrightarrow> task_ok s u" and "running_ok s"
  using assms unfolding sched_inv_def sched_wf_def static_inv_def by blast+

lemma relinked_views:
  assumes "relinked s s'"
  shows "live s' = live s" and "static_inv s' = static_inv s" and "ready_pairs s' = ready_pairs s"
    and "running_ok s' = running_ok s"
proof -
  note r = relinked_simps [OF assms]
  show live: "live s' = live s" by (simp add: live_def r)
  have "stack_page s' = stack_page s" by (intro ext) (simp add: stack_page_def r)
  then show "static_inv s' = static_inv s" by (simp add: static_inv_def task_ok_def live r)
  show "ready_pairs s' = ready_pairs s" by (simp add: ready_pairs_def live r)
  show "running_ok s' = running_ok s" by (simp add: running_ok_def live r)
qed

lemmas live_relink [simp] = relinked_views(1) [OF link_relinked] relinked_views(1) [OF unlink_relinked]

lemma queued_less:
  assumes "rl.well_linked s" and "(t, p) \<in> queued s"
  shows "t < MAX_TASKS" and "p < NUM_PRIORITIES"
proof -
  show p: "p < NUM_PRIORITIES" using assms(2) by (simp add: queued_def)
  have "set (ready_list s p) \<subseteq> {..<MAX_TASKS}" using rl.well_linkedD(2) [OF assms(1) p] by simp
  moreover have "t \<in> set (ready_list s p)" using assms(2) by (simp add: queued_def)
  ultimately show "t < MAX_TASKS" by blast
qed

lemma queued_finite: "rl.well_linked s \<Longrightarrow> finite (queued s)"
proof -
  assume wl: "rl.well_linked s"
  have "queued s \<subseteq> {..<MAX_TASKS} \<times> {..<NUM_PRIORITIES}"
    using queued_less [OF wl] by auto
  then show ?thesis by (rule finite_subset) simp
qed

lemma queued_unique: "rl.well_linked s \<Longrightarrow> (t, p) \<in> queued s \<Longrightarrow> (t, q) \<in> queued s \<Longrightarrow> p = q"
  using rl.well_linkedD(5) [of s p q] by (auto simp: queued_def)

lemma queued_card: "rl.well_linked s \<Longrightarrow> card (queued s) \<le> MAX_TASKS"
proof -
  assume wl: "rl.well_linked s"
  have "inj_on fst (queued s)" using queued_unique [OF wl] by (auto simp: inj_on_def)
  then have "card (queued s) = card (fst ` queued s)" by (simp add: card_image)
  also have "\<dots> \<le> card {..<MAX_TASKS}"
    using queued_less(1) [OF wl] by (intro card_mono) auto
  finally show ?thesis by simp
qed

lemma link_queue:
  assumes wf: "sched_wf s" and t: "t < MAX_TASKS" and p: "p < NUM_PRIORITIES" and new: "\<And>q. (t, q) \<notin> queued s"
  shows "sched_wf (link_task t 0 p s)" and "queued (link_task t 0 p s) = insert (t, p) (queued s)"
proof -
  have wl: "rl.well_linked s" using wf by (simp add: sched_wf_def)
  have "t \<notin> set (ready_list s q)" if "q < NUM_PRIORITIES" for q using new that by (auto simp: queued_def)
  then have push: "rl.well_linked (link_task t 0 p s)"
    "\<And>q. q < NUM_PRIORITIES \<Longrightarrow> ready_list (link_task t 0 p s) q = (if q = p then t # ready_list s p else ready_list s q)"
    using rl.push_well_linked [OF wl p t] by simp_all
  show q: "queued (link_task t 0 p s) = insert (t, p) (queued s)"
    using push(2) p by (auto simp: queued_def split: if_splits)
  have "nr_running (cpu_runqueues (link_task t 0 p s) 0) = nr_running (cpu_runqueues s 0) + 1"
    by (auto simp: link_task_def upd_task_def upd_rq_def Let_def split: option.splits)
  moreover have "card (queued (link_task t 0 p s)) = Suc (card (queued s))"
    using q new queued_finite [OF wl] by simp
  ultimately show "sched_wf (link_task t 0 p s)"
    using wf push(1) queued_card [OF wl] relinked_views(2) [OF link_relinked]
    by (simp add: sched_wf_def unat_word_ariths)
qed

lemma unlink_queue:
  assumes wf: "sched_wf s" and q: "(t, p) \<in> queued s"
  shows "sched_wf (unlink_task t 0 p s)" and "queued (unlink_task t 0 p s) = queued s - {(t, p)}"
proof -
  have wl: "rl.well_linked s" using wf by (simp add: sched_wf_def)
  have p: "p < NUM_PRIORITIES" "t \<in> set (ready_list s p)" using q by (auto simp: queued_def)
  have un: "rl.well_linked (unlink_task t 0 p s)"
    "\<And>r. r < NUM_PRIORITIES \<Longrightarrow> ready_list (unlink_task t 0 p s) r = (if r = p then remove1 t (ready_list s p) else ready_list s r)"
    using rl.unlink_well_linked [OF wl p(1)] p(2) by simp_all
  have dist: "distinct (ready_list s p)" using rl.well_linkedD(1) [OF wl p(1)] by simp
  show q': "queued (unlink_task t 0 p s) = queued s - {(t, p)}"
    using un(2) p dist by (auto simp: queued_def split: if_splits)
  have "nr_running (cpu_runqueues (unlink_task t 0 p s) 0) = nr_running (cpu_runqueues s 0) - 1"
    by (auto simp: unlink_task_def upd_task_def upd_rq_def Let_def split: option.splits)
  moreover have "card (queued (unlink_task t 0 p s)) = card (queued s) - 1" "0 < card (queued s)"
    using q q' queued_finite [OF wl] by (auto simp: card_gt_0_iff)
  ultimately show "sched_wf (unlink_task t 0 p s)"
    using wf un(1) relinked_views(2) [OF unlink_relinked] by (simp add: sched_wf_def unat_dec_small)
qed

subsection \<open>Frame rules\<close>

definition keeps_links :: "(task \<Rightarrow> task) \<Rightarrow> bool" where
  "keeps_links f \<longleftrightarrow> (\<forall>k. t_next (f k) = t_next k \<and> t_prev (f k) = t_prev k)"

definition keeps_static :: "(task \<Rightarrow> task) \<Rightarrow> bool" where
  "keeps_static f \<longleftrightarrow> keeps_links f \<and> (\<forall>k. t_id (f k) = t_id k \<and> t_cpu (f k) = t_cpu k
     \<and> t_stack_base (f k) = t_stack_base k \<and> t_priority (f k) = t_priority k
     \<and> t_static_priority (f k) = t_static_priority k)"

lemma upd_task_simps [simp]:
  "task_pool (upd_task f t s) i = (if i = t then f (task_pool s i) else task_pool s i)"
  "task_bitmap (upd_task f t s) = task_bitmap s" "cpu_runqueues (upd_task f t s) = cpu_runqueues s"
  "num_cpus (upd_task f t s) = num_cpus s" "current_cpu (upd_task f t s) = current_cpu s"
  "scheduler_enabled (upd_task f t s) = scheduler_enabled s"
  "preemption_enabled (upd_task f t s) = preemption_enabled s" "sched_frames (upd_task f t s) = sched_frames s"
  "timer_ticks (upd_task f t s) = timer_ticks s" "timer_get_ticks (upd_task f t s) = timer_get_ticks s" "live (upd_task f t s) = live s"
  by (auto simp: upd_task_def timer_get_ticks_def live_def)

lemma wf_frame:
  assumes "\<And>i. t_next (task_pool s' i) = t_next (task_pool s i)" "\<And>i. t_prev (task_pool s' i) = t_prev (task_pool s i)"
    and "ready_lists (cpu_runqueues s' 0) = ready_lists (cpu_runqueues s 0)"
    and "nr_running (cpu_runqueues s' 0) = nr_running (cpu_runqueues s 0)"
  shows "queued s' = queued s" and "sched_wf s \<Longrightarrow> static_inv s' \<Longrightarrow> sched_wf s'"
proof -
  have links: "task_next s' = task_next s" "task_prev s' = task_prev s" "ready_heads s' = ready_heads s"
    using assms by (auto simp: sched_list_defs fun_eq_iff)
  have "ready_list s' = ready_list s" by (intro ext) (simp add: ready_list_def links assms(3))
  then show q: "queued s' = queued s" by (simp add: queued_def)
  show "sched_wf s \<Longrightarrow> static_inv s' \<Longrightarrow> sched_wf s'"
    using q assms(4) rl.frame_well_linked(1) [OF links] by (simp add: sched_wf_def)
qed

lemma upd_task_frame:
  assumes "keeps_static f"
  shows "queued (upd_task f t s) = queued s" and "static_inv (upd_task f t s) = static_inv s"
    and "sched_wf s \<Longrightarrow> sched_wf (upd_task f t s)"
proof -
  have f: "t_next (f k) = t_next k" "t_prev (f k) = t_prev k" "t_id (f k) = t_id k" "t_cpu (f k) = t_cpu k"
    "t_stack_base (f k) = t_stack_base k" "t_priority (f k) = t_priority k"
    "t_static_priority (f k) = t_static_priority k" for k
    using assms by (auto simp: keeps_static_def keeps_links_def)
  have page: "stack_page (upd_task f t s) = stack_page s" by (intro ext) (simp add: stack_page_def f)
  have "task_ok (upd_task f t s) u = task_ok s u" for u by (simp add: task_ok_def page f)
  then show st: "static_inv (upd_task f t s) = static_inv s" by (simp add: static_inv_def page)
  note fr = wf_frame [of "upd_task f t s" s]
  show "queued (upd_task f t s) = queued s" by (rule fr(1)) (simp_all add: f)
  show "sched_wf s \<Longrightarrow> sched_wf (upd_task f t s)"
  proof (rule fr(2))
    show "sched_wf s \<Longrightarrow> static_inv (upd_task f t s)" using st by (simp add: sched_wf_def)
  qed (simp_all add: f)
qed

text \<open>A task that becomes ready is enqueued in the list of its priority.\<close>

lemma make_ready:
  assumes inv: "sched_inv s" and t: "t \<in> live s" and notready: "t_state (task_pool s t) \<noteq> TASK_READY"
    and f: "keeps_static f" "\<And>k. t_state (f k) = TASK_READY"
  shows "\<exists>s'. enqueue_task (t_cpu (task_pool (upd_task f t s) t)) t (upd_task f t s) = Some s'
     \<and> sched_inv s' \<and> relinked (upd_task f t s) s'"
proof -
  let ?s1 = "upd_task f t s"
  have wf: "sched_wf ?s1" "queued ?s1 = queued s"
    using inv upd_task_frame [OF f(1)] by (auto simp: sched_inv_def)
  have keep: "t_priority (f k) = t_priority k" "t_cpu (f k) = t_cpu k" for k using f(1) by (auto simp: keeps_static_def)
  have ok: "task_ok s t" using inv t by (simp add: sched_inv_def sched_wf_def static_inv_def)
  define p where "p = nat (t_priority (task_pool s t))"
  have p: "t_priority (task_pool s t) = int p" "p < NUM_PRIORITIES" using ok by (auto simp: p_def task_ok_def)
  have new: "(t, q) \<notin> queued ?s1" for q
    using inv notready wf(2) by (auto simp: sched_inv_def ready_pairs_def)
  note link = link_queue [OF wf(1) live_less [OF t] p(2) new]
  let ?s' = "link_task t 0 p ?s1"
  have "enqueue_task (t_cpu (task_pool ?s1 t)) t ?s1 = Some ?s'"
    using ok p by (simp add: enqueue_task_def keep task_ok_def)
  moreover have "queued ?s' = ready_pairs ?s'"
  proof -
    have "ready_pairs ?s1 = insert (t, p) (ready_pairs s)"
      using t f(2) p(1) notready by (auto simp: ready_pairs_def keep split: if_splits)
    then show ?thesis using link(2) wf(2) inv relinked_views(3) [OF link_relinked] by (simp add: sched_inv_def)
  qed
  moreover have "running_ok ?s'"
    using inv f(2) relinked_views(4) [OF link_relinked] by (simp add: sched_inv_def running_ok_def)
  ultimately show ?thesis using link(1) link_relinked by (auto simp: sched_inv_def)
qed

subsection \<open>Picking and dispatching\<close>

lemma pick_next_spec:
  assumes inv: "sched_inv s"
  shows "case pick_next_task 0 s of
     None \<Rightarrow> ready_pairs s = {}
   | Some n \<Rightarrow> \<exists>p. (n, p) \<in> ready_pairs s \<and> (\<forall>(t, q) \<in> ready_pairs s. p \<le> q)"
proof (cases "first_from (\<lambda>i. ready_lists (cpu_runqueues s 0) i \<noteq> None) 0 NUM_PRIORITIES")
  have wl: "rl.well_linked s" and q: "queued s = ready_pairs s" and idle: "rq_idle_task (cpu_runqueues s 0) = None"
    using inv by (auto simp: sched_inv_def sched_wf_def static_inv_def)
  have empty: "ready_lists (cpu_runqueues s 0) p = None \<longleftrightarrow> ready_list s p = []" if "p < NUM_PRIORITIES" for p
    using rl.well_linkedD(3) [OF wl that] by (simp add: ready_heads_def)
  {
    case None
    then have "queued s = {}" using empty by (auto simp: queued_def first_from_None_iff)
    then show ?thesis using None idle q by (simp add: pick_next_task_def)
  next
    case (Some p)
    then have p: "p < NUM_PRIORITIES" "ready_lists (cpu_runqueues s 0) p \<noteq> None"
      and least: "\<And>j. j < p \<Longrightarrow> ready_lists (cpu_runqueues s 0) j = None"
      by (auto dest: first_from_SomeD)
    then obtain n where n: "ready_lists (cpu_runqueues s 0) p = Some n" by auto
    have "ready_list s p = n # tl (ready_list s p)"
      using rl.well_linkedD(4) [OF wl p(1), of n] n by (simp add: ready_heads_def)
    then have "n \<in> set (ready_list s p)" by (metis list.set_intros(1))
    then have np: "(n, p) \<in> ready_pairs s" using p(1) q by (auto simp: queued_def)
    have "p \<le> r" if "(t, r) \<in> ready_pairs s" for t r
    proof (rule ccontr)
      assume "\<not> p \<le> r"
      then have "r < p" by simp
      then have "ready_list s r = []" using least empty p(1) by auto
      moreover have "(t, r) \<in> queued s" using that q by simp
      ultimately show False by (simp add: queued_def)
    qed
    then show ?thesis using Some n np by (auto simp: pick_next_task_def)
  }
qed

text \<open>Dispatching a ready task when nothing is running.\<close>

lemma dispatch:
  assumes inv: "sched_inv s" and np: "(n, p) \<in> ready_pairs s"
    and idle: "\<And>t. t < MAX_TASKS \<Longrightarrow> t_state (task_pool s t) \<noteq> TASK_RUNNING"
    and f: "keeps_static f" "\<And>k. t_state (f k) = TASK_RUNNING"
    and g: "keeps_static g" "\<And>k. t_state (g k) = t_state k"
  shows "\<exists>s2. dequeue_task 0 n s = Some s2 \<and> relinked s s2
     \<and> sched_inv (upd_rq (rq_current_update (\<lambda>_. Some n)) 0 (upd_stats h (upd_task g m (upd_task f n s2))))"
proof -
  have n: "n \<in> live s" "t_state (task_pool s n) = TASK_READY" "t_priority (task_pool s n) = int p"
    using np by (auto simp: ready_pairs_def)
  have wf: "sched_wf s" "queued s = ready_pairs s" using inv by (auto simp: sched_inv_def)
  then have q: "(n, p) \<in> queued s" using np by simp
  have p: "p < NUM_PRIORITIES" using q by (simp add: queued_def)
  let ?s2 = "unlink_task n 0 p s"
  let ?s3 = "upd_task g m (upd_task f n ?s2)"
  let ?s5 = "upd_rq (rq_current_update (\<lambda>_. Some n)) 0 (upd_stats h ?s3)"
  note un = unlink_queue [OF wf(1) q]
  note rel = unlink_relinked [of s n 0 p]
  have deq: "dequeue_task 0 n s = Some ?s2" using n p by (simp add: dequeue_task_def)
  have wf3: "sched_wf ?s3" "queued ?s3 = queued s - {(n, p)}"
    using un upd_task_frame [OF f(1)] upd_task_frame [OF g(1)] by auto
  have same: "task_pool ?s5 = task_pool ?s3" "live ?s5 = live s" "rq_current (cpu_runqueues ?s5 0) = Some n"
    by (simp_all add: upd_rq_def upd_stats_def live_def)
  have state: "t_state (task_pool ?s5 t) = (if t = n then TASK_RUNNING else t_state (task_pool s t))" for t
    unfolding same by (simp add: f g)
  have prio: "t_priority (task_pool ?s5 t) = t_priority (task_pool s t)" for t
    unfolding same using f(1) g(1) by (simp add: keeps_static_def)
  have "stack_page ?s5 = stack_page ?s3" by (intro ext) (simp add: stack_page_def same)
  moreover have "n < MAX_TASKS" using n(1) by (rule live_less)
  ultimately have "static_inv ?s5"
    using wf3(1) by (auto simp: sched_wf_def static_inv_def task_ok_def upd_rq_def upd_stats_def live_def)
  then have "sched_wf ?s5" "queued ?s5 = queued ?s3"
    using wf_frame [of ?s5 ?s3] wf3(1) by (auto simp: upd_rq_def upd_stats_def)
  moreover have "ready_pairs ?s5 = ready_pairs s - {(n, p)}"
    unfolding ready_pairs_def same(2) state prio using n by (auto split: if_splits)
  moreover have "running_ok ?s5" unfolding running_ok_def same(2,3) state using idle n(1) by auto
  ultimately have "sched_inv ?s5" using wf(2) wf3(2) by (simp add: sched_inv_def)
  with deq rel show ?thesis by blast
qed

lemma keeps_staticI [intro]:
  "(\<And>k. t_next (f k) = t_next k) \<Longrightarrow> (\<And>k. t_prev (f k) = t_prev k) \<Longrightarrow> (\<And>k. t_id (f k) = t_id k) \<Longrightarrow>
   (\<And>k. t_cpu (f k) = t_cpu k) \<Longrightarrow> (\<And>k. t_stack_base (f k) = t_stack_base k) \<Longrightarrow>
   (\<And>k. t_priority (f k) = t_priority k) \<Longrightarrow> (\<And>k. t_static_priority (f k) = t_static_priority k) \<Longrightarrow> keeps_static f"
  by (simp add: keeps_static_def keeps_links_def)

lemma upd_id [simp]: "upd_task (\<lambda>k. k) t s = s" "upd_stats (\<lambda>g. g) s = s"
  by (simp_all add: upd_task_def upd_stats_def)

lemma ready_pairsI:
  assumes "sched_inv s" and "t \<in> live s" and "t_state (task_pool s t) = TASK_READY"
  shows "(t, nat (t_priority (task_pool s t))) \<in> ready_pairs s"
  using assms by (auto simp: ready_pairs_def sched_inv_def sched_wf_def static_inv_def task_ok_def)

text \<open>First half of \<open>scheduler_schedule\<close>: the running task goes back to its ready list.\<close>

definition preempt_current :: "sched \<Rightarrow> sched option" where
  "preempt_current s =
     (case rq_current (cpu_runqueues s 0) of
        Some p \<Rightarrow> if t_state (task_pool s p) = TASK_RUNNING
                  then enqueue_task 0 p (upd_task (t_state_update (\<lambda>_. TASK_READY)) p s) else Some s
      | None \<Rightarrow> Some s)"

lemma preempt_current_correct:
  assumes inv: "sched_inv s"
  shows "\<exists>s1. preempt_current s = Some s1 \<and> sched_inv s1
     \<and> (\<forall>t < MAX_TASKS. t_state (task_pool s1 t) =
           (if t_state (task_pool s t) = TASK_RUNNING then TASK_READY else t_state (task_pool s t)))
     \<and> (\<forall>t. t_priority (task_pool s1 t) = t_priority (task_pool s t))
     \<and> live s1 = live s \<and> rq_current (cpu_runqueues s1 0) = rq_current (cpu_runqueues s 0)
     \<and> current_cpu s1 = current_cpu s
     \<and> ((\<forall>t < MAX_TASKS. t_state (task_pool s t) \<noteq> TASK_RUNNING) \<longrightarrow> s1 = s)"
proof (cases "\<exists>p. rq_current (cpu_runqueues s 0) = Some p \<and> t_state (task_pool s p) = TASK_RUNNING")
  case True
  then obtain p where p: "rq_current (cpu_runqueues s 0) = Some p" "t_state (task_pool s p) = TASK_RUNNING" by auto
  have pl: "p < MAX_TASKS" using inv p(1) by (simp add: sched_inv_def sched_wf_def static_inv_def)
  have run: "t_state (task_pool s t) \<noteq> TASK_RUNNING" if "t < MAX_TASKS" "t \<noteq> p" for t
    using running_okD(2) [OF inv that(1)] p(1) that(2) by auto
  have live: "p \<in> live s" using running_okD(1) [OF inv pl p(2)] .
  let ?f = "t_state_update (\<lambda>_. TASK_READY)"
  have "t_state (task_pool s p) \<noteq> TASK_READY" using p(2) by simp
  moreover have "keeps_static ?f" by (rule keeps_staticI) simp_all
  ultimately obtain s1
    where s1: "enqueue_task (t_cpu (task_pool (upd_task ?f p s) p)) p (upd_task ?f p s) = Some s1" "sched_inv s1"
      "relinked (upd_task ?f p s) s1" using make_ready [OF inv live, of ?f] by auto
  have "t_cpu (task_pool s p) = 0" using inv live by (auto simp: sched_inv_def sched_wf_def static_inv_def task_ok_def)
  with s1(1) p have "preempt_current s = Some s1" by (simp add: preempt_current_def)
  moreover have "\<exists>t < MAX_TASKS. t_state (task_pool s t) = TASK_RUNNING" using p(2) pl by auto
  moreover have "\<forall>t < MAX_TASKS. t_state (task_pool s1 t) =
      (if t_state (task_pool s t) = TASK_RUNNING then TASK_READY else t_state (task_pool s t))"
    unfolding relinked_taskD(2) [OF s1(3)] using run p(2) by auto
  moreover have "t_priority (task_pool s1 t) = t_priority (task_pool s t)" for t
    unfolding relinked_taskD(3) [OF s1(3)] by simp
  moreover have "live s1 = live s" "rq_current (cpu_runqueues s1 0) = rq_current (cpu_runqueues s 0)"
    "current_cpu s1 = current_cpu s"
    unfolding relinked_views(1) [OF s1(3)] relinked_taskD(12) [OF s1(3)] relinkedD(3) [OF s1(3)] by simp_all
  ultimately show ?thesis using s1(2) by blast
next
  case False
  then have "preempt_current s = Some s" by (auto simp: preempt_current_def split: option.splits)
  moreover have "t_state (task_pool s t) \<noteq> TASK_RUNNING" if "t < MAX_TASKS" for t
    using False running_okD(2) [OF inv that] by blast
  ultimately show ?thesis using inv by auto
qed

text \<open>Second half: the task picked is taken off its list and made the current one.\<close>

definition switch_to :: "nat option \<Rightarrow> nat \<Rightarrow> sched \<Rightarrow> sched option" where
  "switch_to prev n s1 = do {
     s2 \<leftarrow> (if t_state (task_pool s1 n) = TASK_READY then dequeue_task 0 n s1 else Some s1);
     let other = (\<exists>p. prev = Some p \<and> p \<noteq> n)
     in Some (upd_rq (rq_current_update (\<lambda>_. Some n)) 0
          (upd_stats (if other then (\<lambda>g. g\<lparr>total_ctx_switches := total_ctx_switches g + 1\<rparr>) else (\<lambda>g. g))
            (upd_task (if other then (\<lambda>t. t\<lparr>t_stats := (t_stats t)\<lparr>ctx_switches := ctx_switches (t_stats t) + 1\<rparr>\<rparr>)
                       else (\<lambda>t. t)) (the prev)
              (upd_task (\<lambda>t. t\<lparr>t_state := TASK_RUNNING, t_time_slice := calculate_time_slice t,
                             t_exec_start := ucast (timer_get_ticks s2)\<rparr>) n s2)))) }"

lemma schedule_unfold:
  assumes "scheduler_enabled s" and "preemption_enabled s" and "current_cpu s = 0"
  shows "scheduler_schedule s = do {
     s1 \<leftarrow> preempt_current s;
     case pick_next_task 0 s1 of
       None \<Rightarrow> Some s1
     | Some n \<Rightarrow> switch_to (rq_current (cpu_runqueues s 0)) n s1 }"
  using assms
  by (auto simp: scheduler_schedule_def preempt_current_def switch_to_def Let_def split: option.splits Option.bind_split)

lemma switch_to_correct:
  assumes inv: "sched_inv s1" and np: "(n, p) \<in> ready_pairs s1"
    and idle: "\<And>t. t < MAX_TASKS \<Longrightarrow> t_state (task_pool s1 t) \<noteq> TASK_RUNNING"
  shows "\<exists>s'. switch_to prev n s1 = Some s' \<and> sched_inv s' \<and> live s' = live s1
     \<and> rq_current (cpu_runqueues s' 0) = Some n
     \<and> (\<forall>t. t_state (task_pool s' t) = (if t = n then TASK_RUNNING else t_state (task_pool s1 t)))
     \<and> (\<forall>t. t_priority (task_pool s' t) = t_priority (task_pool s1 t))
     \<and> scheduler_enabled s' = scheduler_enabled s1 \<and> preemption_enabled s' = preemption_enabled s1
     \<and> sched_frames s' = sched_frames s1 \<and> (\<forall>t. t_sleep_until (task_pool s' t) = t_sleep_until (task_pool s1 t))
     \<and> timer_get_ticks s' = timer_get_ticks s1"
proof -
  define other where "other = (\<exists>p. prev = Some p \<and> p \<noteq> n)"
  define g where "g = (if other then (\<lambda>t. t\<lparr>t_stats := (t_stats t)\<lparr>ctx_switches := ctx_switches (t_stats t) + 1\<rparr>\<rparr>)
                       else (\<lambda>t. t :: task))"
  define h where "h = (if other then (\<lambda>g. g\<lparr>total_ctx_switches := total_ctx_switches g + 1\<rparr>)
                       else (\<lambda>g. g :: scheduler_stats))"
  define f where "f = (\<lambda>t. t\<lparr>t_state := TASK_RUNNING, t_time_slice := calculate_time_slice t,
                               t_exec_start := ucast (timer_get_ticks s1)\<rparr>)"
  have fk: "keeps_static f" "\<And>k. t_state (f k) = TASK_RUNNING" "\<And>k. t_priority (f k) = t_priority k"
    "\<And>k. t_sleep_until (f k) = t_sleep_until k"
    unfolding f_def by (rule keeps_staticI; simp) simp_all
  have gk: "keeps_static g" "\<And>k. t_state (g k) = t_state k" "\<And>k. t_priority (g k) = t_priority k"
    "\<And>k. t_sleep_until (g k) = t_sleep_until k"
    unfolding g_def by (rule keeps_staticI; simp) simp_all
  obtain s2 where s2: "dequeue_task 0 n s1 = Some s2" "relinked s1 s2"
    "sched_inv (upd_rq (rq_current_update (\<lambda>_. Some n)) 0 (upd_stats h (upd_task g (the prev) (upd_task f n s2))))"
    using dispatch [OF inv np idle fk(1,2) gk(1,2)] by blast
  have "t_state (task_pool s1 n) = TASK_READY" using np by (simp add: ready_pairs_def)
  then have "switch_to prev n s1 =
      Some (upd_rq (rq_current_update (\<lambda>_. Some n)) 0 (upd_stats h (upd_task g (the prev) (upd_task f n s2))))"
    using s2(1) relinked_simps(8) [OF s2(2)] by (simp add: switch_to_def other_def g_def h_def f_def Let_def)
  moreover note r = relinked_simps [OF s2(2)] relinked_views(1) [OF s2(2)]
  ultimately show ?thesis
    using s2(3) r
    by (intro exI conjI) (assumption | simp add: upd_rq_def upd_stats_def fk gk r live_def timer_get_ticks_def)+
qed

text \<open>\<open>scheduler_schedule\<close> as a whole.\<close>

definition runnable :: "sched \<Rightarrow> nat \<Rightarrow> bool" where
  "runnable s t \<longleftrightarrow> t \<in> live s \<and> t_state (task_pool s t) \<in> {TASK_READY, TASK_RUNNING}"

definition preempted_state :: "task_state \<Rightarrow> task_state" where
  "preempted_state st = (if st = TASK_RUNNING then TASK_READY else st)"

lemma schedule_correct:
  assumes inv: "sched_inv s" and on: "scheduler_enabled s" "preemption_enabled s"
  shows "\<exists>s'. scheduler_schedule s = Some s' \<and> sched_inv s' \<and> live s' = live s
     \<and> (if \<exists>t. runnable s t
        then \<exists>n. runnable s n \<and> rq_current (cpu_runqueues s' 0) = Some n
          \<and> t_state (task_pool s' n) = TASK_RUNNING
          \<and> (\<forall>t. runnable s t \<longrightarrow> t_priority (task_pool s n) \<le> t_priority (task_pool s t))
          \<and> (\<forall>t < MAX_TASKS. t \<noteq> n \<longrightarrow> t_state (task_pool s' t) = preempted_state (t_state (task_pool s t)))
        else s' = s)"
proof -
  obtain s1 where s1: "preempt_current s = Some s1" "sched_inv s1"
    and st: "\<And>t. t < MAX_TASKS \<Longrightarrow> t_state (task_pool s1 t) = preempted_state (t_state (task_pool s t))"
    and pr: "\<And>t. t_priority (task_pool s1 t) = t_priority (task_pool s t)"
    and live1: "live s1 = live s"
    and same: "(\<forall>t < MAX_TASKS. t_state (task_pool s t) \<noteq> TASK_RUNNING) \<longrightarrow> s1 = s"
    using preempt_current_correct [OF inv] unfolding preempted_state_def by blast
  note unf = schedule_unfold [OF on sched_invD(5) [OF inv], unfolded s1(1)]
  have idle: "t_state (task_pool s1 t) \<noteq> TASK_RUNNING" if "t < MAX_TASKS" for t
    using st [OF that] by (simp add: preempted_state_def)
  have ready: "runnable s t \<longleftrightarrow> t \<in> live s1 \<and> t_state (task_pool s1 t) = TASK_READY" for t
    using st [of t] live_less [of t s] by (auto simp: runnable_def live1 preempted_state_def split: if_splits)
  have pair: "(t, nat (t_priority (task_pool s t))) \<in> ready_pairs s1" if "runnable s t" for t
    using ready_pairsI [OF s1(2), of t] that ready pr by simp
  show ?thesis
  proof (cases "pick_next_task 0 s1")
    case None
    then have "ready_pairs s1 = {}" using pick_next_spec [OF s1(2)] by simp
    then have none: "\<not> runnable s t" for t using pair [of t] by auto
    have "t_state (task_pool s t) \<noteq> TASK_RUNNING" if "t < MAX_TASKS" for t
      using none [of t] running_okD(1) [OF inv that] by (auto simp: runnable_def)
    with same have "s1 = s" by blast
    with unf None inv none show ?thesis by simp
  next
    case (Some n)
    then obtain p where np: "(n, p) \<in> ready_pairs s1" and least: "\<forall>(t, q) \<in> ready_pairs s1. p \<le> q"
      using pick_next_spec [OF s1(2)] by auto
    have n: "runnable s n" "t_priority (task_pool s n) = int p"
      using np ready pr by (auto simp: ready_pairs_def)
    obtain s' where s': "switch_to (rq_current (cpu_runqueues s 0)) n s1 = Some s'" "sched_inv s'" "live s' = live s1"
      "rq_current (cpu_runqueues s' 0) = Some n"
      "\<And>t. t_state (task_pool s' t) = (if t = n then TASK_RUNNING else t_state (task_pool s1 t))"
      using switch_to_correct [OF s1(2) np idle] by blast
    have "t_priority (task_pool s n) \<le> t_priority (task_pool s t)" if "runnable s t" for t
    proof -
      have "p \<le> nat (t_priority (task_pool s t))" using least pair [OF that] by auto
      moreover have "0 \<le> t_priority (task_pool s t)"
        using that sched_invD(8) [OF inv, of t] by (simp add: runnable_def task_ok_def)
      ultimately show ?thesis using n(2) by simp
    qed
    with unf Some s' n(1) st live1 show ?thesis by auto
  qed
qed

subsection \<open>Every operation keeps the invariant\<close>

lemma sched_inv_frame:
  assumes "task_pool s' = task_pool s" "task_bitmap s' = task_bitmap s" "cpu_runqueues s' = cpu_runqueues s"
    "num_cpus s' = num_cpus s" "current_cpu s' = current_cpu s" "sched_frames s' = sched_frames s"
  shows "sched_inv s' = sched_inv s"
proof -
  have live: "live s' = live s" by (simp add: live_def assms)
  have page: "stack_page s' = stack_page s" by (intro ext) (simp add: stack_page_def assms)
  have static: "static_inv s' = static_inv s" by (simp add: static_inv_def task_ok_def page live assms)
  have "sched_wf s'" if "sched_wf s"
    by (rule wf_frame(2) [of s' s]) (use that static in \<open>simp_all add: assms sched_wf_def\<close>)
  moreover have "sched_wf s" if "sched_wf s'"
    by (rule wf_frame(2) [of s s']) (use that static in \<open>simp_all add: assms sched_wf_def\<close>)
  moreover have "queued s' = queued s" by (rule wf_frame(1)) (simp_all add: assms)
  moreover have "ready_pairs s' = ready_pairs s" "running_ok s' = running_ok s"
    by (simp_all add: ready_pairs_def running_ok_def live assms)
  ultimately show ?thesis unfolding sched_inv_def by blast
qed

lemma neutral_task:
  assumes inv: "sched_inv s" and f: "keeps_static f" "\<And>k. t_state (f k) = t_state k"
  shows "sched_inv (upd_task f t s)"
proof -
  have "t_priority (f k) = t_priority k" for k using f(1) by (simp add: keeps_static_def)
  then have "ready_pairs (upd_task f t s) = ready_pairs s" by (auto simp: ready_pairs_def f(2) split: if_splits)
  then show ?thesis using inv upd_task_frame [OF f(1)] by (simp add: sched_inv_def running_ok_def f(2))
qed

text \<open>A task that is not ready may stop: it then is in no list.\<close>

lemma stop_task:
  assumes inv: "sched_inv s" and t: "t_state (task_pool s t) \<noteq> TASK_READY" and f: "keeps_static f"
    "\<And>k. t_state (f k) \<noteq> TASK_READY \<and> t_state (f k) \<noteq> TASK_RUNNING"
  shows "sched_inv (upd_task f t s)"
proof -
  have "ready_pairs (upd_task f t s) = ready_pairs s"
    using t f(2) by (auto simp: ready_pairs_def split: if_splits)
  moreover have "running_ok (upd_task f t s)"
    using sched_invD(9) [OF inv] f(2) by (auto simp: running_ok_def)
  ultimately show ?thesis using inv upd_task_frame [OF f(1)] by (simp add: sched_inv_def)
qed

lemma schedule_inv:
  assumes "sched_inv s"
  shows "\<exists>s'. scheduler_schedule s = Some s' \<and> sched_inv s'"
proof (cases "scheduler_enabled s \<and> preemption_enabled s")
  case True
  then show ?thesis using schedule_correct [OF assms] by blast
next
  case False
  then show ?thesis using assms by (auto simp: scheduler_schedule_def)
qed

lemma start_inv:
  assumes "sched_inv s"
  shows "\<exists>s'. scheduler_start s = Some s' \<and> sched_inv s'"
proof -
  have "sched_inv (s\<lparr>scheduler_enabled := True\<rparr>)" using assms by (subst sched_inv_frame [where s = s]) simp_all
  then show ?thesis using assms schedule_inv by (auto simp: scheduler_start_def)
qed

lemma block_inv:
  assumes "sched_inv s" and "\<And>t. rq_current (cpu_runqueues s 0) = Some t \<Longrightarrow> t_state (task_pool s t) \<noteq> TASK_READY"
  shows "\<exists>s'. task_block r s = Some s' \<and> sched_inv s'"
proof (cases "rq_current (cpu_runqueues s 0)")
  case None
  then show ?thesis using assms(1) by (simp add: task_block_def sched_invD(5))
next
  case (Some t)
  let ?f = "\<lambda>k. k\<lparr>t_state := TASK_BLOCKED, t_blocked_on := r\<rparr>"
  have "sched_inv (upd_task ?f t s)"
    by (rule stop_task [OF assms(1) assms(2) [OF Some]]) (auto intro!: keeps_staticI)
  then show ?thesis using schedule_inv Some by (simp add: task_block_def sched_invD(5) [OF assms(1)])
qed

lemma sleep_inv:
  assumes "sched_inv s" and "\<And>t. rq_current (cpu_runqueues s 0) = Some t \<Longrightarrow> t_state (task_pool s t) \<noteq> TASK_READY"
  shows "\<exists>s'. task_sleep n s = Some s' \<and> sched_inv s'"
proof (cases "rq_current (cpu_runqueues s 0)")
  case None
  then show ?thesis using assms(1) by (simp add: task_sleep_def sched_invD(5))
next
  case (Some t)
  let ?f = "\<lambda>k. k\<lparr>t_state := TASK_SLEEPING, t_sleep_until := ucast (timer_get_ticks s) + n\<rparr>"
  have "sched_inv (upd_task ?f t s)"
    by (rule stop_task [OF assms(1) assms(2) [OF Some]]) (auto intro!: keeps_staticI)
  then show ?thesis using schedule_inv Some by (simp add: task_sleep_def sched_invD(5) [OF assms(1)])
qed

lemma get_task_live: "get_task i s = Some t \<Longrightarrow> t \<in> live s \<and> i = int t"
  by (auto simp: get_task_def live_def bm_used_def split: if_splits)

lemma get_task_of_live: "t \<in> live s \<Longrightarrow> get_task (int t) s = Some t"
  by (auto simp: get_task_def live_def bm_used_def)

lemma unblock_correct:
  assumes inv: "sched_inv s"
  shows "\<exists>s'. task_unblock i s = Some s' \<and> sched_inv s'"
proof (cases "\<exists>t. get_task i s = Some t \<and> t_state (task_pool s t) = TASK_BLOCKED")
  case True
  then obtain t where t: "get_task i s = Some t" "t_state (task_pool s t) = TASK_BLOCKED" by blast
  let ?f = "\<lambda>k. k\<lparr>t_state := TASK_READY, t_blocked_on := - 1\<rparr>"
  have "\<exists>s'. enqueue_task (t_cpu (task_pool (upd_task ?f t s) t)) t (upd_task ?f t s) = Some s'
     \<and> sched_inv s' \<and> relinked (upd_task ?f t s) s'"
    using get_task_live [OF t(1)] t(2) by (intro make_ready [OF inv]) (auto intro!: keeps_staticI)
  then show ?thesis using t by (auto simp: task_unblock_def)
next
  case False
  then show ?thesis using inv by (auto simp: task_unblock_def split: option.splits)
qed

lemma wakeup_correct:
  assumes inv: "sched_inv s" and t: "t \<in> live s" "t_state (task_pool s t) = TASK_SLEEPING"
  shows "\<exists>s'. task_wakeup (int t) s = Some s' \<and> sched_inv s'
     \<and> relinked (upd_task (\<lambda>k. k\<lparr>t_state := TASK_READY, t_sleep_until := 0\<rparr>) t s) s'"
proof -
  let ?f = "\<lambda>k. k\<lparr>t_state := TASK_READY, t_sleep_until := 0\<rparr>"
  have "\<exists>s'. enqueue_task (t_cpu (task_pool (upd_task ?f t s) t)) t (upd_task ?f t s) = Some s'
     \<and> sched_inv s' \<and> relinked (upd_task ?f t s) s'"
    using t by (intro make_ready [OF inv]) (auto intro!: keeps_staticI)
  then show ?thesis using t(2) by (simp add: task_wakeup_def get_task_of_live [OF t(1)])
qed

lemma wakeup_inv:
  assumes inv: "sched_inv s"
  shows "\<exists>s'. task_wakeup i s = Some s' \<and> sched_inv s'"
proof (cases "\<exists>t. get_task i s = Some t \<and> t_state (task_pool s t) = TASK_SLEEPING")
  case True
  then obtain t where t: "get_task i s = Some t" "t_state (task_pool s t) = TASK_SLEEPING" by blast
  then show ?thesis using wakeup_correct [OF inv, of t] get_task_live [OF t(1)] by auto
next
  case False
  then show ?thesis using inv by (auto simp: task_wakeup_def split: option.splits)
qed

text \<open>Changing a priority, in place and by taking the task off its list and putting it back.\<close>

definition sets_priority :: "int \<Rightarrow> (task \<Rightarrow> task) \<Rightarrow> bool" where
  "sets_priority q f \<longleftrightarrow> 0 \<le> q \<and> q \<le> MAX_NORMAL_PRIORITY \<and> keeps_links f
     \<and> (\<forall>k. t_id (f k) = t_id k \<and> t_cpu (f k) = t_cpu k \<and> t_stack_base (f k) = t_stack_base k
          \<and> t_state (f k) = t_state k \<and> t_priority (f k) = q
          \<and> t_static_priority (f k) \<in> {t_static_priority k, q})"

lemma sets_priority_wf:
  assumes f: "sets_priority q f" and wf: "sched_wf s"
  shows "sched_wf (upd_task f t s)" and "queued (upd_task f t s) = queued s"
proof -
  have k: "t_next (f k) = t_next k" "t_prev (f k) = t_prev k" "t_id (f k) = t_id k" "t_cpu (f k) = t_cpu k"
    "t_stack_base (f k) = t_stack_base k" "t_priority (f k) = q" "t_static_priority (f k) = t_static_priority k \<or> t_static_priority (f k) = q"
    and q: "0 \<le> q" "q \<le> 139" for k
    using f by (auto simp: sets_priority_def keeps_links_def)
  have page: "stack_page (upd_task f t s) = stack_page s" by (intro ext) (simp add: stack_page_def k)
  have st: "static_inv s" using wf by (simp add: sched_wf_def)
  have "task_ok (upd_task f t s) u" if "task_ok s u" for u
    using that k(7) [of "task_pool s t"] q by (auto simp: task_ok_def page k(1-6))
  then have "static_inv (upd_task f t s)" using st by (auto simp: static_inv_def page)
  then show "sched_wf (upd_task f t s)" by (intro wf_frame(2) [OF _ _ _ _ wf]) (simp_all add: k)
  show "queued (upd_task f t s) = queued s" by (rule wf_frame(1)) (simp_all add: k)
qed

lemma reprioritise:
  assumes inv: "sched_inv s" and t: "t_state (task_pool s t) \<noteq> TASK_READY" and f: "sets_priority q f"
  shows "sched_inv (upd_task f t s)"
proof -
  have k: "t_state (f k) = t_state k" for k using f by (simp add: sets_priority_def)
  have "ready_pairs (upd_task f t s) = ready_pairs s"
    using t by (auto simp: ready_pairs_def k split: if_splits)
  then show ?thesis
    using inv sets_priority_wf [OF f sched_invD(1) [OF inv]] by (simp add: sched_inv_def running_ok_def k)
qed

lemma requeue_correct:
  assumes inv: "sched_inv s" and t: "t \<in> live s" "t_state (task_pool s t) = TASK_READY" and f: "sets_priority q f"
  shows "\<exists>s'. requeue_with f t s = Some s' \<and> sched_inv s'
     \<and> live s' = live s \<and> t_priority (task_pool s' t) = q \<and> t_state (task_pool s' t) = TASK_READY"
proof -
  have ok: "task_ok s t" using sched_invD(8) [OF inv t(1)] .
  define p where "p = nat (t_priority (task_pool s t))"
  have p: "t_priority (task_pool s t) = int p" "t_cpu (task_pool s t) = 0" using ok by (auto simp: p_def task_ok_def)
  have tp: "(t, p) \<in> queued s" using inv t p(1) by (auto simp: sched_inv_def ready_pairs_def)
  let ?s1 = "unlink_task t 0 p s"
  let ?s2 = "upd_task f t ?s1"
  let ?s' = "link_task t 0 (nat q) ?s2"
  note un = unlink_queue [OF sched_invD(1) [OF inv] tp]
  note up = sets_priority_wf [OF f un(1), of t]
  have q: "0 \<le> q" "q \<le> 139" "t_state (f k) = t_state k" "t_priority (f k) = q" for k
    using f by (auto simp: sets_priority_def)
  have new: "(t, r) \<notin> queued ?s2" for r
    using up(2) un(2) queued_unique [OF sched_invD(3) [OF inv] tp] by auto
  have nq: "nat q < NUM_PRIORITIES" using q by simp
  note link = link_queue [OF up(1) live_less [OF t(1)] nq new]
  have deq: "dequeue_task 0 t s = Some ?s1"
    using ok p by (simp add: dequeue_task_def task_ok_def)
  have "requeue_with f t s = Some ?s'"
    using deq p(2) q by (simp add: requeue_with_def enqueue_task_def Let_def)
  moreover have "ready_pairs ?s2 = ready_pairs s - {(t, p)} \<union> {(t, nat q)}"
    using t p(1) q by (auto simp: ready_pairs_def split: if_splits)
  then have "queued ?s' = ready_pairs ?s'"
    using link(2) up(2) un(2) sched_invD(2) [OF inv] relinked_views(3) [OF link_relinked] by auto
  moreover have "running_ok ?s'"
    using sched_invD(9) [OF inv] by (simp add: running_ok_def q)
  ultimately show ?thesis using link(1) t q by (auto simp: sched_inv_def)
qed

lemma set_priority_correct:
  assumes inv: "sched_inv s" and q: "0 \<le> q"
  shows "\<exists>r s'. task_set_priority i q s = Some (r, s') \<and> sched_inv s'"
proof (cases "\<exists>t. get_task i s = Some t \<and> q \<le> MAX_NORMAL_PRIORITY")
  case True
  then obtain t where t: "get_task i s = Some t" "q \<le> 139" by auto
  let ?f = "\<lambda>k. k\<lparr>t_priority := q, t_static_priority := q\<rparr>"
  have f: "sets_priority q ?f" using q t(2) by (simp add: sets_priority_def keeps_links_def)
  show ?thesis
  proof (cases "t_state (task_pool s t) = TASK_READY")
    case True
    then show ?thesis using requeue_correct [OF inv _ True f] get_task_live [OF t(1)] t
      by (auto simp: task_set_priority_def Let_def)
  next
    case False
    then show ?thesis using reprioritise [OF inv False f] t by (auto simp: task_set_priority_def Let_def)
  qed
next
  case False
  then show ?thesis using inv by (auto simp: task_set_priority_def split: option.splits)
qed

lemma pi_boost_correct:
  assumes inv: "sched_inv s" and q: "0 \<le> q" "q \<le> MAX_NORMAL_PRIORITY"
  shows "\<exists>s'. task_pi_boost i q s = Some s' \<and> sched_inv s'"
proof (cases "\<exists>t. get_task i s = Some t \<and> q < t_effective_priority (task_pool s t)")
  case True
  then obtain t where t: "get_task i s = Some t" "q < t_effective_priority (task_pool s t)" by auto
  let ?s1 = "upd_task (t_effective_priority_update (\<lambda>_. q)) t s"
  have inv1: "sched_inv ?s1" by (rule neutral_task [OF inv]) (auto intro!: keeps_staticI)
  have f: "sets_priority q (t_priority_update (\<lambda>_. q))" using q by (simp add: sets_priority_def keeps_links_def)
  have "t \<in> live ?s1" using get_task_live [OF t(1)] by simp
  then show ?thesis using requeue_correct [OF inv1 _ _ f, of t] inv1 t by (auto simp: task_pi_boost_def Let_def)
next
  case False
  then show ?thesis using inv by (auto simp: task_pi_boost_def split: option.splits)
qed

lemma set_policy_inv: "sched_inv s \<Longrightarrow> sched_inv (snd (task_set_policy i pol s))"
  by (auto simp: task_set_policy_def Let_def split: option.splits intro!: neutral_task keeps_staticI)

lemma migrate_inv:
  assumes inv: "sched_inv s" and "0 \<le> c"
  shows "task_migrate i c s = Some (- 1, s)"
  using assms sched_invD(6) [OF inv] sched_invD(8) [OF inv] get_task_live [of i s]
  by (auto simp: task_migrate_def task_ok_def split: option.splits)

lemma set_affinity_inv:
  assumes inv: "sched_inv s"
  shows "\<exists>r s'. task_set_affinity i a s = Some (r, s') \<and> sched_inv s'"
proof (cases "\<exists>t. get_task i s = Some t \<and> a \<noteq> 0")
  case True
  then obtain t where t: "get_task i s = Some t" "a \<noteq> 0" by auto
  let ?s1 = "upd_task (t_affinity_update (\<lambda>_. a)) t s"
  have inv1: "sched_inv ?s1" by (rule neutral_task [OF inv]) (auto intro!: keeps_staticI)
  then show ?thesis using t migrate_inv [OF inv1] by (auto simp: task_set_affinity_def Let_def split: option.splits)
next
  case False
  then show ?thesis using inv by (auto simp: task_set_affinity_def split: option.splits)
qed

text \<open>Changes of the set of live tasks: slots that leave it and slots that enter it, off every list.\<close>

lemma sched_inv_change:
  assumes inv: "sched_inv s"
    and links: "\<And>i. t_next (task_pool s' i) = t_next (task_pool s i)" "\<And>i. t_prev (task_pool s' i) = t_prev (task_pool s i)"
    and same: "cpu_runqueues s' = cpu_runqueues s" "num_cpus s' = num_cpus s" "current_cpu s' = current_cpu s"
    and bm: "length (task_bitmap s') = 8" and fr: "pmm_inv (sched_frames s')" "0 \<in> pmm_used (sched_frames s')"
    and old: "\<And>t. t \<in> live s' \<Longrightarrow> t \<in> live s \<Longrightarrow> task_pool s' t = task_pool s t \<and> stack_page s t \<in> pmm_used (sched_frames s')"
    and new: "\<And>t. t \<in> live s' \<Longrightarrow> t \<notin> live s \<Longrightarrow> task_ok s' t \<and> t_state (task_pool s' t) = TASK_NEW"
    and inj: "inj_on (stack_page s') (live s')"
    and gone: "\<And>t. t \<in> live s \<Longrightarrow> t \<notin> live s' \<Longrightarrow> t_state (task_pool s t) \<noteq> TASK_READY"
    and dead: "\<And>t. t < MAX_TASKS \<Longrightarrow> t \<notin> live s' \<Longrightarrow> t_state (task_pool s' t) \<noteq> TASK_RUNNING"
  shows "sched_inv s'"
proof -
  have "task_ok s' t" if "t \<in> live s'" for t
    using old [OF that] new [OF that] sched_invD(8) [OF inv, of t]
    by (cases "t \<in> live s") (auto simp: task_ok_def stack_page_def)
  then have st: "static_inv s'"
    using sched_invD(4) [OF inv] same bm fr inj by (simp add: static_inv_def)
  have "sched_wf s'" by (rule wf_frame(2) [OF _ _ _ _ sched_invD(1) [OF inv] st]) (simp_all add: links same)
  moreover have "queued s' = queued s" by (rule wf_frame(1)) (simp_all add: links same)
  moreover have "ready_pairs s' = ready_pairs s"
  proof (intro set_eqI iffI; clarify)
    fix t p assume "(t, p) \<in> ready_pairs s'"
    then show "(t, p) \<in> ready_pairs s" using old [of t] new [of t] by (cases "t \<in> live s") (auto simp: ready_pairs_def)
  next
    fix t p assume "(t, p) \<in> ready_pairs s"
    then show "(t, p) \<in> ready_pairs s'" using old [of t] gone [of t] by (cases "t \<in> live s'") (auto simp: ready_pairs_def)
  qed
  moreover have "running_ok s'"
    unfolding running_ok_def
  proof (intro allI impI)
    fix t assume t: "t < MAX_TASKS" "t_state (task_pool s' t) = TASK_RUNNING"
    then have l: "t \<in> live s'" using dead by blast
    then have "t \<in> live s" using new [OF l] t(2) by auto
    then show "t \<in> live s' \<and> rq_current (cpu_runqueues s' 0) = Some t"
      using l old [OF l] t running_okD(2) [OF inv t(1)] same(1) by simp
  qed
  ultimately show ?thesis using inv by (simp add: sched_inv_def)
qed

text \<open>What rescheduling leaves alone.\<close>

definition steady :: "sched \<Rightarrow> sched \<Rightarrow> bool" where
  "steady s s' \<longleftrightarrow> sched_frames s' = sched_frames s \<and> task_bitmap s' = task_bitmap s
     \<and> timer_get_ticks s' = timer_get_ticks s \<and> (\<forall>t. t_sleep_until (task_pool s' t) = t_sleep_until (task_pool s t))"

lemma steady_trans: "steady s s' \<Longrightarrow> steady s' s'' \<Longrightarrow> steady s s''"
  by (simp add: steady_def)

lemma steady_queue:
  "enqueue_task c t s = Some s' \<Longrightarrow> steady s s'" "dequeue_task c t s = Some s' \<Longrightarrow> steady s s'"
  by (auto simp: steady_def enqueue_task_def dequeue_task_def split: if_splits)

lemma steady_upd:
  "(\<And>k. t_sleep_until (f k) = t_sleep_until k) \<Longrightarrow> steady s (upd_task f t s)"
  "steady s (upd_rq g c s)" "steady s (upd_stats h s)" "steady s s"
  by (auto simp: steady_def upd_rq_def upd_stats_def timer_get_ticks_def)

lemma schedule_steady:
  assumes run: "scheduler_schedule s = Some s'" and cpu: "current_cpu s = 0"
  shows "steady s s'"
proof (cases "scheduler_enabled s \<and> preemption_enabled s")
  case True
  then obtain s1 where s1: "preempt_current s = Some s1"
    and rest: "(case pick_next_task 0 s1 of None \<Rightarrow> Some s1
                | Some n \<Rightarrow> switch_to (rq_current (cpu_runqueues s 0)) n s1) = Some s'"
    using run schedule_unfold [of s] cpu by (auto simp: bind_eq_Some_conv)
  have "steady s s1"
    using s1 by (auto simp: preempt_current_def steady_upd(4) split: option.splits if_splits
        dest!: steady_queue(1)) (simp add: steady_def)
  moreover have "steady s1 s'"
  proof (cases "pick_next_task 0 s1")
    case None
    then show ?thesis using rest by (simp add: steady_upd)
  next
    case (Some n)
    then obtain s2 where s2: "(if t_state (task_pool s1 n) = TASK_READY then dequeue_task 0 n s1 else Some s1) = Some s2"
      using rest by (auto simp: switch_to_def bind_eq_Some_conv)
    then have "steady s1 s2" by (auto split: if_splits intro: steady_queue steady_upd(4))
    moreover have "steady s2 s'"
      using rest Some s2 by (auto simp: switch_to_def Let_def intro!: steady_trans [OF _ steady_upd(2)] steady_trans [OF _ steady_upd(3)]
          steady_trans [OF _ steady_upd(1)] steady_upd(4))
    ultimately show ?thesis by (rule steady_trans)
  qed
  ultimately show ?thesis by (rule steady_trans)
next
  case False
  then show ?thesis using run by (auto simp: scheduler_schedule_def steady_upd)
qed

lemma task_id_sint:
  assumes "sched_inv s" and "t \<in> live s"
  shows "sint (t_id (task_pool s t)) = int t"
  using sched_invD(8) [OF assms] live_less [OF assms(2)]
  by (simp add: task_ok_def signed_of_nat signed_take_bit_int_eq_self)

lemma exit_correct:
  assumes inv: "sched_inv s" and cur: "rq_current (cpu_runqueues s 0) = Some t" "t_state (task_pool s t) = TASK_RUNNING"
  shows "\<exists>s'. task_exit code s = Some s' \<and> sched_inv s' \<and> live s' = live s - {t}
     \<and> pmm_used (sched_frames s') = pmm_used (sched_frames s) - {stack_page s t}"
proof -
  have tm: "t < MAX_TASKS" using sched_invD(7) [OF inv cur(1)] .
  have t: "t \<in> live s" "task_ok s t" using running_okD(1) [OF inv tm cur(2)] sched_invD(8) [OF inv] by auto
  let ?z = "t_state_update (\<lambda>_. TASK_ZOMBIE)"
  let ?s1 = "upd_task ?z t s"
  have inv1: "sched_inv ?s1" by (rule stop_task [OF inv]) (auto simp: cur(2) intro!: keeps_staticI)
  obtain fr where fr: "pmm_free_page (t_stack_base (task_pool s t)) (sched_frames s) = Some fr" "pmm_inv fr"
    "pmm_used fr = pmm_used (sched_frames s) - {stack_page s t}"
    using free_page_in_window t sched_invD(4) [OF inv] unfolding static_inv_def task_ok_def stack_page_def by blast
  have nz: "t_stack_base (task_pool s t) \<noteq> 0" using t(2) by (auto simp: task_ok_def stack_page_def)
  have id: "sint (t_id (task_pool s t)) = int t" using task_id_sint [OF inv t(1)] .
  let ?s2 = "free_task_id (int t) (?s1\<lparr>sched_frames := fr\<rparr>)"
  have s2: "?s2 = ?s1\<lparr>sched_frames := fr, task_bitmap := bm_clear (task_bitmap s) t\<rparr>"
    using tm by (simp add: free_task_id_def)
  have len: "length (task_bitmap s) = 8" "0 \<in> pmm_used (sched_frames s)" "inj_on (stack_page s) (live s)"
    using sched_invD(4) [OF inv] by (simp_all add: static_inv_def)
  have live2: "live ?s2 = live s - {t}"
    unfolding s2 using task_slots.used_release [OF len(1) tm] by (simp add: live_def)
  have page: "stack_page ?s2 = stack_page s" unfolding s2 by (intro ext) (simp add: stack_page_def)
  have "sched_inv ?s2"
  proof (rule sched_inv_change [OF inv1])
    show "inj_on (stack_page ?s2) (live ?s2)" unfolding live2 page using len(3) by (rule inj_on_diff)
    show "0 \<in> pmm_used (sched_frames ?s2)" unfolding s2 using fr(3) len(2) t(2) by (simp add: task_ok_def)
  next
    fix u assume "u \<in> live ?s2" "u \<in> live ?s1"
    then have u: "u \<in> live s" "u \<noteq> t" unfolding live2 by auto
    then have "stack_page s u \<in> pmm_used fr"
      using fr(3) sched_invD(8) [OF inv u(1)] inj_onD [OF len(3), of u t] t(1) by (auto simp: task_ok_def)
    then show "task_pool ?s2 u = task_pool ?s1 u \<and> stack_page ?s1 u \<in> pmm_used (sched_frames ?s2)"
      unfolding s2 using u by (simp add: stack_page_def)
  next
    fix u assume u: "u < MAX_TASKS" "u \<notin> live ?s2"
    then show "t_state (task_pool ?s2 u) \<noteq> TASK_RUNNING"
      using running_okD(1) [OF inv u(1)] unfolding live2 unfolding s2 by auto
  qed (use live2 in \<open>auto simp: s2 fr len\<close>)
  moreover have "task_exit code s = scheduler_schedule ?s2"
    using cur nz fr(1) id by (simp add: task_exit_def sched_invD(5) [OF inv] Let_def)
  moreover obtain s' where s': "scheduler_schedule ?s2 = Some s'" "sched_inv s'"
    using schedule_inv [OF calculation(1)] by blast
  ultimately show ?thesis 
    using live2 fr(3) schedule_steady [OF s'(1)] sched_invD(5) [OF inv] by (simp add: s2 live_def steady_def)
qed

text \<open>Creation. \<open>enqueue_task\<close> overwrites the link fields of the task, whatever they were.\<close>

lemma upd_task_upd: "upd_task f t (upd_task g t s) = upd_task (\<lambda>k. f (g k)) t s"
  by (simp add: upd_task_def)

lemma enqueue_fresh_links:
  "enqueue_task c t (upd_task (\<lambda>k. k\<lparr>t_next := a, t_prev := b\<rparr>) t s) =
     (if t_priority (task_pool s t) > MAX_NORMAL_PRIORITY
      then Some (upd_task (\<lambda>k. k\<lparr>t_next := a, t_prev := b\<rparr>) t s) else enqueue_task c t s)"
  by (simp add: enqueue_task_def link_task_def Let_def upd_task_upd)

text \<open>The slot as it stands after the frame for its stack has been asked for.\<close>

definition created :: "u8 list option \<Rightarrow> sched_policy \<Rightarrow> int \<Rightarrow> u64 \<Rightarrow> u32 \<Rightarrow> nat \<Rightarrow> sched \<Rightarrow> sched" where
  "created name policy priority affinity sz n s =
     upd_task (\<lambda>t. t\<lparr>t_stack_size := sz, t_stack_base := fst (pmm_alloc_page (sched_frames s))\<rparr>) n
       (upd_task (task_fill name policy priority affinity 0 n) n
          (s\<lparr>task_bitmap := bm_set (task_bitmap s) n, sched_frames := snd (pmm_alloc_page (sched_frames s))\<rparr>))"

lemma created_simps:
  assumes "length (task_bitmap s) = 8" and "n < MAX_TASKS"
  shows "live (created nm pol prio aff sz n s) = insert n (live s)"
    and "task_pool (created nm pol prio aff sz n s) =
       (task_pool s)(n := (task_fill nm pol prio aff 0 n (task_pool s n))
          \<lparr>t_stack_size := sz, t_stack_base := fst (pmm_alloc_page (sched_frames s))\<rparr>)"
    and "sched_frames (created nm pol prio aff sz n s) = snd (pmm_alloc_page (sched_frames s))"
    and "cpu_runqueues (created nm pol prio aff sz n s) = cpu_runqueues s"
    and "num_cpus (created nm pol prio aff sz n s) = num_cpus s"
    and "current_cpu (created nm pol prio aff sz n s) = current_cpu s"
    and "task_bitmap (created nm pol prio aff sz n s) = bm_set (task_bitmap s) n"
  using task_slots.used_mark [OF assms] by (auto simp: created_def live_def fun_eq_iff)

lemma task_fill_simps:
  "t_next (task_fill nm pol prio aff c n k) = t_next k" "t_prev (task_fill nm pol prio aff c n k) = t_prev k"
  "t_id (task_fill nm pol prio aff c n k) = of_nat n" "t_cpu (task_fill nm pol prio aff c n k) = c"
  "t_priority (task_fill nm pol prio aff c n k) = prio" "t_static_priority (task_fill nm pol prio aff c n k) = prio"
  "t_state (task_fill nm pol prio aff c n k) = TASK_NEW" "t_policy (task_fill nm pol prio aff c n k) = pol"
  "t_effective_priority (task_fill nm pol prio aff c n k) = prio"
  by (simp_all add: task_fill_def Let_def)

lemma created_inv:
  assumes inv: "sched_inv s" and n: "n < MAX_TASKS" "n \<notin> live s" and prio: "0 \<le> prio" "prio \<le> MAX_NORMAL_PRIORITY"
    and page: "fst (pmm_alloc_page (sched_frames s)) \<noteq> 0"
  shows "sched_inv (created nm pol prio aff sz n s)"
    and "stack_page (created nm pol prio aff sz n s) n \<notin> pmm_used (sched_frames s)"
proof -
  let ?s' = "created nm pol prio aff sz n s"
  have st: "length (task_bitmap s) = 8" "pmm_inv (sched_frames s)" "0 \<in> pmm_used (sched_frames s)" "inj_on (stack_page s) (live s)"
    using sched_invD(4) [OF inv] by (simp_all add: static_inv_def)
  note c = created_simps [OF st(1) n(1), of nm pol prio aff sz]
  obtain p fr where p: "p < TOTAL_PAGES" "p \<notin> pmm_used (sched_frames s)"
    "pmm_alloc_page (sched_frames s) = (of_nat p * PAGE_SIZE, fr)" "pmm_inv fr" "pmm_used fr = insert p (pmm_used (sched_frames s))"
    using pmm_alloc_page_cases [OF st(2)] page by (metis fst_conv)
  have base: "unat (of_nat p * PAGE_SIZE :: u32) = p * 4096" by (rule page_of_address [OF p(1)])
  have pn: "stack_page ?s' n = p" by (simp add: stack_page_def c(2) p(3) base)
  then show "stack_page ?s' n \<notin> pmm_used (sched_frames s)" using p(2) by simp
  have po: "stack_page ?s' t = stack_page s t" if "t \<noteq> n" for t using that by (simp add: stack_page_def c(2))
  have used: "stack_page s t \<in> pmm_used (sched_frames s)" if "t \<in> live s" for t
    using sched_invD(8) [OF inv that] by (simp add: task_ok_def)
  show "sched_inv ?s'"
  proof (rule sched_inv_change [OF inv])
    fix t assume "t \<in> live ?s'" "t \<in> live s"
    then show "task_pool ?s' t = task_pool s t \<and> stack_page s t \<in> pmm_used (sched_frames ?s')"
      using n(2) used by (auto simp: c p(3,5))
  next
    fix t assume "t \<in> live ?s'" "t \<notin> live s"
    then have "t = n" by (simp add: c)
    moreover have "p \<noteq> 0" using p(2) st(3) by metis
    ultimately show "task_ok ?s' t \<and> t_state (task_pool ?s' t) = TASK_NEW"
      using pn p(1) prio by (simp add: task_ok_def c task_fill_simps p(3,5) base)
  next
    show "inj_on (stack_page ?s') (live ?s')"
    proof (rule inj_onI)
      fix a b assume ab: "a \<in> live ?s'" "b \<in> live ?s'" "stack_page ?s' a = stack_page ?s' b"
      then show "a = b" using po pn used p(2) inj_onD [OF st(4), of a b] unfolding c(1)
        by (cases "a = n"; cases "b = n") auto
    qed
  next
    fix t assume "t < MAX_TASKS" "t \<notin> live ?s'"
    then show "t_state (task_pool ?s' t) \<noteq> TASK_RUNNING"
      using running_okD(1) [OF inv, of t] by (auto simp: c)
  qed (use st p in \<open>auto simp: c task_fill_simps\<close>)
qed

lemma create_unfold:
  assumes inv: "sched_inv s" and n: "first_from (\<lambda>i. \<not> bm_test (task_bitmap s) i) 0 MAX_TASKS = Some n"
  shows "task_create_ex ep nm pol prio aff stack s =
     (let sz = (if stack < 4096 then 4096 else stack); base = fst (pmm_alloc_page (sched_frames s));
          s3 = created nm pol prio aff sz n s;
          f = (\<lambda>t. t\<lparr>t_esp := base + sz, t_ebp := base + sz, t_eip := ep, t_eflags := 0x202, t_cr3 := 0, t_state := TASK_READY\<rparr>)
      in if base = 0 then Some (- 1, free_task_id (int n) s3)
         else do { s5 \<leftarrow> enqueue_task 0 n (upd_task (\<lambda>t. t\<lparr>t_next := None, t_prev := None\<rparr>) n (upd_task f n s3));
                   Some (int n, s5) })"
proof -
  have frames: "upd_task g n s\<lparr>sched_frames := x\<rparr> = upd_task g n (s\<lparr>sched_frames := x\<rparr>)" for g n x and s :: sched
    by (simp add: upd_task_def)
  have order: "k\<lparr>t_next := None, t_prev := None, t_state := TASK_READY\<rparr> =
      k\<lparr>t_state := TASK_READY, t_next := None, t_prev := None\<rparr>" for k :: task by simp
  show ?thesis
    using n sched_invD(5) [OF inv]
    by (simp add: task_create_ex_def alloc_task_id_def created_def Let_def case_prod_beta frames upd_task_upd
      task_fill_simps order)
qed

lemma create_correct:
  assumes inv: "sched_inv s" and prio: "0 \<le> prio" "prio \<le> MAX_NORMAL_PRIORITY"
    and n: "n < MAX_TASKS" "n \<notin> live s" "{..<n} \<subseteq> live s" and page: "pmm_used (sched_frames s) \<noteq> {..<TOTAL_PAGES}"
  shows "\<exists>s'. task_create_ex ep nm pol prio aff stack s = Some (int n, s') \<and> sched_inv s'
     \<and> live s' = insert n (live s) \<and> t_state (task_pool s' n) = TASK_READY \<and> t_priority (task_pool s' n) = prio
     \<and> stack_page s' n \<notin> pmm_used (sched_frames s) \<and> pmm_used (sched_frames s') = insert (stack_page s' n) (pmm_used (sched_frames s))
     \<and> (\<forall>t. t \<noteq> n \<longrightarrow> core (task_pool s' t) = core (task_pool s t))"
proof -
  have st: "length (task_bitmap s) = 8" "pmm_inv (sched_frames s)" "0 \<in> pmm_used (sched_frames s)"
    using sched_invD(4) [OF inv] by (simp_all add: static_inv_def)
  have ff: "first_from (\<lambda>i. \<not> bm_test (task_bitmap s) i) 0 MAX_TASKS = Some n"
    using n by (simp add: task_slots.first_free_Some live_def)
  obtain p fr where p: "p < TOTAL_PAGES" "p \<notin> pmm_used (sched_frames s)"
    "pmm_alloc_page (sched_frames s) = (of_nat p * PAGE_SIZE, fr)" "pmm_used fr = insert p (pmm_used (sched_frames s))"
    using pmm_alloc_page_cases [OF st(2)] page by metis
  have base: "unat (of_nat p * PAGE_SIZE :: u32) = p * 4096" by (rule page_of_address [OF p(1)])
  moreover have "p \<noteq> 0" using p(2) st(3) by metis
  ultimately have nz: "fst (pmm_alloc_page (sched_frames s)) \<noteq> 0" using p(3) by (metis fst_conv mult_is_0 unat_0 zero_neq_numeral)
  define sz where "sz = (if stack < 4096 then 4096 else stack)"
  define b where "b = fst (pmm_alloc_page (sched_frames s))"
  define s3 where "s3 = created nm pol prio aff sz n s"
  define f where "f = (\<lambda>t :: task. t\<lparr>t_esp := b + sz, t_ebp := b + sz, t_eip := ep, t_eflags := 0x202, t_cr3 := 0, t_state := TASK_READY\<rparr>)"
  note c = created_simps [OF st(1) n(1), of nm pol prio aff sz, folded s3_def]
  note inv3 = created_inv [OF inv n(1,2) prio nz, of nm pol aff sz, folded s3_def]
  have fk: "keeps_static f" "\<And>k. t_state (f k) = TASK_READY" "\<And>k. t_priority (f k) = t_priority k"
    "\<And>k. t_stack_base (f k) = t_stack_base k"
    unfolding f_def by (rule keeps_staticI; simp) simp_all
  have n3: "n \<in> live s3" "t_state (task_pool s3 n) \<noteq> TASK_READY" "t_cpu (f (task_pool s3 n)) = 0" "t_priority (task_pool s3 n) = prio"
    unfolding f_def by (simp_all add: c task_fill_simps)
  obtain s' where s': "enqueue_task 0 n (upd_task f n s3) = Some s'" "sched_inv s'" "relinked (upd_task f n s3) s'"
    using make_ready [OF inv3(1) n3(1,2) fk(1,2)] n3(3) by auto
  have "task_create_ex ep nm pol prio aff stack s = Some (int n, s')"
    unfolding create_unfold [OF inv ff] Let_def sz_def [symmetric] b_def [symmetric] s3_def [symmetric] f_def [symmetric]
    using nz s'(1) n3(4) prio by (simp add: b_def enqueue_fresh_links fk)
  moreover have "stack_page s' n = stack_page s3 n" "sched_frames s' = fr" "live s' = insert n (live s)"
    using relinked_simps [OF s'(3)] relinked_views(1) [OF s'(3)] by (simp_all add: stack_page_def fk c p(3))
  moreover have "stack_page s3 n = p" by (simp add: stack_page_def c p(3) base)
  moreover have "core (task_pool s' t) = core (task_pool s t)" if "t \<noteq> n" for t
    using relinked_core(1) [OF s'(3), of t] that by (simp add: c)
  ultimately show ?thesis
    using s'(2) relinked_taskD(2,3) [OF s'(3), of n] n3(4) p(2,4) by (simp add: fk)
qed

lemma create_fails:
  assumes inv: "sched_inv s" and full: "live s = {..<MAX_TASKS} \<or> pmm_used (sched_frames s) = {..<TOTAL_PAGES}"
  shows "\<exists>s'. task_create_ex ep nm pol prio aff stack s = Some (- 1, s') \<and> sched_inv s'
     \<and> live s' = live s \<and> sched_frames s' = sched_frames s"
proof (cases "first_from (\<lambda>i. \<not> bm_test (task_bitmap s) i) 0 MAX_TASKS")
  case None
  then show ?thesis using inv by (simp add: task_create_ex_def alloc_task_id_def)
next
  case (Some n)
  have st: "length (task_bitmap s) = 8" "pmm_inv (sched_frames s)" "0 \<in> pmm_used (sched_frames s)" "inj_on (stack_page s) (live s)"
    using sched_invD(4) [OF inv] by (simp_all add: static_inv_def)
  from Some have n: "n < MAX_TASKS" "n \<notin> live s"
    by (auto simp: task_slots.first_free_Some live_def)
  then have used: "pmm_used (sched_frames s) = {..<TOTAL_PAGES}" using full by auto
  have none: "pmm_alloc_page (sched_frames s) = (0, sched_frames s)"
    by (rule pmm_alloc_page_cases [OF st(2)]) (simp_all add: used)
  define sz where "sz = (if stack < 4096 then 4096 else stack)"
  define s' where "s' = free_task_id (int n) (created nm pol prio aff sz n s)"
  note c = created_simps [OF st(1) n(1), of nm pol prio aff sz]
  have run: "task_create_ex ep nm pol prio aff stack s = Some (- 1, s')"
    unfolding create_unfold [OF inv Some] Let_def by (simp add: none s'_def sz_def)
  have s'_eq: "s' = (created nm pol prio aff sz n s)\<lparr>task_bitmap := bm_clear (bm_set (task_bitmap s) n) n\<rparr>"
    using n(1) by (simp add: s'_def free_task_id_def c)
  have live': "live s' = live s"
    using task_slots.release_mark_used [OF st(1) n(1)] n(2) by (simp add: s'_eq live_def)
  have page: "stack_page s' t = stack_page s t" if "t \<in> live s" for t
    using that n(2) by (auto simp: stack_page_def s'_eq c)
  have "sched_inv s'"
  proof (rule sched_inv_change [OF inv])
    show "inj_on (stack_page s') (live s')" unfolding live' using st(4) page by (simp add: inj_on_def)
    fix t assume "t \<in> live s"
    then show "task_pool s' t = task_pool s t \<and> stack_page s t \<in> pmm_used (sched_frames s')"
      using n(2) sched_invD(8) [OF inv, of t] by (auto simp: s'_eq c none task_ok_def)
  next
    fix t assume t: "t < MAX_TASKS" "t \<notin> live s'"
    then show "t_state (task_pool s' t) \<noteq> TASK_RUNNING"
      using running_okD(1) [OF inv t(1)] live' by (auto simp: s'_eq c task_fill_simps)
  qed (use live' in \<open>auto simp: s'_eq c task_fill_simps none st\<close>)
  then show ?thesis using run live' by (simp add: s'_eq c none)
qed

end
