(* ===== verification/SchedulerRun.thy ===== *)
theory SchedulerRun
  imports SchedulerInv
begin

text \<open>
  Runs of the scheduler: the timer tick, initialisation, the transition relation whose steps are
  the calls of \<open>task.h\<close>, and the properties of every reachable state.
\<close>

subsection \<open>The timer tick\<close>

definition due :: "sched \<Rightarrow> nat \<Rightarrow> bool" where
  "due s t \<longleftrightarrow> t \<in> live s \<and> t_state (task_pool s t) = TASK_SLEEPING
     \<and> t_sleep_until (task_pool s t) \<le> ucast (timer_get_ticks s)"

definition woken_upto :: "nat \<Rightarrow> sched \<Rightarrow> sched \<Rightarrow> bool" where
  "woken_upto i s u \<longleftrightarrow> sched_inv u \<and> live u = live s \<and> timer_get_ticks u = timer_get_ticks s
     \<and> rq_current (cpu_runqueues u 0) = rq_current (cpu_runqueues s 0)
     \<and> (\<forall>t. t_state (task_pool u t) = (if t < i \<and> due s t then TASK_READY else t_state (task_pool s t)))
     \<and> (\<forall>t \<ge> i. t_sleep_until (task_pool u t) = t_sleep_until (task_pool s t))"

lemma wake_sleeper_step:
  assumes u: "woken_upto i s u" and i: "i < MAX_TASKS"
  shows "\<exists>u'. wake_sleeper i u = Some u' \<and> woken_upto (Suc i) s u'"
proof (cases "due s i")
  case True
  have inv: "sched_inv u" and il: "i \<in> live u" and st: "t_state (task_pool u i) = TASK_SLEEPING"
    using u True by (auto simp: woken_upto_def due_def)
  obtain u' where u': "task_wakeup (int i) u = Some u'" "sched_inv u'"
    "relinked (upd_task (\<lambda>k. k\<lparr>t_state := TASK_READY, t_sleep_until := 0\<rparr>) i u) u'"
    using wakeup_correct [OF inv il st] by blast
  have "bm_test (task_bitmap u) i" using il by (simp add: live_def bm_used_def)
  then have "wake_sleeper i u = Some u'"
    using u' u True st by (simp add: wake_sleeper_def task_id_sint [OF inv il] woken_upto_def due_def)
  moreover have "woken_upto (Suc i) s u'"
    using u u'(2) relinked_simps [OF u'(3)] relinked_views(1) [OF u'(3)] True
    by (auto simp: woken_upto_def less_Suc_eq)
  ultimately show ?thesis by blast
next
  case False
  then have "wake_sleeper i u = Some u" using u i by (auto simp: wake_sleeper_def woken_upto_def due_def live_def bm_used_def)
  moreover have "woken_upto (Suc i) s u" using u False by (auto simp: woken_upto_def less_Suc_eq)
  ultimately show ?thesis by blast
qed

lemma wake_all:
  assumes "sched_inv s"
  shows "\<exists>u. for_range_opt 0 MAX_TASKS wake_sleeper s = Some u \<and> woken_upto MAX_TASKS s u"
proof (rule for_range_opt_rule [where I = "\<lambda>i u. woken_upto i s u"])
  show "woken_upto 0 s s" using assms by (simp add: woken_upto_def)
qed (use wake_sleeper_step in auto)

text \<open>The three ways a tick goes: nothing to account, a FIFO task whose slice is refilled, the rest.\<close>

definition charge :: "task \<Rightarrow> task" where
  "charge k = k\<lparr>t_stats := (t_stats k)\<lparr>exec_time := exec_time (t_stats k) + 1\<rparr>,
                t_time_slice := (if t_time_slice k > 0 then t_time_slice k - 1 else t_time_slice k)\<rparr>"

definition slice_over :: "task \<Rightarrow> bool" where
  "slice_over k \<longleftrightarrow> t_time_slice k \<le> 1"

lemma charge_slice: "t_time_slice (charge k) = 0 \<longleftrightarrow> slice_over k"
proof -
  have "t_time_slice k \<le> 1 \<longleftrightarrow> t_time_slice k = 0 \<or> t_time_slice k = 1"
    by (metis le_less word_less_1)
  then show ?thesis by (auto simp: charge_def slice_over_def word_gt_0)
qed

lemma charge_simps [simp]: "keeps_static charge" "t_state (charge k) = t_state k" "t_policy (charge k) = t_policy k"
  "t_sleep_until (charge k) = t_sleep_until k"
  by (auto simp: charge_def intro!: keeps_staticI)

lemma tick_correct:
  assumes inv: "sched_inv s" and on: "scheduler_enabled s" and cur: "rq_current (cpu_runqueues s 0) = Some t"
    and goes_on: "\<not> (slice_over (task_pool s t) \<and> t_policy (task_pool s t) = SCHED_FIFO)"
  shows "\<exists>s'. scheduler_tick s = Some s' \<and> sched_inv s' \<and> live s' = live s
     \<and> (\<forall>u. t_state (task_pool s u) = TASK_SLEEPING \<and> u \<in> live s \<longrightarrow>
          t_state (task_pool s' u) = (if due s u then TASK_READY else TASK_SLEEPING))"
proof -
  let ?s1 = "upd_task charge t s"
  define s1' where "s1' = upd_stats (\<lambda>g. g\<lparr>total_preemptions := total_preemptions g + 1\<rparr>)
      (upd_task (\<lambda>k. k\<lparr>t_stats := (t_stats k)\<lparr>preemptions := preemptions (t_stats k) + 1\<rparr>\<rparr>) t ?s1)"
  have inv1: "sched_inv ?s1" by (rule neutral_task [OF inv]) simp_all
  have "sched_inv (upd_task (\<lambda>k. k\<lparr>t_stats := (t_stats k)\<lparr>preemptions := preemptions (t_stats k) + 1\<rparr>\<rparr>) t ?s1)"
    by (rule neutral_task [OF inv1]) (auto intro!: keeps_staticI)
  then have inv1': "sched_inv s1'" unfolding s1'_def
    by (subst sched_inv_frame [where s = "upd_task (\<lambda>k. k\<lparr>t_stats := (t_stats k)\<lparr>preemptions := preemptions (t_stats k) + 1\<rparr>\<rparr>) t ?s1"])
      (simp_all add: upd_stats_def)
  have same: "t_state (task_pool s1' u) = t_state (task_pool s u)" "t_sleep_until (task_pool s1' u) = t_sleep_until (task_pool s u)"
    "live s1' = live s" "timer_get_ticks s1' = timer_get_ticks s" for u
    by (simp_all add: s1'_def upd_stats_def live_def timer_get_ticks_def)
  have "\<exists>s2. (if slice_over (task_pool s t) then scheduler_schedule s1' else Some ?s1) = Some s2 \<and> sched_inv s2 \<and> live s2 = live s
     \<and> (\<forall>u \<in> live s. t_state (task_pool s u) = TASK_SLEEPING \<longrightarrow> t_state (task_pool s2 u) = TASK_SLEEPING \<and> due s2 u = due s u)"
  proof (cases "slice_over (task_pool s t)")
    case True
    obtain s2 where s2: "scheduler_schedule s1' = Some s2" "sched_inv s2" using schedule_inv [OF inv1'] by blast
    have keep: "steady s1' s2" using schedule_steady [OF s2(1)] sched_invD(5) [OF inv1'] by simp
    then have live: "live s2 = live s" using same by (simp add: steady_def live_def)
    have st: "t_state (task_pool s2 u) = TASK_SLEEPING" if u: "t_state (task_pool s u) = TASK_SLEEPING" "u \<in> live s" for u
    proof (cases "scheduler_enabled s1' \<and> preemption_enabled s1'")
      case True
      moreover have "\<not> runnable s1' u" using u same by (simp add: runnable_def)
      ultimately show ?thesis
        using schedule_correct [OF inv1'] s2(1) u same live_less [OF u(2)] by (auto simp: preempted_state_def split: if_splits)
    next
      case False
      then show ?thesis using s2(1) u same by (auto simp: scheduler_schedule_def)
    qed
    then show ?thesis using s2 True keep live same by (auto simp: due_def steady_def)
  next
    case False
    then show ?thesis using inv1 by (auto simp: due_def)
  qed
  then obtain s2 where s2: "(if slice_over (task_pool s t) then scheduler_schedule s1' else Some ?s1) = Some s2"
    "sched_inv s2" "live s2 = live s"
    "\<And>u. u \<in> live s \<Longrightarrow> t_state (task_pool s u) = TASK_SLEEPING \<Longrightarrow> t_state (task_pool s2 u) = TASK_SLEEPING \<and> due s2 u = due s u"
    by blast
  obtain s' where s': "for_range_opt 0 MAX_TASKS wake_sleeper s2 = Some s'" "woken_upto MAX_TASKS s2 s'"
    using wake_all [OF s2(2)] by blast
  have "scheduler_tick s = Some s'"
    using on cur sched_invD(5) [OF inv] goes_on s2(1) s'(1)
    unfolding scheduler_tick_def charge_def [symmetric]
    by (cases "slice_over (task_pool s t)") (auto simp: charge_slice Let_def s1'_def)
  moreover have "t_state (task_pool s' u) = (if due s u then TASK_READY else TASK_SLEEPING)"
    if "t_state (task_pool s u) = TASK_SLEEPING" "u \<in> live s" for u
    using s'(2) s2(4) [OF that(2,1)] live_less [OF that(2)] by (simp add: woken_upto_def)
  ultimately show ?thesis using s'(2) s2(3) by (auto simp: woken_upto_def)
qed

lemma tick_inv:
  assumes inv: "sched_inv s"
  shows "\<exists>s'. scheduler_tick s = Some s' \<and> sched_inv s'"
proof (cases "scheduler_enabled s \<and> rq_current (cpu_runqueues s 0) \<noteq> None")
  case True
  then obtain t where t: "rq_current (cpu_runqueues s 0) = Some t" by auto
  show ?thesis
  proof (cases "slice_over (task_pool s t) \<and> t_policy (task_pool s t) = SCHED_FIFO")
    case fifo: True
    let ?s' = "upd_task (\<lambda>k. k\<lparr>t_time_slice := calculate_time_slice k\<rparr>) t (upd_task charge t s)"
    have "sched_inv (upd_task charge t s)" by (rule neutral_task [OF inv]) simp_all
    then have "sched_inv ?s'" by (rule neutral_task) (auto intro!: keeps_staticI)
    moreover have "scheduler_tick s = Some ?s'"
      using True t fifo sched_invD(5) [OF inv] unfolding scheduler_tick_def charge_def [symmetric]
      by (simp add: charge_slice Let_def)
    ultimately show ?thesis by blast
  next
    case False
    then show ?thesis using tick_correct [OF inv _ t] True by blast
  qed
next
  case False
  then show ?thesis using inv sched_invD(5) [OF inv] by (auto simp: scheduler_tick_def)
qed

subsection \<open>Initialisation\<close>

lemma clear_pool:
  "for_range 0 n (upd_task f) s = s\<lparr>task_pool := \<lambda>i. if i < n then f (task_pool s i) else task_pool s i\<rparr>"
proof (induction n)
  case (Suc n)
  then show ?case by (auto simp: for_range_Suc upd_task_def fun_eq_iff less_Suc_eq)
qed (simp add: for_range_skip)

lemma clear_lists:
  "for_range 0 n (\<lambda>i. upd_rq (\<lambda>r. r\<lparr>ready_lists := (ready_lists r)(i := None)\<rparr>) c) s =
     upd_rq (\<lambda>r. r\<lparr>ready_lists := \<lambda>i. if i < n then None else ready_lists r i\<rparr>) c s"
proof (induction n)
  case (Suc n)
  then show ?case by (auto simp: for_range_Suc upd_rq_def fun_eq_iff less_Suc_eq intro!: sched.equality cpu_runqueue.equality)
qed (simp add: for_range_skip upd_rq_def)

lemma scheduler_init_eq:
  assumes "num_cpus s = 1"
  shows "scheduler_init s =
     (upd_rq (\<lambda>r. r\<lparr>rq_current := None, rq_idle_task := None, nr_running := 0, load_weight := 0, last_balance := 0,
                     ready_lists := \<lambda>i. if i < NUM_PRIORITIES then None else ready_lists r i\<rparr>) 0
        (s\<lparr>task_pool := \<lambda>i. if i < MAX_TASKS then (task_pool s i)\<lparr>t_state := TASK_TERMINATED, t_id := 0\<rparr> else task_pool s i,
           task_bitmap := replicate 8 0\<rparr>))\<lparr>scheduler_enabled := False\<rparr>"
proof -
  have one: "for_range 0 (Suc 0) f x = f 0 x" for f and x :: sched
    using for_range_Suc [of 0 0 f x] by (simp add: for_range_skip)
  show ?thesis unfolding scheduler_init_def clear_pool Let_def
    using assms by (simp add: one scheduler_init_cpu_def clear_lists upd_rq_def cong: if_cong)
qed

text \<open>Power-on state: one processor, and the frame allocator of \<open>pmm_init\<close> or of the boot information.\<close>

definition power_on :: "sched \<Rightarrow> bool" where
  "power_on s \<longleftrightarrow> num_cpus s = 1 \<and> current_cpu s = 0 \<and> preemption_enabled s
     \<and> pmm_inv (sched_frames s) \<and> 0 \<in> pmm_used (sched_frames s)"

lemma init_inv:
  assumes "power_on s"
  shows "sched_inv (scheduler_init s)" and "live (scheduler_init s) = {}"
proof -
  let ?s' = "scheduler_init s"
  have cpus: "num_cpus s = 1" using assms by (simp add: power_on_def)
  note eq = scheduler_init_eq [OF cpus]
  have bits: "length (task_bitmap ?s') = 8" and rq: "\<And>p. p < NUM_PRIORITIES \<Longrightarrow> ready_lists (cpu_runqueues ?s' 0) p = None"
    "nr_running (cpu_runqueues ?s' 0) = 0" "rq_current (cpu_runqueues ?s' 0) = None" "rq_idle_task (cpu_runqueues ?s' 0) = None"
    and tasks: "\<And>t. t < MAX_TASKS \<Longrightarrow> t_state (task_pool ?s' t) = TASK_TERMINATED"
    and rest: "num_cpus ?s' = num_cpus s" "current_cpu ?s' = current_cpu s" "sched_frames ?s' = sched_frames s"
    unfolding eq by (simp_all add: upd_rq_def)
  have "task_bitmap ?s' = replicate 8 0" unfolding eq by (simp add: upd_rq_def)
  then have live: "live ?s' = {}" using bm_test_zero [where 'a = 32, of _ 8] by (auto simp: live_def bm_used_def)
  show "live ?s' = {}" by (rule live)
  have empty: "rl.well_linked ?s'" "p < NUM_PRIORITIES \<Longrightarrow> ready_list ?s' p = []" for p
    using rl.empty_well_linked [of ?s'] rq(1) by (simp_all add: ready_heads_def)
  have "static_inv ?s'" using assms by (simp add: static_inv_def live bits rest rq power_on_def)
  moreover have "queued ?s' = {}" using empty(2) by (auto simp: queued_def)
  ultimately show "sched_inv ?s'"
    using empty(1) tasks by (auto simp: sched_inv_def sched_wf_def rq ready_pairs_def live running_ok_def)
qed

subsection \<open>The calls of \<open>task.h\<close>\<close>

datatype sched_call =
    CallCreate u32 "u8 list option" sched_policy int u64 u32
  | CallExit int
  | CallYield
  | CallSleep u64
  | CallBlock int
  | CallUnblock int
  | CallWakeup int
  | CallStart
  | CallTick
  | CallSetPriority int int
  | CallSetNice int int
  | CallSetPolicy int sched_policy
  | CallSetAffinity int u64
  | CallMigrate int int
  | CallPiBoost int int
  | CallPiDeboost int
  | CallBalance
  | CallEnablePreemption
  | CallDisablePreemption
  | TimerInterrupt

fun sched_exec :: "sched_call \<Rightarrow> sched \<Rightarrow> sched option" where
  "sched_exec (CallCreate ep nm pol prio aff stack) s = map_option snd (task_create_ex ep nm pol prio aff stack s)"
| "sched_exec (CallExit code) s = task_exit code s"
| "sched_exec CallYield s = task_yield s"
| "sched_exec (CallSleep n) s = task_sleep n s"
| "sched_exec (CallBlock r) s = task_block r s"
| "sched_exec (CallUnblock i) s = task_unblock i s"
| "sched_exec (CallWakeup i) s = task_wakeup i s"
| "sched_exec CallStart s = scheduler_start s"
| "sched_exec CallTick s = scheduler_tick s"
| "sched_exec (CallSetPriority i p) s = map_option snd (task_set_priority i p s)"
| "sched_exec (CallSetNice i n) s = map_option snd (task_set_nice i n s)"
| "sched_exec (CallSetPolicy i pol) s = Some (snd (task_set_policy i pol s))"
| "sched_exec (CallSetAffinity i a) s = map_option snd (task_set_affinity i a s)"
| "sched_exec (CallMigrate i c) s = map_option snd (task_migrate i c s)"
| "sched_exec (CallPiBoost i p) s = task_pi_boost i p s"
| "sched_exec (CallPiDeboost i) s = Some (task_pi_deboost i s)"
| "sched_exec CallBalance s = scheduler_balance_load s"
| "sched_exec CallEnablePreemption s = Some (scheduler_enable_preemption s)"
| "sched_exec CallDisablePreemption s = Some (scheduler_disable_preemption s)"
| "sched_exec TimerInterrupt s = Some (timer_handler s)"

text \<open>
  What a caller has to observe: priorities are not negative and, at creation and boost, within
  the table; only a running task gives up the processor for good; a ready task is not deboosted.
\<close>

definition current_not_ready :: "sched \<Rightarrow> bool" where
  "current_not_ready s =
     (case rq_current (cpu_runqueues s (current_cpu s)) of
        Some t \<Rightarrow> t_state (task_pool s t) \<noteq> TASK_READY | None \<Rightarrow> True)"

definition current_running :: "sched \<Rightarrow> bool" where
  "current_running s =
     (case rq_current (cpu_runqueues s (current_cpu s)) of
        Some t \<Rightarrow> t_state (task_pool s t) = TASK_RUNNING | None \<Rightarrow> True)"

fun permitted :: "sched_call \<Rightarrow> sched \<Rightarrow> bool" where
  "permitted (CallCreate ep nm pol prio aff stack) s = (0 \<le> prio \<and> prio \<le> MAX_NORMAL_PRIORITY)"
| "permitted (CallExit code) s = current_running s"
| "permitted (CallSleep n) s = current_not_ready s"
| "permitted (CallBlock r) s = current_not_ready s"
| "permitted (CallSetPriority i p) s = (0 \<le> p)"
| "permitted (CallMigrate i c) s = (0 \<le> c)"
| "permitted (CallPiBoost i p) s = (0 \<le> p \<and> p \<le> MAX_NORMAL_PRIORITY)"
| "permitted (CallPiDeboost i) s =
     (case get_task i s of Some t \<Rightarrow> t_state (task_pool s t) \<noteq> TASK_READY | None \<Rightarrow> True)"
| "permitted c s = True"

inductive sched_reachable :: "sched \<Rightarrow> sched \<Rightarrow> bool" for s0 where
  boot: "sched_reachable s0 (scheduler_init s0)"
| call: "sched_reachable s0 s \<Longrightarrow> permitted c s \<Longrightarrow> sched_exec c s = Some s' \<Longrightarrow> sched_reachable s0 s'"

lemma create_inv:
  assumes inv: "sched_inv s" and prio: "0 \<le> prio" "prio \<le> MAX_NORMAL_PRIORITY"
  shows "\<exists>r s'. task_create_ex ep nm pol prio aff stack s = Some (r, s') \<and> sched_inv s'"
proof (cases "live s = {..<MAX_TASKS} \<or> pmm_used (sched_frames s) = {..<TOTAL_PAGES}")
  case True
  then show ?thesis using create_fails [OF inv] by blast
next
  case False
  then have "first_from (\<lambda>i. \<not> bm_test (task_bitmap s) i) 0 MAX_TASKS \<noteq> None"
    by (auto simp: task_slots.first_free_None live_def)
  then obtain n where n: "n < MAX_TASKS" "n \<notin> live s" "{..<n} \<subseteq> live s"
    by (auto simp: task_slots.first_free_Some live_def)
  then show ?thesis using create_correct [OF inv prio n] False by blast
qed

lemma deboost_inv:
  assumes inv: "sched_inv s" and ok: "permitted (CallPiDeboost i) s"
  shows "sched_inv (task_pi_deboost i s)"
proof (cases "get_task i s")
  case (Some t)
  define q where "q = t_static_priority (task_pool s t)"
  let ?f = "\<lambda>k. k\<lparr>t_effective_priority := q, t_priority := q\<rparr>"
  have "task_ok s t" using get_task_live [OF Some] sched_invD(8) [OF inv] by blast
  then have "sets_priority q ?f" by (simp add: sets_priority_def keeps_links_def task_ok_def q_def)
  then have "sched_inv (upd_task ?f t s)" using ok Some by (intro reprioritise [OF inv]) simp_all
  moreover have "task_pi_deboost i s = upd_task ?f t s" using Some by (simp add: task_pi_deboost_def upd_task_def q_def)
  ultimately show ?thesis by simp
qed (use inv in \<open>simp add: task_pi_deboost_def\<close>)

lemma exec_inv:
  assumes inv: "sched_inv s" and ok: "permitted c s"
  shows "\<exists>s'. sched_exec c s = Some s' \<and> sched_inv s'"
proof (cases c)
  case (CallExit code)
  then show ?thesis using ok inv exit_correct [OF inv] sched_invD(5) [OF inv]
    by (cases "rq_current (cpu_runqueues s 0)") (fastforce simp: task_exit_def current_running_def)+
next
  case (CallSetNice i n)
  then show ?thesis using set_priority_correct [OF inv, of "120 + n" i] inv
    by (cases "n < - 20 \<or> n > 19") (auto simp: task_set_nice_def NICE_TO_PRIORITY_def)
next
  case (CallCreate ep nm pol prio aff stack)
  then show ?thesis using create_inv [OF inv, of prio ep nm pol aff stack] ok by auto
next
  case (CallPiDeboost i)
  then show ?thesis using deboost_inv [OF inv] ok by (simp del: permitted.simps)
next
  case CallBalance
  then show ?thesis using sched_invD(6) [OF inv] inv by (simp add: scheduler_balance_load_def)
next
  case (CallMigrate i t)
  then show ?thesis using migrate_inv [OF inv, of t i] inv ok by simp
next
  case (CallSetAffinity i a)
  then show ?thesis using set_affinity_inv [OF inv, of i a] by auto
next
  case (CallSetPriority i p)
  then show ?thesis using set_priority_correct [OF inv, of p i] ok by auto
next
  case (CallSleep n)
  then show ?thesis using sleep_inv [OF inv, of n] ok sched_invD(5) [OF inv] by (simp add: current_not_ready_def split: option.splits)
next
  case (CallBlock r)
  then show ?thesis using block_inv [OF inv, of r] ok sched_invD(5) [OF inv] by (simp add: current_not_ready_def split: option.splits)
next
  case CallYield
  then show ?thesis using schedule_inv [OF inv] by (simp add: task_yield_def)
next
  case (CallPiBoost i p)
  then show ?thesis using pi_boost_correct [OF inv, of p i] ok by simp
next
  case (CallSetPolicy i pol)
  then show ?thesis using set_policy_inv [OF inv] by simp
next
  case CallEnablePreemption
  have "sched_inv (scheduler_enable_preemption s)" by (rule iffD2 [OF sched_inv_frame inv]) (simp_all add: scheduler_enable_preemption_def Let_def)
  with CallEnablePreemption show ?thesis by simp
next
  case CallDisablePreemption
  have "sched_inv (scheduler_disable_preemption s)" by (rule iffD2 [OF sched_inv_frame inv]) (simp_all add: scheduler_disable_preemption_def)
  with CallDisablePreemption show ?thesis by simp
next
  case TimerInterrupt
  have "sched_inv (timer_handler s)" by (rule iffD2 [OF sched_inv_frame inv]) (simp_all add: timer_handler_def)
  with TimerInterrupt show ?thesis by simp
qed (simp_all add: start_inv [OF inv] tick_inv [OF inv] unblock_correct [OF inv] wakeup_inv [OF inv])

lemma sched_reachable_inv: "sched_reachable s0 s \<Longrightarrow> power_on s0 \<Longrightarrow> sched_inv s"
proof (induction rule: sched_reachable.induct)
  case boot
  then show ?case by (rule init_inv)
next
  case (call s c s')
  then show ?case using exec_inv [of s c] by auto
qed

subsection \<open>Properties\<close>

text \<open>A concrete power-on state for the examples.\<close>

definition blank_task :: task where
  "blank_task = \<lparr>t_id = 0, t_name = replicate 32 0, t_esp = 0, t_ebp = 0, t_eip = 0, t_eflags = 0, t_cr3 = 0,
     t_policy = SCHED_NORMAL, t_priority = 0, t_static_priority = 0, t_nice = 0, t_state = TASK_NEW, t_cpu = 0,
     t_affinity = 0, t_time_slice = 0, t_exec_start = 0, t_sleep_until = 0, t_blocked_on = 0, t_pi_waiters = None,
     t_effective_priority = 0,
     t_stats = \<lparr>exec_time = 0, wait_time = 0, ctx_switches = 0, preemptions = 0, migrations = 0\<rparr>,
     t_stack_base = 0, t_stack_size = 0, t_next = None, t_prev = None\<rparr>"

definition powered_sched :: sched where
  "powered_sched = \<lparr>task_pool = (\<lambda>i. blank_task), task_bitmap = [],
     cpu_runqueues = (\<lambda>c. \<lparr>rq_current = None, rq_idle_task = None, ready_lists = (\<lambda>p. None), nr_running = 0,
       load_weight = 0, last_balance = 0\<rparr>),
     num_cpus = 1, current_cpu = 0, scheduler_enabled = False, preemption_enabled = True, preemption_count = 0,
     global_stats = \<lparr>total_ctx_switches = 0, total_migrations = 0, total_preemptions = 0, load_balance_count = 0, idle_time = 0\<rparr>,
     sched_frames = the pmm_init, timer_ticks = 0\<rparr>"

lemma powered_sched_on: "power_on powered_sched"
proof -
  have "0 \<in> pmm_used (the pmm_init)" unfolding pmm_init_state by simp
  then show ?thesis using pmm_init_state(1) unfolding power_on_def powered_sched_def by (simp del: pmm_init_state)
qed

text \<open>The scheduler with one task at priority 120, enabled, before and after its first dispatch.\<close>

definition one_task :: sched where
  "one_task = (snd (the (task_create 0x1000 None SCHED_NORMAL 120 (scheduler_init powered_sched))))
     \<lparr>scheduler_enabled := True, preemption_enabled := True\<rparr>"

lemma one_task:
  "sched_inv one_task" "live one_task = {0}" "t_state (task_pool one_task 0) = TASK_READY"
  "t_priority (task_pool one_task 0) = 120" "scheduler_enabled one_task" "preemption_enabled one_task"
proof -
  let ?s = "scheduler_init powered_sched"
  note init = init_inv [OF powered_sched_on]
  have eq: "sched_frames ?s = the pmm_init"
    by (simp_all add: scheduler_init_eq powered_sched_def upd_rq_def)
  have "pmm_used (sched_frames ?s) \<noteq> {..<TOTAL_PAGES}" unfolding eq pmm_init_state by simp
  then obtain s' where s': "task_create 0x1000 None SCHED_NORMAL 120 ?s = Some (0, s')" "sched_inv s'" "live s' = {0}"
    "t_state (task_pool s' 0) = TASK_READY" "t_priority (task_pool s' 0) = 120"
    using create_correct [OF init(1), of 120 0 "0x1000" None SCHED_NORMAL "- 1" 16384] init(2) unfolding task_create_def by auto
  then have eq': "one_task = s'\<lparr>scheduler_enabled := True, preemption_enabled := True\<rparr>" by (simp add: one_task_def)
  show "sched_inv one_task" unfolding eq' by (rule iffD2 [OF sched_inv_frame s'(2)]) simp_all
  show "live one_task = {0}" "t_state (task_pool one_task 0) = TASK_READY"
    "t_priority (task_pool one_task 0) = 120" "scheduler_enabled one_task" "preemption_enabled one_task"
    using s' by (simp_all add: eq' live_def)
qed

definition running_task :: sched where
  "running_task = the (scheduler_schedule one_task)"

lemma schedule_runs:
  assumes "sched_inv s" and "scheduler_enabled s" and "preemption_enabled s" and "runnable s t"
  shows "\<exists>s' n. scheduler_schedule s = Some s' \<and> sched_inv s' \<and> live s' = live s \<and> runnable s n
     \<and> rq_current (cpu_runqueues s' 0) = Some n \<and> t_state (task_pool s' n) = TASK_RUNNING"
proof -
  have ex: "\<exists>t. runnable s t" using assms(4) by blast
  show ?thesis using schedule_correct [OF assms(1-3), unfolded if_P [OF ex]] by blast
qed

lemma one_task_runnable: "runnable one_task t \<longleftrightarrow> t = 0"
  using one_task(2,3) by (auto simp: runnable_def)

lemma running_task:
  "sched_inv running_task" "live running_task = {0}"
  "rq_current (cpu_runqueues running_task 0) = Some 0" "t_state (task_pool running_task 0) = TASK_RUNNING"
proof -
  obtain s' where s': "scheduler_schedule one_task = Some s'" "sched_inv s'" "live s' = live one_task"
    "rq_current (cpu_runqueues s' 0) = Some 0" "t_state (task_pool s' 0) = TASK_RUNNING"
    using schedule_runs [OF one_task(1,5,6), of 0] unfolding one_task_runnable by blast
  then have "running_task = s'" by (simp add: running_task_def)
  with s' show "sched_inv running_task" "live running_task = {0}"
    "rq_current (cpu_runqueues running_task 0) = Some 0" "t_state (task_pool running_task 0) = TASK_RUNNING"
    by (simp_all add: one_task)
qed

text \<open>The bytes of a task's stack, from \<open>stack_base\<close> up to where \<open>esp\<close> starts, and the bytes of a frame.\<close>

definition stack_range :: "sched \<Rightarrow> nat \<Rightarrow> nat set" where
  "stack_range s t = {unat (t_stack_base (task_pool s t)) ..<
     unat (t_stack_base (task_pool s t)) + unat (t_stack_size (task_pool s t))}"

definition frame_bytes :: "nat \<Rightarrow> nat set" where
  "frame_bytes f = {f * 4096 ..< f * 4096 + 4096}"

definition one_page :: "sched \<Rightarrow> nat \<Rightarrow> bool" where
  "one_page s t \<longleftrightarrow> t_stack_size (task_pool s t) \<le> 4096"

lemma frames_disjoint: "f \<noteq> g \<Longrightarrow> frame_bytes f \<inter> frame_bytes g = {}"
  by (auto simp: frame_bytes_def)

lemma stack_in_frame:
  assumes "task_ok s t"
  shows "stack_range s t \<subseteq> frame_bytes (stack_page s t) \<longleftrightarrow> one_page s t"
proof -
  let ?b = "unat (t_stack_base (task_pool s t))" and ?n = "unat (t_stack_size (task_pool s t))"
  have b: "stack_page s t * 4096 = ?b" using assms by (auto simp: task_ok_def stack_page_def)
  have "{?b ..< ?b + ?n} \<subseteq> {?b ..< ?b + 4096} \<longleftrightarrow> ?n \<le> 4096" by (auto simp: subset_eq not_less dest: spec [of _ "?b + 4096"])
  then show ?thesis unfolding stack_range_def frame_bytes_def b one_page_def by (simp add: word_le_nat_alt)
qed

text \<open>
  C2. In every state that calls of \<open>task.h\<close> can reach from power-on, the ready lists hold
  exactly the ready tasks, each in the list of its priority and counted by \<open>nr_running\<close>; only
  the current task is running; live tasks have their stack bases in different frames, none of them
  free; a task's stack lies inside that frame exactly when it is one page large, so one-page stacks
  are disjoint, while a larger one, the default of 16 KiB included, goes on into memory that was not
  allocated for it; and every permitted call runs to its end without leaving an array.
\<close>

theorem sched_reachable_safe:
  assumes on: "power_on s0" and run: "sched_reachable s0 s"
  shows "queued s = ready_pairs s \<and> unat (nr_running (cpu_runqueues s 0)) = card (ready_pairs s)
     \<and> (\<forall>t < MAX_TASKS. t_state (task_pool s t) = TASK_RUNNING \<longrightarrow> rq_current (cpu_runqueues s 0) = Some t)
     \<and> inj_on (stack_page s) (live s) \<and> stack_page s ` live s \<subseteq> pmm_used (sched_frames s)
     \<and> (\<forall>t \<in> live s. stack_range s t \<subseteq> frame_bytes (stack_page s t) \<longleftrightarrow> one_page s t)
     \<and> (\<forall>t \<in> live s. \<forall>u \<in> live s. t \<noteq> u \<and> one_page s t \<and> one_page s u \<longrightarrow> stack_range s t \<inter> stack_range s u = {})
     \<and> (\<forall>c. permitted c s \<longrightarrow> sched_exec c s \<noteq> None)"
proof -
  have inv: "sched_inv s" by (rule sched_reachable_inv [OF run on])
  then have inj: "unat (nr_running (cpu_runqueues s 0)) = card (ready_pairs s)" "inj_on (stack_page s) (live s)"
    using sched_invD(2) [OF inv] by (auto simp: sched_inv_def sched_wf_def static_inv_def)
  moreover have "stack_page s ` live s \<subseteq> pmm_used (sched_frames s)"
    using sched_invD(8) [OF inv] by (auto simp: task_ok_def)
  moreover have fit: "\<forall>t \<in> live s. stack_range s t \<subseteq> frame_bytes (stack_page s t) \<longleftrightarrow> one_page s t"
    using stack_in_frame sched_invD(8) [OF inv] by blast
  moreover have "\<forall>t \<in> live s. \<forall>u \<in> live s. t \<noteq> u \<and> one_page s t \<and> one_page s u \<longrightarrow> stack_range s t \<inter> stack_range s u = {}"
    using fit frames_disjoint inj_onD [OF inj(2)] by blast
  moreover have "sched_exec c s \<noteq> None" if "permitted c s" for c using exec_inv [OF inv that] by auto
  ultimately show ?thesis using sched_invD(2) [OF inv] running_okD(2) [OF inv] by blast
qed

lemma two_tasks:
  obtains s where "sched_reachable powered_sched s" and "live s = {0, 1}"
proof -
  let ?s = "scheduler_init powered_sched" and ?c = "CallCreate 0x1000 None SCHED_RR 100 1 4096"
  note init = init_inv [OF powered_sched_on]
  have frames: "sched_frames ?s = the pmm_init" by (simp add: scheduler_init_eq powered_sched_def upd_rq_def)
  have "pmm_used (sched_frames ?s) \<noteq> {..<TOTAL_PAGES}" unfolding frames pmm_init_state by simp
  then obtain s1 where s1: "task_create_ex 0x1000 None SCHED_RR 100 1 4096 ?s = Some (0, s1)" "sched_inv s1" "live s1 = {0}"
      "pmm_used (sched_frames s1) = insert (stack_page s1 0) (pmm_used (sched_frames ?s))"
    using create_correct [OF init(1), of 100 0 "0x1000" None SCHED_RR 1 4096] init(2) by auto
  have "insert p {..<512} \<noteq> {..<TOTAL_PAGES}" for p :: nat
  proof
    assume "insert p {..<512} = {..<TOTAL_PAGES}"
    then have "600 \<in> insert p {..<512}" "601 \<in> insert p {..<512}" by simp_all
    then show False by simp
  qed
  then have room: "pmm_used (sched_frames s1) \<noteq> {..<TOTAL_PAGES}" unfolding s1(4) frames pmm_init_state by blast
  have "1 \<notin> live s1" "{..<1} \<subseteq> live s1" unfolding s1(3) by auto
  from create_correct [OF s1(2) _ _ _ this room, of 100 "0x1000" None SCHED_RR 1 4096]
  obtain s2 where s2: "task_create_ex 0x1000 None SCHED_RR 100 1 4096 s1 = Some (1, s2)" "live s2 = {0, 1}"
    unfolding s1(3) by auto
  have "sched_reachable powered_sched s1"
    by (rule sched_reachable.call [where c = ?c, OF sched_reachable.boot]) (use s1(1) in simp_all)
  then have "sched_reachable powered_sched s2"
    by (rule sched_reachable.call [where c = ?c]) (use s2(1) in simp_all)
  then show ?thesis using s2(2) that by blast
qed

theorem sched_reachable_safe_witness:
  "\<exists>s. live s = {0, 1} \<and> stack_page s 0 \<noteq> stack_page s 1 \<and> {stack_page s 0, stack_page s 1} \<subseteq> pmm_used (sched_frames s)
     \<and> queued s = ready_pairs s \<and> sched_exec (CallCreate 0x1000 None SCHED_RR 100 1 8192) s \<noteq> None"
proof -
  obtain s where s: "sched_reachable powered_sched s" "live s = {0, 1}" by (rule two_tasks)
  have "permitted (CallCreate 0x1000 None SCHED_RR 100 1 8192) s" by simp
  with sched_reachable_safe [OF powered_sched_on s(1)] have "queued s = ready_pairs s"
    "sched_exec (CallCreate 0x1000 None SCHED_RR 100 1 8192) s \<noteq> None"
    "inj_on (stack_page s) (live s)" "stack_page s ` live s \<subseteq> pmm_used (sched_frames s)" by blast+
  moreover from this(3) have "stack_page s 0 \<noteq> stack_page s 1" unfolding s(2) inj_on_def by force
  ultimately show ?thesis using s(2) by (intro exI [of _ s]) (simp del: sched_exec.simps)
qed

text \<open>
  C8. \<open>scheduler_schedule\<close>, enabled, makes a task of the numerically least (that is, highest)
  priority among the runnable ones the current one, marks it running and every task that was
  running before ready; the states of all other tasks stay. With nothing runnable it changes nothing.
\<close>

theorem scheduler_schedule_highest:
  assumes inv: "sched_inv s" and on: "scheduler_enabled s" "preemption_enabled s"
  shows "\<exists>s'. scheduler_schedule s = Some s' \<and> sched_inv s' \<and> live s' = live s
     \<and> (if \<exists>t. runnable s t
        then \<exists>n. runnable s n \<and> rq_current (cpu_runqueues s' 0) = Some n
          \<and> t_state (task_pool s' n) = TASK_RUNNING
          \<and> (\<forall>t. runnable s t \<longrightarrow> t_priority (task_pool s n) \<le> t_priority (task_pool s t))
          \<and> (\<forall>t < MAX_TASKS. t \<noteq> n \<longrightarrow> t_state (task_pool s' t) = preempted_state (t_state (task_pool s t)))
        else s' = s)"
  by (rule schedule_correct [OF assms])

theorem scheduler_schedule_highest_witness:
  "\<exists>s'. scheduler_schedule one_task = Some s' \<and> rq_current (cpu_runqueues s' 0) = Some 0
     \<and> t_state (task_pool s' 0) = TASK_RUNNING"
  using scheduler_schedule_highest [OF one_task(1,5,6)] unfolding one_task_runnable by (simp only: ex_simps simp_thms if_True) blast

text \<open>
  C29. \<open>task_create_ex\<close> at a legal priority takes the lowest free slot and a frame nobody uses,
  makes the task ready at that priority and touches no other task; with the table or
  the memory full it returns -1 and leaves the live tasks and the frames as they were.
\<close>

theorem task_create_ex_spec:
  assumes inv: "sched_inv s" and prio: "0 \<le> prio" "prio \<le> MAX_NORMAL_PRIORITY"
  shows "(live s = {..<MAX_TASKS} \<or> pmm_used (sched_frames s) = {..<TOTAL_PAGES} \<longrightarrow>
      (\<exists>s'. task_create_ex ep nm pol prio aff stack s = Some (- 1, s') \<and> sched_inv s' \<and> live s' = live s
         \<and> sched_frames s' = sched_frames s))
   \<and> (\<forall>n < MAX_TASKS. n \<notin> live s \<and> {..<n} \<subseteq> live s \<and> pmm_used (sched_frames s) \<noteq> {..<TOTAL_PAGES} \<longrightarrow>
      (\<exists>s'. task_create_ex ep nm pol prio aff stack s = Some (int n, s') \<and> sched_inv s'
         \<and> live s' = insert n (live s) \<and> t_state (task_pool s' n) = TASK_READY \<and> t_priority (task_pool s' n) = prio
         \<and> stack_page s' n \<notin> pmm_used (sched_frames s)
         \<and> pmm_used (sched_frames s') = insert (stack_page s' n) (pmm_used (sched_frames s))
         \<and> (\<forall>t. t \<noteq> n \<longrightarrow> core (task_pool s' t) = core (task_pool s t))))"
  using create_fails [OF inv] create_correct [OF inv prio] by blast

theorem task_create_ex_spec_witness:
  "\<exists>s'. task_create_ex 0x2000 None SCHED_FIFO 50 1 100 (scheduler_init powered_sched) = Some (0, s') \<and> live s' = {0}
     \<and> t_priority (task_pool s' 0) = 50"
proof -
  have "sched_frames (scheduler_init powered_sched) = the pmm_init"
    by (simp add: scheduler_init_eq powered_sched_def upd_rq_def)
  then have pre: "0 \<notin> live (scheduler_init powered_sched) \<and> {..<0} \<subseteq> live (scheduler_init powered_sched)
      \<and> pmm_used (sched_frames (scheduler_init powered_sched)) \<noteq> {..<TOTAL_PAGES}"
    by (simp add: pmm_init_state init_inv(2) [OF powered_sched_on])
  have le: "(0 :: int) \<le> 50" "(50 :: int) \<le> MAX_NORMAL_PRIORITY" "(0 :: nat) < MAX_TASKS" by simp_all
  note spec = task_create_ex_spec [OF init_inv(1) [OF powered_sched_on] le(1,2), THEN conjunct2, THEN spec, THEN mp, OF le(3), THEN mp, OF pre,
      of "0x2000" None SCHED_FIFO 1 100]
  then show ?thesis using init_inv(2) [OF powered_sched_on] by auto
qed

text \<open>
  \<open>task_exit\<close> of the running task frees its slot and exactly the frame of its stack, and
  hands the processor on.
\<close>

lemma task_exit_spec:
  assumes inv: "sched_inv s" and cur: "rq_current (cpu_runqueues s 0) = Some t" "t_state (task_pool s t) = TASK_RUNNING"
  shows "\<exists>s'. task_exit code s = Some s' \<and> sched_inv s' \<and> live s' = live s - {t}
     \<and> pmm_used (sched_frames s') = pmm_used (sched_frames s) - {stack_page s t}"
  by (rule exit_correct [OF assms])

text \<open>
  C30. Every tick that does not end in the early return for a FIFO task wakes exactly the sleepers
  whose time has come: each of them is ready afterwards, the other sleepers still sleep.
\<close>

theorem scheduler_tick_wakes_due:
  assumes "sched_inv s" and "scheduler_enabled s" and "rq_current (cpu_runqueues s 0) = Some t"
    and "\<not> (slice_over (task_pool s t) \<and> t_policy (task_pool s t) = SCHED_FIFO)"
  shows "\<exists>s'. scheduler_tick s = Some s' \<and> sched_inv s' \<and> live s' = live s
     \<and> (\<forall>u. t_state (task_pool s u) = TASK_SLEEPING \<and> u \<in> live s \<longrightarrow>
          t_state (task_pool s' u) = (if due s u then TASK_READY else TASK_SLEEPING))"
  by (rule tick_correct [OF assms])

theorem scheduler_tick_wakes_due_witness:
  "\<exists>s'. scheduler_tick ((upd_task (\<lambda>k. k\<lparr>t_state := TASK_SLEEPING, t_sleep_until := 0, t_policy := SCHED_RR\<rparr>) 0
       running_task)\<lparr>scheduler_enabled := True\<rparr>) = Some s' \<and> t_state (task_pool s' 0) = TASK_READY"
proof -
  let ?f = "\<lambda>k. k\<lparr>t_state := TASK_SLEEPING, t_sleep_until := 0, t_policy := SCHED_RR\<rparr>"
  let ?s = "(upd_task ?f 0 running_task)\<lparr>scheduler_enabled := True\<rparr>"
  have asleep: "sched_inv (upd_task ?f 0 running_task)"
    by (rule stop_task [OF running_task(1)]) (auto simp: running_task(4) intro!: keeps_staticI)
  have "sched_inv ?s" by (rule iffD2 [OF sched_inv_frame asleep]) simp_all
  moreover have "due ?s 0" "0 \<in> live ?s" using running_task(2) by (simp_all add: due_def live_def)
  ultimately show ?thesis using scheduler_tick_wakes_due [of ?s 0] running_task(3) by auto
qed

text \<open>
  A task that yields goes on running as long as no ready task has a strictly higher
  priority: it is put back at the head of its list, where the next pick finds it, so tasks of one
  priority do not take turns.
\<close>

lemma task_yield_no_rotation:
  assumes inv: "sched_inv s" and on: "scheduler_enabled s" "preemption_enabled s"
    and cur: "rq_current (cpu_runqueues s 0) = Some p" "t_state (task_pool s p) = TASK_RUNNING"
    and top: "\<And>t. t \<in> live s \<Longrightarrow> t_state (task_pool s t) = TASK_READY \<Longrightarrow> t_priority (task_pool s p) \<le> t_priority (task_pool s t)"
  shows "\<exists>s'. task_yield s = Some s' \<and> sched_inv s' \<and> rq_current (cpu_runqueues s' 0) = Some p
     \<and> t_state (task_pool s' p) = TASK_RUNNING"
proof -
  have pl: "p \<in> live s" using running_okD(1) [OF inv sched_invD(7) [OF inv cur(1)] cur(2)] .
  have ok: "task_ok s p" using sched_invD(8) [OF inv pl] .
  define q where "q = nat (t_priority (task_pool s p))"
  have q: "t_priority (task_pool s p) = int q" "q < NUM_PRIORITIES" using ok by (auto simp: q_def task_ok_def)
  obtain s1 where s1: "preempt_current s = Some s1" "sched_inv s1" "live s1 = live s"
    and st1: "\<And>t. t < MAX_TASKS \<Longrightarrow> t_state (task_pool s1 t) =
        (if t_state (task_pool s t) = TASK_RUNNING then TASK_READY else t_state (task_pool s t))"
    and pr: "\<And>t. t_priority (task_pool s1 t) = t_priority (task_pool s t)"
    using preempt_current_correct [OF inv] by blast
  have st: "t_state (task_pool s1 t) \<noteq> TASK_RUNNING" if "t < MAX_TASKS" for t by (simp add: st1 [OF that])
  have p1: "t_state (task_pool s1 p) = TASK_READY" using st1 [OF live_less [OF pl]] cur(2) by simp
  have s1_eq: "s1 = link_task p 0 q (upd_task (t_state_update (\<lambda>_. TASK_READY)) p s)"
    using s1(1) cur q by (simp add: preempt_current_def enqueue_task_def)
  have heads: "ready_lists (cpu_runqueues s1 0) = (ready_lists (cpu_runqueues s 0))(q := Some p)"
    unfolding s1_eq by (auto simp: link_task_def upd_task_def upd_rq_def Let_def split: option.splits)
  have "ready_lists (cpu_runqueues s 0) j = None" if j: "j < q" for j
  proof (rule ccontr)
    assume "ready_lists (cpu_runqueues s 0) j \<noteq> None"
    then obtain t where "ready_lists (cpu_runqueues s 0) j = Some t" by auto
    moreover have jn: "j < NUM_PRIORITIES" using j q(2) by simp
    ultimately have "t \<in> set (ready_list s j)"
      using rl.well_linkedD(4) [OF sched_invD(3) [OF inv] jn, of t] by (simp add: ready_heads_def) (metis list.set_intros(1))
    then have "(t, j) \<in> ready_pairs s" using jn sched_invD(2) [OF inv] by (auto simp: queued_def)
    then show False using top [of t] j q(1) by (auto simp: ready_pairs_def)
  qed
  then have "first_from (\<lambda>i. ready_lists (cpu_runqueues s1 0) i \<noteq> None) 0 NUM_PRIORITIES = Some q"
    using q(2) by (auto simp: first_from_Some_iff heads)
  then have pick: "pick_next_task 0 s1 = Some p" by (simp add: pick_next_task_def heads)
  have "(p, q) \<in> ready_pairs s1" using p1 pl s1(3) q(1) pr by (simp add: ready_pairs_def)
  from switch_to_correct [OF s1(2) this st, of "Some p"]
  obtain s' where "switch_to (Some p) p s1 = Some s'" "sched_inv s'" "rq_current (cpu_runqueues s' 0) = Some p"
    "t_state (task_pool s' p) = TASK_RUNNING" by auto
  then show ?thesis
    using schedule_unfold [OF on sched_invD(5) [OF inv]] s1(1) pick cur(1) by (simp add: task_yield_def)
qed

end
