(* ===== verification/IpcProps.thy ===== *)
theory IpcProps
  imports Ipc SchedulerRun
begin

unbundle bit_operations_syntax

text \<open>
  Properties of \<open>kernel/ipc.c\<close>: message queues are first-in first-out lists of messages (through
  the locale of theory \<open>Ring\<close>), semaphores count, mutexes exclude, and the limits of each.
\<close>

subsection \<open>Messages in memory\<close>

lemma take4_drop: "i + 4 \<le> length xs \<Longrightarrow> take 4 (drop i xs) = [xs ! i, xs ! (i + 1), xs ! (i + 2), xs ! (i + 3)]"
proof -
  assume i: "i + 4 \<le> length xs"
  have "take 4 (drop i xs) = map (\<lambda>k. xs ! (i + k)) [0..<4]" using i by (intro nth_equalityI) auto
  also have "[0..<4] = [0, 1, 2, 3 :: nat]" by (simp add: numeral_eq_Suc)
  finally show ?thesis by simp
qed

definition message_bytes :: "ipc_message \<Rightarrow> u8 list" where
  "message_bytes msg = bytes32 (msg_type msg) @ bytes32 (msg_size msg) @ bytes64 (msg_timestamp msg) @ msg_data msg"

lemma length_message_bytes [simp]: "length (message_bytes msg) = 16 + length (msg_data msg)"
  by (simp add: message_bytes_def)

lemma write_message_bytes: "write_message a msg m = write_bytes m a (message_bytes msg)"
  by (simp add: write_message_def message_bytes_def write_u32_def write_u64_def write_bytes_append Let_def add.assoc)

definition message_fits :: "ipc_message \<Rightarrow> bool" where
  "message_fits msg \<longleftrightarrow> length (msg_data msg) = unat (msg_size msg) \<and> unat (msg_size msg) \<le> MAX_MSG_SIZE"

lemma read_message_same:
  assumes "message_fits msg"
  shows "read_message (write_message a msg m) a = msg"
proof -
  let ?m' = "write_message a msg m" and ?N = "16 + length (msg_data msg)"
  have all: "mem_bytes ?m' a ?N = message_bytes msg"
    using mem_bytes_write_same [of "message_bytes msg" m a] assms by (simp add: write_message_bytes message_fits_def)
  have part: "mem_bytes ?m' (a + of_nat i) n = take n (drop i (message_bytes msg))" if "i + n \<le> ?N" for i n
    using mem_bytes_sub [OF that] all by simp
  have "read_u32 ?m' a = msg_type msg" "read_u32 ?m' (a + 4) = msg_size msg" "read_u64 ?m' (a + 8) = msg_timestamp msg"
    using part [of 0 4] part [of 4 4] part [of 8 8]
    by (auto simp: message_bytes_def intro!: read_u32_written read_u64_written)
  moreover have "mem_bytes ?m' (a + 16) (unat (msg_size msg)) = msg_data msg"
    using part [of 16 "length (msg_data msg)"] assms by (simp add: message_bytes_def message_fits_def)
  ultimately show ?thesis by (simp add: read_message_def)
qed

lemma read_message_apart:
  assumes fits: "message_fits msg" and len: "unat (read_u32 m (a' + 4)) \<le> MAX_MSG_SIZE"
    and apart: "apart a MSG_BYTES a' MSG_BYTES"
  shows "read_message (write_message a msg m) a' = read_message m a'"
proof -
  let ?m' = "write_message a msg m"
  have "apart a (length (message_bytes msg)) a' MSG_BYTES"
    using apart fits unfolding apart_def in_range_def message_fits_def by force
  then have all: "mem_bytes ?m' a' MSG_BYTES = mem_bytes m a' MSG_BYTES"
    using fits unfolding write_message_bytes by (intro mem_bytes_write_apart) (auto simp: message_fits_def)
  have part: "mem_bytes ?m' (a' + of_nat i) n = mem_bytes m (a' + of_nat i) n" if "i + n \<le> MSG_BYTES" for i n
    using mem_bytes_sub [OF that] all by simp
  have sz: "read_u32 ?m' (a' + 4) = read_u32 m (a' + 4)" by (rule read_u32_cong) (use part [of 4 4] in simp)
  have "read_u32 ?m' a' = read_u32 m a'" by (rule read_u32_cong) (use part [of 0 4] in simp)
  moreover have "read_u64 ?m' (a' + 8) = read_u64 m (a' + 8)" by (rule read_u64_cong) (use part [of 8 8] in simp)
  moreover have "mem_bytes ?m' (a' + 16) (unat (read_u32 m (a' + 4))) = mem_bytes m (a' + 16) (unat (read_u32 m (a' + 4)))"
    using part [of 16 "unat (read_u32 m (a' + 4))"] len by simp
  ultimately show ?thesis using sz by (simp add: read_message_def)
qed

lemma slots_apart: "i < 32 \<Longrightarrow> j < 32 \<Longrightarrow> i \<noteq> j \<Longrightarrow> apart (mq_slot b (int i)) MSG_BYTES (mq_slot b (int j)) MSG_BYTES"
  unfolding mq_slot_def by (intro apart_offsets) auto

subsection \<open>A queue as a ring\<close>

definition mq_cell :: "nat \<Rightarrow> ipc \<Rightarrow> nat \<Rightarrow> ipc_message" where
  "mq_cell q s i = read_message (ipc_mem s) (mq_slot (mq_messages (msgqueues s q)) (int i))"

definition mq_first :: "nat \<Rightarrow> ipc \<Rightarrow> nat" where
  "mq_first q s = nat (mq_head (msgqueues s q))"

definition mq_count :: "nat \<Rightarrow> ipc \<Rightarrow> nat" where
  "mq_count q s = nat (mq_cur_msgs (msgqueues s q))"

definition mq_room :: "nat \<Rightarrow> ipc \<Rightarrow> nat" where
  "mq_room q s = nat (mq_max_msgs (msgqueues s q))"

definition mq_ok :: "nat \<Rightarrow> ipc \<Rightarrow> bool" where
  "mq_ok q s \<longleftrightarrow> (let mq = msgqueues s q in
     0 < mq_max_msgs mq \<and> mq_max_msgs mq \<le> 32 \<and> 0 \<le> mq_head mq \<and> mq_head mq < mq_max_msgs mq
     \<and> 0 \<le> mq_cur_msgs mq \<and> mq_cur_msgs mq \<le> mq_max_msgs mq
     \<and> mq_tail mq = (mq_head mq + mq_cur_msgs mq) mod mq_max_msgs mq
     \<and> (\<forall>k < mq_count q s. message_fits (mq_cell q s ((mq_first q s + k) mod mq_room q s))))"

lemma mq_okD:
  assumes "mq_ok q s"
  shows "mq_max_msgs (msgqueues s q) = int (mq_room q s)" "mq_head (msgqueues s q) = int (mq_first q s)"
    "mq_cur_msgs (msgqueues s q) = int (mq_count q s)" "mq_first q s < mq_room q s" "mq_count q s \<le> mq_room q s"
    "mq_room q s \<le> 32" "mq_tail (msgqueues s q) = int ((mq_first q s + mq_count q s) mod mq_room q s)"
    "k < mq_count q s \<Longrightarrow> message_fits (mq_cell q s ((mq_first q s + k) mod mq_room q s))"
  using assms by (auto simp: mq_ok_def Let_def mq_room_def mq_first_def mq_count_def zmod_int)

lemma mq_put_simps:
  "mq_messages (msgqueues (mq_put q msg s) q) = mq_messages (msgqueues s q)"
  "mq_first q (mq_put q msg s) = mq_first q s" "mq_room q (mq_put q msg s) = mq_room q s"
  "ipc_mem (mq_put q msg s) = write_message (mq_slot (mq_messages (msgqueues s q)) (mq_tail (msgqueues s q))) msg (ipc_mem s)"
  by (simp_all add: mq_put_def upd_mq_def Let_def mq_first_def mq_room_def)

lemma mq_put_cells:
  assumes ok: "mq_ok q s" and free: "mq_count q s < mq_room q s" and fits: "message_fits msg"
  shows "mq_cell q (mq_put q msg s) ((mq_first q s + mq_count q s) mod mq_room q s) = msg"
    and "k < mq_count q s \<Longrightarrow> mq_cell q (mq_put q msg s) ((mq_first q s + k) mod mq_room q s)
       = mq_cell q s ((mq_first q s + k) mod mq_room q s)"
proof -
  note d = mq_okD [OF ok]
  show "mq_cell q (mq_put q msg s) ((mq_first q s + mq_count q s) mod mq_room q s) = msg"
    using d(7) by (simp add: mq_cell_def mq_put_simps read_message_same [OF fits])
  assume k: "k < mq_count q s"
  let ?i = "(mq_first q s + mq_count q s) mod mq_room q s" and ?j = "(mq_first q s + k) mod mq_room q s"
  have "?i \<noteq> ?j" using wrap_inj [OF d(4), of "mq_count q s" k] k free by simp
  moreover have "?i < 32" "?j < 32" using d(4,6) by (auto intro: less_le_trans [OF mod_less_divisor])
  ultimately have "apart (mq_slot (mq_messages (msgqueues s q)) (int ?i)) MSG_BYTES
      (mq_slot (mq_messages (msgqueues s q)) (int ?j)) MSG_BYTES" by (intro slots_apart)
  moreover have "unat (read_u32 (ipc_mem s) (mq_slot (mq_messages (msgqueues s q)) (int ?j) + 4)) \<le> MAX_MSG_SIZE"
    using d(8) [OF k] by (simp add: message_fits_def mq_cell_def read_message_def)
  ultimately show "mq_cell q (mq_put q msg s) ?j = mq_cell q s ?j"
    using fits d(7) by (simp add: mq_cell_def mq_put_simps read_message_apart)
qed

lemma mq_put_ok:
  assumes ok: "mq_ok q s" and free: "mq_count q s < mq_room q s" and fits: "message_fits msg"
  shows "mq_ok q (mq_put q msg s)" and "mq_count q (mq_put q msg s) = Suc (mq_count q s)"
proof -
  note d = mq_okD [OF ok]
  let ?mq = "msgqueues (mq_put q msg s) q"
  have new: "mq_cur_msgs ?mq = int (mq_count q s) + 1" "mq_max_msgs ?mq = int (mq_room q s)" "mq_head ?mq = int (mq_first q s)"
    "mq_tail ?mq = int (((mq_first q s + mq_count q s) mod mq_room q s + 1) mod mq_room q s)"
    using d by (simp_all add: mq_put_def upd_mq_def Let_def zmod_int add.commute)
  show cnt: "mq_count q (mq_put q msg s) = Suc (mq_count q s)"
    unfolding mq_count_def [of q "mq_put q msg s"] new(1) by simp
  have "message_fits (mq_cell q (mq_put q msg s) ((mq_first q s + k) mod mq_room q s))" if "k < Suc (mq_count q s)" for k
    using mq_put_cells [OF assms] d(8) fits that by (cases "k = mq_count q s") auto
  then show "mq_ok q (mq_put q msg s)"
    unfolding mq_ok_def Let_def cnt mq_put_simps using new d(4,5,6) free
    by (simp add: zmod_int mod_Suc_eq mod_add_left_eq ac_simps)
qed

lemma mq_take_simps:
  "mq_cell q (mq_take q s) = mq_cell q s" "mq_room q (mq_take q s) = mq_room q s"
  by (auto simp: mq_take_def upd_mq_def mq_cell_def mq_room_def)

lemma mq_take_ok:
  assumes ok: "mq_ok q s" and pos: "0 < mq_count q s"
  shows "mq_ok q (mq_take q s)" and "mq_first q (mq_take q s) = Suc (mq_first q s) mod mq_room q s"
    and "mq_count q (mq_take q s) = mq_count q s - 1"
proof -
  note d = mq_okD [OF ok]
  let ?mq = "msgqueues (mq_take q s) q"
  have new: "mq_cur_msgs ?mq = int (mq_count q s) - 1" "mq_max_msgs ?mq = int (mq_room q s)"
    "mq_head ?mq = int (Suc (mq_first q s) mod mq_room q s)"
    "mq_tail ?mq = int ((mq_first q s + mq_count q s) mod mq_room q s)"
    using d by (simp_all add: mq_take_def upd_mq_def zmod_int add.commute)
  show first: "mq_first q (mq_take q s) = Suc (mq_first q s) mod mq_room q s"
    unfolding mq_first_def [of q "mq_take q s"] new(3) by simp
  show cnt: "mq_count q (mq_take q s) = mq_count q s - 1"
    unfolding mq_count_def [of q "mq_take q s"] new(1) by simp
  have "message_fits (mq_cell q s ((Suc (mq_first q s) mod mq_room q s + k) mod mq_room q s))" if "k < mq_count q s - 1" for k
    using d(8) [of "Suc k"] that by (simp add: wrap_Suc)
  moreover have "int ((mq_first q s + mq_count q s) mod mq_room q s) =
      (int (Suc (mq_first q s) mod mq_room q s) + (int (mq_count q s) - 1)) mod int (mq_room q s)"
  proof -
    obtain n where n: "mq_count q s = Suc n" using pos by (cases "mq_count q s") auto
    have "int ((Suc (mq_first q s) mod mq_room q s + n) mod mq_room q s) =
        (int (Suc (mq_first q s) mod mq_room q s) + int n) mod int (mq_room q s)" by (simp add: zmod_int)
    then show ?thesis unfolding wrap_Suc n by simp
  qed
  ultimately show "mq_ok q (mq_take q s)"
    unfolding mq_ok_def Let_def cnt first mq_take_simps new using d(4,5,6) pos by (simp del: of_nat_mod of_nat_Suc)
qed

interpretation mqr: ring_buffer "mq_cell q" "mq_first q" "mq_count q" "mq_room q" "mq_ok q"
    "\<lambda>s. message_fits" "mq_put q" "mq_take q" for q :: nat
proof unfold_locales
  fix s x k
  show "mq_ok q s \<Longrightarrow> mq_first q s < mq_room q s \<and> mq_count q s \<le> mq_room q s" using mq_okD(4,5) by blast
  show "mq_ok q s \<Longrightarrow> k < mq_count q s \<Longrightarrow> mq_cell q (mq_take q s) ((mq_first q s + k) mod mq_room q s) =
      mq_cell q s ((mq_first q s + k) mod mq_room q s)" by (simp add: mq_take_simps)
qed (simp_all add: mq_put_ok mq_put_cells mq_take_ok mq_put_simps mq_take_simps)

definition mq_contents :: "nat \<Rightarrow> ipc \<Rightarrow> ipc_message list" where
  "mq_contents q s = map (\<lambda>k. mq_cell q s ((mq_first q s + k) mod mq_room q s)) [0..<mq_count q s]"

lemma mqr_contents [simp]: "mqr.contents q s = mq_contents q s"
  by (simp add: mqr.contents_def mq_contents_def)

definition mq_open_slot :: "nat \<Rightarrow> ipc \<Rightarrow> bool" where
  "mq_open_slot q s \<longleftrightarrow> q < MAX_MSG_QUEUES \<and> bm_test (msgqueue_bitmap s) q \<and> mq_ok q s
     \<and> 0 < mq_max_msg_size (msgqueues s q) \<and> mq_max_msg_size (msgqueues s q) \<le> int MAX_MSG_SIZE"

definition sent_message :: "u8 list \<Rightarrow> u32 \<Rightarrow> u32 \<Rightarrow> ipc \<Rightarrow> ipc_message" where
  "sent_message bs sz ty s = \<lparr>msg_type = ty, msg_size = sz, msg_timestamp = ucast (timer_get_ticks (ipc_sched s)),
     msg_data = take (unat sz) bs\<rparr>"

lemma mq_send_puts:
  assumes q: "mq_open_slot q s" and free: "mq_count q s < mq_room q s"
    and sz: "unat sz \<le> nat (mq_max_msg_size (msgqueues s q))" "unat sz \<le> length bs"
  shows "mq_send (int q) (Some bs) sz ty s = Some (0, mq_put q (sent_message bs sz ty s) s)"
    and "message_fits (sent_message bs sz ty s)"
proof -
  have ok: "mq_ok q s" using q by (simp add: mq_open_slot_def)
  show "message_fits (sent_message bs sz ty s)" using q sz by (auto simp: message_fits_def mq_open_slot_def sent_message_def)
  have "\<not> sz > of_int (mq_max_msg_size (msgqueues s q))"
  proof -
    have "unat (of_int (mq_max_msg_size (msgqueues s q)) :: u32) = nat (mq_max_msg_size (msgqueues s q))"
      using q by (simp add: mq_open_slot_def unat_eq_nat_uint uint_word_of_int)
    then show ?thesis using sz(1) by (simp add: word_less_nat_alt)
  qed
  moreover have "\<not> mq_cur_msgs (msgqueues s q) \<ge> mq_max_msgs (msgqueues s q)" using mq_okD(1,3) [OF ok] free by simp
  ultimately show "mq_send (int q) (Some bs) sz ty s = Some (0, mq_put q (sent_message bs sz ty s) s)"
    using q sz(2) by (simp add: mq_send_def mq_open_slot_def Let_def sent_message_def)
qed

lemma mq_send_room:
  assumes q: "mq_open_slot q s" and free: "mq_count q s < mq_room q s"
    and sz: "unat sz \<le> nat (mq_max_msg_size (msgqueues s q))" "unat sz \<le> length bs"
  shows "\<exists>s'. mq_send (int q) (Some bs) sz ty s = Some (0, s') \<and> mq_open_slot q s'
     \<and> mq_contents q s' = mq_contents q s @ [sent_message bs sz ty s]"
proof -
  have ok: "mq_ok q s" using q by (simp add: mq_open_slot_def)
  note send = mq_send_puts [OF assms]
  have "mq_open_slot q (mq_put q (sent_message bs sz ty s) s)"
    using q mq_put_ok(1) [OF ok free send(2)] by (simp add: mq_open_slot_def mq_put_def upd_mq_def Let_def)
  then show ?thesis using send(1) mqr.contents_put [OF ok free send(2)] by simp
qed

lemma mq_receive_some:
  assumes q: "mq_open_slot q s" and pos: "0 < mq_count q s"
  shows "\<exists>s' msg rest. mq_contents q s = msg # rest \<and> mq_open_slot q s' \<and> mq_contents q s' = rest
     \<and> mq_receive (int q) False s = Some (0, Some (msg_data msg, msg_size msg, msg_type msg), s')"
proof -
  have ok: "mq_ok q s" using q by (simp add: mq_open_slot_def)
  have "mq_cur_msgs (msgqueues s q) \<noteq> 0" using mq_okD(3) [OF ok] pos by simp
  then have "mq_receive (int q) False s = (let msg = mq_cell q s (mq_first q s) in
      Some (0, Some (msg_data msg, msg_size msg, msg_type msg), mq_take q s))"
    using q mq_okD(2) [OF ok] by (simp add: mq_receive_def mq_open_slot_def Let_def mq_cell_def)
  moreover have "mq_open_slot q (mq_take q s)"
    using q mq_take_ok(1) [OF ok pos] by (simp add: mq_open_slot_def mq_take_def upd_mq_def)
  ultimately show ?thesis using mqr.contents_take [OF ok pos] by (simp add: Let_def)
qed

subsection \<open>Names\<close>

lemma cstr_Cons: "cstr (c # cs) = (if c = 0 then [] else c # cstr cs)"
  by (simp add: cstr_def)

lemma name_matches_drop: "name_matches name stored j \<longleftrightarrow> cstr (drop j name) = cstr (drop j stored)"
proof (induction name stored j rule: name_matches.induct)
  case (1 name stored j)
  have head: "cstr (drop j l) = (if cchar l j = 0 then [] else cchar l j # cstr (drop (Suc j) l))" for l
    by (cases "j < length l") (simp_all add: Cons_nth_drop_Suc [symmetric] cstr_Cons cchar_def, simp add: cstr_def)
  show ?case
    using 1 unfolding name_matches.simps [of name stored j] head [of name] head [of stored] by auto
qed

lemma name_matches_cstr: "name_matches name stored 0 \<longleftrightarrow> cstr name = cstr stored"
  by (simp add: name_matches_drop)

lemma cchar_0_cstr: "cchar stored 0 \<noteq> 0 \<longleftrightarrow> cstr stored \<noteq> []"
  by (cases stored) (simp_all add: cchar_def cstr_def)

definition mq_named :: "u8 list \<Rightarrow> ipc \<Rightarrow> nat \<Rightarrow> bool" where
  "mq_named nm s i \<longleftrightarrow> bm_test (msgqueue_bitmap s) i \<and> cstr (mq_name (msgqueues s i)) \<noteq> [] \<and> cstr (mq_name (msgqueues s i)) = nm"

lemma find_msgqueue_named: "find_msgqueue name s = first_from (mq_named (cstr name) s) 0 MAX_MSG_QUEUES"
  unfolding find_msgqueue_def by (rule first_from_cong) (auto simp: mq_named_def name_matches_cstr cchar_0_cstr)

interpretation mq_slots:
  slot_bitmap "bm_test :: u32 list \<Rightarrow> nat \<Rightarrow> bool" bm_set bm_clear "bm_used MAX_MSG_QUEUES"
    "\<lambda>bm. length bm = 2" MAX_MSG_QUEUES
  by (rule bitmap_provides_slots) simp

subsection \<open>Blocking\<close>

lemma ipc_block_keeps:
  assumes "ipc_block r s = Some s'"
  shows "semaphores s' = semaphores s" "mutexes s' = mutexes s"
  using assms by (auto simp: ipc_block_def)

lemma sem_wait_loop_positive:
  assumes "sem_wait_loop i s = Some s'"
  shows "0 < sem_value (semaphores s i) \<and> s' = s"
proof (rule sem_wait_loop.raw_induct [OF _ assms, where P = "\<lambda>i s s'. 0 < sem_value (semaphores s i) \<and> s' = s"])
  fix f i s s'
  assume IH: "\<And>i s s'. f i s = Some s' \<Longrightarrow> 0 < sem_value (semaphores s i) \<and> s' = s"
    and body: "(if sem_value (semaphores s i) \<le> 0 then
        ipc_block (int i) (upd_sem (\<lambda>m. m\<lparr>sem_num_blocked := sem_num_blocked m + 1\<rparr>) i s) \<bind>
          (\<lambda>s1. f i (upd_sem (\<lambda>m. m\<lparr>sem_num_blocked := sem_num_blocked m - 1\<rparr>) i s1))
      else Some s) = Some s'"
  show "0 < sem_value (semaphores s i) \<and> s' = s"
  proof (cases "sem_value (semaphores s i) \<le> 0")
    case True
    with body obtain s1 where s1: "ipc_block (int i) (upd_sem (\<lambda>m. m\<lparr>sem_num_blocked := sem_num_blocked m + 1\<rparr>) i s) = Some s1"
      "f i (upd_sem (\<lambda>m. m\<lparr>sem_num_blocked := sem_num_blocked m - 1\<rparr>) i s1) = Some s'" by (auto simp: bind_eq_Some_conv)
    show ?thesis using IH [OF s1(2)] True ipc_block_keeps(1) [OF s1(1)] by (simp add: upd_sem_def)
  qed (use body in auto)
qed

lemma mutex_lock_loop_free:
  assumes "mutex_lock_loop i s = Some s'"
  shows "\<not> mx_locked (mutexes s i) \<and> s' = s"
proof (rule mutex_lock_loop.raw_induct [OF _ assms, where P = "\<lambda>i s s'. \<not> mx_locked (mutexes s i) \<and> s' = s"])
  fix f i s s'
  assume IH: "\<And>i s s'. f i s = Some s' \<Longrightarrow> \<not> mx_locked (mutexes s i) \<and> s' = s"
    and body: "(if mx_locked (mutexes s i) then
        ipc_block (int i) (upd_mutex (\<lambda>m. m\<lparr>mx_num_blocked := mx_num_blocked m + 1\<rparr>) i s) \<bind>
          (\<lambda>s1. f i (upd_mutex (\<lambda>m. m\<lparr>mx_num_blocked := mx_num_blocked m - 1\<rparr>) i s1))
      else Some s) = Some s'"
  show "\<not> mx_locked (mutexes s i) \<and> s' = s"
  proof (cases "mx_locked (mutexes s i)")
    case True
    with body obtain s1 where s1: "ipc_block (int i) (upd_mutex (\<lambda>m. m\<lparr>mx_num_blocked := mx_num_blocked m + 1\<rparr>) i s) = Some s1"
      "f i (upd_mutex (\<lambda>m. m\<lparr>mx_num_blocked := mx_num_blocked m - 1\<rparr>) i s1) = Some s'" by (auto simp: bind_eq_Some_conv)
    show ?thesis using IH [OF s1(2)] True ipc_block_keeps(2) [OF s1(1)] by (simp add: upd_mutex_def)
  qed (use body in auto)
qed

subsection \<open>Properties\<close>

text \<open>A concrete state: two message queues in adjacent frames, one semaphore, one recursive mutex.\<close>

definition demo_queue :: "nat \<Rightarrow> u32 \<Rightarrow> int \<Rightarrow> ipc_msgqueue" where
  "demo_queue q buf n = \<lparr>mq_id = int q, mq_name = replicate 32 0, mq_flags = IPC_NOWAIT, mq_max_msgs = 4,
     mq_max_msg_size = 8192, mq_cur_msgs = n, mq_messages = buf, mq_head = 0, mq_tail = n, mq_owner = - 1,
     mq_blocked_readers = 0, mq_blocked_writers = 0\<rparr>"

definition demo_ipc :: ipc where
  "demo_ipc = \<lparr>ipc_sched = powered_sched, ipc_mem = (\<lambda>a. 0),
     msgqueues = (\<lambda>q. if q = 0 then demo_queue 0 0x300000 0 else demo_queue q 0x301000 1), msgqueue_bitmap = [3, 0],
     semaphores = (\<lambda>i. \<lparr>sem_id = int i, sem_name = replicate 32 0, sem_value = 1, sem_max_value = 0x7FFFFFFF,
       sem_flags = 0, sem_owner = - 1, sem_num_blocked = 0\<rparr>), semaphore_bitmap = [1, 0, 0, 0],
     mutexes = (\<lambda>i. \<lparr>mx_id = int i, mx_name = replicate 32 0, mx_type = MUTEX_RECURSIVE, mx_locked = True, mx_owner = 7,
       mx_recursion_count = 1, mx_num_blocked = 0, mx_priority_ceiling = 0\<rparr>), mutex_bitmap = [1, 0, 0, 0]\<rparr>"

lemma demo_queues: "mq_open_slot 0 demo_ipc" "mq_open_slot 1 demo_ipc"
  by (auto simp: mq_open_slot_def mq_ok_def demo_ipc_def demo_queue_def bm_test_def mq_count_def mq_first_def mq_room_def
      mq_cell_def message_fits_def read_message_def read_u32_def le32_def mem_bytes_def)

text \<open>
  C4. A message queue refines a bounded first-in first-out list. With room, \<open>mq_send\<close> appends the
  message, stamped with the tick counter; with a message present \<open>mq_receive\<close> returns the
  contents, size and type of the oldest one and removes it; a non-blocking queue that is full or
  empty answers -1 and stays as it was.
\<close>

theorem mq_refines_fifo:
  assumes q: "mq_open_slot q s"
  shows "(mq_count q s < mq_room q s \<and> unat sz \<le> nat (mq_max_msg_size (msgqueues s q)) \<and> unat sz \<le> length bs \<longrightarrow>
      (\<exists>s'. mq_send (int q) (Some bs) sz ty s = Some (0, s') \<and> mq_open_slot q s'
         \<and> mq_contents q s' = mq_contents q s @ [sent_message bs sz ty s]))
   \<and> (\<forall>msg rest. mq_contents q s = msg # rest \<longrightarrow>
      (\<exists>s'. mq_receive (int q) False s = Some (0, Some (msg_data msg, msg_size msg, msg_type msg), s')
         \<and> mq_open_slot q s' \<and> mq_contents q s' = rest))
   \<and> (mq_flags (msgqueues s q) AND IPC_NOWAIT \<noteq> 0 \<longrightarrow>
        (mq_count q s = mq_room q s \<longrightarrow> mq_send (int q) (Some bs) sz ty s = Some (- 1, s))
      \<and> (mq_contents q s = [] \<longrightarrow> mq_receive (int q) False s = Some (- 1, None, s)))"
proof (intro conjI impI allI)
  have ok: "mq_ok q s" using q by (simp add: mq_open_slot_def)
  have len: "length (mq_contents q s) = mq_count q s" by (simp add: mq_contents_def)
  show "\<exists>s'. mq_send (int q) (Some bs) sz ty s = Some (0, s') \<and> mq_open_slot q s'
         \<and> mq_contents q s' = mq_contents q s @ [sent_message bs sz ty s]"
    if "mq_count q s < mq_room q s \<and> unat sz \<le> nat (mq_max_msg_size (msgqueues s q)) \<and> unat sz \<le> length bs"
    using mq_send_room [OF q] that by blast
  show "\<exists>s'. mq_receive (int q) False s = Some (0, Some (msg_data msg, msg_size msg, msg_type msg), s')
         \<and> mq_open_slot q s' \<and> mq_contents q s' = rest" if "mq_contents q s = msg # rest" for msg rest
  proof -
    have "0 < mq_count q s" using len that by simp
    then show ?thesis using mq_receive_some [OF q] that by auto
  qed
  assume nowait: "mq_flags (msgqueues s q) AND IPC_NOWAIT \<noteq> 0"
  show "mq_send (int q) (Some bs) sz ty s = Some (- 1, s)" if "mq_count q s = mq_room q s"
    using nowait q mq_okD(1,3) [OF ok] that by (simp add: mq_send_def mq_open_slot_def Let_def)
  show "mq_receive (int q) False s = Some (- 1, None, s)" if "mq_contents q s = []"
    using nowait q mq_okD(3) [OF ok] that len by (simp add: mq_receive_def mq_open_slot_def Let_def)
qed

theorem mq_refines_fifo_witness:
  "\<exists>s'. mq_send 0 (Some [1, 2, 3]) 2 9 demo_ipc = Some (0, s')
     \<and> mq_contents 0 s' = [\<lparr>msg_type = 9, msg_size = 2, msg_timestamp = 0, msg_data = [1, 2]\<rparr>]"
proof -
  have "mq_contents 0 demo_ipc = []" "mq_count 0 demo_ipc = 0" "mq_room 0 demo_ipc = 4"
    "mq_max_msg_size (msgqueues demo_ipc 0) = 8192" "timer_get_ticks (ipc_sched demo_ipc) = 0"
    by (simp_all add: mq_contents_def mq_count_def mq_room_def demo_ipc_def demo_queue_def timer_get_ticks_def powered_sched_def)
  then show ?thesis using mq_refines_fifo [OF demo_queues(1), of 2 "[1, 2, 3]" 9] by (auto simp: sent_message_def)
qed

lemma in_window:
  fixes x a :: u32
  assumes "unat a + n \<le> 2 ^ 32"
  shows "unat (x - a) < n \<longleftrightarrow> unat x \<in> {unat a ..< unat a + n}"
    and "unat x \<in> {unat a ..< unat a + n} \<Longrightarrow> unat (x - a) = unat x - unat a"
  using assms unsigned_less [of a, where ?'a = nat] by (auto simp: unat_sub_if')

text \<open>
  C34. A message queue writes outside its memory. Its messages lie in slots of 8208 bytes from the
  base of the one frame \<open>mq_create\<close> allocates, below 128 MiB. \<open>mq_send\<close> to a queue with room stores the header of
  16 bytes and the data in the slot of the tail and changes no other byte of memory; these bytes lie inside the
  frame only when the tail is slot 0 and the message has at most 4080 bytes. Wherever the data meets the
  first word of the message at the head of another queue, that message gets its type from the data.
\<close>

theorem mq_send_overruns_frame:
  assumes a: "mq_open_slot a s" "mq_count a s < mq_room a s"
    and sz: "unat sz \<le> nat (mq_max_msg_size (msgqueues s a))" "unat sz \<le> length bs"
    and page: "unat (mq_messages (msgqueues s a)) < 134217728"
  defines "base \<equiv> unat (mq_messages (msgqueues s a))" and "tail \<equiv> nat (mq_tail (msgqueues s a))"
  defines "start \<equiv> base + 8208 * tail"
  defines "written \<equiv> {start ..< start + (16 + unat sz)}"
  shows "\<exists>s'. mq_send (int a) (Some bs) sz ty s = Some (0, s')
     \<and> (\<forall>x. ipc_mem s' x = (if unat x \<in> written then message_bytes (sent_message bs sz ty s) ! (unat x - start) else ipc_mem s x))
     \<and> (written \<subseteq> {base ..< base + 4096} \<longleftrightarrow> tail = 0 \<and> unat sz \<le> 4080)
     \<and> (\<forall>b k. b \<noteq> a \<and> mq_slot (mq_messages (msgqueues s b)) (mq_head (msgqueues s b)) = of_nat (start + 16 + k) \<and> k + 4 \<le> unat sz
          \<longrightarrow> msg_type (read_message (ipc_mem s') (mq_slot (mq_messages (msgqueues s' b)) (mq_head (msgqueues s' b)))) =
              le32 (bs ! k) (bs ! (k + 1)) (bs ! (k + 2)) (bs ! (k + 3)))"
proof -
  let ?msg = "sent_message bs sz ty s" and ?slot = "mq_slot (mq_messages (msgqueues s a)) (mq_tail (msgqueues s a))"
  let ?s' = "mq_put a ?msg s"
  note send = mq_send_puts [OF a sz, of ty]
  have "mq_tail (msgqueues s a) < mq_max_msgs (msgqueues s a)" "mq_max_msgs (msgqueues s a) \<le> 32"
    using a(1) by (auto simp: mq_open_slot_def mq_ok_def Let_def)
  then have tail: "tail < 32" by (simp add: tail_def)
  have small: "unat sz \<le> 8192" using send(2) by (simp add: message_fits_def sent_message_def)
  have slot: "?slot = of_nat start" by (simp add: mq_slot_def start_def base_def tail_def mult.commute)
  have us: "unat ?slot = start" unfolding slot using tail page by (intro unat_of_nat_small) (simp add: start_def base_def)
  have len: "length (message_bytes ?msg) = 16 + unat sz" using sz(2) by (simp add: sent_message_def)
  have fit: "unat ?slot + (16 + unat sz) \<le> 2 ^ 32" using us tail page small by (simp add: start_def base_def)
  have mem: "ipc_mem ?s' = write_bytes (ipc_mem s) ?slot (message_bytes ?msg)" by (simp add: mq_put_simps write_message_bytes)
  have small': "length (message_bytes ?msg) \<le> 2 ^ 32" unfolding len using small by simp
  have bytes: "\<forall>x. ipc_mem ?s' x = (if unat x \<in> written then message_bytes ?msg ! (unat x - start) else ipc_mem s x)"
    unfolding mem write_bytes_apply [OF small'] len using in_window [OF fit] by (simp add: us written_def)
  have inside: "written \<subseteq> {base ..< base + 4096} \<longleftrightarrow> tail = 0 \<and> unat sz \<le> 4080"
    unfolding written_def start_def ivl_subset by auto
  have "read_u32 (ipc_mem ?s') (of_nat (start + 16 + k)) = le32 (bs ! k) (bs ! (k + 1)) (bs ! (k + 2)) (bs ! (k + 3))"
    if k: "k + 4 \<le> unat sz" for k
  proof -
    have "mem_bytes (ipc_mem ?s') (of_nat start + of_nat (16 + k)) 4 = take 4 (drop (16 + k) (message_bytes ?msg))"
      using mem_bytes_sub [of "16 + k" 4 "16 + unat sz" "ipc_mem ?s'" ?slot] mem_bytes_write_same [OF small'] k
      unfolding mem len slot by simp
    also have "drop (16 + k) (message_bytes ?msg) = drop k (take (unat sz) bs)"
      by (simp add: message_bytes_def sent_message_def)
    also have "take 4 \<dots> = [bs ! k, bs ! (k + 1), bs ! (k + 2), bs ! (k + 3)]"
      using k sz(2) take4_drop [of k "take (unat sz) bs"] by simp
    finally show ?thesis by (simp add: read_u32_bytes add.assoc)
  qed
  moreover have "msgqueues ?s' b = msgqueues s b" if "b \<noteq> a" for b using that by (simp add: mq_put_def upd_mq_def Let_def)
  ultimately show ?thesis using send(1) bytes inside by (intro exI [of _ ?s']) (auto simp: read_message_def)
qed

theorem mq_send_overruns_frame_witness:
  "\<exists>s'. mq_send 0 (Some (replicate 4084 0xAA)) 4084 1 demo_ipc = Some (0, s')
     \<and> ipc_mem s' 0x301000 = 0xAA \<and> ipc_mem s' 0x301004 = 0
     \<and> msg_type (read_message (ipc_mem s') (mq_slot (mq_messages (msgqueues s' 1)) (mq_head (msgqueues s' 1)))) = 0xAAAAAAAA"
proof -
  define bs where "bs = replicate 4084 (0xAA :: u8)"
  have bs: "length bs = 4084" "bs ! i = 0xAA" if "i < 4084" for i using that unfolding bs_def by (simp_all only: length_replicate nth_replicate)
  have pre: "mq_count 0 demo_ipc < mq_room 0 demo_ipc" "unat (4084 :: u32) \<le> nat (mq_max_msg_size (msgqueues demo_ipc 0))"
    "unat (4084 :: u32) \<le> length bs" "unat (mq_messages (msgqueues demo_ipc 0)) < 134217728"
    using bs(1) [of 0] by (simp_all add: mq_count_def mq_room_def demo_ipc_def demo_queue_def)
  have at: "unat (mq_messages (msgqueues demo_ipc 0)) = 0x300000" "nat (mq_tail (msgqueues demo_ipc 0)) = 0" "ipc_mem demo_ipc = (\<lambda>a. 0)"
    by (simp_all add: demo_ipc_def demo_queue_def)
  have nb: "mq_slot (mq_messages (msgqueues demo_ipc 1)) (mq_head (msgqueues demo_ipc 1)) = of_nat (0x300000 + 16 + 4080)"
    by (simp add: demo_ipc_def demo_queue_def mq_slot_def)
  have msg: "message_bytes (sent_message bs 4084 1 demo_ipc) ! 4096 = 0xAA"
    using bs by (simp add: message_bytes_def sent_message_def nth_append)
  have n: "unat (0x301000 :: u32) = 0x301000" "unat (0x301004 :: u32) = 0x301004" "unat (4084 :: u32) = 4084" by simp_all
  obtain s' where s': "mq_send (int 0) (Some bs) 4084 1 demo_ipc = Some (0, s')"
    and mem: "\<forall>x. ipc_mem s' x = (if unat x \<in> {0x300000 ..< 0x300000 + (16 + 4084)}
       then message_bytes (sent_message bs 4084 1 demo_ipc) ! (unat x - 0x300000) else 0)"
    and ty: "\<forall>b k. b \<noteq> 0 \<and> mq_slot (mq_messages (msgqueues demo_ipc b)) (mq_head (msgqueues demo_ipc b)) = of_nat (0x300000 + 16 + k)
          \<and> k + 4 \<le> 4084 \<longrightarrow> msg_type (read_message (ipc_mem s') (mq_slot (mq_messages (msgqueues s' b)) (mq_head (msgqueues s' b)))) =
              le32 (bs ! k) (bs ! (k + 1)) (bs ! (k + 2)) (bs ! (k + 3))"
    using mq_send_overruns_frame [OF demo_queues(1) pre, of 1, unfolded at n mult_0_right add_0_right] by blast
  have "msg_type (read_message (ipc_mem s') (mq_slot (mq_messages (msgqueues s' 1)) (mq_head (msgqueues s' 1)))) = 0xAAAAAAAA"
    using ty [THEN spec [of _ 1], THEN spec [of _ 4080]] nb bs(2) by (simp add: le32_def)
  moreover have "ipc_mem s' 0x301000 = 0xAA" "ipc_mem s' 0x301004 = 0"
    unfolding mem [rule_format] n using msg by simp_all
  ultimately show ?thesis using s' unfolding bs_def by (intro exI [of _ s']) simp
qed

lemma mq_create_fresh:
  assumes made: "mq_create (Some nm) flags n k s = (r, s')" "0 \<le> r" and fresh: "find_msgqueue nm s = None"
  shows "\<exists>q < MAX_MSG_QUEUES. r = int q \<and> msgqueue_bitmap s' = bm_set (msgqueue_bitmap s) q \<and> \<not> bm_test (msgqueue_bitmap s) q
     \<and> (\<forall>i. mq_name (msgqueues s' i) = (if i = q then copy_loop (mq_name (msgqueues s q)) nm 31 0 else mq_name (msgqueues s i)))"
  using made fresh
  by (auto simp: mq_create_def upd_mq_def Let_def dest: first_from_SomeD split: if_splits option.splits prod.splits)

text \<open>
  Opening by name. A queue created under a fresh name of at most 31 bytes is found again by
  \<open>mq_open\<close>; one created under a longer name is not, since only 31 bytes of the name are kept, and
  creating it again makes a second queue.
\<close>

lemma mq_create_open:
  assumes bm: "length (msgqueue_bitmap s) = 2" and names: "\<And>i. length (mq_name (msgqueues s i)) = 32"
    and nm: "cstr nm \<noteq> []" and fresh: "find_msgqueue nm s = None"
    and made: "mq_create (Some nm) flags n k s = (r, s')" "0 \<le> r"
    and old: "find_msgqueue (take 31 (cstr nm)) s = None"
  shows "(length (cstr nm) \<le> 31 \<longrightarrow> mq_open (Some nm) 0 s' = (r, s'))
     \<and> (31 < length (cstr nm) \<longrightarrow> mq_open (Some nm) 0 s' = (- 1, s') \<and> mq_open (Some (take 31 (cstr nm))) 0 s' = (r, s'))"
proof -
  obtain q where q: "q < MAX_MSG_QUEUES" "r = int q" "msgqueue_bitmap s' = bm_set (msgqueue_bitmap s) q"
    "\<And>i. mq_name (msgqueues s' i) = (if i = q then copy_loop (mq_name (msgqueues s q)) nm 31 0 else mq_name (msgqueues s i))"
    using mq_create_fresh [OF made fresh] by blast
  have "cstr (mq_name (msgqueues s' q)) = take 31 (cstr nm)" using q(4) names by (simp add: cstr_copy_loop)
  then have named: "mq_named x s' i \<longleftrightarrow> (if i = q then x = take 31 (cstr nm) else mq_named x s i)" if "i < MAX_MSG_QUEUES" for x i
    using mq_slots.test_mark [OF bm q(1)] nm that q(3,4) by (auto simp: mq_named_def)
  have self: "cstr (take 31 (cstr nm)) = take 31 (cstr nm)"
    unfolding cstr_def by (auto simp: takeWhile_eq_all_conv dest!: in_set_takeD set_takeWhileD)
  have hit: "find_msgqueue x s' = Some q" if "cstr x = take 31 (cstr nm)" "find_msgqueue x s = None" for x
  proof -
    have none: "\<not> mq_named (take 31 (cstr nm)) s i" if "i < MAX_MSG_QUEUES" for i
      using \<open>find_msgqueue x s = None\<close> that by (simp add: find_msgqueue_named first_from_None_iff \<open>cstr x = _\<close>)
    show ?thesis
      unfolding find_msgqueue_named \<open>cstr x = _\<close> using q(1) none named by (auto simp: first_from_Some_iff)
  qed
  have opened: "mq_open (Some x) 0 s' = (r, s')" if "find_msgqueue x s' = Some q" for x
    using that q(2) by (simp add: mq_open_def mq_create_def)
  have "find_msgqueue nm s' = None" if "31 < length (cstr nm)"
  proof -
    have "cstr nm \<noteq> take 31 (cstr nm)" using that by (metis length_take min.absorb2 less_imp_le nat_neq_iff)
    then show ?thesis
      using fresh named unfolding find_msgqueue_named first_from_None_iff by auto
  qed
  moreover have "mq_open (Some nm) 0 s' = (- 1, s')" if "find_msgqueue nm s' = None"
    using that by (simp add: mq_open_def mq_create_def)
  ultimately show ?thesis using opened hit fresh old self by auto
qed

text \<open>
  C35. \<open>sem_wait\<close> comes back exactly when the semaphore is positive, and then takes one unit.
  At zero it spins for ever: \<open>task_block\<close> returns to the loop and changes no semaphore.
\<close>

theorem sem_wait_returns:
  assumes "sem_valid semid s"
  shows "(sem_wait semid s \<noteq> None \<longleftrightarrow> 0 < sem_value (semaphores s (nat semid)))
     \<and> (0 < sem_value (semaphores s (nat semid)) \<longrightarrow>
          sem_wait semid s = Some (0, upd_sem (\<lambda>m. m\<lparr>sem_value := sem_value m - 1\<rparr>) (nat semid) s)
          \<and> sem_wait semid s = Some (sem_trywait semid s))"
proof (cases "0 < sem_value (semaphores s (nat semid))")
  case True
  then have "sem_wait_loop (nat semid) s = Some s" by (simp add: sem_wait_loop.simps)
  with True assms show ?thesis by (simp add: sem_wait_def sem_trywait_def)
next
  case False
  then have "sem_wait_loop (nat semid) s = None" using sem_wait_loop_positive [of "nat semid" s]
    by (cases "sem_wait_loop (nat semid) s") auto
  with False assms show ?thesis by (simp add: sem_wait_def)
qed

theorem sem_wait_returns_witness:
  "sem_wait 0 demo_ipc \<noteq> None \<and> sem_wait 0 (snd (sem_trywait 0 demo_ipc)) = None"
proof -
  have v: "sem_valid 0 demo_ipc" "sem_valid 0 (snd (sem_trywait 0 demo_ipc))"
    "sem_value (semaphores demo_ipc 0) = 1" "sem_value (semaphores (snd (sem_trywait 0 demo_ipc)) 0) = 0"
    by (simp_all add: sem_valid_def sem_trywait_def demo_ipc_def bm_test_def upd_sem_def)
  show ?thesis using sem_wait_returns [OF v(1)] sem_wait_returns [OF v(2)] v(3,4) by (simp del: not_None_eq not_Some_eq)
qed

text \<open>A sequence of posts and non-blocking waits on one semaphore, with the number of waits that succeed.\<close>

datatype sem_op = SemPost | SemTry

fun sem_ops :: "int \<Rightarrow> sem_op list \<Rightarrow> ipc \<Rightarrow> nat \<times> ipc" where
  "sem_ops i [] s = (0, s)"
| "sem_ops i (SemPost # ops) s = sem_ops i ops (snd (sem_post i s))"
| "sem_ops i (SemTry # ops) s =
     (let (r, s1) = sem_trywait i s; (n, s2) = sem_ops i ops s1 in (if r = 0 then Suc n else n, s2))"

lemma sem_ops_count:
  assumes "sem_valid i s" and "0 \<le> sem_value (semaphores s (nat i))"
    and "sem_value (semaphores s (nat i)) + int (length ops) \<le> sem_max_value (semaphores s (nat i))"
  shows "case sem_ops i ops s of (n, s') \<Rightarrow>
     sem_value (semaphores s' (nat i)) = sem_value (semaphores s (nat i)) + int (count_list ops SemPost) - int n
     \<and> 0 \<le> sem_value (semaphores s' (nat i)) \<and> sem_valid i s'"
  using assms
proof (induction i ops s rule: sem_ops.induct)
  case (2 i ops s)
  then show ?case by (simp add: sem_post_def upd_sem_def sem_valid_def split: prod.splits)
next
  case (3 i ops s)
  obtain r s1 where t: "sem_trywait i s = (r, s1)" by force
  have s1: "sem_valid i s1" "0 \<le> sem_value (semaphores s1 (nat i))" "sem_max_value (semaphores s1 (nat i)) = sem_max_value (semaphores s (nat i))"
    "sem_value (semaphores s1 (nat i)) = sem_value (semaphores s (nat i)) - (if r = 0 then 1 else 0)"
    using t "3.prems" by (auto simp: sem_trywait_def upd_sem_def sem_valid_def split: if_splits)
  obtain n s2 where n: "sem_ops i ops s1 = (n, s2)" by force
  show ?case using "3.IH" [OF t [symmetric] refl] s1 "3.prems"(3) t n by (auto split: if_splits)
qed simp

text \<open>
  C26. Semaphores count: over any sequence of posts and non-blocking waits that stays below the
  maximum, the value is the initial one plus the posts minus the waits that succeeded, and it is never negative.
\<close>

theorem sem_conservation:
  assumes "sem_valid i s" and "0 \<le> sem_value (semaphores s (nat i))"
    and "sem_value (semaphores s (nat i)) + int (length ops) \<le> sem_max_value (semaphores s (nat i))"
  shows "case sem_ops i ops s of (n, s') \<Rightarrow>
     sem_value (semaphores s' (nat i)) = sem_value (semaphores s (nat i)) + int (count_list ops SemPost) - int n
     \<and> int n \<le> sem_value (semaphores s (nat i)) + int (count_list ops SemPost)"
  using sem_ops_count [OF assms] by (auto split: prod.splits)

theorem sem_conservation_witness:
  "case sem_ops 0 [SemTry, SemTry, SemPost, SemTry, SemPost, SemPost] demo_ipc of (n, s') \<Rightarrow>
     sem_value (semaphores s' 0) = 4 - int n"
proof -
  have "sem_valid 0 demo_ipc" "0 \<le> sem_value (semaphores demo_ipc (nat 0))"
    "sem_value (semaphores demo_ipc (nat 0)) + int (length [SemTry, SemTry, SemPost, SemTry, SemPost, SemPost]) \<le> sem_max_value (semaphores demo_ipc (nat 0))"
    by (simp_all add: sem_valid_def demo_ipc_def bm_test_def)
  note spec = sem_conservation [OF this]
  have "sem_value (semaphores demo_ipc (nat 0)) = 1" by (simp add: demo_ipc_def)
  then show ?thesis using spec by (simp add: case_prod_beta del: sem_ops.simps)
qed



fun lock_times :: "nat \<Rightarrow> int \<Rightarrow> ipc \<Rightarrow> ipc option" where
  "lock_times 0 mid s = Some s"
| "lock_times (Suc n) mid s = do { (r, s1) \<leftarrow> mutex_lock mid s; if r = 0 then lock_times n mid s1 else None }"

fun unlock_times :: "nat \<Rightarrow> int \<Rightarrow> ipc \<Rightarrow> ipc" where
  "unlock_times 0 mid s = s"
| "unlock_times (Suc n) mid s = unlock_times n mid (snd (mutex_unlock mid s))"

lemma lock_times_held:
  assumes "mutex_valid mid s" and "mx_type (mutexes s (nat mid)) = MUTEX_RECURSIVE"
    and "mx_owner (mutexes s (nat mid)) = task_get_current_id (ipc_sched s)"
  shows "lock_times n mid s = Some (upd_mutex (\<lambda>m. m\<lparr>mx_recursion_count := mx_recursion_count m + int n\<rparr>) (nat mid) s)"
  using assms
proof (induction n arbitrary: s)
  case 0
  then show ?case by (simp add: upd_mutex_def)
next
  case (Suc n)
  let ?s1 = "upd_mutex (\<lambda>m. m\<lparr>mx_recursion_count := mx_recursion_count m + 1\<rparr>) (nat mid) s"
  have "mutex_lock mid s = Some (0, ?s1)" using Suc.prems by (simp add: mutex_lock_def Let_def)
  moreover have "lock_times n mid ?s1 = Some (upd_mutex (\<lambda>m. m\<lparr>mx_recursion_count := mx_recursion_count m + int n\<rparr>) (nat mid) ?s1)"
    using Suc.prems by (intro Suc.IH) (simp_all add: mutex_valid_def upd_mutex_def)
  ultimately show ?case by (simp add: upd_mutex_def algebra_simps)
qed

lemma unlock_times_held:
  assumes "mutex_valid mid s" and "mx_type (mutexes s (nat mid)) = MUTEX_RECURSIVE"
    and "int k < mx_recursion_count (mutexes s (nat mid))"
  shows "unlock_times k mid s = upd_mutex (\<lambda>m. m\<lparr>mx_recursion_count := mx_recursion_count m - int k\<rparr>) (nat mid) s"
  using assms
proof (induction k arbitrary: s)
  case 0
  then show ?case by (simp add: upd_mutex_def)
next
  case (Suc k)
  let ?s1 = "upd_mutex (\<lambda>m. m\<lparr>mx_recursion_count := mx_recursion_count m - 1\<rparr>) (nat mid) s"
  have "mutex_unlock mid s = (0, ?s1)" using Suc.prems by (simp add: mutex_unlock_def Let_def)
  moreover have "unlock_times k mid ?s1 = upd_mutex (\<lambda>m. m\<lparr>mx_recursion_count := mx_recursion_count m - int k\<rparr>) (nat mid) ?s1"
    using Suc.prems by (intro Suc.IH) (simp_all add: mutex_valid_def upd_mutex_def)
  ultimately show ?case by (simp add: upd_mutex_def algebra_simps)
qed

text \<open>
  A recursive mutex counts: locked \<open>n + 1\<close> times by one task it stays held through \<open>n\<close>
  unlocks, and the next one frees it.
\<close>

lemma mutex_recursion_balance:
  assumes v: "mutex_valid mid s" and r: "mx_type (mutexes s (nat mid)) = MUTEX_RECURSIVE"
    and free: "\<not> mx_locked (mutexes s (nat mid))" "mx_owner (mutexes s (nat mid)) \<noteq> task_get_current_id (ipc_sched s)"
  shows "\<exists>s'. lock_times (Suc n) mid s = Some s'
     \<and> (\<forall>k \<le> n. mx_locked (mutexes (unlock_times k mid s') (nat mid))
                \<and> mx_owner (mutexes (unlock_times k mid s') (nat mid)) = task_get_current_id (ipc_sched s))
     \<and> \<not> mx_locked (mutexes (snd (mutex_unlock mid (unlock_times n mid s'))) (nat mid))"
proof -
  let ?me = "task_get_current_id (ipc_sched s)"
  let ?s1 = "upd_mutex (mutex_acquire ?me) (nat mid) s"
  let ?s' = "upd_mutex (\<lambda>m. m\<lparr>mx_recursion_count := mx_recursion_count m + int n\<rparr>) (nat mid) ?s1"
  have "mutex_lock_loop (nat mid) s = Some s" using free by (simp add: mutex_lock_loop.simps)
  then have "mutex_lock mid s = Some (0, ?s1)" using v r free by (simp add: mutex_lock_def Let_def)
  moreover have "lock_times n mid ?s1 = Some ?s'"
    using v r by (intro lock_times_held) (simp_all add: mutex_valid_def upd_mutex_def mutex_acquire_def)
  ultimately have run: "lock_times (Suc n) mid s = Some ?s'" by simp
  have un: "unlock_times k mid ?s' = upd_mutex (\<lambda>m. m\<lparr>mx_recursion_count := mx_recursion_count m - int k\<rparr>) (nat mid) ?s'"
    if "k \<le> n" for k
    using v r that by (intro unlock_times_held) (simp_all add: mutex_valid_def upd_mutex_def mutex_acquire_def)
  have "mx_locked (mutexes (unlock_times k mid ?s') (nat mid)) \<and> mx_owner (mutexes (unlock_times k mid ?s') (nat mid)) = ?me"
    if "k \<le> n" for k unfolding un [OF that] by (simp add: upd_mutex_def mutex_acquire_def)
  moreover have "\<not> mx_locked (mutexes (snd (mutex_unlock mid (unlock_times n mid ?s'))) (nat mid))"
    unfolding un [OF le_refl] using v r by (simp add: mutex_unlock_def Let_def mutex_valid_def upd_mutex_def mutex_acquire_def)
  ultimately show ?thesis using run by blast
qed

end
