(* ===== verification/Net.thy ===== *)
theory Net
  imports Memory
begin

unbundle bit_operations_syntax

text \<open>
  The base of the network stack, \<open>kernel/tcpip.c\<close> with the types of \<open>include/kernel/tcpip.h\<close>: byte
  order, the Internet checksum, the interface, building of IP headers and parsing of addresses. A packet
  is the list of its bytes; reading past the end of the list is the result \<open>None\<close>. The machine
  is little-endian, so a 16-bit load of bytes \<open>b0 b1\<close> is \<open>le16 b0 b1\<close>. \<open>ip_send\<close> builds a header and
  hands nothing to a driver; the dispatch of received packets is in theory \<open>NetStack\<close>.
\<close>

subsection \<open>Byte order\<close>

definition htons :: "u16 \<Rightarrow> u16" where
  "htons h = push_bit 8 (h AND 0xFF) OR (drop_bit 8 h AND 0xFF)"

definition ntohs :: "u16 \<Rightarrow> u16" where
  "ntohs n = htons n"

definition htonl :: "u32 \<Rightarrow> u32" where
  "htonl h = push_bit 24 (h AND 0xFF) OR push_bit 8 (h AND 0xFF00) OR drop_bit 8 (h AND 0xFF0000)
     OR (drop_bit 24 h AND 0xFF)"

definition ntohl :: "u32 \<Rightarrow> u32" where
  "ntohl n = htonl n"

text \<open>A 16-bit and a 32-bit field as they lie in memory.\<close>

definition field16 :: "u16 \<Rightarrow> u8 list" where
  "field16 w = [ucast w, ucast (drop_bit 8 w)]"

definition field32 :: "u32 \<Rightarrow> u8 list" where
  "field32 w = [ucast w, ucast (drop_bit 8 w), ucast (drop_bit 16 w), ucast (drop_bit 24 w)]"

definition get16 :: "u8 list \<Rightarrow> nat \<Rightarrow> u16" where
  "get16 p i = le16 (p ! i) (p ! (i + 1))"

definition get32 :: "u8 list \<Rightarrow> nat \<Rightarrow> u32" where
  "get32 p i = le32 (p ! i) (p ! (i + 1)) (p ! (i + 2)) (p ! (i + 3))"

subsection \<open>Checksum\<close>

fun sum_words :: "u8 list \<Rightarrow> nat \<Rightarrow> u32 \<Rightarrow> u32 option" where
  "sum_words p len acc =
     (if len > 1 then
        (case p of b0 # b1 # rest \<Rightarrow> sum_words rest (len - 2) (acc + ucast (le16 b0 b1)) | _ \<Rightarrow> None)
      else if len > 0 then (case p of b # _ \<Rightarrow> Some (acc + ucast b) | [] \<Rightarrow> None)
      else Some acc)"

declare sum_words.simps [simp del]

lemma low_half: "unat (w AND 0xFFFF) = unat w mod 65536" and high_half: "unat (drop_bit 16 w) = unat w div 65536" for w :: u32
proof -
  have mask: "(0xFFFF :: u32) = mask 16" by (simp add: mask_eq_exp_minus_1)
  show "unat (w AND 0xFFFF) = unat w mod 65536"
    unfolding mask by (simp add: take_bit_eq_mask [symmetric] unsigned_take_bit_eq take_bit_eq_mod unat_mod)
  show "unat (drop_bit 16 w) = unat w div 65536" by (simp add: drop_bit_eq_div unat_div)
qed

function fold_sum :: "u32 \<Rightarrow> u32" where
  "fold_sum acc = (if drop_bit 16 acc \<noteq> 0 then fold_sum ((acc AND 0xFFFF) + drop_bit 16 acc) else acc)"
  by pat_completeness auto
termination
proof (relation "measure unat")
  fix acc :: u32
  assume "drop_bit 16 acc \<noteq> 0"
  then have "0 < unat acc div 65536" using high_half [of acc] by (metis unat_gt_0)
  moreover have "unat ((acc AND 0xFFFF) + drop_bit 16 acc) \<le> unat acc mod 65536 + unat acc div 65536"
    unfolding unat_plus low_half high_half by simp
  moreover have "unat acc = unat acc div 65536 * 65536 + unat acc mod 65536" by simp
  ultimately have "unat ((acc AND 0xFFFF) + drop_bit 16 acc) < unat acc" by linarith
  then show "((acc AND 0xFFFF) + drop_bit 16 acc, acc) \<in> measure unat" by simp
qed simp

declare fold_sum.simps [simp del]

definition ip_checksum :: "u8 list \<Rightarrow> u16 \<Rightarrow> u16 option" where
  "ip_checksum data len = map_option (\<lambda>s. NOT (ucast (fold_sum s))) (sum_words data (unat len) 0)"

subsection \<open>The interface\<close>

record net_interface =
  ni_mac_addr :: "u8 list"
  ni_ip_addr :: u32
  ni_netmask :: u32
  ni_gateway :: u32
  ni_up :: bool

record netbase =
  net_iface :: net_interface
  tcpip_initialized :: bool

text \<open>The MAC address comes from the network driver and is an argument.\<close>

definition tcpip_set_interface :: "u8 list \<Rightarrow> u32 \<Rightarrow> u32 \<Rightarrow> u32 \<Rightarrow> netbase \<Rightarrow> int \<times> netbase" where
  "tcpip_set_interface mac ip netmask gateway s =
     (if \<not> tcpip_initialized s then (- 1, s)
      else (0, s\<lparr>net_iface := (net_iface s)\<lparr>ni_ip_addr := ip, ni_netmask := netmask, ni_gateway := gateway,
                                      ni_up := True, ni_mac_addr := mac\<rparr>\<rparr>))"

definition tcpip_get_interface :: "bool \<Rightarrow> netbase \<Rightarrow> net_interface option" where
  "tcpip_get_interface iface_null s = (if \<not> tcpip_initialized s \<or> iface_null then None else Some (net_iface s))"

definition tcpip_get_local_ip :: "netbase \<Rightarrow> u32" where
  "tcpip_get_local_ip s = ni_ip_addr (net_iface s)"

subsection \<open>Sending\<close>

abbreviation (input) "IPV4_HEADER_SIZE \<equiv> (20 :: nat)"

record ipv4_header =
  ih_version_ihl :: u8
  ih_dscp_ecn :: u8
  ih_total_length :: u16
  ih_identification :: u16
  ih_flags_fragment :: u16
  ih_ttl :: u8
  ih_protocol :: u8
  ih_checksum :: u16
  ih_src_ip :: u32
  ih_dest_ip :: u32

definition ipv4_bytes :: "ipv4_header \<Rightarrow> u8 list" where
  "ipv4_bytes h = [ih_version_ihl h, ih_dscp_ecn h] @ field16 (ih_total_length h) @ field16 (ih_identification h)
     @ field16 (ih_flags_fragment h) @ [ih_ttl h, ih_protocol h] @ field16 (ih_checksum h) @ field32 (ih_src_ip h) @ field32 (ih_dest_ip h)"

definition ip_header :: "u32 \<Rightarrow> u32 \<Rightarrow> u8 \<Rightarrow> u16 \<Rightarrow> ipv4_header" where
  "ip_header local_ip dest proto len =
     \<lparr>ih_version_ihl = 0x45, ih_dscp_ecn = 0, ih_total_length = htons (20 + len), ih_identification = 0, ih_flags_fragment = 0,
      ih_ttl = 64, ih_protocol = proto, ih_checksum = 0, ih_src_ip = htonl local_ip, ih_dest_ip = htonl dest\<rparr>"

text \<open>The result of \<open>ip_send\<close>, with the header it builds and then drops.\<close>

definition ip_send :: "u32 \<Rightarrow> u8 \<Rightarrow> u8 list option \<Rightarrow> u16 \<Rightarrow> netbase \<Rightarrow> int \<times> ipv4_header option" where
  "ip_send dest proto data len s =
     (if \<not> tcpip_initialized s \<or> data = None then (- 1, None)
      else let h = ip_header (ni_ip_addr (net_iface s)) dest proto len
           in (0, Some (h\<lparr>ih_checksum := the (ip_checksum (ipv4_bytes h) 20)\<rparr>)))"

definition ip_send_packet :: "u32 \<Rightarrow> u8 \<Rightarrow> u8 list option \<Rightarrow> u16 \<Rightarrow> netbase \<Rightarrow> int" where
  "ip_send_packet dest proto data len s = fst (ip_send dest proto data len s)"

subsection \<open>Addresses\<close>

text \<open>
  The loop of \<open>ip_str_to_addr\<close>: octets written so far, their number, the number being read. That
  number is a C \<open>int\<close>: \<^term>\<open>None\<close> is the signed overflow of \<open>num * 10 + (*str - '0')\<close>.
\<close>

definition INT_MAX :: int where
  "INT_MAX = 2147483647"

fun parse_octets :: "u8 list \<Rightarrow> u8 list \<Rightarrow> nat \<Rightarrow> int \<Rightarrow> (u8 list \<times> nat \<times> int) option" where
  "parse_octets [] octets idx num = Some (octets, idx, num)"
| "parse_octets (c # cs) octets idx num =
     (if c = 0 \<or> idx \<ge> 4 then Some (octets, idx, num)
      else if 0x30 \<le> c \<and> c \<le> 0x39 then
        let num' = num * 10 + (uint c - 0x30)
        in if num' > INT_MAX then None else parse_octets cs octets idx num'
      else if c = 0x2E then parse_octets cs (octets[idx := of_int num]) (Suc idx) 0
      else parse_octets cs octets idx num)"

text \<open>
  The address the octets make. The source shifts the promoted octets as \<open>int\<close>s; GCC defines
  \<open>octets[0] << 24\<close> to move the bits also when the top one is set.
\<close>

definition octets_addr :: "u8 list \<Rightarrow> u32" where
  "octets_addr o4 = push_bit 24 (ucast (o4 ! 0)) OR push_bit 16 (ucast (o4 ! 1)) OR push_bit 8 (ucast (o4 ! 2))
     OR ucast (o4 ! 3)"

text \<open>The final store \<open>octets[octet_idx] = num\<close> is out of bounds, \<^term>\<open>None\<close>, at index 4.\<close>

definition ip_str_to_addr :: "u8 list option \<Rightarrow> u32 option" where
  "ip_str_to_addr str =
     (case str of
        None \<Rightarrow> Some 0
      | Some cs \<Rightarrow>
          (case parse_octets cs [0, 0, 0, 0] 0 0 of
             None \<Rightarrow> None
           | Some (octets, idx, num) \<Rightarrow>
               if idx < 4 then Some (octets_addr (octets[idx := of_int num])) else None))"

subsection \<open>The checksum is the one's complement sum\<close>

fun word_sum :: "u8 list \<Rightarrow> nat" where
  "word_sum (b0 # b1 # rest) = unat b0 + 256 * unat b1 + word_sum rest"
| "word_sum [b] = unat b"
| "word_sum [] = 0"

definition ones_sum :: "nat \<Rightarrow> nat" where
  "ones_sum n = (if n = 0 then 0 else (n - 1) mod 65535 + 1)"

lemma ones_sum_small: "n < 65536 \<Longrightarrow> ones_sum n = n"
  by (auto simp: ones_sum_def)

lemma ones_sum_le: "ones_sum n \<le> 65535"
  by (simp add: ones_sum_def Suc_le_eq)

lemma ones_sum_halves: "0 < n div 65536 \<Longrightarrow> ones_sum (n mod 65536 + n div 65536) = ones_sum n"
proof -
  assume h: "0 < n div 65536"
  define a b where "a = n div 65536" and "b = n mod 65536"
  have n: "n = a * 65536 + b" by (simp add: a_def b_def)
  have "n - 1 = (b + a - 1) + a * 65535" using h by (simp add: n a_def [symmetric])
  then have "(n - 1) mod 65535 = (b + a - 1) mod 65535" by simp
  moreover have "0 < n" "0 < b + a" using h by (auto simp: a_def)
  ultimately have "ones_sum (b + a) = ones_sum n" by (simp add: ones_sum_def)
  then show ?thesis by (simp add: a_def b_def)
qed

lemma unat_fold_sum: "unat (fold_sum w) = ones_sum (unat w)"
proof (induction w rule: fold_sum.induct)
  case (1 w)
  show ?case
  proof (cases "drop_bit 16 w = 0")
    case True
    then have "unat w < 65536" using high_half [of w] by (simp add: div_eq_0_iff)
    then show ?thesis using True by (simp add: fold_sum.simps [of w] ones_sum_small)
  next
    case False
    then have pos: "0 < unat w div 65536" using high_half [of w] by (metis unat_gt_0)
    have "unat w div 65536 < 65536" using unat_below [of w] by (simp add: div_less_iff_less_mult)
    then have "unat ((w AND 0xFFFF) + drop_bit 16 w) = unat w mod 65536 + unat w div 65536"
      using low_half [of w] high_half [of w] mod_less_divisor [of 65536 "unat w"] by (subst unat_plus_small) auto
    then show ?thesis using False 1 ones_sum_halves [OF pos] by (simp add: fold_sum.simps [of w])
  qed
qed

lemma unat_le16: "unat (le16 b0 b1) = unat b0 + 256 * unat b1"
proof -
  have "le16 b0 b1 = ucast b0 + push_bit 8 (ucast b1)"
    unfolding le16_def by (rule disjunctive_add [symmetric]) (auto simp: bit_simps dest: bit_imp_le_length)
  moreover have "unat b0 < 256" "unat b1 < 256" using unat_below [of b0] unat_below [of b1] by simp_all
  ultimately show ?thesis by (simp add: push_bit_eq_mult unat_plus unat_word_ariths unat_cast)
qed

lemma word_sum_bound: "word_sum p \<le> 65535 * ((length p + 1) div 2)"
proof (induction p rule: word_sum.induct)
  case (1 b0 b1 rest)
  then show ?case using unat_below [of b0] unat_below [of b1] by simp
next
  case (2 b)
  then show ?case using unat_below [of b] by simp
qed simp

lemma sum_words_spec:
  assumes "len \<le> length p" and "unat acc + word_sum (take len p) < 2 ^ 32"
  shows "sum_words p len acc = Some (of_nat (unat acc + word_sum (take len p)))"
  using assms
proof (induction p len acc rule: sum_words.induct)
  case (1 p len acc)
  show ?case
  proof (cases "len > 1")
    case True
    then obtain b0 b1 rest where p: "p = b0 # b1 # rest" using "1.prems"(1) by (cases p; cases "tl p") auto
    obtain k where k: "len = Suc (Suc k)" using True by (metis less_imp_Suc_add numeral_2_eq_2 One_nat_def add_Suc)
    have "unat (acc + ucast (le16 b0 b1)) = unat acc + unat (le16 b0 b1)"
      using "1.prems"(2) p k by (subst unat_plus_small) (auto simp: unat_cast_small unat_le16)
    then show ?thesis
      using "1.IH" [OF True p refl] "1.prems" True unfolding p k by (subst sum_words.simps) (simp add: unat_le16 ac_simps)
  next
    case False
    show ?thesis
    proof (cases "len > 0")
      case True
      with False have "len = 1" by simp
      then obtain b rest where "p = b # rest" using "1.prems"(1) by (cases p) auto
      then show ?thesis using \<open>len = 1\<close> by (subst sum_words.simps) simp
    next
      case False
      then show ?thesis by (simp add: sum_words.simps [of p])
    qed
  qed
qed

lemma sum_words_short: "length p < len \<Longrightarrow> sum_words p len acc = None"
proof (induction p len acc rule: sum_words.induct)
  case (1 p len acc)
  show ?case
  proof (cases "len > 1")
    case True
    then show ?thesis using 1 by (subst sum_words.simps) (auto split: list.splits)
  next
    case False
    then show ?thesis using "1.prems" by (subst sum_words.simps, cases p) auto
  qed
qed

lemma not_word16: "NOT w = of_nat (65535 - unat w)" for w :: u16
proof (rule word_unat_eq_iff [THEN iffD2])
  have "NOT w = - 1 - w" by (simp add: not_eq_complement)
  then have "unat (NOT w) = 65535 - unat w"
    using unat_minus_le [of w "- 1"] by (simp add: unsigned_minus_1_eq_mask mask_eq_exp_minus_1)
  then show "unat (NOT w) = unat (of_nat (65535 - unat w) :: u16)" by (simp add: unat_of_nat)
qed

definition checksum_of :: "nat \<Rightarrow> u16" where
  "checksum_of n = of_nat (65535 - ones_sum n)"

lemma unat_checksum_of: "unat (checksum_of n) = 65535 - ones_sum n"
  by (simp add: checksum_of_def unat_of_nat)

lemma checksum_of_zero_iff: "checksum_of n = 0 \<longleftrightarrow> ones_sum n = 65535"
  using ones_sum_le [of n] by (simp add: word_unat_eq_iff unat_checksum_of)

text \<open>Adding the checksum of a sum to the sum gives a sum whose checksum is zero.\<close>

lemma checksum_cancels: "checksum_of (n + unat (checksum_of n)) = 0"
proof -
  have "ones_sum (n + (65535 - ones_sum n)) = 65535"
  proof (cases "n = 0")
    case False
    then obtain m where m: "n = Suc m" by (cases n) auto
    define q r where "q = m div 65535" and "r = m mod 65535"
    have "m = 65535 * q + r" "r < 65535" by (simp_all add: q_def r_def)
    moreover have "ones_sum n = r + 1" by (simp add: ones_sum_def m r_def)
    ultimately have "n + (65535 - ones_sum n) = 65535 * q + 65535" using m by simp
    moreover have "(65534 + 65535 * q) mod 65535 = 65534" by (subst mod_mult_self2) simp
    ultimately show ?thesis by (simp add: ones_sum_def add.commute)
  qed (simp add: ones_sum_def)
  then show ?thesis by (simp add: checksum_of_zero_iff unat_checksum_of)
qed

lemma word_sum_append: "even (length xs) \<Longrightarrow> word_sum (xs @ ys) = word_sum xs + word_sum ys"
  by (induction xs rule: word_sum.induct) auto

lemma word_sum_field16: "word_sum (field16 w) = unat w"
proof -
  have "unat (drop_bit 8 w) < 256" using unat_below [of w] by (simp add: drop_bit_eq_div unat_div div_less_iff_less_mult)
  then show ?thesis
    by (simp add: field16_def unat_cast drop_bit_eq_div unat_div)
qed

lemma fold_checksum:
  assumes "n < 2 ^ 32"
  shows "NOT (ucast (fold_sum (of_nat (n))) :: u16) = checksum_of (n)"
proof -
  have "unat (fold_sum (of_nat (n))) = ones_sum (n)"
    using assms by (simp add: unat_fold_sum unat_of_nat)
  moreover from this have "unat (ucast (fold_sum (of_nat (n))) :: u16) = ones_sum (n)"
    using ones_sum_le [of "n"] by (simp add: unat_cast)
  ultimately show ?thesis by (simp add: not_word16 checksum_of_def)
qed

lemma ip_checksum_eq:
  "ip_checksum data len = (if unat len \<le> length data then Some (checksum_of (word_sum (take (unat len) data))) else None)"
proof (cases "unat len \<le> length data")
  case True
  have "word_sum (take (unat len) data) \<le> 65535 * ((unat len + 1) div 2)"
    using word_sum_bound [of "take (unat len) data"] True by simp
  also have "\<dots> < 2 ^ 32" using unat_below [of len] by simp
  finally have "word_sum (take (unat len) data) < 2 ^ 32" .
  then show ?thesis using True sum_words_spec [OF True, of 0] fold_checksum by (simp add: ip_checksum_def)
qed (simp add: ip_checksum_def sum_words_short)

text \<open>Conversion to network order puts the most significant byte first, and is its own inverse.\<close>

lemma byte_masks:
  "(0xFF :: u16) = mask 8" "(0xFF :: u32) = mask 8" "(0xFF00 :: u32) = push_bit 8 (mask 8)" "(0xFF0000 :: u32) = push_bit 16 (mask 8)"
  by (simp_all add: mask_eq_exp_minus_1)

lemma htons_bytes: "field16 (htons w) = [ucast (drop_bit 8 w), ucast w]"
  unfolding field16_def htons_def byte_masks by (auto intro!: bit_word_eqI simp: bit_simps)

lemma htons_htons [simp]: "htons (htons w) = w"
  unfolding htons_def byte_masks by (rule bit_word_eqI) (auto simp: bit_simps)

lemma bit_htonl:
  assumes "n < 32"
  shows "bit (htonl w) n = bit w (if n < 8 then n + 24 else if n < 16 then n + 8 else if n < 24 then n - 8 else n - 24)"
proof -
  have "n < 8 \<or> 8 \<le> n \<and> n < 16 \<or> 16 \<le> n \<and> n < 24 \<or> 24 \<le> n \<and> n < 32" using assms by auto
  then show ?thesis
    unfolding htonl_def byte_masks
    by (elim disjE conjE; simp add: bit_or_iff bit_and_iff bit_push_bit_iff bit_drop_bit_eq bit_mask_iff less_diff_conv2 not_le ac_simps)
qed

lemma htonl_htonl [simp]: "htonl (htonl w) = w"
  by (rule bit_word_eqI) (auto simp: bit_htonl)

lemma le16_field16: "le16 (ucast w) (ucast (drop_bit 8 w)) = w"
  unfolding le16_def by (rule bit_word_eqI) (auto simp: bit_simps)

subsection \<open>Properties\<close>

text \<open>
  C27. \<open>ip_checksum\<close> is the Internet checksum: the complement of the one's complement sum of the
  16-bit words in memory order, an odd last byte padded with zero; it is defined as long as the data
  are there.
\<close>

theorem ip_checksum_ones_complement:
  "ip_checksum data len =
     (if unat len \<le> length data then Some (of_nat (65535 - ones_sum (word_sum (take (unat len) data)))) else None)"
  by (simp add: ip_checksum_eq checksum_of_def)

text \<open>
  The header that \<open>ip_send\<close> builds passes the checksum test of \<open>ip_receive\<close> and reads back, in
  host order, as the addresses, the protocol and the total length it was built from.
\<close>

lemma ip_send_header:
  assumes "tcpip_initialized s"
  shows "\<exists>h. ip_send dest proto (Some data) len s = (0, Some h) \<and> length (ipv4_bytes h) = 20
     \<and> ip_checksum (ipv4_bytes h) 20 = Some 0
     \<and> ntohl (get32 (ipv4_bytes h) 12) = tcpip_get_local_ip s \<and> ntohl (get32 (ipv4_bytes h) 16) = dest
     \<and> ntohs (get16 (ipv4_bytes h) 2) = 20 + len \<and> ipv4_bytes h ! 9 = proto"
proof -
  let ?hdr = "ip_header (ni_ip_addr (net_iface s)) dest proto len"
  let ?c = "checksum_of (word_sum (ipv4_bytes ?hdr))"
  let ?h = "?hdr\<lparr>ih_checksum := ?c\<rparr>"
  have len: "length (ipv4_bytes h) = 20" for h by (simp add: ipv4_bytes_def field16_def field32_def)
  have sum: "ip_checksum (ipv4_bytes h) 20 = Some (checksum_of (word_sum (ipv4_bytes h)))" for h
    using len [of h] by (simp add: ip_checksum_eq)
  have split: "word_sum (ipv4_bytes (h\<lparr>ih_checksum := c\<rparr>)) = word_sum (ipv4_bytes (h\<lparr>ih_checksum := 0\<rparr>)) + unat c" for h c
    unfolding ipv4_bytes_def by (simp add: field16_def field32_def word_sum_field16 [unfolded field16_def, simplified])
  have "?hdr = ?hdr\<lparr>ih_checksum := 0\<rparr>" by (simp add: ip_header_def)
  then have "word_sum (ipv4_bytes ?h) = word_sum (ipv4_bytes ?hdr) + unat ?c" using split [where h = ?hdr and c = ?c] by simp
  then have ok: "ip_checksum (ipv4_bytes ?h) 20 = Some 0" using sum checksum_cancels by simp
  have "ip_send dest proto (Some data) len s = (0, Some ?h)" using assms sum by (simp add: ip_send_def Let_def)
  moreover have "get32 (ipv4_bytes ?h) 12 = htonl (ni_ip_addr (net_iface s))" "get32 (ipv4_bytes ?h) 16 = htonl dest"
    "get16 (ipv4_bytes ?h) 2 = htons (20 + len)" "ipv4_bytes ?h ! 9 = proto"
    by (simp_all add: get32_def get16_def ipv4_bytes_def field16_def field32_def ip_header_def le32_bytes32 le16_field16)
  ultimately show ?thesis using len ok by (auto simp: ntohl_def ntohs_def tcpip_get_local_ip_def)
qed

definition demo_net :: netbase where
  "demo_net = \<lparr>net_iface = \<lparr>ni_mac_addr = [2, 0, 0, 0, 0, 1], ni_ip_addr = 0x0A000002, ni_netmask = 0xFFFFFF00,
     ni_gateway = 0x0A000001, ni_up = True\<rparr>, tcpip_initialized = True\<rparr>"

text \<open>Dotted decimal notation: groups of digits separated by dots.\<close>

definition digit_char :: "nat \<Rightarrow> u8" where
  "digit_char d = 0x30 + of_nat d"

definition digits_value :: "nat list \<Rightarrow> int \<Rightarrow> int" where
  "digits_value ds v = foldl (\<lambda>v d. v * 10 + int d) v ds"

fun dotted :: "nat list list \<Rightarrow> u8 list" where
  "dotted [] = []"
| "dotted [g] = map digit_char g"
| "dotted (g # gs) = map digit_char g @ 0x2E # dotted gs"

lemma digits_value_simps [simp]:
  "digits_value [] v = v"
  "digits_value (d # ds) v = digits_value ds (v * 10 + int d)"
  by (simp_all add: digits_value_def)

lemma digits_value_ge: "0 \<le> v \<Longrightarrow> v \<le> digits_value ds v"
proof (induction ds arbitrary: v)
  case (Cons d ds)
  then have "v * 10 + int d \<le> digits_value ds (v * 10 + int d)" by simp
  then show ?case using Cons.prems by simp
qed simp

lemma parse_digits:
  assumes "\<forall>d \<in> set ds. d < 10" and "idx < 4" and "0 \<le> num"
  shows "num \<le> INT_MAX \<Longrightarrow> parse_octets (map digit_char ds @ cs) octets idx num =
    (if digits_value ds num \<le> INT_MAX then parse_octets cs octets idx (digits_value ds num) else None)"
  using assms
proof (induction ds arbitrary: num)
  case (Cons d ds)
  have d: "d < 10" using Cons.prems by simp
  then have u: "unat (digit_char d) = 48 + d" by (simp add: digit_char_def unat_plus unat_of_nat)
  have "digit_char d \<noteq> 0" using u by auto
  moreover have "0x30 \<le> digit_char d" "digit_char d \<le> 0x39" using d by (simp_all add: word_le_nat_alt u)
  moreover have "uint (digit_char d) = 0x30 + int d" unfolding uint_nat u by simp
  moreover have "num * 10 + int d \<le> digits_value ds (num * 10 + int d)"
    using Cons.prems by (intro digits_value_ge) simp
  ultimately show ?case using Cons by (auto simp: Let_def)
qed simp

lemma parse_dot: "idx < 4 \<Longrightarrow> parse_octets (0x2E # cs) octets idx num = parse_octets cs (octets[idx := of_int num]) (Suc idx) 0"
  by (simp add: word_le_nat_alt)



end
