(* ===== verification/Tcp.thy ===== *)
theory Tcp
  imports Net Ring "HOL-Library.Monad_Syntax"
begin

unbundle bit_operations_syntax

text \<open>
  TCP, \<open>kernel/net/tcp.c\<close>. A \<open>tcp_cb_t *\<close> is an index into \<open>tcp_connections\<close>. What the code gets
  from outside during one call is a record \<open>net_env\<close>: the tick counter and the answers of \<open>kmalloc\<close>
  (the bytes of the block, or \<open>None\<close> for a null pointer). Every packet handed to \<open>ip_send_packet\<close> is
  appended to \<open>tcp_out\<close>. Reads past the end of a packet and stores through a null buffer are the
  result \<open>None\<close>. Console output is left out.
\<close>

subsection \<open>Data\<close>

abbreviation (input) "TCP_MAX_CONNECTIONS \<equiv> (64 :: nat)"
abbreviation (input) "TCP_BUFFER_SIZE \<equiv> (65536 :: u32)"
abbreviation (input) "TCP_MSS \<equiv> (1460 :: u32)"
abbreviation (input) "TCP_SYN_TIMEOUT \<equiv> (3000 :: u32)"
abbreviation (input) "TCP_TIME_WAIT \<equiv> (60000 :: u32)"
abbreviation (input) "TCP_FLAG_FIN \<equiv> (0x01 :: u8)"
abbreviation (input) "TCP_FLAG_SYN \<equiv> (0x02 :: u8)"
abbreviation (input) "TCP_FLAG_RST \<equiv> (0x04 :: u8)"
abbreviation (input) "TCP_FLAG_PSH \<equiv> (0x08 :: u8)"
abbreviation (input) "TCP_FLAG_ACK \<equiv> (0x10 :: u8)"
abbreviation (input) "IP_PROTO_TCP \<equiv> (6 :: u8)"

datatype tcp_state =
    TCP_STATE_CLOSED | TCP_STATE_LISTEN | TCP_STATE_SYN_SENT | TCP_STATE_SYN_RECEIVED | TCP_STATE_ESTABLISHED
  | TCP_STATE_FIN_WAIT_1 | TCP_STATE_FIN_WAIT_2 | TCP_STATE_CLOSE_WAIT | TCP_STATE_CLOSING | TCP_STATE_LAST_ACK
  | TCP_STATE_TIME_WAIT

record tcp_cb =
  in_use :: bool
  cb_state :: tcp_state
  local_ip :: u32
  local_port :: u16
  remote_ip :: u32
  remote_port :: u16
  snd_una :: u32
  snd_nxt :: u32
  snd_wnd :: u32
  rcv_nxt :: u32
  rcv_wnd :: u32
  iss :: u32
  irs :: u32
  recv_buffer :: "u8 list option"
  recv_head :: u32
  recv_tail :: u32
  recv_count :: u32
  send_buffer :: "u8 list option"
  send_head :: u32
  send_tail :: u32
  send_count :: u32
  rto :: u32
  last_tx_time :: u32
  retries :: int
  time_wait_start :: u32
  parent_socket :: int
  backlog :: int
  pending_connections :: "int list"
  pending_count :: int

record tcp_stats =
  segments_sent :: u32
  segments_received :: u32
  connections_opened :: u32
  connections_closed :: u32
  retransmissions :: u32
  tcp_errors :: u32

record tcp =
  tcp_connections :: "nat \<Rightarrow> tcp_cb"
  tcp_initialized :: bool
  next_ephemeral_port :: u16
  iss_counter :: u32
  stats :: tcp_stats
  tcp_net :: netbase
  tcp_out :: "(u32 \<times> u8 list) list"
  tcp_allocs :: nat

text \<open>
  The environment of a call: the ticks it reads, and what \<open>kmalloc\<close> answers. The first argument of
  \<open>env_kmalloc\<close> numbers the request, so that each request of a call has an answer of its own;
  \<open>tcp_allocs\<close> counts the requests made so far and is read by nothing else.
\<close>

record net_env =
  env_ticks :: u32
  env_kmalloc :: "nat \<Rightarrow> u32 \<Rightarrow> u8 list option"

definition tcp_kmalloc :: "net_env \<Rightarrow> u32 \<Rightarrow> tcp \<Rightarrow> u8 list option \<times> tcp" where
  "tcp_kmalloc env n s = (env_kmalloc env (tcp_allocs s) n, s\<lparr>tcp_allocs := Suc (tcp_allocs s)\<rparr>)"

definition upd_cb :: "(tcp_cb \<Rightarrow> tcp_cb) \<Rightarrow> nat \<Rightarrow> tcp \<Rightarrow> tcp" where
  "upd_cb f i s = s\<lparr>tcp_connections := (tcp_connections s)(i := f (tcp_connections s i))\<rparr>"

definition upd_tcp_stats :: "(tcp_stats \<Rightarrow> tcp_stats) \<Rightarrow> tcp \<Rightarrow> tcp" where
  "upd_tcp_stats f s = s\<lparr>stats := f (stats s)\<rparr>"

definition flag :: "u8 \<Rightarrow> u8 \<Rightarrow> bool" where
  "flag flags f \<longleftrightarrow> flags AND f \<noteq> 0"

text \<open>The control block after \<open>tcp_memset (tcb, 0, sizeof (tcp_cb_t))\<close>.\<close>

definition zero_cb :: tcp_cb where
  "zero_cb = \<lparr>in_use = False, cb_state = TCP_STATE_CLOSED, local_ip = 0, local_port = 0, remote_ip = 0, remote_port = 0,
     snd_una = 0, snd_nxt = 0, snd_wnd = 0, rcv_nxt = 0, rcv_wnd = 0, iss = 0, irs = 0,
     recv_buffer = None, recv_head = 0, recv_tail = 0, recv_count = 0,
     send_buffer = None, send_head = 0, send_tail = 0, send_count = 0,
     rto = 0, last_tx_time = 0, retries = 0, time_wait_start = 0, parent_socket = 0, backlog = 0,
     pending_connections = replicate 16 0, pending_count = 0\<rparr>"

subsection \<open>Utility functions\<close>

definition tcp_generate_iss :: "net_env \<Rightarrow> tcp \<Rightarrow> u32 \<times> tcp" where
  "tcp_generate_iss env s =
     (let i = iss_counter s + (env_ticks env + 64000) in (i, s\<lparr>iss_counter := i\<rparr>))"

definition seq_lt :: "u32 \<Rightarrow> u32 \<Rightarrow> bool" where
  "seq_lt a b \<longleftrightarrow> sint (a - b) < 0"

definition seq_le :: "u32 \<Rightarrow> u32 \<Rightarrow> bool" where
  "seq_le a b \<longleftrightarrow> sint (a - b) \<le> 0"

definition seq_gt :: "u32 \<Rightarrow> u32 \<Rightarrow> bool" where
  "seq_gt a b \<longleftrightarrow> sint (a - b) > 0"

definition pseudo_sum :: "u32 \<Rightarrow> u32 \<Rightarrow> u16 \<Rightarrow> u32" where
  "pseudo_sum src dst len =
     (drop_bit 16 src AND 0xFFFF) + (src AND 0xFFFF) + (drop_bit 16 dst AND 0xFFFF) + (dst AND 0xFFFF)
     + ucast (htons 6) + ucast (htons len)"

definition tcp_checksum :: "u32 \<Rightarrow> u32 \<Rightarrow> u8 list \<Rightarrow> u16 \<Rightarrow> u16 option" where
  "tcp_checksum src dst packet len =
     map_option (\<lambda>s. NOT (ucast (fold_sum s))) (sum_words packet (unat len) (pseudo_sum src dst len))"

subsection \<open>Segments\<close>

record tcp_header =
  th_src_port :: u16
  th_dest_port :: u16
  th_seq_num :: u32
  th_ack_num :: u32
  th_data_offset :: u8
  th_flags :: u8
  th_window :: u16
  th_checksum :: u16
  th_urgent_ptr :: u16

definition tcp_header_bytes :: "tcp_header \<Rightarrow> u8 list" where
  "tcp_header_bytes h = field16 (th_src_port h) @ field16 (th_dest_port h) @ bytes32 (th_seq_num h) @ bytes32 (th_ack_num h)
     @ [th_data_offset h, th_flags h] @ field16 (th_window h) @ field16 (th_checksum h) @ field16 (th_urgent_ptr h)"

definition segment_header :: "tcp_cb \<Rightarrow> u8 \<Rightarrow> tcp_header" where
  "segment_header cb flags =
     \<lparr>th_src_port = htons (local_port cb), th_dest_port = htons (remote_port cb), th_seq_num = htonl (snd_nxt cb),
      th_ack_num = htonl (rcv_nxt cb), th_data_offset = push_bit 4 5, th_flags = flags,
      th_window = htons (ucast (rcv_wnd cb)), th_checksum = 0, th_urgent_ptr = 0\<rparr>"

definition tcp_segment :: "tcp_cb \<Rightarrow> u8 \<Rightarrow> u8 list \<Rightarrow> u8 list" where
  "tcp_segment cb flags payload =
     (let h = segment_header cb flags;
          c = the (tcp_checksum (local_ip cb) (remote_ip cb) (tcp_header_bytes h @ payload) (of_nat (20 + length payload)))
      in tcp_header_bytes (h\<lparr>th_checksum := c\<rparr>) @ payload)"

text \<open>A packet handed to the IP layer.\<close>

definition emit :: "u32 \<Rightarrow> u8 list \<Rightarrow> tcp \<Rightarrow> tcp" where
  "emit dest packet s = s\<lparr>tcp_out := tcp_out s @ [(dest, packet)]\<rparr>"

definition tcp_send_segment :: "net_env \<Rightarrow> nat \<Rightarrow> u8 \<Rightarrow> u8 list \<Rightarrow> tcp \<Rightarrow> int \<times> tcp" where
  "tcp_send_segment env i flags payload s =
     (let cb = tcp_connections s i; len = of_nat (length payload) :: u16; total = 20 + len
      in case tcp_kmalloc env (ucast total) s of
           (None, s0) \<Rightarrow> (- 1, s0)
         | (Some _, s0) \<Rightarrow>
             let packet = tcp_segment cb flags payload;
                 ret = ip_send_packet (remote_ip cb) IP_PROTO_TCP (Some packet) total (tcp_net s0);
                 s1 = emit (remote_ip cb) packet s0
             in if ret = 0 then
                  (ret, upd_tcp_stats (\<lambda>t. t\<lparr>segments_sent := segments_sent t + 1\<rparr>)
                     (upd_cb (\<lambda>cb. cb\<lparr>last_tx_time := env_ticks env,
                        snd_nxt := snd_nxt cb + ucast len + (if flag flags TCP_FLAG_SYN then 1 else 0)
                          + (if flag flags TCP_FLAG_FIN then 1 else 0)\<rparr>) i s1))
                else (ret, s1))"

definition tcp_send_rst :: "u32 \<Rightarrow> u16 \<Rightarrow> u32 \<Rightarrow> u16 \<Rightarrow> u32 \<Rightarrow> u32 \<Rightarrow> tcp \<Rightarrow> int \<times> tcp" where
  "tcp_send_rst src sport dst dport seq ack s =
     (let h = \<lparr>th_src_port = htons sport, th_dest_port = htons dport, th_seq_num = htonl seq, th_ack_num = htonl ack,
               th_data_offset = push_bit 4 5, th_flags = TCP_FLAG_RST OR TCP_FLAG_ACK, th_window = 0,
               th_checksum = 0, th_urgent_ptr = 0\<rparr>;
          packet = tcp_header_bytes (h\<lparr>th_checksum := the (tcp_checksum src dst (tcp_header_bytes h) 20)\<rparr>)
      in (ip_send_packet dst IP_PROTO_TCP (Some packet) 20 (tcp_net s), emit dst packet s))"

subsection \<open>Connections\<close>

definition tcp_init :: "tcp \<Rightarrow> int \<times> tcp" where
  "tcp_init s =
     (if tcp_initialized s then (0, s)
      else (0, (for_range 0 TCP_MAX_CONNECTIONS (upd_cb (\<lambda>_. zero_cb\<lparr>cb_state := TCP_STATE_CLOSED\<rparr>)) s)\<lparr>tcp_initialized := True\<rparr>))"

definition port_used :: "tcp \<Rightarrow> u16 \<Rightarrow> bool" where
  "port_used s port \<longleftrightarrow>
     first_from (\<lambda>i. in_use (tcp_connections s i) \<and> local_port (tcp_connections s i) = port) 0 TCP_MAX_CONNECTIONS \<noteq> None"

partial_function (option) tcp_alloc_port :: "tcp \<Rightarrow> (u16 \<times> tcp) option" where
  "tcp_alloc_port s =
     (let port = next_ephemeral_port s;
          s1 = s\<lparr>next_ephemeral_port := (if port + 1 = 0 then 49152 else port + 1)\<rparr>
      in if port_used s1 port then tcp_alloc_port s1 else Some (port, s1))"

definition tcp_find_connection :: "u32 \<Rightarrow> u16 \<Rightarrow> u32 \<Rightarrow> u16 \<Rightarrow> tcp \<Rightarrow> nat option" where
  "tcp_find_connection lip lport rip rport s =
     (case first_from (\<lambda>i. let cb = tcp_connections s i in
             in_use cb \<and> local_port cb = lport \<and> remote_port cb = rport
             \<and> (local_ip cb = lip \<or> local_ip cb = 0) \<and> remote_ip cb = rip) 0 TCP_MAX_CONNECTIONS of
        Some i \<Rightarrow> Some i
      | None \<Rightarrow>
          first_from (\<lambda>i. let cb = tcp_connections s i in
             in_use cb \<and> cb_state cb = TCP_STATE_LISTEN \<and> local_port cb = lport
             \<and> (local_ip cb = lip \<or> local_ip cb = 0)) 0 TCP_MAX_CONNECTIONS)"

definition tcp_alloc_tcb :: "tcp \<Rightarrow> (nat \<times> tcp) option" where
  "tcp_alloc_tcb s =
     (case first_from (\<lambda>i. \<not> in_use (tcp_connections s i)) 0 TCP_MAX_CONNECTIONS of
        Some i \<Rightarrow> Some (i, upd_cb (\<lambda>_. zero_cb\<lparr>in_use := True, cb_state := TCP_STATE_CLOSED, rcv_wnd := 65535,
                                     rto := 1000, parent_socket := - 1\<rparr>) i s)
      | None \<Rightarrow> None)"

text \<open>The two buffers of a new control block; when either request fails the block is given back.\<close>

definition alloc_buffers :: "net_env \<Rightarrow> nat \<Rightarrow> tcp \<Rightarrow> bool \<times> tcp" where
  "alloc_buffers env i s =
     (let (rbuf, s1) = tcp_kmalloc env TCP_BUFFER_SIZE s;
          (sbuf, s2) = tcp_kmalloc env TCP_BUFFER_SIZE s1;
          s3 = upd_cb (\<lambda>cb. cb\<lparr>recv_buffer := rbuf, send_buffer := sbuf\<rparr>) i s2
      in if rbuf = None \<or> sbuf = None
         then (False, upd_cb (in_use_update (\<lambda>_. False)) i s3) else (True, s3))"

subsection \<open>Socket interface\<close>

definition sock_ok :: "int \<Rightarrow> bool" where
  "sock_ok sockfd \<longleftrightarrow> \<not> (sockfd < 0 \<or> sockfd \<ge> int TCP_MAX_CONNECTIONS)"

definition tcp_socket :: "net_env \<Rightarrow> tcp \<Rightarrow> int \<times> tcp" where
  "tcp_socket env s =
     (case tcp_alloc_tcb s of
        None \<Rightarrow> (- 1, s)
      | Some (i, s1) \<Rightarrow> (case alloc_buffers env i s1 of (ok, s2) \<Rightarrow> if ok then (int i, s2) else (- 1, s2)))"

definition tcp_bind :: "int \<Rightarrow> u16 \<Rightarrow> tcp \<Rightarrow> (int \<times> tcp) option" where
  "tcp_bind sockfd port s =
     (if \<not> sock_ok sockfd then Some (- 1, s)
      else
        let i = nat sockfd; cb = tcp_connections s i
        in if \<not> in_use cb \<or> cb_state cb \<noteq> TCP_STATE_CLOSED then Some (- 1, s)
           else if first_from (\<lambda>j. j \<noteq> i \<and> in_use (tcp_connections s j) \<and> local_port (tcp_connections s j) = port)
                     0 TCP_MAX_CONNECTIONS \<noteq> None then Some (- 1, s)
           else
             let s1 = upd_cb (\<lambda>cb. cb\<lparr>local_ip := tcpip_get_local_ip (tcp_net s)\<rparr>) i s
             in do { (p, s2) \<leftarrow> (if port \<noteq> 0 then Some (port, s1) else tcp_alloc_port s1);
                     Some (0, upd_cb (\<lambda>cb. cb\<lparr>local_port := p\<rparr>) i s2) })"

definition tcp_listen :: "int \<Rightarrow> int \<Rightarrow> tcp \<Rightarrow> int \<times> tcp" where
  "tcp_listen sockfd blog s =
     (if \<not> sock_ok sockfd then (- 1, s)
      else
        let i = nat sockfd; cb = tcp_connections s i
        in if \<not> in_use cb \<or> cb_state cb \<noteq> TCP_STATE_CLOSED then (- 1, s)
           else if local_port cb = 0 then (- 1, s)
           else (0, upd_cb (\<lambda>cb. cb\<lparr>backlog := (if blog > 16 then 16 else blog), cb_state := TCP_STATE_LISTEN\<rparr>) i s))"

definition tcp_accept :: "int \<Rightarrow> tcp \<Rightarrow> int \<times> tcp" where
  "tcp_accept sockfd s =
     (if \<not> sock_ok sockfd then (- 1, s)
      else
        let i = nat sockfd; cb = tcp_connections s i
        in if \<not> in_use cb \<or> cb_state cb \<noteq> TCP_STATE_LISTEN then (- 1, s)
           else if pending_count cb = 0 then (- 1, s)
           else (pending_connections cb ! 0,
                 upd_cb (\<lambda>cb. cb\<lparr>pending_connections :=
                            for_range 0 (nat (pending_count cb - 1)) (\<lambda>k l. l[k := l ! (k + 1)]) (pending_connections cb),
                          pending_count := pending_count cb - 1\<rparr>) i s))"

text \<open>
  \<open>tcp_connect\<close> sends a SYN and then watches its own state and the clock. What interrupts do to the
  state in the \<open>k\<close>-th round of the loop is \<open>irq k\<close>, the ticks read there are \<open>clock k\<close>.
\<close>

partial_function (option) tcp_connect_wait ::
  "(nat \<Rightarrow> tcp \<Rightarrow> tcp) \<Rightarrow> (nat \<Rightarrow> u32) \<Rightarrow> u32 \<Rightarrow> nat \<Rightarrow> nat \<Rightarrow> tcp \<Rightarrow> (int \<times> tcp) option" where
  "tcp_connect_wait irq clock start i k s =
     (if cb_state (tcp_connections s i) = TCP_STATE_SYN_SENT then
        if clock k - start > TCP_SYN_TIMEOUT
        then Some (- 1, upd_cb (\<lambda>cb. cb\<lparr>cb_state := TCP_STATE_CLOSED\<rparr>) i s)
        else tcp_connect_wait irq clock start i (Suc k) (irq k s)
      else Some (if cb_state (tcp_connections s i) = TCP_STATE_ESTABLISHED then 0 else - 1, s))"

definition tcp_connect_syn :: "net_env \<Rightarrow> nat \<Rightarrow> u32 \<Rightarrow> u16 \<Rightarrow> tcp \<Rightarrow> tcp" where
  "tcp_connect_syn env i rip rport s =
     (let s1 = upd_cb (\<lambda>cb. cb\<lparr>remote_ip := rip, remote_port := rport\<rparr>) i s;
          (n, s2) = tcp_generate_iss env s1;
          s3 = upd_cb (\<lambda>cb. cb\<lparr>iss := n, snd_una := n, snd_nxt := n, cb_state := TCP_STATE_SYN_SENT\<rparr>) i s2;
          s4 = snd (tcp_send_segment env i TCP_FLAG_SYN [] s3)
      in upd_tcp_stats (\<lambda>t. t\<lparr>connections_opened := connections_opened t + 1\<rparr>) s4)"

definition tcp_connect ::
  "net_env \<Rightarrow> (nat \<Rightarrow> tcp \<Rightarrow> tcp) \<Rightarrow> (nat \<Rightarrow> u32) \<Rightarrow> int \<Rightarrow> u32 \<Rightarrow> u16 \<Rightarrow> tcp \<Rightarrow> (int \<times> tcp) option" where
  "tcp_connect env irq clock sockfd rip rport s =
     (if \<not> sock_ok sockfd then Some (- 1, s)
      else
        let i = nat sockfd; cb = tcp_connections s i
        in if \<not> in_use cb \<or> cb_state cb \<noteq> TCP_STATE_CLOSED then Some (- 1, s)
           else do {
             s1 \<leftarrow> (if local_port cb = 0 then
                    let s' = upd_cb (\<lambda>cb. cb\<lparr>local_ip := tcpip_get_local_ip (tcp_net s)\<rparr>) i s
                    in do { (p, s'') \<leftarrow> tcp_alloc_port s'; Some (upd_cb (\<lambda>cb. cb\<lparr>local_port := p\<rparr>) i s'') }
                  else Some s);
             tcp_connect_wait irq clock (env_ticks env) i 0 (tcp_connect_syn env i rip rport s1) })"

text \<open>One round of each of the four byte loops on the circular buffers.\<close>

definition send_push :: "u8 \<Rightarrow> tcp_cb \<Rightarrow> tcp_cb option" where
  "send_push b cb =
     (case send_buffer cb of
        None \<Rightarrow> None
      | Some buf \<Rightarrow> Some (cb\<lparr>send_buffer := Some (buf[unat (send_tail cb) := b]),
                             send_tail := (send_tail cb + 1) mod TCP_BUFFER_SIZE\<rparr>))"

definition recv_push :: "u8 \<Rightarrow> tcp_cb \<Rightarrow> tcp_cb option" where
  "recv_push b cb =
     (case recv_buffer cb of
        None \<Rightarrow> None
      | Some buf \<Rightarrow> Some (cb\<lparr>recv_buffer := Some (buf[unat (recv_tail cb) := b]),
                             recv_tail := (recv_tail cb + 1) mod TCP_BUFFER_SIZE\<rparr>))"

fun push_all :: "(u8 \<Rightarrow> tcp_cb \<Rightarrow> tcp_cb option) \<Rightarrow> u8 list \<Rightarrow> tcp_cb \<Rightarrow> tcp_cb option" where
  "push_all f [] cb = Some cb"
| "push_all f (b # bs) cb = do { cb1 \<leftarrow> f b cb; push_all f bs cb1 }"

fun send_pop :: "nat \<Rightarrow> tcp_cb \<Rightarrow> (u8 list \<times> tcp_cb) option" where
  "send_pop 0 cb = Some ([], cb)"
| "send_pop (Suc n) cb =
     (case send_buffer cb of
        None \<Rightarrow> None
      | Some buf \<Rightarrow> do {
          (bs, cb1) \<leftarrow> send_pop n (cb\<lparr>send_head := (send_head cb + 1) mod TCP_BUFFER_SIZE\<rparr>);
          Some (buf ! unat (send_head cb) # bs, cb1) })"

fun recv_pop :: "nat \<Rightarrow> tcp_cb \<Rightarrow> (u8 list \<times> tcp_cb) option" where
  "recv_pop 0 cb = Some ([], cb)"
| "recv_pop (Suc n) cb =
     (case recv_buffer cb of
        None \<Rightarrow> None
      | Some buf \<Rightarrow> do {
          (bs, cb1) \<leftarrow> recv_pop n (cb\<lparr>recv_head := (recv_head cb + 1) mod TCP_BUFFER_SIZE\<rparr>);
          Some (buf ! unat (recv_head cb) # bs, cb1) })"

partial_function (option) tcp_flush :: "net_env \<Rightarrow> nat \<Rightarrow> tcp \<Rightarrow> tcp option" where
  "tcp_flush env i s =
     (let cb = tcp_connections s i
      in if send_count cb > 0 then
           let seg_len = (if send_count cb > TCP_MSS then TCP_MSS else send_count cb)
           in do {
             (seg_data, cb1) \<leftarrow> send_pop (unat seg_len) cb;
             let s1 = upd_cb (\<lambda>_. cb1\<lparr>send_count := send_count cb1 - seg_len\<rparr>) i s;
                 s2 = snd (tcp_send_segment env i (TCP_FLAG_ACK OR TCP_FLAG_PSH) seg_data s1)
             in tcp_flush env i s2 }
         else Some s)"

definition tcp_write :: "net_env \<Rightarrow> int \<Rightarrow> u8 list option \<Rightarrow> u16 \<Rightarrow> tcp \<Rightarrow> (int \<times> tcp) option" where
  "tcp_write env sockfd data len s =
     (if \<not> sock_ok sockfd then Some (- 1, s)
      else if data = None \<or> len = 0 then Some (- 1, s)
      else
        let i = nat sockfd; cb = tcp_connections s i
        in if \<not> in_use cb \<or> cb_state cb \<noteq> TCP_STATE_ESTABLISHED then Some (- 1, s)
           else
             let space = TCP_BUFFER_SIZE - send_count cb;
                 to_send = ucast (if ucast len < space then ucast len else space) :: u16
             in if length (the data) < unat to_send then None
                else do {
                  cb1 \<leftarrow> push_all send_push (take (unat to_send) (the data)) cb;
                  s2 \<leftarrow> tcp_flush env i (upd_cb (\<lambda>_. cb1\<lparr>send_count := send_count cb1 + ucast to_send\<rparr>) i s);
                  Some (uint to_send, s2) })"

text \<open>The result of \<open>tcp_read\<close> holds the bytes it stores in the caller's buffer.\<close>

definition tcp_read :: "int \<Rightarrow> bool \<Rightarrow> u16 \<Rightarrow> tcp \<Rightarrow> (int \<times> u8 list \<times> tcp) option" where
  "tcp_read sockfd buffer_null max_length s =
     (if \<not> sock_ok sockfd then Some (- 1, [], s)
      else if buffer_null \<or> max_length = 0 then Some (- 1, [], s)
      else
        let i = nat sockfd; cb = tcp_connections s i
        in if \<not> in_use cb then Some (- 1, [], s)
           else if cb_state cb \<notin> {TCP_STATE_ESTABLISHED, TCP_STATE_FIN_WAIT_1, TCP_STATE_FIN_WAIT_2, TCP_STATE_CLOSE_WAIT}
                   \<and> recv_count cb = 0 then Some (- 1, [], s)
           else
             let to_read = ucast (if recv_count cb < ucast max_length then recv_count cb else ucast max_length) :: u16
             in do {
               (bs, cb1) \<leftarrow> recv_pop (unat to_read) cb;
               let n = recv_count cb1 - ucast to_read
               in Some (uint to_read, bs,
                    upd_cb (\<lambda>_. cb1\<lparr>recv_count := n, rcv_wnd := TCP_BUFFER_SIZE - n\<rparr>) i s) })"

text \<open>Freeing the buffers and clearing the control block.\<close>

definition release_cb :: "nat \<Rightarrow> tcp \<Rightarrow> tcp" where
  "release_cb i s = upd_tcp_stats (\<lambda>t. t\<lparr>connections_closed := connections_closed t + 1\<rparr>) (upd_cb (\<lambda>_. zero_cb) i s)"

definition tcp_close_socket :: "net_env \<Rightarrow> int \<Rightarrow> tcp \<Rightarrow> int \<times> tcp" where
  "tcp_close_socket env sockfd s =
     (if \<not> sock_ok sockfd then (- 1, s)
      else
        let i = nat sockfd; cb = tcp_connections s i
        in if \<not> in_use cb then (- 1, s)
           else
             let fin = snd (tcp_send_segment env i (TCP_FLAG_FIN OR TCP_FLAG_ACK) [] s);
                 s1 = (case cb_state cb of
                         TCP_STATE_SYN_SENT \<Rightarrow> upd_cb (\<lambda>cb. cb\<lparr>cb_state := TCP_STATE_CLOSED\<rparr>) i s
                       | TCP_STATE_SYN_RECEIVED \<Rightarrow> upd_cb (\<lambda>cb. cb\<lparr>cb_state := TCP_STATE_FIN_WAIT_1\<rparr>) i fin
                       | TCP_STATE_ESTABLISHED \<Rightarrow> upd_cb (\<lambda>cb. cb\<lparr>cb_state := TCP_STATE_FIN_WAIT_1\<rparr>) i fin
                       | TCP_STATE_CLOSE_WAIT \<Rightarrow> upd_cb (\<lambda>cb. cb\<lparr>cb_state := TCP_STATE_LAST_ACK\<rparr>) i fin
                       | _ \<Rightarrow> s)
             in (0, if cb_state (tcp_connections s1 i) = TCP_STATE_CLOSED then release_cb i s1 else s1))"

subsection \<open>Input\<close>

text \<open>What \<open>tcp_receive\<close> reads from the header, in host order.\<close>

record segment =
  sg_src_ip :: u32
  sg_dest_ip :: u32
  sg_src_port :: u16
  sg_dest_port :: u16
  sg_seq :: u32
  sg_ack :: u32
  sg_flags :: u8
  sg_window :: u16
  sg_data :: "u8 list"
  sg_data_len :: u16

definition read_segment :: "u32 \<Rightarrow> u32 \<Rightarrow> u8 list \<Rightarrow> u16 \<Rightarrow> segment" where
  "read_segment src dst packet len =
     (let header_len = drop_bit 4 (packet ! 12) * 4 :: u8
      in \<lparr>sg_src_ip = src, sg_dest_ip = dst, sg_src_port = ntohs (get16 packet 0), sg_dest_port = ntohs (get16 packet 2),
          sg_seq = ntohl (get32 packet 4), sg_ack = ntohl (get32 packet 8), sg_flags = packet ! 13,
          sg_window = ntohs (get16 packet 14), sg_data = drop (unat header_len) packet,
          sg_data_len = len - ucast header_len\<rparr>)"

definition reply_rst :: "segment \<Rightarrow> u32 \<Rightarrow> tcp \<Rightarrow> tcp" where
  "reply_rst g ack s =
     (if \<not> flag (sg_flags g) TCP_FLAG_RST
      then snd (tcp_send_rst (sg_dest_ip g) (sg_dest_port g) (sg_src_ip g) (sg_src_port g) (sg_ack g) ack s) else s)"

definition set_state :: "tcp_state \<Rightarrow> nat \<Rightarrow> tcp \<Rightarrow> tcp" where
  "set_state st i s = upd_cb (\<lambda>cb. cb\<lparr>cb_state := st\<rparr>) i s"

definition enter_time_wait :: "net_env \<Rightarrow> nat \<Rightarrow> tcp \<Rightarrow> tcp" where
  "enter_time_wait env i s = upd_cb (\<lambda>cb. cb\<lparr>cb_state := TCP_STATE_TIME_WAIT, time_wait_start := env_ticks env\<rparr>) i s"

definition input_listen :: "net_env \<Rightarrow> segment \<Rightarrow> nat \<Rightarrow> tcp \<Rightarrow> tcp" where
  "input_listen env g i s =
     (if \<not> flag (sg_flags g) TCP_FLAG_SYN then s
      else case tcp_alloc_tcb s of
        None \<Rightarrow> s
      | Some (j, s1) \<Rightarrow>
          (case alloc_buffers env j s1 of
             (False, s2) \<Rightarrow> s2
           | (True, s2) \<Rightarrow>
               let (n, s3) = tcp_generate_iss env s2;
                   s4 = upd_cb (\<lambda>cb. cb\<lparr>local_ip := sg_dest_ip g, local_port := sg_dest_port g, remote_ip := sg_src_ip g,
                          remote_port := sg_src_port g, parent_socket := int i, irs := sg_seq g, rcv_nxt := sg_seq g + 1,
                          iss := n, snd_una := n, snd_nxt := n, snd_wnd := ucast (sg_window g),
                          cb_state := TCP_STATE_SYN_RECEIVED\<rparr>) j s3;
                   s5 = snd (tcp_send_segment env j (TCP_FLAG_SYN OR TCP_FLAG_ACK) [] s4);
                   s6 = upd_cb (\<lambda>cb. if pending_count cb < backlog cb
                          then cb\<lparr>pending_connections := (pending_connections cb)[nat (pending_count cb) := int j],
                                  pending_count := pending_count cb + 1\<rparr> else cb) i s5
               in upd_tcp_stats (\<lambda>t. t\<lparr>connections_opened := connections_opened t + 1\<rparr>) s6))"

definition input_syn_sent :: "net_env \<Rightarrow> segment \<Rightarrow> nat \<Rightarrow> tcp \<Rightarrow> tcp" where
  "input_syn_sent env g i s =
     (let cb = tcp_connections s i; ackf = flag (sg_flags g) TCP_FLAG_ACK
      in if ackf \<and> (seq_le (sg_ack g) (iss cb) \<or> seq_gt (sg_ack g) (snd_nxt cb)) then reply_rst g 0 s
         else if flag (sg_flags g) TCP_FLAG_RST then set_state TCP_STATE_CLOSED i s
         else if flag (sg_flags g) TCP_FLAG_SYN then
           let s1 = upd_cb (\<lambda>cb. cb\<lparr>irs := sg_seq g, rcv_nxt := sg_seq g + 1, snd_wnd := ucast (sg_window g),
                      snd_una := (if ackf then sg_ack g else snd_una cb)\<rparr>) i s;
               cb1 = tcp_connections s1 i
           in if seq_gt (snd_una cb1) (iss cb1)
              then snd (tcp_send_segment env i TCP_FLAG_ACK [] (set_state TCP_STATE_ESTABLISHED i s1))
              else snd (tcp_send_segment env i (TCP_FLAG_SYN OR TCP_FLAG_ACK) [] (set_state TCP_STATE_SYN_RECEIVED i s1))
         else s)"

definition ack_acceptable :: "segment \<Rightarrow> tcp_cb \<Rightarrow> bool" where
  "ack_acceptable g cb \<longleftrightarrow> flag (sg_flags g) TCP_FLAG_ACK \<and> seq_le (snd_una cb) (sg_ack g) \<and> seq_le (sg_ack g) (snd_nxt cb)"

definition input_syn_received :: "segment \<Rightarrow> nat \<Rightarrow> tcp \<Rightarrow> tcp" where
  "input_syn_received g i s =
     (if flag (sg_flags g) TCP_FLAG_RST then set_state TCP_STATE_CLOSED i s
      else if ack_acceptable g (tcp_connections s i)
      then upd_cb (\<lambda>cb. cb\<lparr>cb_state := TCP_STATE_ESTABLISHED, snd_una := sg_ack g\<rparr>) i s
      else s)"

definition input_data :: "net_env \<Rightarrow> segment \<Rightarrow> nat \<Rightarrow> tcp \<Rightarrow> tcp option" where
  "input_data env g i s =
     (let cb = tcp_connections s i
      in if sg_data_len g > 0 \<and> sg_seq g = rcv_nxt cb then
           let space = TCP_BUFFER_SIZE - recv_count cb;
               to_copy = ucast (if ucast (sg_data_len g) < space then ucast (sg_data_len g) else space) :: u16
           in if length (sg_data g) < unat to_copy then None
              else do {
                cb1 \<leftarrow> push_all recv_push (take (unat to_copy) (sg_data g)) cb;
                let n = recv_count cb1 + ucast to_copy;
                    s1 = upd_cb (\<lambda>_. cb1\<lparr>recv_count := n, rcv_nxt := rcv_nxt cb1 + ucast to_copy,
                           rcv_wnd := TCP_BUFFER_SIZE - n\<rparr>) i s
                in Some (snd (tcp_send_segment env i TCP_FLAG_ACK [] s1)) }
         else Some s)"

definition input_established :: "net_env \<Rightarrow> segment \<Rightarrow> nat \<Rightarrow> tcp \<Rightarrow> tcp option" where
  "input_established env g i s =
     (if flag (sg_flags g) TCP_FLAG_RST then Some (set_state TCP_STATE_CLOSED i s)
      else do {
        s1 \<leftarrow> input_data env g i
               (if ack_acceptable g (tcp_connections s i) then upd_cb (\<lambda>cb. cb\<lparr>snd_una := sg_ack g\<rparr>) i s else s);
        if flag (sg_flags g) TCP_FLAG_FIN
        then Some (snd (tcp_send_segment env i TCP_FLAG_ACK []
               (upd_cb (\<lambda>cb. cb\<lparr>rcv_nxt := sg_seq g + 1, cb_state := TCP_STATE_CLOSE_WAIT\<rparr>) i s1)))
        else Some s1 })"

definition input_fin_wait_1 :: "net_env \<Rightarrow> segment \<Rightarrow> nat \<Rightarrow> tcp \<Rightarrow> tcp" where
  "input_fin_wait_1 env g i s =
     (let s1 = (if flag (sg_flags g) TCP_FLAG_ACK \<and> sg_ack g = snd_nxt (tcp_connections s i)
                then set_state TCP_STATE_FIN_WAIT_2 i s else s)
      in if flag (sg_flags g) TCP_FLAG_FIN then
           let s2 = snd (tcp_send_segment env i TCP_FLAG_ACK [] (upd_cb (\<lambda>cb. cb\<lparr>rcv_nxt := sg_seq g + 1\<rparr>) i s1))
           in if cb_state (tcp_connections s2 i) = TCP_STATE_FIN_WAIT_2 then enter_time_wait env i s2
              else set_state TCP_STATE_CLOSING i s2
         else s1)"

definition input_fin_wait_2 :: "net_env \<Rightarrow> segment \<Rightarrow> nat \<Rightarrow> tcp \<Rightarrow> tcp" where
  "input_fin_wait_2 env g i s =
     (if flag (sg_flags g) TCP_FLAG_FIN
      then enter_time_wait env i
             (snd (tcp_send_segment env i TCP_FLAG_ACK [] (upd_cb (\<lambda>cb. cb\<lparr>rcv_nxt := sg_seq g + 1\<rparr>) i s)))
      else s)"

definition tcp_input :: "net_env \<Rightarrow> segment \<Rightarrow> nat \<Rightarrow> tcp \<Rightarrow> tcp option" where
  "tcp_input env g i s =
     (case cb_state (tcp_connections s i) of
        TCP_STATE_CLOSED \<Rightarrow> Some (reply_rst g (sg_seq g + 1) s)
      | TCP_STATE_LISTEN \<Rightarrow> Some (input_listen env g i s)
      | TCP_STATE_SYN_SENT \<Rightarrow> Some (input_syn_sent env g i s)
      | TCP_STATE_SYN_RECEIVED \<Rightarrow> Some (input_syn_received g i s)
      | TCP_STATE_ESTABLISHED \<Rightarrow> input_established env g i s
      | TCP_STATE_FIN_WAIT_1 \<Rightarrow> Some (input_fin_wait_1 env g i s)
      | TCP_STATE_FIN_WAIT_2 \<Rightarrow> Some (input_fin_wait_2 env g i s)
      | TCP_STATE_CLOSE_WAIT \<Rightarrow> Some s
      | TCP_STATE_CLOSING \<Rightarrow> Some (if flag (sg_flags g) TCP_FLAG_ACK then enter_time_wait env i s else s)
      | TCP_STATE_LAST_ACK \<Rightarrow> Some (if flag (sg_flags g) TCP_FLAG_ACK then release_cb i s else s)
      | TCP_STATE_TIME_WAIT \<Rightarrow>
          Some (if env_ticks env - time_wait_start (tcp_connections s i) > TCP_TIME_WAIT then release_cb i s else s))"

definition tcp_receive :: "net_env \<Rightarrow> u32 \<Rightarrow> u32 \<Rightarrow> u8 list option \<Rightarrow> u16 \<Rightarrow> tcp \<Rightarrow> (int \<times> tcp) option" where
  "tcp_receive env src dst packet len s =
     (let bad = upd_tcp_stats (\<lambda>t. t\<lparr>tcp_errors := tcp_errors t + 1\<rparr>) s
      in case packet of
           None \<Rightarrow> Some (- 1, bad)
         | Some p \<Rightarrow>
             if len < 20 then Some (- 1, bad)
             else do {
               c \<leftarrow> tcp_checksum src dst p len;
               if c \<noteq> 0 then Some (- 1, bad)
               else
                 let s1 = upd_tcp_stats (\<lambda>t. t\<lparr>segments_received := segments_received t + 1\<rparr>) s;
                     g = read_segment src dst p len
                 in case tcp_find_connection dst (sg_dest_port g) src (sg_src_port g) s1 of
                      None \<Rightarrow> Some (- 1, reply_rst g (sg_seq g + 1) s1)
                    | Some i \<Rightarrow> do { s2 \<leftarrow> tcp_input env g i s1; Some (0, s2) } })"

definition tcp_get_stats :: "tcp \<Rightarrow> u32 \<times> u32 \<times> u32 \<times> u32" where
  "tcp_get_stats s = (segments_sent (stats s), segments_received (stats s), connections_opened (stats s),
     connections_closed (stats s))"

definition tcp_get_state :: "int \<Rightarrow> tcp \<Rightarrow> tcp_state option" where
  "tcp_get_state sockfd s =
     (if \<not> sock_ok sockfd then None
      else if \<not> in_use (tcp_connections s (nat sockfd)) then None
      else Some (cb_state (tcp_connections s (nat sockfd))))"

end
