(* ===== verification/TcpProps.thy ===== *)
theory TcpProps
  imports Tcp
begin

unbundle bit_operations_syntax

text \<open>
  Properties of the segments of \<open>kernel/net/tcp.c\<close>: what one side sends the other side reads back with a
  valid checksum, and the three-way handshake of two hosts.
\<close>

subsection \<open>Segments read back\<close>

lemma length_header [simp]: "length (tcp_header_bytes h) = 20"
  by (simp add: tcp_header_bytes_def field16_def)

lemma pseudo_sum_bound: "unat (pseudo_sum src dst len) \<le> 6 * 65535"
proof -
  have half: "unat (x AND 0xFFFF) \<le> 65535" for x :: u32 by (simp add: low_half Suc_le_eq flip: less_Suc_eq_le)
  have word: "unat (ucast w :: u32) \<le> 65535" for w :: u16 using unat_below [of w] by (simp add: unat_cast_small)
  have add: "unat (a + b) \<le> m + n" if "unat a \<le> m" "unat b \<le> n" for a b :: u32 and m n
  proof -
    have "unat (a + b) \<le> unat a + unat b" unfolding unat_plus by (rule mod_less_eq_dividend)
    then show ?thesis using that by linarith
  qed
  have "unat (pseudo_sum src dst len) \<le> 65535 + 65535 + 65535 + 65535 + 65535 + 65535"
    unfolding pseudo_sum_def by (intro add half word)
  then show ?thesis by simp
qed

lemma tcp_checksum_eq:
  assumes "unat len \<le> length p"
  shows "tcp_checksum src dst p len = Some (checksum_of (unat (pseudo_sum src dst len) + word_sum (take (unat len) p)))"
proof -
  define n where "n = unat (pseudo_sum src dst len) + word_sum (take (unat len) p)"
  have "word_sum (take (unat len) p) \<le> 65535 * ((unat len + 1) div 2)"
    using word_sum_bound [of "take (unat len) p"] assms by simp
  also have "\<dots> \<le> 65535 * 32768" using unat_below [of len] by simp
  finally have small: "n < 2 ^ 32" using pseudo_sum_bound [of src dst len] by (simp add: n_def)
  have "sum_words p (unat len) (pseudo_sum src dst len) = Some (of_nat n)"
    using sum_words_spec [OF assms, of "pseudo_sum src dst len"] small unfolding n_def by blast
  then show ?thesis using fold_checksum [OF small] unfolding tcp_checksum_def n_def [symmetric] by simp
qed

lemma tcp_checksum_short: "length p < unat len \<Longrightarrow> tcp_checksum src dst p len = None"
  by (simp add: tcp_checksum_def sum_words_short)

lemma header_checksum_sum:
  "word_sum (tcp_header_bytes (h\<lparr>th_checksum := c\<rparr>) @ payload) = word_sum (tcp_header_bytes (h\<lparr>th_checksum := 0\<rparr>) @ payload) + unat c"
  by (simp add: word_sum_append tcp_header_bytes_def) (simp add: field16_def bytes32_def word_sum_field16 [unfolded field16_def, simplified])

lemma tcp_segment_verifies:
  assumes "length payload \<le> 65515"
  shows "tcp_checksum (local_ip cb) (remote_ip cb) (tcp_segment cb flags payload) (of_nat (20 + length payload)) = Some 0"
proof -
  let ?len = "of_nat (20 + length payload) :: u16" and ?h = "segment_header cb flags"
  let ?n = "unat (pseudo_sum (local_ip cb) (remote_ip cb) ?len) + word_sum (tcp_header_bytes ?h @ payload)"
  have len: "unat ?len = 20 + length payload" using assms unat_of_nat_small [where 'a = 16, of "20 + length payload"] by simp
  have h: "?h = ?h\<lparr>th_checksum := 0\<rparr>" by (simp add: segment_header_def)
  have "the (tcp_checksum (local_ip cb) (remote_ip cb) (tcp_header_bytes ?h @ payload) ?len) = checksum_of ?n"
    using tcp_checksum_eq [of ?len "tcp_header_bytes ?h @ payload"] len by simp
  then have seg: "tcp_segment cb flags payload = tcp_header_bytes (?h\<lparr>th_checksum := checksum_of ?n\<rparr>) @ payload"
    by (simp add: tcp_segment_def Let_def)
  have "word_sum (tcp_segment cb flags payload) = word_sum (tcp_header_bytes ?h @ payload) + unat (checksum_of ?n)"
    unfolding seg using header_checksum_sum [where h = ?h and c = "checksum_of ?n" and payload = payload] h by simp
  then show ?thesis
    using tcp_checksum_eq [of ?len "tcp_segment cb flags payload"] len seg checksum_cancels [of ?n] by (simp add: ac_simps)
qed

definition sent_segment :: "tcp_cb \<Rightarrow> u8 \<Rightarrow> u8 list \<Rightarrow> segment" where
  "sent_segment cb flags payload =
     \<lparr>sg_src_ip = local_ip cb, sg_dest_ip = remote_ip cb, sg_src_port = local_port cb, sg_dest_port = remote_port cb,
      sg_seq = snd_nxt cb, sg_ack = rcv_nxt cb, sg_flags = flags, sg_window = ucast (rcv_wnd cb),
      sg_data = payload, sg_data_len = of_nat (length payload)\<rparr>"

lemma read_segment_sent:
  "read_segment (local_ip cb) (remote_ip cb) (tcp_segment cb flags payload) (of_nat (20 + length payload)) =
     sent_segment cb flags payload"
proof -
  obtain c where seg: "tcp_segment cb flags payload = tcp_header_bytes ((segment_header cb flags)\<lparr>th_checksum := c\<rparr>) @ payload"
    by (simp add: tcp_segment_def Let_def)
  have "drop_bit 4 (push_bit 4 5 :: u8) * 4 = 20" by (simp add: push_bit_eq_mult drop_bit_eq_div)
  then show ?thesis
    unfolding seg read_segment_def sent_segment_def
    by (simp add: tcp_header_bytes_def segment_header_def field16_def bytes32_def get16_def get32_def le16_field16 le32_bytes32
        ntohs_def ntohl_def Let_def)
qed

subsection \<open>Sending and receiving one segment\<close>

lemma upd_simps [simp]:
  "tcp_connections (upd_cb f i s) = (tcp_connections s)(i := f (tcp_connections s i))"
  "tcp_out (upd_cb f i s) = tcp_out s" "tcp_net (upd_cb f i s) = tcp_net s" "iss_counter (upd_cb f i s) = iss_counter s"
  "next_ephemeral_port (upd_cb f i s) = next_ephemeral_port s"
  "tcp_connections (upd_tcp_stats h s) = tcp_connections s" "tcp_out (upd_tcp_stats h s) = tcp_out s"
  "tcp_net (upd_tcp_stats h s) = tcp_net s" "iss_counter (upd_tcp_stats h s) = iss_counter s"
  "tcp_connections (emit d p s) = tcp_connections s" "tcp_out (emit d p s) = tcp_out s @ [(d, p)]"
  "tcp_net (emit d p s) = tcp_net s" "iss_counter (emit d p s) = iss_counter s"
  "tcp_allocs (upd_cb f i s) = tcp_allocs s"
  by (simp_all add: upd_cb_def upd_tcp_stats_def emit_def)

lemma kmalloc_simps [simp]:
  "fst (tcp_kmalloc env n s) = env_kmalloc env (tcp_allocs s) n"
  "tcp_connections (snd (tcp_kmalloc env n s)) = tcp_connections s" "tcp_out (snd (tcp_kmalloc env n s)) = tcp_out s"
  "tcp_net (snd (tcp_kmalloc env n s)) = tcp_net s" "iss_counter (snd (tcp_kmalloc env n s)) = iss_counter s"
  by (simp_all add: tcp_kmalloc_def)

text \<open>
  An environment in which memory is there: every request for 1 byte up to 64 KiB is met. The code
  asks for no more; \<open>kmalloc (0)\<close> returns the null pointer and is left free.
\<close>

definition has_memory :: "net_env \<Rightarrow> bool" where
  "has_memory env \<longleftrightarrow> (\<forall>k n. 0 < n \<and> n \<le> 65536 \<longrightarrow> (\<exists>b. env_kmalloc env k n = Some b \<and> length b = unat n))"

lemma memory_block:
  assumes "has_memory env" and "0 < n" and "n \<le> 65536"
  obtains b where "env_kmalloc env k n = Some b" and "length b = unat n"
  using assms unfolding has_memory_def by blast

lemma memory_block16:
  fixes m :: u16
  assumes "has_memory env" and "m \<noteq> 0"
  obtains b where "env_kmalloc env k (ucast m) = Some b" and "length b = unat m"
proof -
  have m: "unat m < 65536" using unsigned_less [of m] by simp
  then have n: "unat (ucast m :: u32) = unat m" by (simp add: unat_cast)
  have "0 < (ucast m :: u32)" "(ucast m :: u32) \<le> 65536" using assms(2) m n by (simp_all add: word_less_nat_alt word_le_nat_alt unat_gt_0)
  then show ?thesis using memory_block [OF assms(1)] that n by metis
qed

definition after_send :: "net_env \<Rightarrow> u8 \<Rightarrow> nat \<Rightarrow> tcp_cb \<Rightarrow> tcp_cb" where
  "after_send env flags n cb = cb\<lparr>last_tx_time := env_ticks env,
     snd_nxt := snd_nxt cb + ucast (of_nat n :: u16) + (if flag flags TCP_FLAG_SYN then 1 else 0)
       + (if flag flags TCP_FLAG_FIN then 1 else 0)\<rparr>"

lemma send_segment_ok:
  assumes "has_memory env" and "tcpip_initialized (tcp_net s)" and "length payload \<le> 65515"
  shows "fst (tcp_send_segment env i flags payload s) = 0"
    and "tcp_connections (snd (tcp_send_segment env i flags payload s)) =
       (tcp_connections s)(i := after_send env flags (length payload) (tcp_connections s i))"
    and "tcp_out (snd (tcp_send_segment env i flags payload s)) =
       tcp_out s @ [(remote_ip (tcp_connections s i), tcp_segment (tcp_connections s i) flags payload)]"
    and "tcp_net (snd (tcp_send_segment env i flags payload s)) = tcp_net s"
    and "iss_counter (snd (tcp_send_segment env i flags payload s)) = iss_counter s"
proof -
  have "unat (20 + of_nat (length payload) :: u16) = 20 + length payload"
    using assms(3) unat_of_nat_small [where 'a = 16, of "20 + length payload"] by simp
  then have "20 + of_nat (length payload) \<noteq> (0 :: u16)" by auto
  then obtain b where "env_kmalloc env (tcp_allocs s) (ucast (20 + of_nat (length payload) :: u16)) = Some b"
    using memory_block16 [OF assms(1)] by metis
  moreover have "ip_send_packet d p (Some x) n (tcp_net s) = 0" for d p x n
    using assms(2) by (simp add: ip_send_packet_def ip_send_def Let_def)
  ultimately show "fst (tcp_send_segment env i flags payload s) = 0"
    and "tcp_connections (snd (tcp_send_segment env i flags payload s)) =
       (tcp_connections s)(i := after_send env flags (length payload) (tcp_connections s i))"
    and "tcp_out (snd (tcp_send_segment env i flags payload s)) =
       tcp_out s @ [(remote_ip (tcp_connections s i), tcp_segment (tcp_connections s i) flags payload)]"
    and "tcp_net (snd (tcp_send_segment env i flags payload s)) = tcp_net s"
    and "iss_counter (snd (tcp_send_segment env i flags payload s)) = iss_counter s"
    by (simp_all add: tcp_send_segment_def tcp_kmalloc_def Let_def after_send_def)
qed

definition received :: "tcp \<Rightarrow> tcp" where
  "received s = upd_tcp_stats (\<lambda>t. t\<lparr>segments_received := segments_received t + 1\<rparr>) s"

lemma receive_sent:
  assumes "length payload \<le> 65515"
    and "tcp_find_connection (remote_ip cb) (remote_port cb) (local_ip cb) (local_port cb) s = Some i"
  shows "tcp_receive env (local_ip cb) (remote_ip cb) (Some (tcp_segment cb flags payload)) (of_nat (20 + length payload)) s =
     do { s' \<leftarrow> tcp_input env (sent_segment cb flags payload) i (received s); Some (0, s') }"
proof -
  define len where "len = (of_nat (20 + length payload) :: u16)"
  have "unat len = 20 + length payload"
    using assms(1) unat_of_nat_small [where 'a = 16, of "20 + length payload"] by (simp add: len_def)
  then have "\<not> len < 20" by (simp add: word_less_nat_alt)
  moreover have "tcp_find_connection (remote_ip cb) (remote_port cb) (local_ip cb) (local_port cb) (received s) = Some i"
    using assms(2) by (simp add: tcp_find_connection_def received_def Let_def cong: option.case_cong)
  ultimately show ?thesis
    using tcp_segment_verifies [OF assms(1), of cb flags] read_segment_sent [of cb flags payload]
    unfolding len_def [symmetric] by (simp add: tcp_receive_def received_def sent_segment_def Let_def)
qed

definition conn_match :: "u32 \<Rightarrow> u16 \<Rightarrow> u32 \<Rightarrow> u16 \<Rightarrow> tcp_cb \<Rightarrow> bool" where
  "conn_match lip lport rip rport cb \<longleftrightarrow> in_use cb \<and> local_port cb = lport \<and> remote_port cb = rport
     \<and> (local_ip cb = lip \<or> local_ip cb = 0) \<and> remote_ip cb = rip"

lemma find_exact:
  assumes "i < TCP_MAX_CONNECTIONS" and "conn_match lip lport rip rport (tcp_connections s i)"
    and "\<And>k. k < TCP_MAX_CONNECTIONS \<Longrightarrow> conn_match lip lport rip rport (tcp_connections s k) \<Longrightarrow> k = i"
  shows "tcp_find_connection lip lport rip rport s = Some i"
proof -
  have "first_from (\<lambda>k. conn_match lip lport rip rport (tcp_connections s k)) 0 TCP_MAX_CONNECTIONS = Some i"
    unfolding first_from_Some_iff
  proof (intro conjI allI impI notI)
    fix k assume "k < i" and "conn_match lip lport rip rport (tcp_connections s k)"
    then show False using assms(1) assms(3) [of k] by simp
  qed (use assms(1,2) in simp_all)
  then show ?thesis by (simp add: tcp_find_connection_def conn_match_def Let_def)
qed

lemma find_live: "tcp_find_connection lip lport rip rport s = Some i \<Longrightarrow> i < TCP_MAX_CONNECTIONS \<and> in_use (tcp_connections s i)"
  by (auto simp: tcp_find_connection_def Let_def split: option.splits dest!: first_from_SomeD)

subsection \<open>The handshake\<close>

lemma received_simps [simp]:
  "tcp_connections (received s) = tcp_connections s" "tcp_out (received s) = tcp_out s" "tcp_net (received s) = tcp_net s"
  "iss_counter (received s) = iss_counter s"
  by (simp_all add: received_def)

lemma flag_simps [simp]:
  "flag 2 2" "\<not> flag 2 1" "\<not> flag 2 4" "\<not> flag 2 16" "flag 18 2" "flag 18 16" "\<not> flag 18 1" "\<not> flag 18 4"
  "flag 16 16" "\<not> flag 16 2" "\<not> flag 16 1" "\<not> flag 16 4" "(2 OR 16 :: u8) = 18"
  "flag 24 16" "\<not> flag 24 2" "\<not> flag 24 1" "\<not> flag 24 4" "(16 OR 8 :: u8) = 24"
  by (simp_all add: flag_def)

definition syn_cb :: "u32 \<Rightarrow> u16 \<Rightarrow> u32 \<Rightarrow> tcp_cb \<Rightarrow> tcp_cb" where
  "syn_cb rip rport n cb = cb\<lparr>remote_ip := rip, remote_port := rport, iss := n, snd_una := n, snd_nxt := n,
     cb_state := TCP_STATE_SYN_SENT\<rparr>"

lemma connect_syn_sends:
  fixes i :: nat and rip :: u32 and rport :: u16
  assumes "has_memory env" and "tcpip_initialized (tcp_net s)"
  defines "a \<equiv> syn_cb rip rport (iss_counter s + (env_ticks env + 64000)) (tcp_connections s i)"
  shows "tcp_connections (tcp_connect_syn env i rip rport s) = (tcp_connections s)(i := after_send env TCP_FLAG_SYN 0 a)"
    and "tcp_out (tcp_connect_syn env i rip rport s) = tcp_out s @ [(rip, tcp_segment a TCP_FLAG_SYN [])]"
    and "tcp_net (tcp_connect_syn env i rip rport s) = tcp_net s"
  using send_segment_ok [OF assms(1)] assms(2)
  by (simp_all add: tcp_connect_syn_def tcp_generate_iss_def Let_def a_def syn_cb_def)

definition syn_received_cb :: "net_env \<Rightarrow> nat \<Rightarrow> segment \<Rightarrow> nat \<Rightarrow> u32 \<Rightarrow> tcp_cb" where
  "syn_received_cb env k g i n = zero_cb\<lparr>in_use := True, rcv_wnd := 65535, rto := 1000,
     recv_buffer := env_kmalloc env k TCP_BUFFER_SIZE, send_buffer := env_kmalloc env (Suc k) TCP_BUFFER_SIZE,
     local_ip := sg_dest_ip g, local_port := sg_dest_port g, remote_ip := sg_src_ip g, remote_port := sg_src_port g,
     parent_socket := int i, irs := sg_seq g, rcv_nxt := sg_seq g + 1, iss := n, snd_una := n, snd_nxt := n,
     snd_wnd := ucast (sg_window g), cb_state := TCP_STATE_SYN_RECEIVED\<rparr>"

definition queued :: "nat \<Rightarrow> tcp_cb \<Rightarrow> tcp_cb" where
  "queued j cb = (if pending_count cb < backlog cb
     then cb\<lparr>pending_connections := (pending_connections cb)[nat (pending_count cb) := int j], pending_count := pending_count cb + 1\<rparr>
     else cb)"

lemma listen_answers:
  assumes mem: "has_memory env" and up: "tcpip_initialized (tcp_net s)"
    and free: "first_from (\<lambda>k. \<not> in_use (tcp_connections s k)) 0 TCP_MAX_CONNECTIONS = Some j" and "i \<noteq> j"
    and syn: "flag (sg_flags g) TCP_FLAG_SYN"
  defines "b \<equiv> syn_received_cb env (tcp_allocs s) g i (iss_counter s + (env_ticks env + 64000))"
  shows "tcp_connections (input_listen env g i s) =
       (tcp_connections s)(j := after_send env (TCP_FLAG_SYN OR TCP_FLAG_ACK) 0 b, i := queued j (tcp_connections s i))"
    and "tcp_out (input_listen env g i s) = tcp_out s @ [(sg_src_ip g, tcp_segment b (TCP_FLAG_SYN OR TCP_FLAG_ACK) [])]"
    and "tcp_net (input_listen env g i s) = tcp_net s"
proof -
  have size: "(0 :: u32) < TCP_BUFFER_SIZE" "TCP_BUFFER_SIZE \<le> (65536 :: u32)" by simp_all
  obtain rbuf where rbuf: "env_kmalloc env (tcp_allocs s) TCP_BUFFER_SIZE = Some rbuf" using memory_block [OF mem size] by metis
  obtain sbuf where sbuf: "env_kmalloc env (Suc (tcp_allocs s)) TCP_BUFFER_SIZE = Some sbuf" using memory_block [OF mem size] by metis
  show "tcp_connections (input_listen env g i s) =
       (tcp_connections s)(j := after_send env (TCP_FLAG_SYN OR TCP_FLAG_ACK) 0 b, i := queued j (tcp_connections s i))"
    and "tcp_out (input_listen env g i s) = tcp_out s @ [(sg_src_ip g, tcp_segment b (TCP_FLAG_SYN OR TCP_FLAG_ACK) [])]"
    and "tcp_net (input_listen env g i s) = tcp_net s"
    using send_segment_ok [OF mem] up free syn \<open>i \<noteq> j\<close>
    by (simp_all add: input_listen_def tcp_alloc_tcb_def alloc_buffers_def tcp_kmalloc_def rbuf sbuf tcp_generate_iss_def Let_def
        queued_def [abs_def] b_def syn_received_cb_def zero_cb_def)
qed

lemma seq_simps [simp]:
  "seq_le n (n + 1)" "seq_le n n" "\<not> seq_le (n + 1) n" "\<not> seq_gt n n" "seq_gt (n + 1) n"
  by (simp_all add: seq_le_def seq_gt_def)

definition open_cb :: "segment \<Rightarrow> tcp_cb \<Rightarrow> tcp_cb" where
  "open_cb g cb = cb\<lparr>irs := sg_seq g, rcv_nxt := sg_seq g + 1, snd_wnd := ucast (sg_window g), snd_una := sg_ack g,
     cb_state := TCP_STATE_ESTABLISHED\<rparr>"

lemma syn_sent_opens:
  fixes i :: nat
  assumes "has_memory env" and "tcpip_initialized (tcp_net s)" and "sg_flags g = TCP_FLAG_SYN OR TCP_FLAG_ACK"
    and "sg_ack g = iss (tcp_connections s i) + 1" and "snd_nxt (tcp_connections s i) = iss (tcp_connections s i) + 1"
  defines "e \<equiv> open_cb g (tcp_connections s i)"
  shows "tcp_connections (input_syn_sent env g i s) = (tcp_connections s)(i := after_send env TCP_FLAG_ACK 0 e)"
    and "tcp_out (input_syn_sent env g i s) = tcp_out s @ [(remote_ip e, tcp_segment e TCP_FLAG_ACK [])]"
  using send_segment_ok [OF assms(1)] assms(2-5)
  by (simp_all add: input_syn_sent_def set_state_def Let_def e_def open_cb_def)

text \<open>The two ends of an open connection agree.\<close>

definition synchronised :: "tcp_cb \<Rightarrow> tcp_cb \<Rightarrow> bool" where
  "synchronised a b \<longleftrightarrow> in_use a \<and> in_use b \<and> cb_state a = TCP_STATE_ESTABLISHED \<and> cb_state b = TCP_STATE_ESTABLISHED
     \<and> local_ip a = remote_ip b \<and> remote_ip a = local_ip b \<and> local_port a = remote_port b \<and> remote_port a = local_port b
     \<and> snd_nxt a = rcv_nxt b \<and> snd_nxt b = rcv_nxt a \<and> snd_una a = snd_nxt a \<and> snd_una b = snd_nxt b"

lemma handshake_ack:
  assumes "has_memory ea'" and "tcpip_initialized (tcp_net A1)"
    and A: "i < TCP_MAX_CONNECTIONS" "tcp_connections A1 i = after_send ea TCP_FLAG_SYN 0 a"
      "\<And>k. k < TCP_MAX_CONNECTIONS \<Longrightarrow> conn_match ipa pa ipb pb (tcp_connections A1 k) \<Longrightarrow> k = i"
    and B: "j < TCP_MAX_CONNECTIONS" "tcp_connections B1 j = after_send eb (TCP_FLAG_SYN OR TCP_FLAG_ACK) 0 b"
      "\<And>k. k < TCP_MAX_CONNECTIONS \<Longrightarrow> conn_match ipb pb ipa pa (tcp_connections B1 k) \<Longrightarrow> k = j"
    and a: "local_ip a = ipa" "local_port a = pa" "remote_ip a = ipb" "remote_port a = pb" "snd_nxt a = iss a" "in_use a"
      "cb_state a = TCP_STATE_SYN_SENT"
    and b: "local_ip b = ipb" "local_port b = pb" "remote_ip b = ipa" "remote_port b = pa" "snd_nxt b = iss b" "snd_una b = iss b"
      "rcv_nxt b = iss a + 1" "in_use b" "cb_state b = TCP_STATE_SYN_RECEIVED"
  shows "\<exists>e A2 B2. tcp_receive ea' ipb ipa (Some (tcp_segment b (TCP_FLAG_SYN OR TCP_FLAG_ACK) [])) 20 A1 = Some (0, A2)
    \<and> tcp_out A2 = tcp_out A1 @ [(ipb, tcp_segment e TCP_FLAG_ACK [])]
    \<and> tcp_receive eb' ipa ipb (Some (tcp_segment e TCP_FLAG_ACK [])) 20 B1 = Some (0, B2) \<and> tcp_out B2 = tcp_out B1
    \<and> synchronised (tcp_connections A2 i) (tcp_connections B2 j)
    \<and> (\<forall>k. k \<noteq> j \<longrightarrow> tcp_connections B2 k = tcp_connections B1 k)"
proof -
  let ?g = "sent_segment b (TCP_FLAG_SYN OR TCP_FLAG_ACK) []"
  define e where "e = open_cb ?g (after_send ea TCP_FLAG_SYN 0 a)"
  define A2 where "A2 = input_syn_sent ea' ?g i (received A1)"
  define B2 where "B2 = input_syn_received (sent_segment e TCP_FLAG_ACK []) j (received B1)"
  have A2: "tcp_connections A2 = (tcp_connections A1)(i := after_send ea' TCP_FLAG_ACK 0 e)"
    "tcp_out A2 = tcp_out A1 @ [(remote_ip e, tcp_segment e TCP_FLAG_ACK [])]"
    using syn_sent_opens [OF assms(1), of "received A1" ?g i] assms(2) A(2) a(5) b(7)
    by (simp_all add: A2_def e_def sent_segment_def after_send_def)
  have e: "local_ip e = ipa" "local_port e = pa" "remote_ip e = ipb" "remote_port e = pb" "snd_nxt e = iss a + 1" "snd_una e = iss a + 1"
    "rcv_nxt e = iss b + 1" "in_use e" "cb_state e = TCP_STATE_ESTABLISHED"
    using a b by (simp_all add: e_def open_cb_def after_send_def sent_segment_def)
  have "tcp_find_connection ipa pa ipb pb A1 = Some i"
    using A(2) a by (intro find_exact A(1,3)) (simp_all add: conn_match_def after_send_def)
  then have "tcp_receive ea' ipb ipa (Some (tcp_segment b (TCP_FLAG_SYN OR TCP_FLAG_ACK) [])) 20 A1 = Some (0, A2)"
    using receive_sent [of "[]" b A1 i ea' "TCP_FLAG_SYN OR TCP_FLAG_ACK"] A(2) a(7) b(1-4)
    by (simp add: tcp_input_def A2_def after_send_def)
  moreover have "tcp_find_connection ipb pb ipa pa B1 = Some j"
    using B(2) b by (intro find_exact B(1,3)) (simp_all add: conn_match_def after_send_def)
  then have "tcp_receive eb' ipa ipb (Some (tcp_segment e TCP_FLAG_ACK [])) 20 B1 = Some (0, B2)"
    using receive_sent [of "[]" e B1 j eb' TCP_FLAG_ACK] B(2) b(9) e(1-4)
    by (simp add: tcp_input_def B2_def after_send_def)
  moreover have B2: "tcp_connections B2 = (tcp_connections B1)(j := (tcp_connections B1 j)\<lparr>cb_state := TCP_STATE_ESTABLISHED, snd_una := iss b + 1\<rparr>)"
    "tcp_out B2 = tcp_out B1"
    using B(2) b(5,6) e(7) by (simp_all add: B2_def input_syn_received_def ack_acceptable_def sent_segment_def after_send_def)
  moreover have "synchronised (tcp_connections A2 i) (tcp_connections B2 j)"
    unfolding A2 B2 synchronised_def using B(2) a b e by (simp add: after_send_def)
  ultimately show ?thesis using A2(2) e(3) by auto
qed

text \<open>
  C5. The three-way handshake of two hosts. Host \<open>A\<close> sends the SYN of \<open>tcp_connect\<close> from a bound socket,
  host \<open>B\<close> listens on the port and has a free control block \<open>j\<close>. Then each of the three packets, taken
  from what one side handed to IP and given to \<open>tcp_receive\<close> of the other, passes the checksum and is
  accepted; exactly one packet is sent at each step; and afterwards both control blocks are ESTABLISHED with
  mirrored addresses and sequence numbers, and \<open>tcp_accept\<close> on the listener returns \<open>j\<close>.
\<close>

theorem tcp_handshake:
  assumes mem: "has_memory ea" "has_memory ea'" "has_memory eb"
    and up: "tcpip_initialized (tcp_net A)" "tcpip_initialized (tcp_net B)"
    and cli: "i < TCP_MAX_CONNECTIONS" "in_use (tcp_connections A i)" "local_ip (tcp_connections A i) = ipa"
      "local_port (tcp_connections A i) = pa"
    and alone: "\<forall>k<TCP_MAX_CONNECTIONS. k \<noteq> i \<longrightarrow> \<not> conn_match ipa pa ipb pb (tcp_connections A k)"
    and srv: "tcp_find_connection ipb pb ipa pa B = Some l" "cb_state (tcp_connections B l) = TCP_STATE_LISTEN"
    and new: "\<forall>k<TCP_MAX_CONNECTIONS. \<not> conn_match ipb pb ipa pa (tcp_connections B k)"
    and free: "first_from (\<lambda>k. \<not> in_use (tcp_connections B k)) 0 TCP_MAX_CONNECTIONS = Some j"
    and room: "pending_count (tcp_connections B l) = 0" "0 < backlog (tcp_connections B l)"
      "length (pending_connections (tcp_connections B l)) = 16"
  shows "\<exists>syn synack ack B1 A2 B2.
     tcp_out (tcp_connect_syn ea i ipb pb A) = tcp_out A @ [(ipb, syn)]
     \<and> tcp_receive eb ipa ipb (Some syn) 20 B = Some (0, B1) \<and> tcp_out B1 = tcp_out B @ [(ipa, synack)]
     \<and> tcp_receive ea' ipb ipa (Some synack) 20 (tcp_connect_syn ea i ipb pb A) = Some (0, A2)
     \<and> tcp_out A2 = tcp_out A @ [(ipb, syn), (ipb, ack)]
     \<and> tcp_receive eb' ipa ipb (Some ack) 20 B1 = Some (0, B2) \<and> tcp_out B2 = tcp_out B1
     \<and> synchronised (tcp_connections A2 i) (tcp_connections B2 j) \<and> fst (tcp_accept (int l) B2) = int j"
proof -
  define a where "a = syn_cb ipb pb (iss_counter A + (env_ticks ea + 64000)) (tcp_connections A i)"
  define A1 where "A1 = tcp_connect_syn ea i ipb pb A"
  note A1 = connect_syn_sends [OF mem(1) up(1), where i = i and rip = ipb and rport = pb, folded a_def A1_def]
  have a: "local_ip a = ipa" "local_port a = pa" "remote_ip a = ipb" "remote_port a = pb" "snd_nxt a = iss a" "snd_una a = iss a"
    "in_use a" "cb_state a = TCP_STATE_SYN_SENT" using cli by (simp_all add: a_def syn_cb_def)
  define syn where "syn = sent_segment a TCP_FLAG_SYN []"
  have syn: "sg_src_ip syn = ipa" "sg_src_port syn = pa" "sg_dest_ip syn = ipb" "sg_dest_port syn = pb" "sg_seq syn = iss a"
    "sg_flags syn = TCP_FLAG_SYN" using a by (simp_all add: syn_def sent_segment_def)
  have ne: "l \<noteq> j" "l < TCP_MAX_CONNECTIONS" "j < TCP_MAX_CONNECTIONS" using first_from_SomeD [OF free] find_live [OF srv(1)] by auto
  define B1 where "B1 = input_listen eb syn l (received B)"
  define b where "b = syn_received_cb eb (tcp_allocs (received B)) syn l (iss_counter B + (env_ticks eb + 64000))"
  have B1: "tcp_connections B1 = (tcp_connections B)(j := after_send eb (TCP_FLAG_SYN OR TCP_FLAG_ACK) 0 b, l := queued j (tcp_connections B l))"
    "tcp_out B1 = tcp_out B @ [(ipa, tcp_segment b (TCP_FLAG_SYN OR TCP_FLAG_ACK) [])]"
    using listen_answers [OF mem(3), of "received B" j l syn] up(2) free ne syn unfolding B1_def b_def by simp_all
  have r1: "tcp_receive eb ipa ipb (Some (tcp_segment a TCP_FLAG_SYN [])) 20 B = Some (0, B1)"
    using receive_sent [of "[]" a B l eb TCP_FLAG_SYN] srv a by (simp add: tcp_input_def B1_def syn_def)
  have b: "local_ip b = ipb" "local_port b = pb" "remote_ip b = ipa" "remote_port b = pa" "snd_nxt b = iss b" "snd_una b = iss b"
    "rcv_nxt b = iss a + 1" "in_use b" "cb_state b = TCP_STATE_SYN_RECEIVED" using syn by (simp_all add: b_def syn_received_cb_def)
  have uA: "k = i" if "k < TCP_MAX_CONNECTIONS" "conn_match ipa pa ipb pb (tcp_connections A1 k)" for k
    using that alone A1(1) by (auto split: if_splits)
  have "\<not> conn_match ipb pb ipa pa (queued j (tcp_connections B l))"
    using new ne(2) by (simp add: conn_match_def queued_def)
  then have uB: "k = j" if "k < TCP_MAX_CONNECTIONS" "conn_match ipb pb ipa pa (tcp_connections B1 k)" for k
    using that new B1(1) by (auto split: if_splits)
  have at: "tcpip_initialized (tcp_net A1)" "tcp_connections A1 i = after_send ea TCP_FLAG_SYN 0 a"
    "tcp_connections B1 j = after_send eb (TCP_FLAG_SYN OR TCP_FLAG_ACK) 0 b" using A1 B1(1) up(1) ne by simp_all
  obtain e A2 B2 where fin: "tcp_receive ea' ipb ipa (Some (tcp_segment b (TCP_FLAG_SYN OR TCP_FLAG_ACK) [])) 20 A1 = Some (0, A2)"
    "tcp_out A2 = tcp_out A1 @ [(ipb, tcp_segment e TCP_FLAG_ACK [])]"
    "tcp_receive eb' ipa ipb (Some (tcp_segment e TCP_FLAG_ACK [])) 20 B1 = Some (0, B2)" "tcp_out B2 = tcp_out B1"
    "synchronised (tcp_connections A2 i) (tcp_connections B2 j)" "\<forall>k. k \<noteq> j \<longrightarrow> tcp_connections B2 k = tcp_connections B1 k"
    using handshake_ack [OF mem(2) at(1) cli(1) at(2) uA ne(3) at(3) uB a(1-5,7,8) b] by blast
  have "tcp_connections B2 l = queued j (tcp_connections B l)" using fin(6) B1(1) ne(1) by simp
  then have "fst (tcp_accept (int l) B2) = int j"
    using room srv(2) ne(2) find_live [OF srv(1)] by (simp add: tcp_accept_def sock_ok_def queued_def Let_def)
  then show ?thesis using A1(2) B1(2) r1 fin(1-5) unfolding A1_def by auto
qed

text \<open>Concrete hosts: one control block in use, memory for every request.\<close>

definition demo_env :: net_env where
  "demo_env = \<lparr>env_ticks = 0, env_kmalloc = (\<lambda>_ n. Some (replicate (unat n) 0))\<rparr>"

definition demo_host :: "tcp_cb \<Rightarrow> tcp" where
  "demo_host cb = \<lparr>tcp_connections = (\<lambda>_. zero_cb)(0 := cb), tcp_initialized = True, next_ephemeral_port = 49152, iss_counter = 0,
     stats = \<lparr>segments_sent = 0, segments_received = 0, connections_opened = 0, connections_closed = 0, retransmissions = 0,
       tcp_errors = 0\<rparr>, tcp_net = demo_net, tcp_out = [], tcp_allocs = 0\<rparr>"

definition demo_client :: tcp_cb where
  "demo_client = zero_cb\<lparr>in_use := True, local_ip := 1, local_port := 50000\<rparr>"

definition demo_listener :: tcp_cb where
  "demo_listener = zero_cb\<lparr>in_use := True, local_ip := 2, local_port := 80, cb_state := TCP_STATE_LISTEN, backlog := 5\<rparr>"

lemma demo_simps [simp]:
  "has_memory demo_env" "tcpip_initialized (tcp_net (demo_host cb))" "tcp_connections (demo_host cb) = (\<lambda>_. zero_cb)(0 := cb)"
  "\<not> in_use zero_cb" "next_ephemeral_port (demo_host cb) = 49152"
  by (simp_all add: has_memory_def demo_env_def demo_host_def demo_net_def zero_cb_def)

lemma demo_listening: "tcp_find_connection 2 80 1 50000 (demo_host demo_listener) = Some 0"
proof -
  have "first_from (\<lambda>k. conn_match 2 80 1 50000 (tcp_connections (demo_host demo_listener) k)) 0 TCP_MAX_CONNECTIONS = None"
    by (auto simp: first_from_None_iff conn_match_def demo_listener_def zero_cb_def)
  then show ?thesis
    by (simp add: tcp_find_connection_def conn_match_def Let_def first_from_Some_iff) (simp add: demo_listener_def)
qed

theorem tcp_handshake_witness:
  "\<exists>syn synack ack B1 A2 B2. tcp_receive demo_env 1 2 (Some syn) 20 (demo_host demo_listener) = Some (0, B1)
     \<and> tcp_out B1 = [(1, synack)]
     \<and> tcp_receive demo_env 2 1 (Some synack) 20 (tcp_connect_syn demo_env 0 2 80 (demo_host demo_client)) = Some (0, A2)
     \<and> tcp_out A2 = [(2, syn), (2, ack)] \<and> tcp_receive demo_env 1 2 (Some ack) 20 B1 = Some (0, B2)
     \<and> synchronised (tcp_connections A2 0) (tcp_connections B2 1) \<and> fst (tcp_accept 0 B2) = 1"
proof -
  have free: "first_from (\<lambda>k. \<not> in_use (tcp_connections (demo_host demo_listener) k)) 0 TCP_MAX_CONNECTIONS = Some 1"
    by (auto simp: first_from_Some_iff demo_listener_def)
  have out: "tcp_out (demo_host cb) = []" for cb by (simp add: demo_host_def)
  have "\<exists>syn synack ack B1 A2 B2.
     tcp_out (tcp_connect_syn demo_env 0 2 80 (demo_host demo_client)) = tcp_out (demo_host demo_client) @ [(2, syn)]
     \<and> tcp_receive demo_env 1 2 (Some syn) 20 (demo_host demo_listener) = Some (0, B1)
     \<and> tcp_out B1 = tcp_out (demo_host demo_listener) @ [(1, synack)]
     \<and> tcp_receive demo_env 2 1 (Some synack) 20 (tcp_connect_syn demo_env 0 2 80 (demo_host demo_client)) = Some (0, A2)
     \<and> tcp_out A2 = tcp_out (demo_host demo_client) @ [(2, syn), (2, ack)]
     \<and> tcp_receive demo_env 1 2 (Some ack) 20 B1 = Some (0, B2) \<and> tcp_out B2 = tcp_out B1
     \<and> synchronised (tcp_connections A2 0) (tcp_connections B2 1) \<and> fst (tcp_accept (int 0) B2) = int 1"
    by (rule tcp_handshake [OF _ _ _ _ _ _ _ _ _ _ demo_listening _ _ free])
      (simp_all add: demo_client_def demo_listener_def zero_cb_def conn_match_def)
  then show ?thesis unfolding out append_Nil int_ops(1,2) by blast
qed

end
