(* ===== verification/TcpStream.thy ===== *)
theory TcpStream
  imports TcpProps
begin

unbundle bit_operations_syntax

text \<open>
  The data path of \<open>kernel/net/tcp.c\<close>: the receive and send buffers are byte streams (locale of theory \<open>Ring\<close>),
  \<open>tcp_write\<close> cuts its data into segments, and what one host writes the other host reads.
\<close>

subsection \<open>The buffers are byte streams\<close>

text \<open>The array, head, tail and count of one of the two buffers of a control block.\<close>

type_synonym byte_ring = "u8 list \<times> u32 \<times> u32 \<times> u32"

fun ring_put :: "u8 \<Rightarrow> byte_ring \<Rightarrow> byte_ring" where
  "ring_put b (buf, h, t, c) = (buf[unat t := b], h, (t + 1) mod TCP_BUFFER_SIZE, c + 1)"

fun ring_take :: "byte_ring \<Rightarrow> byte_ring" where
  "ring_take (buf, h, t, c) = (buf, (h + 1) mod TCP_BUFFER_SIZE, t, c - 1)"

fun ring_ok :: "byte_ring \<Rightarrow> bool" where
  "ring_ok (buf, h, t, c) \<longleftrightarrow> length buf = 65536 \<and> unat h < 65536 \<and> unat c \<le> 65536 \<and> unat t = (unat h + unat c) mod 65536"

lemma next_index: "unat n < 65536 \<Longrightarrow> unat ((n + 1) mod TCP_BUFFER_SIZE) = Suc (unat n) mod 65536" for n :: u32
  by (simp add: unat_mod_distrib unat_plus)

lemma ring_laws:
  "ring_buffer (\<lambda>(buf, h, t, c) k. buf ! k) (\<lambda>(buf, h, t, c). unat h) (\<lambda>(buf, h, t, c). unat c) (\<lambda>_. 65536) ring_ok
     (\<lambda>_ _. True) ring_put ring_take"
proof -
  have one: "unat (c + 1) = Suc (unat c)" if "unat c < 65536" for c :: u32 using that by (simp add: unat_plus)
  have minus: "unat (c - 1) = unat c - 1" if "0 < unat c" for c :: u32
    using that by (simp add: unat_minus_one unat_gt_0)
  have prev: "(Suc h mod n + k - Suc 0) mod n = (h + k) mod n" if "0 < k" for h k n :: nat
    using that by (cases k) (simp_all add: mod_add_left_eq)
  have le: "k - Suc 0 \<le> n" if "k \<le> n" for k n :: nat using that by simp
  show ?thesis
    by unfold_locales
      (auto simp: next_index one minus prev le mod_Suc_eq nth_list_update wrap_inj mod_add_left_eq split: if_splits)
qed

interpretation br: ring_buffer "\<lambda>(buf, h, t, c) k. buf ! k" "\<lambda>(buf, h, t, c). unat h" "\<lambda>(buf, h, t, c). unat c" "\<lambda>_. 65536"
  ring_ok "\<lambda>_ _. True" ring_put ring_take
  by (rule ring_laws)

fun stream :: "byte_ring \<Rightarrow> u8 list" where
  "stream (buf, h, t, c) = map (\<lambda>k. buf ! ((unat h + k) mod 65536)) [0..<unat c]"

lemma br_contents [simp]: "br.contents r = stream r"
  by (cases r) (simp add: br.contents_def)

definition recv_ring :: "tcp_cb \<Rightarrow> byte_ring" where
  "recv_ring cb = (the (recv_buffer cb), recv_head cb, recv_tail cb, recv_count cb)"

definition send_ring :: "tcp_cb \<Rightarrow> byte_ring" where
  "send_ring cb = (the (send_buffer cb), send_head cb, send_tail cb, send_count cb)"

lemma length_stream [simp]: "length (stream (buf, h, t, c)) = unat c"
  by simp

lemma ring_put_many:
  assumes "ring_ok (buf, h, t, c)" and "unat c + length bs \<le> 65536" and "(buf', h', t', c') = fold ring_put bs (buf, h, t, c)"
  shows "ring_ok (buf', h', t', c')" "stream (buf', h', t', c') = stream (buf, h, t, c) @ bs"
  using br.contents_put_many [OF assms(1), of bs] assms(2,3) by (simp_all del: ring_ok.simps stream.simps)

lemma ring_take_many:
  assumes "ring_ok (buf, h, t, c)" and "n \<le> unat c" and "(buf', h', t', c') = (ring_take ^^ n) (buf, h, t, c)"
  shows "ring_ok (buf', h', t', c')" "stream (buf', h', t', c') = drop n (stream (buf, h, t, c))"
    "take n (stream (buf, h, t, c)) = map (\<lambda>k. buf ! ((unat h + k) mod 65536)) [0..<n]"
  using br.contents_take_many [OF assms(1), of n] br.take_contents [of n "(buf, h, t, c)"] assms(2,3)
  by (simp_all del: ring_ok.simps stream.simps)

text \<open>The byte loops of the code, seen on the rings.\<close>

lemma recv_pushes:
  assumes "recv_buffer cb = Some buf"
  shows "\<exists>buf' t'. push_all recv_push bs cb = Some (cb\<lparr>recv_buffer := Some buf', recv_tail := t'\<rparr>)
     \<and> (\<forall>c. (buf', recv_head cb, t', c + of_nat (length bs)) = fold ring_put bs (buf, recv_head cb, recv_tail cb, c))"
  using assms
proof (induction bs arbitrary: cb buf)
  case (Cons b bs)
  let ?cb = "cb\<lparr>recv_buffer := Some (buf[unat (recv_tail cb) := b]), recv_tail := (recv_tail cb + 1) mod TCP_BUFFER_SIZE\<rparr>"
  from Cons.IH [of ?cb "buf[unat (recv_tail cb) := b]"] obtain buf' t' where
    "push_all recv_push bs ?cb = Some (?cb\<lparr>recv_buffer := Some buf', recv_tail := t'\<rparr>)"
    "(buf', recv_head cb, t', c + of_nat (length bs)) = fold ring_put bs (buf[unat (recv_tail cb) := b], recv_head cb,
       (recv_tail cb + 1) mod TCP_BUFFER_SIZE, c)" for c by auto
  moreover have "recv_push b cb = Some ?cb" using Cons.prems by (simp add: recv_push_def)
  ultimately show ?case by (intro exI [of _ buf'] exI [of _ t']) (simp add: add.assoc [symmetric])
qed auto

lemma send_pushes:
  assumes "send_buffer cb = Some buf"
  shows "\<exists>buf' t'. push_all send_push bs cb = Some (cb\<lparr>send_buffer := Some buf', send_tail := t'\<rparr>)
     \<and> (\<forall>c. (buf', send_head cb, t', c + of_nat (length bs)) = fold ring_put bs (buf, send_head cb, send_tail cb, c))"
  using assms
proof (induction bs arbitrary: cb buf)
  case (Cons b bs)
  let ?cb = "cb\<lparr>send_buffer := Some (buf[unat (send_tail cb) := b]), send_tail := (send_tail cb + 1) mod TCP_BUFFER_SIZE\<rparr>"
  from Cons.IH [of ?cb "buf[unat (send_tail cb) := b]"] obtain buf' t' where
    "push_all send_push bs ?cb = Some (?cb\<lparr>send_buffer := Some buf', send_tail := t'\<rparr>)"
    "(buf', send_head cb, t', c + of_nat (length bs)) = fold ring_put bs (buf[unat (send_tail cb) := b], send_head cb,
       (send_tail cb + 1) mod TCP_BUFFER_SIZE, c)" for c by auto
  moreover have "send_push b cb = Some ?cb" using Cons.prems by (simp add: send_push_def)
  ultimately show ?case by (intro exI [of _ buf'] exI [of _ t']) (simp add: add.assoc [symmetric])
qed auto

lemma head_first:
  assumes "unat h < 65536"
  shows "map (\<lambda>k. buf ! ((unat h + k) mod 65536)) [0..<Suc n] =
     buf ! unat h # map (\<lambda>k. buf ! ((Suc (unat h) mod 65536 + k) mod 65536)) [0..<n]"
  using assms by (simp add: upt_conv_Cons map_Suc_upt [symmetric] wrap_Suc del: upt_Suc)

lemma recv_pops:
  assumes "recv_buffer cb = Some buf" and "unat (recv_head cb) < 65536"
  shows "\<exists>h'. recv_pop n cb = Some (map (\<lambda>k. buf ! ((unat (recv_head cb) + k) mod 65536)) [0..<n], cb\<lparr>recv_head := h'\<rparr>)
     \<and> (\<forall>c. (buf, h', recv_tail cb, c - of_nat n) = (ring_take ^^ n) (buf, recv_head cb, recv_tail cb, c))"
  using assms
proof (induction n arbitrary: cb)
  case (Suc n)
  let ?h = "(recv_head cb + 1) mod TCP_BUFFER_SIZE"
  from Suc.IH [of "cb\<lparr>recv_head := ?h\<rparr>"] Suc.prems obtain h' where
    "recv_pop n (cb\<lparr>recv_head := ?h\<rparr>) = Some (map (\<lambda>k. buf ! ((unat ?h + k) mod 65536)) [0..<n], cb\<lparr>recv_head := h'\<rparr>)"
    "(buf, h', recv_tail cb, c - of_nat n) = (ring_take ^^ n) (buf, ?h, recv_tail cb, c)" for c
    by (auto simp: next_index)
  with Suc.prems show ?case
    by (intro exI [of _ h'])
      (simp add: head_first next_index funpow_Suc_right diff_diff_eq [symmetric] del: upt_Suc funpow.simps)
qed simp

lemma send_pops:
  assumes "send_buffer cb = Some buf" and "unat (send_head cb) < 65536"
  shows "\<exists>h'. send_pop n cb = Some (map (\<lambda>k. buf ! ((unat (send_head cb) + k) mod 65536)) [0..<n], cb\<lparr>send_head := h'\<rparr>)
     \<and> (\<forall>c. (buf, h', send_tail cb, c - of_nat n) = (ring_take ^^ n) (buf, send_head cb, send_tail cb, c))"
  using assms
proof (induction n arbitrary: cb)
  case (Suc n)
  let ?h = "(send_head cb + 1) mod TCP_BUFFER_SIZE"
  from Suc.IH [of "cb\<lparr>send_head := ?h\<rparr>"] Suc.prems obtain h' where
    "send_pop n (cb\<lparr>send_head := ?h\<rparr>) = Some (map (\<lambda>k. buf ! ((unat ?h + k) mod 65536)) [0..<n], cb\<lparr>send_head := h'\<rparr>)"
    "(buf, h', send_tail cb, c - of_nat n) = (ring_take ^^ n) (buf, ?h, send_tail cb, c)" for c
    by (auto simp: next_index)
  with Suc.prems show ?case
    by (intro exI [of _ h'])
      (simp add: head_first next_index funpow_Suc_right diff_diff_eq [symmetric] del: upt_Suc funpow.simps)
qed simp

lemma clamp:
  fixes len :: u16 and n :: u32
  shows "unat (ucast (if ucast len < n then ucast len else n) :: u16) = min (unat len) (unat n)"
proof -
  have l: "unat (ucast len :: u32) = unat len" using unat_below [of len] by (simp add: unat_cast_small)
  have "unat n < 2 ^ 16" if "unat n \<le> unat len" using that unat_below [of len] by simp
  then show ?thesis using l unat_below [of len] by (auto simp: word_less_nat_alt unat_cast min_def)
qed

lemma clamp':
  fixes len :: u16 and n :: u32
  shows "unat (ucast (if n < ucast len then n else ucast len) :: u16) = min (unat len) (unat n)"
proof -
  have l: "unat (ucast len :: u32) = unat len" using unat_below [of len] by (simp add: unat_cast_small)
  have "unat n < 2 ^ 16" if "unat n \<le> unat len" using that unat_below [of len] by simp
  then show ?thesis using l unat_below [of len] by (auto simp: word_less_nat_alt unat_cast min_def)
qed

lemma space_left: "unat c \<le> 65536 \<Longrightarrow> unat (TCP_BUFFER_SIZE - c) = 65536 - unat c" for c :: u32
  by (simp add: unat_sub word_le_nat_alt)

definition recv_ok :: "tcp_cb \<Rightarrow> bool" where
  "recv_ok cb \<longleftrightarrow> recv_buffer cb \<noteq> None \<and> ring_ok (recv_ring cb)"

definition send_ok :: "tcp_cb \<Rightarrow> bool" where
  "send_ok cb \<longleftrightarrow> send_buffer cb \<noteq> None \<and> ring_ok (send_ring cb)"

lemma recv_append:
  assumes "recv_ok cb" and "unat (recv_count cb) + length bs \<le> 65536"
  shows "\<exists>buf' t'. push_all recv_push bs cb = Some (cb\<lparr>recv_buffer := Some buf', recv_tail := t'\<rparr>)
     \<and> (\<forall>cb'. recv_ring cb' = (buf', recv_head cb, t', recv_count cb + of_nat (length bs)) \<longrightarrow>
          ring_ok (recv_ring cb') \<and> stream (recv_ring cb') = stream (recv_ring cb) @ bs)"
proof -
  from assms(1) obtain buf where buf: "recv_buffer cb = Some buf" "ring_ok (buf, recv_head cb, recv_tail cb, recv_count cb)"
    by (auto simp: recv_ok_def recv_ring_def simp del: ring_ok.simps)
  then have "recv_ring cb = (buf, recv_head cb, recv_tail cb, recv_count cb)" by (simp add: recv_ring_def)
  moreover obtain buf' t' where push: "push_all recv_push bs cb = Some (cb\<lparr>recv_buffer := Some buf', recv_tail := t'\<rparr>)"
    and ring: "\<forall>c. (buf', recv_head cb, t', c + of_nat (length bs)) = fold ring_put bs (buf, recv_head cb, recv_tail cb, c)"
    using recv_pushes [OF buf(1), of bs] by blast
  ultimately show ?thesis using ring_put_many [OF buf(2) assms(2) ring [rule_format]] 
    by (intro exI [of _ buf'] exI [of _ t']) (simp del: stream.simps ring_ok.simps)
qed

lemma send_append:
  assumes "send_ok cb" and "unat (send_count cb) + length bs \<le> 65536"
  shows "\<exists>buf' t'. push_all send_push bs cb = Some (cb\<lparr>send_buffer := Some buf', send_tail := t'\<rparr>)
     \<and> (\<forall>cb'. send_ring cb' = (buf', send_head cb, t', send_count cb + of_nat (length bs)) \<longrightarrow>
          ring_ok (send_ring cb') \<and> stream (send_ring cb') = stream (send_ring cb) @ bs)"
proof -
  from assms(1) obtain buf where buf: "send_buffer cb = Some buf" "ring_ok (buf, send_head cb, send_tail cb, send_count cb)"
    by (auto simp: send_ok_def send_ring_def simp del: ring_ok.simps)
  then have "send_ring cb = (buf, send_head cb, send_tail cb, send_count cb)" by (simp add: send_ring_def)
  moreover obtain buf' t' where push: "push_all send_push bs cb = Some (cb\<lparr>send_buffer := Some buf', send_tail := t'\<rparr>)"
    and ring: "\<forall>c. (buf', send_head cb, t', c + of_nat (length bs)) = fold ring_put bs (buf, send_head cb, send_tail cb, c)"
    using send_pushes [OF buf(1), of bs] by blast
  ultimately show ?thesis using ring_put_many [OF buf(2) assms(2) ring [rule_format]] 
    by (intro exI [of _ buf'] exI [of _ t']) (simp del: stream.simps ring_ok.simps)
qed

lemma recv_remove:
  assumes "recv_ok cb" and "n \<le> unat (recv_count cb)"
  shows "\<exists>h'. recv_pop n cb = Some (take n (stream (recv_ring cb)), cb\<lparr>recv_head := h'\<rparr>)
     \<and> (\<forall>cb'. recv_ring cb' = (the (recv_buffer cb), h', recv_tail cb, recv_count cb - of_nat n) \<longrightarrow>
          ring_ok (recv_ring cb') \<and> stream (recv_ring cb') = drop n (stream (recv_ring cb)))"
proof -
  from assms(1) obtain buf where buf: "recv_buffer cb = Some buf" "ring_ok (buf, recv_head cb, recv_tail cb, recv_count cb)"
    by (auto simp: recv_ok_def recv_ring_def simp del: ring_ok.simps)
  have r: "recv_ring cb = (buf, recv_head cb, recv_tail cb, recv_count cb)" by (simp add: recv_ring_def buf)
  have h: "unat (recv_head cb) < 65536" using buf(2) by simp
  obtain h' where pop: "recv_pop n cb = Some (map (\<lambda>k. buf ! ((unat (recv_head cb) + k) mod 65536)) [0..<n], cb\<lparr>recv_head := h'\<rparr>)"
    and ring: "\<forall>c. (buf, h', recv_tail cb, c - of_nat n) = (ring_take ^^ n) (buf, recv_head cb, recv_tail cb, c)"
    using recv_pops [OF buf(1) h, of n] by blast
  show ?thesis
    using ring_take_many [OF buf(2) assms(2) ring [rule_format]] pop unfolding r buf(1) option.sel
    by (intro exI [of _ h']) (simp del: stream.simps ring_ok.simps)
qed

lemma send_remove:
  assumes "send_ok cb" and "n \<le> unat (send_count cb)"
  shows "\<exists>h'. send_pop n cb = Some (take n (stream (send_ring cb)), cb\<lparr>send_head := h'\<rparr>)
     \<and> (\<forall>cb'. send_ring cb' = (the (send_buffer cb), h', send_tail cb, send_count cb - of_nat n) \<longrightarrow>
          ring_ok (send_ring cb') \<and> stream (send_ring cb') = drop n (stream (send_ring cb)))"
proof -
  from assms(1) obtain buf where buf: "send_buffer cb = Some buf" "ring_ok (buf, send_head cb, send_tail cb, send_count cb)"
    by (auto simp: send_ok_def send_ring_def simp del: ring_ok.simps)
  have r: "send_ring cb = (buf, send_head cb, send_tail cb, send_count cb)" by (simp add: send_ring_def buf)
  have h: "unat (send_head cb) < 65536" using buf(2) by simp
  obtain h' where pop: "send_pop n cb = Some (map (\<lambda>k. buf ! ((unat (send_head cb) + k) mod 65536)) [0..<n], cb\<lparr>send_head := h'\<rparr>)"
    and ring: "\<forall>c. (buf, h', send_tail cb, c - of_nat n) = (ring_take ^^ n) (buf, send_head cb, send_tail cb, c)"
    using send_pops [OF buf(1) h, of n] by blast
  show ?thesis
    using ring_take_many [OF buf(2) assms(2) ring [rule_format]] pop unfolding r buf(1) option.sel
    by (intro exI [of _ h']) (simp del: stream.simps ring_ok.simps)
qed

lemma recv_count_stream [simp]: "length (stream (recv_ring cb)) = unat (recv_count cb)"
  by (simp add: recv_ring_def)

lemma send_count_stream [simp]: "length (stream (send_ring cb)) = unat (send_count cb)"
  by (simp add: send_ring_def)

lemma counts_bounded: "recv_ok cb \<Longrightarrow> unat (recv_count cb) \<le> 65536" "send_ok cb \<Longrightarrow> unat (send_count cb) \<le> 65536"
  by (simp_all add: recv_ok_def send_ok_def recv_ring_def send_ring_def)

declare stream.simps [simp del] ring_ok.simps [simp del]

text \<open>What the receiver's control block keeps while data arrives.\<close>

definition same_peer :: "tcp_cb \<Rightarrow> tcp_cb \<Rightarrow> bool" where
  "same_peer cb cb' \<longleftrightarrow> in_use cb' = in_use cb \<and> cb_state cb' = cb_state cb \<and> local_ip cb' = local_ip cb \<and> local_port cb' = local_port cb
     \<and> remote_ip cb' = remote_ip cb \<and> remote_port cb' = remote_port cb \<and> snd_nxt cb' = snd_nxt cb"

lemma input_data_appends:
  assumes mem: "has_memory env" and up: "tcpip_initialized (tcp_net s)" and ok: "recv_ok (tcp_connections s i)"
    and seq: "sg_data_len g > 0" "sg_seq g = rcv_nxt (tcp_connections s i)"
  defines "n \<equiv> min (unat (sg_data_len g)) (65536 - unat (recv_count (tcp_connections s i)))"
  assumes len: "n \<le> length (sg_data g)"
  shows "\<exists>s' cb'. input_data env g i s = Some s' \<and> tcp_connections s' = (tcp_connections s)(i := cb')
     \<and> same_peer (tcp_connections s i) cb' \<and> recv_ok cb'
     \<and> stream (recv_ring cb') = stream (recv_ring (tcp_connections s i)) @ take n (sg_data g)
     \<and> rcv_nxt cb' = rcv_nxt (tcp_connections s i) + of_nat n \<and> tcp_net s' = tcp_net s"
proof -
  let ?cb = "tcp_connections s i"
  define m where "m = (ucast (if ucast (sg_data_len g) < TCP_BUFFER_SIZE - recv_count ?cb then ucast (sg_data_len g)
    else TCP_BUFFER_SIZE - recv_count ?cb) :: u16)"
  have m: "unat m = n" unfolding m_def n_def clamp space_left [OF counts_bounded(1) [OF ok]] ..
  have u: "ucast m = (of_nat n :: u32)" unfolding m [symmetric] by simp
  have l: "length (take n (sg_data g)) = n" using len by simp
  have fit: "unat (recv_count ?cb) + length (take n (sg_data g)) \<le> 65536"
    unfolding l n_def using counts_bounded(1) [OF ok] by simp
  obtain buf' t' where push: "push_all recv_push (take n (sg_data g)) ?cb = Some (?cb\<lparr>recv_buffer := Some buf', recv_tail := t'\<rparr>)"
    and ring: "\<forall>cb'. recv_ring cb' = (buf', recv_head ?cb, t', recv_count ?cb + of_nat n) \<longrightarrow>
          ring_ok (recv_ring cb') \<and> stream (recv_ring cb') = stream (recv_ring ?cb) @ take n (sg_data g)"
    using recv_append [OF ok fit] unfolding l by blast
  define cb' where "cb' = after_send env TCP_FLAG_ACK 0 (?cb\<lparr>recv_buffer := Some buf', recv_tail := t',
     recv_count := recv_count ?cb + of_nat n, rcv_nxt := rcv_nxt ?cb + of_nat n,
     rcv_wnd := TCP_BUFFER_SIZE - (recv_count ?cb + of_nat n)\<rparr>)"
  have "recv_ring cb' = (buf', recv_head ?cb, t', recv_count ?cb + of_nat n)" by (simp add: cb'_def after_send_def recv_ring_def)
  note ring = ring [rule_format, OF this]
  show ?thesis
    using len seq push ring send_segment_ok [OF mem] up
    by (intro exI [of _ "snd (tcp_send_segment env i TCP_FLAG_ACK [] (upd_cb (\<lambda>_. ?cb\<lparr>recv_buffer := Some buf', recv_tail := t',
        recv_count := recv_count ?cb + of_nat n, rcv_nxt := rcv_nxt ?cb + of_nat n,
        rcv_wnd := TCP_BUFFER_SIZE - (recv_count ?cb + of_nat n)\<rparr>) i s))"] exI [of _ cb'])
      (simp add: input_data_def Let_def m_def [symmetric] m u recv_ok_def same_peer_def, simp add: cb'_def after_send_def)
qed

subsection \<open>Sending the contents of the send buffer\<close>

text \<open>The packets of a list of payloads sent one after the other from a control block.\<close>

fun data_packets :: "tcp_cb \<Rightarrow> u8 list list \<Rightarrow> u8 list list" where
  "data_packets cb [] = []"
| "data_packets cb (p # ps) = tcp_segment cb (TCP_FLAG_ACK OR TCP_FLAG_PSH) p
     # data_packets (cb\<lparr>snd_nxt := snd_nxt cb + of_nat (length p)\<rparr>) ps"

definition header_fields :: "tcp_cb \<Rightarrow> u32 \<times> u16 \<times> u32 \<times> u16 \<times> u32 \<times> u32 \<times> u32" where
  "header_fields cb = (local_ip cb, local_port cb, remote_ip cb, remote_port cb, snd_nxt cb, rcv_nxt cb, rcv_wnd cb)"

lemma data_packets_cong: "header_fields cb = header_fields cb' \<Longrightarrow> data_packets cb ps = data_packets cb' ps"
  by (induction ps arbitrary: cb cb') (simp_all add: header_fields_def tcp_segment_def segment_header_def)

definition mss_sized :: "u8 list list \<Rightarrow> bool" where
  "mss_sized ps \<longleftrightarrow> (\<forall>p\<in>set ps. 0 < length p \<and> length p \<le> 1460)"

lemma cast_length: "n < 65536 \<Longrightarrow> ucast (of_nat n :: u16) = (of_nat n :: u32)"
  by (simp add: word_unat_eq_iff unat_cast unat_of_nat_small)

text \<open>One round of the loop: a segment of at most \<open>TCP_MSS\<close> bytes leaves the send buffer.\<close>

lemma tcp_flush_round:
  assumes mem: "has_memory env" and ok: "send_ok (tcp_connections s i)" and up: "tcpip_initialized (tcp_net s)"
    and pos: "send_count (tcp_connections s i) \<noteq> 0"
  defines "cb \<equiv> tcp_connections s i" and "n \<equiv> min (unat (send_count (tcp_connections s i))) 1460"
  shows "\<exists>s2 cb2 h. tcp_flush env i s = tcp_flush env i s2 \<and> tcp_connections s2 = (tcp_connections s)(i := cb2)
     \<and> tcp_out s2 = tcp_out s @ [(remote_ip cb, tcp_segment cb (TCP_FLAG_ACK OR TCP_FLAG_PSH) (take n (stream (send_ring cb))))]
     \<and> tcp_net s2 = tcp_net s \<and> send_ok cb2 \<and> stream (send_ring cb2) = drop n (stream (send_ring cb))
     \<and> cb2 = cb\<lparr>send_head := h, send_count := send_count cb - of_nat n, last_tx_time := env_ticks env,
          snd_nxt := snd_nxt cb + of_nat n\<rparr>"
proof -
  define w where "w = (if send_count cb > TCP_MSS then TCP_MSS else send_count cb)"
  have w: "unat w = n" "w = of_nat n" by (auto simp: w_def n_def cb_def word_less_nat_alt min_def)
  have le: "n \<le> unat (send_count cb)" "n \<le> 1460" by (simp_all add: n_def cb_def)
  let ?seg = "take n (stream (send_ring cb))"
  have seg: "length ?seg = n" using le by simp
  obtain h where pop: "send_pop n cb = Some (?seg, cb\<lparr>send_head := h\<rparr>)"
    and ring: "\<forall>cb'. send_ring cb' = (the (send_buffer cb), h, send_tail cb, send_count cb - of_nat n) \<longrightarrow>
        ring_ok (send_ring cb') \<and> stream (send_ring cb') = drop n (stream (send_ring cb))"
    using send_remove [OF ok [folded cb_def] le(1)] by blast
  define s1 where "s1 = upd_cb (\<lambda>_. cb\<lparr>send_head := h, send_count := send_count cb - w\<rparr>) i s"
  define s2 where "s2 = snd (tcp_send_segment env i (TCP_FLAG_ACK OR TCP_FLAG_PSH) ?seg s1)"
  define cb2 where "cb2 = cb\<lparr>send_head := h, send_count := send_count cb - of_nat n, last_tx_time := env_ticks env, snd_nxt := snd_nxt cb + of_nat n\<rparr>"
  have up1: "tcpip_initialized (tcp_net s1)" using up by (simp add: s1_def)
  have small: "length ?seg \<le> 65515" using seg le(2) by simp
  note s2 = send_segment_ok [OF mem up1 small, where i = i and flags = "TCP_FLAG_ACK OR TCP_FLAG_PSH", folded s2_def, unfolded seg]
  have "tcp_segment (cb\<lparr>send_head := h, send_count := c\<rparr>) f p = tcp_segment cb f p" for c f p
    by (simp add: tcp_segment_def segment_header_def)
  then have "tcp_out s2 = tcp_out s @ [(remote_ip cb, tcp_segment cb (TCP_FLAG_ACK OR TCP_FLAG_PSH) ?seg)]"
    using s2(3) by (simp add: s1_def)
  moreover have "tcp_flush env i s = tcp_flush env i s2"
    using pos pop unfolding s2_def s1_def
    by (subst tcp_flush.simps) (simp add: Let_def cb_def [symmetric] w_def [symmetric] w(1) word_gt_0)
  moreover have "tcp_connections s2 = (tcp_connections s)(i := cb2)"
    using s2(2) le(2) by (simp add: cb2_def s1_def after_send_def w(2) cast_length)
  moreover have "send_ok cb2 \<and> stream (send_ring cb2) = drop n (stream (send_ring cb))"
    using ring [rule_format, of cb2] ok by (auto simp: cb2_def cb_def send_ring_def send_ok_def)
  ultimately show ?thesis using s2(4) cb2_def by (auto simp: s1_def)
qed

lemma tcp_flush_sends:
  assumes mem: "has_memory env"
  shows "send_ok (tcp_connections s i) \<Longrightarrow> tcpip_initialized (tcp_net s) \<Longrightarrow>
   \<exists>s' segs h t. tcp_flush env i s = Some s' \<and> concat segs = stream (send_ring (tcp_connections s i)) \<and> mss_sized segs
     \<and> tcp_out s' = tcp_out s @ map (Pair (remote_ip (tcp_connections s i))) (data_packets (tcp_connections s i) segs)
     \<and> tcp_connections s' = (tcp_connections s)(i := (tcp_connections s i)\<lparr>send_head := h, send_count := 0,
          snd_nxt := snd_nxt (tcp_connections s i) + send_count (tcp_connections s i), last_tx_time := t\<rparr>)
     \<and> send_ok (tcp_connections s' i) \<and> tcp_net s' = tcp_net s"
proof (induction "unat (send_count (tcp_connections s i))" arbitrary: s rule: less_induct)
  case less
  let ?cb = "tcp_connections s i"
  show ?case
  proof (cases "send_count ?cb = 0")
    case True
    have same: "?cb\<lparr>send_count := 0\<rparr> = ?cb" using True by simp
    have "stream (send_ring ?cb) = concat []" using send_count_stream [of ?cb] True by (simp del: send_count_stream)
    moreover have "tcp_flush env i s = Some s" using True by (subst tcp_flush.simps) simp
    ultimately show ?thesis
      using True less.prems
      by - (rule exI [of _ s], rule exI [of _ "[]"], rule exI [of _ "send_head ?cb"], rule exI [of _ "last_tx_time ?cb"],
        simp add: mss_sized_def same)
  next
    case False
    define n where "n = min (unat (send_count ?cb)) 1460"
    let ?seg = "take n (stream (send_ring ?cb))"
    from tcp_flush_round [OF mem less.prems False, folded n_def] obtain s2 cb2 h where
      s2: "tcp_flush env i s = tcp_flush env i s2" "tcp_connections s2 = (tcp_connections s)(i := cb2)"
        "tcp_out s2 = tcp_out s @ [(remote_ip ?cb, tcp_segment ?cb (TCP_FLAG_ACK OR TCP_FLAG_PSH) ?seg)]"
        "tcp_net s2 = tcp_net s" "send_ok cb2" "stream (send_ring cb2) = drop n (stream (send_ring ?cb))"
      and cb2: "cb2 = ?cb\<lparr>send_head := h, send_count := send_count ?cb - of_nat n, last_tx_time := env_ticks env,
          snd_nxt := snd_nxt ?cb + of_nat n\<rparr>" by blast
    have n: "0 < n" "n \<le> 1460" "n \<le> unat (send_count ?cb)" using False by (simp_all add: n_def unat_gt_0)
    have seg: "length ?seg = n" using n by simp
    have at: "tcp_connections s2 i = cb2" using s2(2) by simp
    have lt: "unat (send_count cb2) < unat (send_count ?cb)" using n send_count_stream [of cb2] s2(6) by simp
    from less.hyps [of s2, unfolded at, OF lt s2(5)] less.prems(2) s2(4)
    obtain s' segs h' t where ih: "tcp_flush env i s2 = Some s'" "concat segs = stream (send_ring cb2)" "mss_sized segs"
      "tcp_out s' = tcp_out s2 @ map (Pair (remote_ip cb2)) (data_packets cb2 segs)"
      "tcp_connections s' = (tcp_connections s2)(i := cb2\<lparr>send_head := h', send_count := 0,
          snd_nxt := snd_nxt cb2 + send_count cb2, last_tx_time := t\<rparr>)"
      "send_ok (tcp_connections s' i)" "tcp_net s' = tcp_net s2" by auto
    have segs: "concat (?seg # segs) = stream (send_ring ?cb)" using ih(2) s2(6) by simp
    have "0 < length ?seg \<and> length ?seg \<le> 1460" unfolding seg using n by simp
    then have sized: "mss_sized (?seg # segs)" using ih(3) by (simp only: mss_sized_def list.set ball_simps)
    have "data_packets cb2 segs = data_packets (?cb\<lparr>snd_nxt := snd_nxt ?cb + of_nat (length ?seg)\<rparr>) segs"
      unfolding seg by (rule data_packets_cong) (simp add: cb2 header_fields_def)
    then have out: "tcp_out s' = tcp_out s @ map (Pair (remote_ip ?cb)) (data_packets ?cb (?seg # segs))"
      using ih(4) s2(3) by (simp add: cb2)
    have "tcp_connections s' = (tcp_connections s)(i := ?cb\<lparr>send_head := h', send_count := 0,
          snd_nxt := snd_nxt ?cb + send_count ?cb, last_tx_time := t\<rparr>)"
      using ih(5) s2(2) by (simp add: cb2)
    then show ?thesis using s2(1,4) ih(1,6,7) segs sized out by (metis (no_types))
  qed
qed

lemma tcp_write_sends:
  assumes mem: "has_memory env" and up: "tcpip_initialized (tcp_net s)" and i: "i < TCP_MAX_CONNECTIONS"
    and cb: "in_use (tcp_connections s i)" "cb_state (tcp_connections s i) = TCP_STATE_ESTABLISHED" "send_ok (tcp_connections s i)"
      "send_count (tcp_connections s i) = 0"
    and len: "length data = unat len" "len \<noteq> 0"
  shows "\<exists>s' segs. tcp_write env (int i) (Some data) len s = Some (uint len, s') \<and> concat segs = data \<and> mss_sized segs
     \<and> tcp_out s' = tcp_out s @ map (Pair (remote_ip (tcp_connections s i))) (data_packets (tcp_connections s i) segs)
     \<and> snd_nxt (tcp_connections s' i) = snd_nxt (tcp_connections s i) + ucast len
     \<and> send_count (tcp_connections s' i) = 0 \<and> send_ok (tcp_connections s' i)
     \<and> (\<forall>k. k \<noteq> i \<longrightarrow> tcp_connections s' k = tcp_connections s k)"
proof -
  let ?cb = "tcp_connections s i"
  define m where "m = (ucast (if ucast len < TCP_BUFFER_SIZE - send_count ?cb then ucast len else TCP_BUFFER_SIZE - send_count ?cb) :: u16)"
  have "unat m = unat len" unfolding m_def clamp using cb(4) unat_below [of len] by simp
  then have m: "m = len" by (simp add: word_unat_eq_iff)
  have fit: "unat (send_count ?cb) + length data \<le> 65536" using cb(4) len(1) unat_below [of len] by simp
  obtain buf' t' where push: "push_all send_push data ?cb = Some (?cb\<lparr>send_buffer := Some buf', send_tail := t'\<rparr>)"
    and ring: "\<forall>cb'. send_ring cb' = (buf', send_head ?cb, t', send_count ?cb + of_nat (length data)) \<longrightarrow>
          ring_ok (send_ring cb') \<and> stream (send_ring cb') = stream (send_ring ?cb) @ data"
    using send_append [OF cb(3) fit] by blast
  define cb1 where "cb1 = ?cb\<lparr>send_buffer := Some buf', send_tail := t', send_count := send_count ?cb + ucast len\<rparr>"
  define s1 where "s1 = upd_cb (\<lambda>_. cb1) i s"
  have s1: "tcp_connections s1 i = cb1" "tcp_net s1 = tcp_net s" "tcp_out s1 = tcp_out s" by (simp_all add: s1_def)
  have "stream (send_ring ?cb) = []" using send_count_stream [of ?cb] cb(4) by (simp del: send_count_stream)
  then have ok: "send_ok cb1" "stream (send_ring cb1) = data"
    using ring [rule_format, of cb1] len(1) by (simp_all add: cb1_def send_ring_def send_ok_def)
  from tcp_flush_sends [OF mem, of s1 i, unfolded s1, OF ok(1) up] obtain s' segs h t where
    fl: "tcp_flush env i s1 = Some s'" "concat segs = data" "mss_sized segs"
      "tcp_out s' = tcp_out s @ map (Pair (remote_ip cb1)) (data_packets cb1 segs)"
      "tcp_connections s' = (tcp_connections s1)(i := cb1\<lparr>send_head := h, send_count := 0, snd_nxt := snd_nxt cb1 + send_count cb1,
         last_tx_time := t\<rparr>)" "send_ok (tcp_connections s' i)" unfolding ok(2) by blast
  have "data_packets cb1 segs = data_packets ?cb segs" by (rule data_packets_cong) (simp add: cb1_def header_fields_def)
  then have "tcp_out s' = tcp_out s @ map (Pair (remote_ip ?cb)) (data_packets ?cb segs)" using fl(4) by (simp add: cb1_def)
  moreover have "tcp_write env (int i) (Some data) len s = Some (uint len, s')"
    using fl(1) push cb(1,2) i len unfolding s1_def cb1_def
    by (simp add: tcp_write_def sock_ok_def Let_def m_def [symmetric] m)
  ultimately show ?thesis using fl(2,3,5,6) cb(4)
    by (intro exI [of _ s'], intro exI [of _ segs]) (simp add: cb1_def s1_def)
qed

subsection \<open>Delivery\<close>

text \<open>A list of packets handed to \<open>tcp_receive\<close> one after the other, each of them accepted.\<close>

fun receive_all :: "net_env \<Rightarrow> u32 \<Rightarrow> u32 \<Rightarrow> u8 list list \<Rightarrow> tcp \<Rightarrow> tcp option" where
  "receive_all env src dst [] s = Some s"
| "receive_all env src dst (p # ps) s =
     do { (r, s1) \<leftarrow> tcp_receive env src dst (Some p) (of_nat (length p)) s;
          if r = 0 then receive_all env src dst ps s1 else None }"

text \<open>Connection \<open>j\<close> is the only one for these addresses.\<close>

definition only_match :: "u32 \<Rightarrow> u16 \<Rightarrow> u32 \<Rightarrow> u16 \<Rightarrow> tcp \<Rightarrow> nat \<Rightarrow> bool" where
  "only_match lip lport rip rport s j \<longleftrightarrow>
     j < TCP_MAX_CONNECTIONS \<and> (\<forall>k<TCP_MAX_CONNECTIONS. conn_match lip lport rip rport (tcp_connections s k) \<longleftrightarrow> k = j)"

lemma only_match_find: "only_match lip lport rip rport s j \<Longrightarrow> tcp_find_connection lip lport rip rport s = Some j"
  by (rule find_exact) (auto simp: only_match_def)

lemma only_match_kept:
  "only_match lip lport rip rport s j \<Longrightarrow> tcp_connections s' = (tcp_connections s)(j := cb') \<Longrightarrow> same_peer (tcp_connections s j) cb' \<Longrightarrow>
   only_match lip lport rip rport s' j"
  by (auto simp: only_match_def same_peer_def conn_match_def)

lemma length_segment [simp]: "length (tcp_segment cb f p) = 20 + length p"
  by (simp add: tcp_segment_def Let_def)

lemma segment_delivered:
  assumes mem: "has_memory env" and up: "tcpip_initialized (tcp_net s)"
    and m: "only_match (remote_ip a) (remote_port a) (local_ip a) (local_port a) s j"
    and cb: "cb_state (tcp_connections s j) = TCP_STATE_ESTABLISHED" "recv_ok (tcp_connections s j)"
      "snd_nxt a = rcv_nxt (tcp_connections s j)"
    and p: "0 < length p" "length p \<le> 1460" "unat (recv_count (tcp_connections s j)) + length p \<le> 65536"
  shows "\<exists>s' cb'. tcp_receive env (local_ip a) (remote_ip a) (Some (tcp_segment a (TCP_FLAG_ACK OR TCP_FLAG_PSH) p)) (of_nat (20 + length p)) s
        = Some (0, s') \<and> tcp_connections s' = (tcp_connections s)(j := cb') \<and> same_peer (tcp_connections s j) cb' \<and> recv_ok cb'
     \<and> stream (recv_ring cb') = stream (recv_ring (tcp_connections s j)) @ p
     \<and> rcv_nxt cb' = rcv_nxt (tcp_connections s j) + of_nat (length p) \<and> tcp_net s' = tcp_net s"
proof -
  let ?cb = "tcp_connections s j" and ?g = "sent_segment a (TCP_FLAG_ACK OR TCP_FLAG_PSH) p"
  define cb0 where "cb0 = (if ack_acceptable ?g ?cb then ?cb\<lparr>snd_una := sg_ack ?g\<rparr> else ?cb)"
  define s0 where "s0 = (if ack_acceptable ?g ?cb then upd_cb (\<lambda>cb. cb\<lparr>snd_una := sg_ack ?g\<rparr>) j (received s) else received s)"
  have s0: "tcp_connections s0 = (tcp_connections s)(j := cb0)" "tcp_net s0 = tcp_net s" by (simp_all add: s0_def cb0_def)
  have cb0: "recv_ring cb0 = recv_ring ?cb" "recv_ok cb0" "recv_count cb0 = recv_count ?cb" "rcv_nxt cb0 = rcv_nxt ?cb"
    "same_peer ?cb cb0"
    using cb(2) by (simp_all add: cb0_def recv_ring_def recv_ok_def same_peer_def)
  have g: "sg_seq ?g = rcv_nxt ?cb" "sg_data ?g = p" "unat (sg_data_len ?g) = length p" "sg_flags ?g = 24"
    using cb(3) p(2) by (simp_all add: sent_segment_def unat_of_nat_small)
  have "sg_data_len ?g > 0" using g(3) p(1) by (simp add: word_gt_0 flip: unat_gt_0)
  then obtain s' cb' where inp: "input_data env ?g j s0 = Some s'" "tcp_connections s' = (tcp_connections s0)(j := cb')" "same_peer cb0 cb'"
    "recv_ok cb'" "stream (recv_ring cb') = stream (recv_ring cb0) @ p" "rcv_nxt cb' = rcv_nxt cb0 + of_nat (length p)" "tcp_net s' = tcp_net s0"
    using input_data_appends [OF mem, of s0 j ?g] s0 cb0 g p up by auto
  have "tcp_input env ?g j (received s) = Some s'"
    using inp(1) cb(1) g(4) by (simp add: tcp_input_def input_established_def s0_def cong: if_cong)
  then have "tcp_receive env (local_ip a) (remote_ip a) (Some (tcp_segment a (TCP_FLAG_ACK OR TCP_FLAG_PSH) p)) (of_nat (20 + length p)) s
      = Some (0, s')"
    using receive_sent [OF _ only_match_find [OF m], of p env] p(2) by simp
  moreover have "same_peer ?cb cb'" using cb0(5) inp(3) by (simp add: same_peer_def)
  ultimately show ?thesis using inp s0 cb0 by (intro exI [of _ s'], intro exI [of _ cb']) simp
qed

lemma packets_delivered:
  assumes mem: "has_memory env"
  shows "tcpip_initialized (tcp_net s) \<Longrightarrow> only_match (remote_ip a) (remote_port a) (local_ip a) (local_port a) s j \<Longrightarrow>
     cb_state (tcp_connections s j) = TCP_STATE_ESTABLISHED \<Longrightarrow> recv_ok (tcp_connections s j) \<Longrightarrow>
     snd_nxt a = rcv_nxt (tcp_connections s j) \<Longrightarrow> mss_sized ps \<Longrightarrow>
     unat (recv_count (tcp_connections s j)) + length (concat ps) \<le> 65536 \<Longrightarrow>
     \<exists>s' cb'. receive_all env (local_ip a) (remote_ip a) (data_packets a ps) s = Some s'
       \<and> tcp_connections s' = (tcp_connections s)(j := cb') \<and> same_peer (tcp_connections s j) cb' \<and> recv_ok cb'
       \<and> stream (recv_ring cb') = stream (recv_ring (tcp_connections s j)) @ concat ps
       \<and> rcv_nxt cb' = rcv_nxt (tcp_connections s j) + of_nat (length (concat ps))"
proof (induction ps arbitrary: a s)
  case Nil
  then show ?case by (intro exI [of _ s], intro exI [of _ "tcp_connections s j"]) (simp add: same_peer_def)
next
  case (Cons p ps)
  let ?a = "a\<lparr>snd_nxt := snd_nxt a + of_nat (length p)\<rparr>"
  have p: "0 < length p" "length p \<le> 1460" "mss_sized ps" using Cons.prems(6) by (simp_all add: mss_sized_def)
  from Cons.prems(7) have "unat (recv_count (tcp_connections s j)) + length p \<le> 65536" by simp
  from segment_delivered [OF mem Cons.prems(1-5) p(1,2) this] obtain s1 cb1 where
    s1: "tcp_receive env (local_ip a) (remote_ip a) (Some (tcp_segment a (TCP_FLAG_ACK OR TCP_FLAG_PSH) p)) (of_nat (20 + length p)) s
        = Some (0, s1)" "tcp_connections s1 = (tcp_connections s)(j := cb1)" "same_peer (tcp_connections s j) cb1" "recv_ok cb1"
     "stream (recv_ring cb1) = stream (recv_ring (tcp_connections s j)) @ p"
     "rcv_nxt cb1 = rcv_nxt (tcp_connections s j) + of_nat (length p)" "tcp_net s1 = tcp_net s" by blast
  have at: "tcp_connections s1 j = cb1" using s1(2) by simp
  have cnt: "unat (recv_count cb1) = unat (recv_count (tcp_connections s j)) + length p"
    using s1(5) recv_count_stream [of cb1] by simp
  have "\<exists>s' cb'. receive_all env (local_ip ?a) (remote_ip ?a) (data_packets ?a ps) s1 = Some s'
       \<and> tcp_connections s' = (tcp_connections s1)(j := cb') \<and> same_peer (tcp_connections s1 j) cb' \<and> recv_ok cb'
       \<and> stream (recv_ring cb') = stream (recv_ring (tcp_connections s1 j)) @ concat ps
       \<and> rcv_nxt cb' = rcv_nxt (tcp_connections s1 j) + of_nat (length (concat ps))"
    using Cons.prems(1,2,3,5,7) s1(3,4,6,7) p(3) only_match_kept [OF Cons.prems(2) s1(2,3)] cnt
    by (intro Cons.IH) (simp_all add: at, simp_all add: same_peer_def)
  then obtain s' cb' where "receive_all env (local_ip a) (remote_ip a) (data_packets ?a ps) s1 = Some s'"
    "tcp_connections s' = (tcp_connections s)(j := cb')" "same_peer cb1 cb'" "recv_ok cb'"
    "stream (recv_ring cb') = stream (recv_ring cb1) @ concat ps" "rcv_nxt cb' = rcv_nxt cb1 + of_nat (length (concat ps))"
    by (auto simp: at s1(2))
  then show ?case using s1 by (intro exI [of _ s'], intro exI [of _ cb']) (simp add: same_peer_def)
qed

text \<open>
  C3. What one host writes the other host receives. On a synchronised connection with an empty send buffer
  \<open>tcp_write\<close> returns the number of bytes, having sent all of the data cut into segments of 1 to
  \<open>TCP_MSS\<close> bytes. When the peer has room for the data and is handed these packets in order, every one
  is accepted, the data is appended to its receive stream, and the next sequence number the sender uses is the
  one the receiver expects.
\<close>

theorem tcp_write_delivers:
  assumes mem: "has_memory ea" "has_memory eb" and up: "tcpip_initialized (tcp_net A)" "tcpip_initialized (tcp_net B)"
    and ij: "i < TCP_MAX_CONNECTIONS"
    and sync: "synchronised (tcp_connections A i) (tcp_connections B j)"
    and a: "send_ok (tcp_connections A i)" "send_count (tcp_connections A i) = 0"
    and b: "recv_ok (tcp_connections B j)" "length (stream (recv_ring (tcp_connections B j))) + length data \<le> 65536"
      "only_match (remote_ip (tcp_connections A i)) (remote_port (tcp_connections A i)) (local_ip (tcp_connections A i))
         (local_port (tcp_connections A i)) B j"
    and len: "length data = unat len" "len \<noteq> 0"
  shows "\<exists>A' B' segs. tcp_write ea (int i) (Some data) len A = Some (uint len, A') \<and> concat segs = data \<and> mss_sized segs
     \<and> tcp_out A' = tcp_out A @ map (Pair (remote_ip (tcp_connections A i))) (data_packets (tcp_connections A i) segs)
     \<and> receive_all eb (local_ip (tcp_connections A i)) (remote_ip (tcp_connections A i)) (data_packets (tcp_connections A i) segs) B = Some B'
     \<and> stream (recv_ring (tcp_connections B' j)) = stream (recv_ring (tcp_connections B j)) @ data
     \<and> cb_state (tcp_connections B' j) = TCP_STATE_ESTABLISHED
     \<and> snd_nxt (tcp_connections A' i) = rcv_nxt (tcp_connections B' j)"
proof -
  have st: "in_use (tcp_connections A i)" "cb_state (tcp_connections A i) = TCP_STATE_ESTABLISHED"
    "cb_state (tcp_connections B j) = TCP_STATE_ESTABLISHED" "snd_nxt (tcp_connections A i) = rcv_nxt (tcp_connections B j)"
    using sync by (simp_all add: synchronised_def)
  obtain A' segs where w: "tcp_write ea (int i) (Some data) len A = Some (uint len, A')" "concat segs = data" "mss_sized segs"
    "tcp_out A' = tcp_out A @ map (Pair (remote_ip (tcp_connections A i))) (data_packets (tcp_connections A i) segs)"
    "snd_nxt (tcp_connections A' i) = snd_nxt (tcp_connections A i) + ucast len"
    using tcp_write_sends [OF mem(1) up(1) ij st(1,2) a len] by blast
  have "unat (recv_count (tcp_connections B j)) + length (concat segs) \<le> 65536" using b(2) w(2) by simp
  from packets_delivered [OF mem(2) up(2) b(3) st(3) b(1) st(4) w(3) this, unfolded w(2)] obtain B' cb' where
    "receive_all eb (local_ip (tcp_connections A i)) (remote_ip (tcp_connections A i)) (data_packets (tcp_connections A i) segs) B = Some B'"
    "tcp_connections B' = (tcp_connections B)(j := cb')" "same_peer (tcp_connections B j) cb'"
    "stream (recv_ring cb') = stream (recv_ring (tcp_connections B j)) @ data"
    "rcv_nxt cb' = rcv_nxt (tcp_connections B j) + of_nat (length data)" by blast
  moreover have "of_nat (length data) = (ucast len :: u32)" unfolding len(1) by simp
  ultimately show ?thesis using w st
    by (intro exI [of _ A'] exI [of _ B'], intro exI [of _ segs]) (simp add: same_peer_def)
qed

text \<open>
  C36. \<open>tcp_read\<close> takes the oldest bytes. It returns the smaller of \<open>max_length\<close> and the number of bytes
  buffered; the bytes stored are that prefix of the receive stream; the rest stays, in order, for the next
  call; the window is the free space; no other connection is touched. On a connection that can receive no
  more and has nothing buffered it returns -1 and changes nothing.
\<close>

theorem tcp_read_takes:
  assumes i: "i < TCP_MAX_CONNECTIONS" and cb: "in_use (tcp_connections s i)" "recv_ok (tcp_connections s i)" and max: "max_length \<noteq> 0"
  defines "open_in \<equiv> cb_state (tcp_connections s i)
      \<in> {TCP_STATE_ESTABLISHED, TCP_STATE_FIN_WAIT_1, TCP_STATE_FIN_WAIT_2, TCP_STATE_CLOSE_WAIT}"
    and "n \<equiv> min (unat max_length) (length (stream (recv_ring (tcp_connections s i))))"
  shows "if open_in \<or> stream (recv_ring (tcp_connections s i)) \<noteq> []
     then \<exists>s'. tcp_read (int i) False max_length s = Some (int n, take n (stream (recv_ring (tcp_connections s i))), s')
       \<and> stream (recv_ring (tcp_connections s' i)) = drop n (stream (recv_ring (tcp_connections s i)))
       \<and> recv_ok (tcp_connections s' i) \<and> rcv_wnd (tcp_connections s' i) = TCP_BUFFER_SIZE - recv_count (tcp_connections s' i)
       \<and> (\<forall>k. k \<noteq> i \<longrightarrow> tcp_connections s' k = tcp_connections s k)
     else tcp_read (int i) False max_length s = Some (- 1, [], s)"
proof -
  let ?cb = "tcp_connections s i"
  have empty: "recv_count ?cb = 0 \<longleftrightarrow> stream (recv_ring ?cb) = []"
    using recv_count_stream [of ?cb] unat_eq_zero [of "recv_count ?cb"] by (metis length_0_conv)
  define m where "m = (ucast (if recv_count ?cb < ucast max_length then recv_count ?cb else ucast max_length) :: u16)"
  have m: "unat m = n" unfolding m_def clamp' n_def by simp
  have u: "ucast m = (of_nat n :: u32)" "uint m = int n" unfolding m [symmetric] by simp_all
  have "n \<le> unat (recv_count ?cb)" by (simp add: n_def)
  from recv_remove [OF cb(2) this] obtain h where pop: "recv_pop n ?cb = Some (take n (stream (recv_ring ?cb)), ?cb\<lparr>recv_head := h\<rparr>)"
    and ring: "\<forall>cb'. recv_ring cb' = (the (recv_buffer ?cb), h, recv_tail ?cb, recv_count ?cb - of_nat n) \<longrightarrow>
        ring_ok (recv_ring cb') \<and> stream (recv_ring cb') = drop n (stream (recv_ring ?cb))" by blast
  define cb' where "cb' = ?cb\<lparr>recv_head := h, recv_count := recv_count ?cb - of_nat n,
     rcv_wnd := TCP_BUFFER_SIZE - (recv_count ?cb - of_nat n)\<rparr>"
  have ok: "recv_ok cb'" "stream (recv_ring cb') = drop n (stream (recv_ring ?cb))"
    using ring [rule_format, of cb'] cb(2) by (simp_all add: cb'_def recv_ring_def recv_ok_def)
  have "tcp_read (int i) False max_length s = (if open_in \<or> recv_count ?cb \<noteq> 0
     then Some (int n, take n (stream (recv_ring ?cb)), upd_cb (\<lambda>_. cb') i s) else Some (- 1, [], s))"
    using i cb(1) max pop
    by (simp add: tcp_read_def sock_ok_def Let_def m_def [symmetric] m u open_in_def cb'_def)
  then show ?thesis unfolding empty using ok by (simp add: cb'_def)
qed

subsection \<open>A concrete connection\<close>

definition demo_end :: "u32 \<Rightarrow> u16 \<Rightarrow> u32 \<Rightarrow> u16 \<Rightarrow> tcp_cb" where
  "demo_end lip lport rip rport = zero_cb\<lparr>in_use := True, cb_state := TCP_STATE_ESTABLISHED, local_ip := lip, local_port := lport,
     remote_ip := rip, remote_port := rport, recv_buffer := Some (replicate 65536 0), send_buffer := Some (replicate 65536 0)\<rparr>"

lemma demo_end_ok: "recv_ok (demo_end a b c d)" "send_ok (demo_end a b c d)" "send_count (demo_end a b c d) = 0"
  "stream (recv_ring (demo_end a b c d)) = []"
  by (simp_all add: demo_end_def zero_cb_def recv_ok_def send_ok_def recv_ring_def send_ring_def ring_ok.simps stream.simps)

lemma demo_end_only: "only_match 2 80 1 50000 (demo_host (demo_end 2 80 1 50000)) 0"
  by (auto simp: only_match_def conn_match_def demo_end_def)

theorem tcp_write_delivers_witness:
  "\<exists>A' B' ps. tcp_write demo_env 0 (Some [7, 8, 9]) 3 (demo_host (demo_end 1 50000 2 80)) = Some (3, A')
     \<and> receive_all demo_env 1 2 ps (demo_host (demo_end 2 80 1 50000)) = Some B'
     \<and> stream (recv_ring (tcp_connections B' 0)) = [7, 8, 9]"
proof -
  let ?A = "demo_host (demo_end 1 50000 2 80)" and ?B = "demo_host (demo_end 2 80 1 50000)"
  have at: "local_ip (tcp_connections ?A 0) = 1" "local_port (tcp_connections ?A 0) = 50000" "remote_ip (tcp_connections ?A 0) = 2"
    "remote_port (tcp_connections ?A 0) = 80" by (simp_all add: demo_end_def)
  have "synchronised (tcp_connections ?A 0) (tcp_connections ?B 0)" by (simp add: synchronised_def demo_end_def zero_cb_def)
  from tcp_write_delivers [of demo_env demo_env ?A ?B 0 0 "[7, 8, 9]" 3, OF _ _ _ _ _ this, unfolded at]
  have "\<exists>A' B' segs. tcp_write demo_env (int 0) (Some [7, 8, 9]) 3 ?A = Some (uint (3 :: u16), A')
     \<and> receive_all demo_env 1 2 (data_packets (tcp_connections ?A 0) segs) ?B = Some B'
     \<and> stream (recv_ring (tcp_connections B' 0)) = stream (recv_ring (tcp_connections ?B 0)) @ [7, 8, 9]"
    using demo_end_only demo_end_ok by auto
  then show ?thesis using demo_end_ok by auto
qed

definition demo_filled :: tcp_cb where
  "demo_filled = (demo_end 1 50000 2 80)\<lparr>recv_buffer := Some ([5, 6] @ replicate 65534 0), recv_tail := 2, recv_count := 2\<rparr>"

theorem tcp_read_takes_witness:
  "\<exists>s'. tcp_read 0 False 1 (demo_host demo_filled) = Some (1, [5], s') \<and> stream (recv_ring (tcp_connections s' 0)) = [6]"
proof -
  have f: "stream (recv_ring demo_filled) = [5, 6]" "recv_ok demo_filled" "in_use demo_filled" "cb_state demo_filled = TCP_STATE_ESTABLISHED"
    by (simp_all add: demo_filled_def demo_end_def zero_cb_def recv_ok_def recv_ring_def ring_ok.simps stream.simps upt_rec)
  from tcp_read_takes [of 0 "demo_host demo_filled" 1] f show ?thesis
    by (auto simp del: recv_count_stream)
qed

end
