(* ===== verification/Ports.thy ===== *)
theory Ports
  imports Prelude
begin

text \<open>
  Ephemeral ports. \<open>tcp.c\<close> and \<open>udp.c\<close> each keep a 16-bit counter that runs from 49152 to 65535 and wraps back,
  and take the first port from there that none of their 64 table entries has. The search is a loop without a
  bound; \<open>port_search\<close> states what one round does and its lemmas show that it ends.
\<close>

definition next_port :: "u16 \<Rightarrow> u16" where
  "next_port n = (if n + 1 = 0 then 49152 else n + 1)"

definition port_gap :: "u16 \<Rightarrow> u16 \<Rightarrow> nat" where
  "port_gap n p = (if n \<le> p then unat p - unat n else 16384 - (unat n - unat p))"

lemma unat_next_port: "unat (next_port n) = (if unat n = 65535 then 49152 else Suc (unat n))"
proof (cases "unat n = 65535")
  case True
  then have "n = 65535" by (simp add: word_unat_eq_iff)
  then show ?thesis by (simp add: next_port_def)
next
  case False
  then have "unat n + 1 < 2 ^ 16" using unat_below [of n] by simp
  then have "unat (n + 1) = Suc (unat n)" using unat_plus_small [of n 1] by simp
  moreover from this have "n + 1 \<noteq> 0" by (metis unat_0 Zero_not_Suc)
  ultimately show ?thesis using False by (simp add: next_port_def)
qed

lemma next_port_range: "49152 \<le> n \<Longrightarrow> 49152 \<le> next_port n"
  using unat_below [of n] by (simp add: word_le_nat_alt unat_next_port)

lemma next_port_gap:
  assumes "49152 \<le> n" and "49152 \<le> p" and "n \<noteq> p"
  shows "port_gap (next_port n) p < port_gap n p"
proof -
  have "49152 \<le> unat n" "49152 \<le> unat p" "unat n < 65536" "unat p < 65536" "unat n \<noteq> unat p"
    using assms unat_below [of n] unat_below [of p] by (simp_all add: word_le_nat_alt word_unat_eq_iff)
  then show ?thesis by (auto simp: port_gap_def word_le_nat_alt unat_next_port)
qed

lemma few_ports:
  fixes f :: "nat \<Rightarrow> u16"
  shows "\<exists>p\<ge>49152. p \<notin> f ` {..<64}"
proof (rule ccontr)
  assume "\<not> ?thesis"
  then have "{49152..} \<subseteq> f ` {..<64}" by auto
  then have "card {49152 :: u16..} \<le> card {..<64 :: nat}" by (rule surj_card_le [rotated]) simp
  moreover have "inj_on (of_nat :: nat \<Rightarrow> u16) {49152..<65536}"
    by (auto simp: inj_on_def word_unat_eq_iff unat_of_nat_small)
  then have "card ((of_nat :: nat \<Rightarrow> u16) ` {49152..<65536}) = 16384" by (simp add: card_image)
  moreover have "(of_nat :: nat \<Rightarrow> u16) ` {49152..<65536} \<subseteq> {49152..}"
    by (auto simp: word_le_nat_alt unat_of_nat_small)
  then have "card ((of_nat :: nat \<Rightarrow> u16) ` {49152..<65536}) \<le> card {49152 :: u16..}" by (intro card_mono) simp_all
  ultimately show False by simp
qed

locale port_search =
  fixes counter :: "'s \<Rightarrow> u16"
    and set_counter :: "u16 \<Rightarrow> 's \<Rightarrow> 's"
    and used :: "'s \<Rightarrow> u16 \<Rightarrow> bool"
    and entry_port :: "'s \<Rightarrow> nat \<Rightarrow> u16"
    and alloc :: "'s \<Rightarrow> (u16 \<times> 's) option"
  assumes counter_set: "counter (set_counter n s) = n"
    and set_set: "set_counter m (set_counter n s) = set_counter m s"
    and used_set: "used (set_counter n s) p \<longleftrightarrow> used s p"
    and used_entry: "used s p \<Longrightarrow> p \<in> entry_port s ` {..<64}"
    and alloc_round: "alloc s = (let s1 = set_counter (next_port (counter s)) s
        in if used s1 (counter s) then alloc s1 else Some (counter s, s1))"
begin

lemma alloc_finds:
  "49152 \<le> counter s \<Longrightarrow> 49152 \<le> p \<Longrightarrow> \<not> used s p \<Longrightarrow>
   \<exists>q n. alloc s = Some (q, set_counter n s) \<and> 49152 \<le> q \<and> \<not> used s q \<and> 49152 \<le> n"
proof (induction "port_gap (counter s) p" arbitrary: s rule: less_induct)
  case less
  define s1 where "s1 = set_counter (next_port (counter s)) s"
  have step: "alloc s = (if used s (counter s) then alloc s1 else Some (counter s, s1))"
    by (subst alloc_round) (simp add: s1_def used_set)
  note range = next_port_range [OF less.prems(1)]
  show ?case
  proof (cases "used s (counter s)")
    case True
    then have "counter s \<noteq> p" using less.prems(3) by auto
    from next_port_gap [OF less.prems(1,2) this] have gap: "port_gap (counter s1) p < port_gap (counter s) p"
      by (simp add: s1_def counter_set)
    from less.hyps [OF gap] range less.prems obtain q n where "alloc s1 = Some (q, set_counter n s1)"
      "49152 \<le> q" "\<not> used s1 q" "49152 \<le> n" by (auto simp: s1_def used_set counter_set)
    then show ?thesis using step True by (auto simp: s1_def set_set used_set)
  next
    case False
    then show ?thesis using step less.prems(1) range by (auto simp: s1_def)
  qed
qed

lemma alloc_total:
  assumes "49152 \<le> counter s"
  shows "\<exists>q n. alloc s = Some (q, set_counter n s) \<and> 49152 \<le> q \<and> \<not> used s q \<and> 49152 \<le> n"
proof -
  obtain p where "49152 \<le> p" "p \<notin> entry_port s ` {..<64}" using few_ports by blast
  then show ?thesis using alloc_finds [OF assms, of p] used_entry by blast
qed

end

end
