(* ===== verification/TcpMachine.thy ===== *)
theory TcpMachine
  imports TcpProps Ports
begin

unbundle bit_operations_syntax

text \<open>
  The state machine of \<open>kernel/net/tcp.c\<close>: the transitions \<open>tcp_receive\<close> can make and which control blocks
  it can touch; and the search for a free local port.
\<close>

subsection \<open>Transitions\<close>

text \<open>The moves of a connection on an arriving segment.\<close>

inductive input_edge :: "tcp_state \<Rightarrow> tcp_state \<Rightarrow> bool" where
  syn_ack: "input_edge TCP_STATE_SYN_SENT TCP_STATE_ESTABLISHED"
| both_open: "input_edge TCP_STATE_SYN_SENT TCP_STATE_SYN_RECEIVED"
| refused: "input_edge TCP_STATE_SYN_SENT TCP_STATE_CLOSED"
| opened: "input_edge TCP_STATE_SYN_RECEIVED TCP_STATE_ESTABLISHED"
| aborted: "input_edge TCP_STATE_SYN_RECEIVED TCP_STATE_CLOSED"
| reset: "input_edge TCP_STATE_ESTABLISHED TCP_STATE_CLOSED"
| peer_closes: "input_edge TCP_STATE_ESTABLISHED TCP_STATE_CLOSE_WAIT"
| fin_acked: "input_edge TCP_STATE_FIN_WAIT_1 TCP_STATE_FIN_WAIT_2"
| both_close: "input_edge TCP_STATE_FIN_WAIT_1 TCP_STATE_CLOSING"
| closed_at_once: "input_edge TCP_STATE_FIN_WAIT_1 TCP_STATE_TIME_WAIT"
| closed: "input_edge TCP_STATE_FIN_WAIT_2 TCP_STATE_TIME_WAIT"
| closing_acked: "input_edge TCP_STATE_CLOSING TCP_STATE_TIME_WAIT"
| last_acked: "input_edge TCP_STATE_LAST_ACK TCP_STATE_CLOSED"
| waited: "input_edge TCP_STATE_TIME_WAIT TCP_STATE_CLOSED"

definition moves :: "tcp_cb \<Rightarrow> tcp_cb \<Rightarrow> bool" where
  "moves cb cb' \<longleftrightarrow> cb_state cb' = cb_state cb \<or> input_edge (cb_state cb) (cb_state cb')"

text \<open>Only connection \<open>i\<close> differs, and it has made one move.\<close>

definition moves_only :: "nat \<Rightarrow> tcp \<Rightarrow> tcp \<Rightarrow> bool" where
  "moves_only i s s' \<longleftrightarrow>
     (\<forall>k. k \<noteq> i \<longrightarrow> tcp_connections s' k = tcp_connections s k) \<and> moves (tcp_connections s i) (tcp_connections s' i)"

lemma send_segment_frame:
  "k \<noteq> i \<Longrightarrow> tcp_connections (snd (tcp_send_segment env i f p s)) k = tcp_connections s k"
  "cb_state (tcp_connections (snd (tcp_send_segment env i f p s)) i) = cb_state (tcp_connections s i)"
  "in_use (tcp_connections (snd (tcp_send_segment env i f p s)) i) = in_use (tcp_connections s i)"
  by (simp_all add: tcp_send_segment_def tcp_kmalloc_def Let_def split: option.splits)

lemma reply_rst_frame [simp]: "tcp_connections (reply_rst g n s) = tcp_connections s"
  by (simp add: reply_rst_def tcp_send_rst_def Let_def)

lemma release_frame [simp]: "tcp_connections (release_cb i s) = (tcp_connections s)(i := zero_cb)"
  by (simp add: release_cb_def)

lemma push_state: "push_all recv_push bs cb = Some cb' \<Longrightarrow> cb_state cb' = cb_state cb"
  by (induction bs arbitrary: cb) (auto simp: recv_push_def split: option.splits Option.bind_splits)

lemmas frame_simps = send_segment_frame set_state_def enter_time_wait_def Let_def

lemma input_syn_sent_moves:
  "cb_state (tcp_connections s i) = TCP_STATE_SYN_SENT \<Longrightarrow> moves_only i s (input_syn_sent env g i s)"
  by (auto simp: moves_only_def moves_def input_syn_sent_def frame_simps intro: input_edge.intros)

lemma input_syn_received_moves:
  "cb_state (tcp_connections s i) = TCP_STATE_SYN_RECEIVED \<Longrightarrow> moves_only i s (input_syn_received g i s)"
  by (auto simp: moves_only_def moves_def input_syn_received_def frame_simps intro: input_edge.intros)

lemma input_data_frame:
  assumes "input_data env g i s = Some s'"
  shows "k \<noteq> i \<Longrightarrow> tcp_connections s' k = tcp_connections s k" "cb_state (tcp_connections s' i) = cb_state (tcp_connections s i)"
  using assms by (auto simp: input_data_def frame_simps push_state split: if_splits Option.bind_splits)

lemma input_established_moves:
  assumes "cb_state (tcp_connections s i) = TCP_STATE_ESTABLISHED" and "input_established env g i s = Some s'"
  shows "moves_only i s s'"
proof (cases "flag (sg_flags g) TCP_FLAG_RST")
  case True
  then show ?thesis using assms by (auto simp: input_established_def moves_only_def moves_def frame_simps intro: input_edge.intros)
next
  case False
  define s0 where "s0 = (if ack_acceptable g (tcp_connections s i) then upd_cb (\<lambda>cb. cb\<lparr>snd_una := sg_ack g\<rparr>) i s else s)"
  have s0: "\<And>k. k \<noteq> i \<Longrightarrow> tcp_connections s0 k = tcp_connections s k" "cb_state (tcp_connections s0 i) = TCP_STATE_ESTABLISHED"
    using assms(1) by (simp_all add: s0_def)
  from assms(2) False obtain s1 where s1: "input_data env g i s0 = Some s1"
    and s': "s' = (if flag (sg_flags g) TCP_FLAG_FIN
        then snd (tcp_send_segment env i TCP_FLAG_ACK []
               (upd_cb (\<lambda>cb. cb\<lparr>rcv_nxt := sg_seq g + 1, cb_state := TCP_STATE_CLOSE_WAIT\<rparr>) i s1)) else s1)"
    by (auto simp: input_established_def s0_def [symmetric] split: if_splits Option.bind_splits)
  show ?thesis
    using input_data_frame [OF s1] s0 assms(1) unfolding s'
    by (auto simp: moves_only_def moves_def send_segment_frame intro: input_edge.intros)
qed

lemma input_fin_wait_1_moves:
  "cb_state (tcp_connections s i) = TCP_STATE_FIN_WAIT_1 \<Longrightarrow> moves_only i s (input_fin_wait_1 env g i s)"
  by (auto simp: moves_only_def moves_def input_fin_wait_1_def frame_simps intro: input_edge.intros)

lemma input_fin_wait_2_moves:
  "cb_state (tcp_connections s i) = TCP_STATE_FIN_WAIT_2 \<Longrightarrow> moves_only i s (input_fin_wait_2 env g i s)"
  by (auto simp: moves_only_def moves_def input_fin_wait_2_def frame_simps intro: input_edge.intros)

text \<open>A listener keeps its state; the only other control block that changes was free.\<close>

definition takes_free_slot :: "nat \<Rightarrow> tcp \<Rightarrow> tcp \<Rightarrow> bool" where
  "takes_free_slot i s s' \<longleftrightarrow> cb_state (tcp_connections s' i) = TCP_STATE_LISTEN \<and>
     (\<exists>j. \<not> in_use (tcp_connections s j) \<and> (\<forall>k. k \<noteq> i \<longrightarrow> k \<noteq> j \<longrightarrow> tcp_connections s' k = tcp_connections s k)
       \<and> (in_use (tcp_connections s' j) \<longrightarrow> cb_state (tcp_connections s' j) = TCP_STATE_SYN_RECEIVED))"

lemma input_listen_takes:
  assumes st: "cb_state (tcp_connections s i) = TCP_STATE_LISTEN" and iu: "in_use (tcp_connections s i)"
  shows "moves_only i s (input_listen env g i s) \<or> takes_free_slot i s (input_listen env g i s)"
proof (cases "flag (sg_flags g) TCP_FLAG_SYN \<and> tcp_alloc_tcb s \<noteq> None")
  case False
  then have "input_listen env g i s = s" by (cases "tcp_alloc_tcb s") (auto simp: input_listen_def)
  then show ?thesis by (simp add: moves_only_def moves_def)
next
  case True
  then obtain j where free: "first_from (\<lambda>i. \<not> in_use (tcp_connections s i)) 0 TCP_MAX_CONNECTIONS = Some j"
    by (auto simp: tcp_alloc_tcb_def split: option.splits)
  then have j: "\<not> in_use (tcp_connections s j)" "i \<noteq> j" using first_from_SomeD [OF free] iu by auto
  show ?thesis
    using True j st unfolding takes_free_slot_def
    by (intro disjI2 conjI exI [of _ j])
      (auto simp: input_listen_def tcp_alloc_tcb_def free alloc_buffers_def tcp_kmalloc_def tcp_generate_iss_def frame_simps split: option.splits)
qed

lemma simple_moves:
  "moves_only i s s"
  "input_edge (cb_state (tcp_connections s i)) TCP_STATE_TIME_WAIT \<Longrightarrow> moves_only i s (enter_time_wait env i s)"
  "input_edge (cb_state (tcp_connections s i)) TCP_STATE_CLOSED \<Longrightarrow> moves_only i s (release_cb i s)"
  "moves_only i s (reply_rst g n s)"
  by (simp_all add: moves_only_def moves_def enter_time_wait_def zero_cb_def)

lemma tcp_input_moves:
  assumes "tcp_input env g i s = Some s'" and "in_use (tcp_connections s i)"
  shows "moves_only i s s' \<or> cb_state (tcp_connections s i) = TCP_STATE_LISTEN \<and> takes_free_slot i s s'"
proof (cases "cb_state (tcp_connections s i)")
  case TCP_STATE_LISTEN
  then show ?thesis using assms input_listen_takes [OF TCP_STATE_LISTEN assms(2)] by (auto simp: tcp_input_def)
next
  case TCP_STATE_ESTABLISHED
  then show ?thesis using assms input_established_moves [OF TCP_STATE_ESTABLISHED] by (auto simp: tcp_input_def)
qed (use assms in \<open>auto simp: tcp_input_def input_syn_sent_moves input_syn_received_moves input_fin_wait_1_moves
   input_fin_wait_2_moves simple_moves input_edge.intros\<close>)

text \<open>
  C13. What an arriving packet can do. A packet that is refused (no packet, shorter than a header, a bad
  checksum, no connection for its addresses) gives -1 and changes no control block. Any other packet concerns
  the one connection \<open>tcp_find_connection\<close> gives for its addresses; that connection keeps its state or makes one
  of the moves of \<open>input_edge\<close> and every other control block is unchanged, except that a segment for a
  listener may also take a control block that was free, and leaves that one in SYN_RECEIVED or free.
\<close>

theorem tcp_receive_transitions:
  assumes "tcp_receive env src dst packet len s = Some (r, s')"
  shows "r = - 1 \<and> tcp_connections s' = tcp_connections s
    \<or> (\<exists>p i. r = 0 \<and> packet = Some p \<and> tcp_checksum src dst p len = Some 0
         \<and> tcp_find_connection dst (sg_dest_port (read_segment src dst p len)) src (sg_src_port (read_segment src dst p len)) s = Some i
         \<and> (moves_only i s s' \<or> cb_state (tcp_connections s i) = TCP_STATE_LISTEN \<and> takes_free_slot i s s'))"
proof -
  have rc: "tcp_find_connection lip lp rip rp (upd_tcp_stats f s) = tcp_find_connection lip lp rip rp s" for lip lp rip rp f
    by (simp add: tcp_find_connection_def Let_def cong: option.case_cong)
  have frame: "moves_only i (upd_tcp_stats f s) s' = moves_only i s s'" "takes_free_slot i (upd_tcp_stats f s) s' = takes_free_slot i s s'"
    for i f by (simp_all add: moves_only_def takes_free_slot_def)
  from assms show ?thesis
    unfolding tcp_receive_def Let_def rc
    by (auto simp: frame dest!: tcp_input_moves find_live split: option.splits if_splits Option.bind_splits)
qed

definition demo_open :: tcp_cb where
  "demo_open = zero_cb\<lparr>in_use := True, cb_state := TCP_STATE_ESTABLISHED, local_ip := 2, local_port := 80, remote_ip := 1,
     remote_port := 50000\<rparr>"

text \<open>A reset sent by the peer of an open connection.\<close>

theorem tcp_receive_transitions_witness:
  "\<exists>p s'. tcp_receive demo_env 1 2 (Some p) 20 (demo_host demo_open) = Some (0, s') \<and> moves_only 0 (demo_host demo_open) s'
     \<and> cb_state (tcp_connections s' 0) = TCP_STATE_CLOSED"
proof -
  let ?peer = "demo_open\<lparr>local_ip := 1, local_port := 50000, remote_ip := 2, remote_port := 80\<rparr>"
  define s' where "s' = set_state TCP_STATE_CLOSED 0 (received (demo_host demo_open))"
  have f: "tcp_find_connection 2 80 1 50000 (demo_host demo_open) = Some 0"
    by (rule find_exact) (auto simp: conn_match_def demo_open_def split: if_splits)
  have r: "tcp_receive demo_env 1 2 (Some (tcp_segment ?peer TCP_FLAG_RST [])) 20 (demo_host demo_open) = Some (0, s')"
    using receive_sent [of "[]" ?peer "demo_host demo_open" 0 demo_env TCP_FLAG_RST] f
    by (simp add: tcp_input_def demo_open_def input_established_def sent_segment_def s'_def flag_def)
  from tcp_receive_transitions [OF r] obtain p i where
    "tcp_find_connection 2 (sg_dest_port (read_segment 1 2 p 20)) 1 (sg_src_port (read_segment 1 2 p 20)) (demo_host demo_open) = Some i"
    "moves_only i (demo_host demo_open) s' \<or> cb_state (tcp_connections (demo_host demo_open) i) = TCP_STATE_LISTEN"
    by auto
  moreover from this(1) have "i = 0" using find_live by (fastforce split: if_splits)
  moreover have "cb_state (tcp_connections (demo_host demo_open) 0) = TCP_STATE_ESTABLISHED" by (simp add: demo_open_def)
  moreover have "cb_state (tcp_connections s' 0) = TCP_STATE_CLOSED" by (simp add: s'_def set_state_def)
  ultimately show ?thesis using r by auto
qed

subsection \<open>Local ports\<close>

interpretation tcp_ports: port_search next_ephemeral_port "\<lambda>n s. s\<lparr>next_ephemeral_port := n\<rparr>" port_used
  "\<lambda>s i. local_port (tcp_connections s i)" tcp_alloc_port
proof unfold_locales
  show "tcp_alloc_port s = (let s1 = s\<lparr>next_ephemeral_port := next_port (next_ephemeral_port s)\<rparr>
      in if port_used s1 (next_ephemeral_port s) then tcp_alloc_port s1 else Some (next_ephemeral_port s, s1))" for s
    by (subst tcp_alloc_port.simps) (simp add: Let_def next_port_def)
qed (auto simp: port_used_def image_iff dest: first_from_SomeD)

text \<open>
  The search for an ephemeral port ends. The loop of \<open>tcp_alloc_port\<close> has no bound; since at most
  \<open>TCP_MAX_CONNECTIONS\<close> of the 16384 ephemeral ports can be in use, it always returns one that no control
  block has, from 49152 up, and leaves the counter in that range again.
\<close>

lemma tcp_alloc_port_total:
  assumes "49152 \<le> next_ephemeral_port s"
  shows "\<exists>q n. tcp_alloc_port s = Some (q, s\<lparr>next_ephemeral_port := n\<rparr>) \<and> 49152 \<le> q \<and> \<not> port_used s q \<and> 49152 \<le> n"
  using tcp_ports.alloc_total [OF assms] .

end
