(* ===== verification/Udp.thy ===== *)
theory Udp
  imports TcpProps
begin

unbundle bit_operations_syntax

text \<open>
  UDP, \<open>kernel/net/udp.c\<close>. The receive queue of a socket, a singly linked list of blocks from \<open>kmalloc\<close> with
  head and tail pointers, is the list of its packets: the head pointer is the first, the tail pointer the last
  element, both null for the empty list. The interface configuration of \<open>tcpip.c\<close> is the argument \<open>nb\<close>, ticks
  and memory come from the \<open>net_env\<close> of theory \<open>Tcp\<close>. Every packet handed to \<open>ip_send_packet\<close> is appended to
  \<open>udp_out\<close>; reads past the end of the data are the result \<open>None\<close>.
\<close>

subsection \<open>Data\<close>

abbreviation (input) "UDP_MAX_SOCKETS \<equiv> (64 :: nat)"
abbreviation (input) "UDP_RECV_QUEUE_SIZE \<equiv> (16 :: int)"
abbreviation (input) "UDP_MAX_PAYLOAD \<equiv> (65507 :: u16)"
abbreviation (input) "IP_PROTO_UDP \<equiv> (17 :: u8)"

record udp_packet =
  up_src_ip :: u32
  up_src_port :: u16
  up_length :: u16
  up_data :: "u8 list"

record udp_sock =
  us_in_use :: bool
  us_local_port :: u16
  us_local_ip :: u32
  us_bound :: bool
  us_remote_ip :: u32
  us_remote_port :: u16
  us_connected :: bool
  recv_queue :: "udp_packet list"
  recv_queue_count :: int
  packets_sent :: u32
  packets_received :: u32

record udp_stats =
  datagrams_received :: u32
  datagrams_sent :: u32
  receive_errors :: u32
  no_port_errors :: u32
  checksum_errors :: u32

record udp =
  udp_sockets :: "nat \<Rightarrow> udp_sock"
  udp_initialized :: bool
  udp_next_port :: u16
  udp_counts :: udp_stats
  udp_out :: "(u32 \<times> u8 list) list"
  udp_allocs :: nat

definition udp_kmalloc :: "net_env \<Rightarrow> u32 \<Rightarrow> udp \<Rightarrow> u8 list option \<times> udp" where
  "udp_kmalloc env n s = (env_kmalloc env (udp_allocs s) n, s\<lparr>udp_allocs := Suc (udp_allocs s)\<rparr>)"

definition zero_sock :: udp_sock where
  "zero_sock = \<lparr>us_in_use = False, us_local_port = 0, us_local_ip = 0, us_bound = False, us_remote_ip = 0, us_remote_port = 0,
     us_connected = False, recv_queue = [], recv_queue_count = 0, packets_sent = 0, packets_received = 0\<rparr>"

definition upd_sock :: "(udp_sock \<Rightarrow> udp_sock) \<Rightarrow> nat \<Rightarrow> udp \<Rightarrow> udp" where
  "upd_sock f i s = s\<lparr>udp_sockets := (udp_sockets s)(i := f (udp_sockets s i))\<rparr>"

definition upd_counts :: "(udp_stats \<Rightarrow> udp_stats) \<Rightarrow> udp \<Rightarrow> udp" where
  "upd_counts f s = s\<lparr>udp_counts := f (udp_counts s)\<rparr>"

subsection \<open>Checksum and initialisation\<close>

definition udp_pseudo :: "u32 \<Rightarrow> u32 \<Rightarrow> u16 \<Rightarrow> u32" where
  "udp_pseudo src dst len =
     (drop_bit 16 src AND 0xFFFF) + (src AND 0xFFFF) + (drop_bit 16 dst AND 0xFFFF) + (dst AND 0xFFFF)
     + ucast (htons 17) + ucast (htons len)"

definition udp_checksum :: "u32 \<Rightarrow> u32 \<Rightarrow> u8 list \<Rightarrow> u16 \<Rightarrow> u16 option" where
  "udp_checksum src dst packet len =
     map_option (\<lambda>sm. let result = NOT (ucast (fold_sum sm)) in if result = 0 then 0xFFFF else result)
       (sum_words packet (unat len) (udp_pseudo src dst len))"

definition udp_init :: "udp \<Rightarrow> int \<times> udp" where
  "udp_init s =
     (if udp_initialized s then (0, s)
      else (0, (for_range 0 UDP_MAX_SOCKETS (upd_sock (\<lambda>_. zero_sock)) s)\<lparr>udp_initialized := True\<rparr>))"

subsection \<open>Ports and sockets\<close>

definition udp_port_used :: "udp \<Rightarrow> u16 \<Rightarrow> bool" where
  "udp_port_used s port \<longleftrightarrow>
     first_from (\<lambda>i. us_in_use (udp_sockets s i) \<and> us_local_port (udp_sockets s i) = port) 0 UDP_MAX_SOCKETS \<noteq> None"

partial_function (option) udp_alloc_port :: "udp \<Rightarrow> (u16 \<times> udp) option" where
  "udp_alloc_port s =
     (let port = udp_next_port s;
          s1 = s\<lparr>udp_next_port := (if port + 1 = 0 then 49152 else port + 1)\<rparr>
      in if udp_port_used s1 port then udp_alloc_port s1 else Some (port, s1))"

definition udp_find_socket :: "u16 \<Rightarrow> udp \<Rightarrow> nat option" where
  "udp_find_socket port s =
     first_from (\<lambda>i. us_in_use (udp_sockets s i) \<and> us_bound (udp_sockets s i) \<and> us_local_port (udp_sockets s i) = port)
       0 UDP_MAX_SOCKETS"

definition udp_socket :: "udp \<Rightarrow> int \<times> udp" where
  "udp_socket s =
     (case first_from (\<lambda>i. \<not> us_in_use (udp_sockets s i)) 0 UDP_MAX_SOCKETS of
        Some i \<Rightarrow> (int i, upd_sock (\<lambda>_. zero_sock\<lparr>us_in_use := True\<rparr>) i s)
      | None \<Rightarrow> (- 1, s))"

definition udp_fd_ok :: "int \<Rightarrow> bool" where
  "udp_fd_ok sockfd \<longleftrightarrow> \<not> (sockfd < 0 \<or> sockfd \<ge> int UDP_MAX_SOCKETS)"

definition udp_bind :: "netbase \<Rightarrow> int \<Rightarrow> u16 \<Rightarrow> udp \<Rightarrow> (int \<times> udp) option" where
  "udp_bind nb sockfd port s =
     (if \<not> udp_fd_ok sockfd then Some (- 1, s)
      else
        let i = nat sockfd
        in if \<not> us_in_use (udp_sockets s i) then Some (- 1, s)
           else if port \<noteq> 0 \<and> first_from (\<lambda>j. j \<noteq> i \<and> us_in_use (udp_sockets s j) \<and> us_bound (udp_sockets s j)
                     \<and> us_local_port (udp_sockets s j) = port) 0 UDP_MAX_SOCKETS \<noteq> None then Some (- 1, s)
           else do {
             (p, s1) \<leftarrow> (if port \<noteq> 0 then Some (port, s) else udp_alloc_port s);
             Some (0, upd_sock (\<lambda>k. k\<lparr>us_local_port := p, us_local_ip := tcpip_get_local_ip nb, us_bound := True\<rparr>) i s1) })"

text \<open>Binding a socket that is not bound yet, at the start of \<open>udp_connect\<close> and \<open>udp_sendto\<close>.\<close>

definition auto_bind :: "netbase \<Rightarrow> int \<Rightarrow> udp \<Rightarrow> (int \<times> udp) option" where
  "auto_bind nb sockfd s = (if us_bound (udp_sockets s (nat sockfd)) then Some (0, s) else udp_bind nb sockfd 0 s)"

definition udp_connect :: "netbase \<Rightarrow> int \<Rightarrow> u32 \<Rightarrow> u16 \<Rightarrow> udp \<Rightarrow> (int \<times> udp) option" where
  "udp_connect nb sockfd rip rport s =
     (if \<not> udp_fd_ok sockfd then Some (- 1, s)
      else if \<not> us_in_use (udp_sockets s (nat sockfd)) then Some (- 1, s)
      else do {
        (r, s1) \<leftarrow> auto_bind nb sockfd s;
        if r \<noteq> 0 then Some (- 1, s1)
        else Some (0, upd_sock (\<lambda>k. k\<lparr>us_remote_ip := rip, us_remote_port := rport, us_connected := True\<rparr>) (nat sockfd) s1) })"

text \<open>The datagram: header with its checksum, and the data.\<close>

definition udp_header_bytes :: "u16 \<Rightarrow> u16 \<Rightarrow> u16 \<Rightarrow> u16 \<Rightarrow> u8 list" where
  "udp_header_bytes src dst len c = field16 (htons src) @ field16 (htons dst) @ field16 (htons len) @ field16 c"

definition udp_datagram :: "u32 \<Rightarrow> u16 \<Rightarrow> u32 \<Rightarrow> u16 \<Rightarrow> u8 list \<Rightarrow> u8 list" where
  "udp_datagram src sport dst dport payload =
     (let len = 8 + of_nat (length payload);
          c = the (udp_checksum src dst (udp_header_bytes sport dport len 0 @ payload) len)
      in udp_header_bytes sport dport len c @ payload)"

definition udp_sendto :: "net_env \<Rightarrow> netbase \<Rightarrow> int \<Rightarrow> u8 list option \<Rightarrow> u16 \<Rightarrow> u32 \<Rightarrow> u16 \<Rightarrow> udp \<Rightarrow> (int \<times> udp) option" where
  "udp_sendto env nb sockfd data len dst dport s =
     (if \<not> udp_fd_ok sockfd then Some (- 1, s)
      else if data = None \<or> len = 0 \<or> len > UDP_MAX_PAYLOAD then Some (- 1, s)
      else
        let i = nat sockfd
        in if \<not> us_in_use (udp_sockets s i) then Some (- 1, s)
           else do {
             (r, s1) \<leftarrow> auto_bind nb sockfd s;
             if r \<noteq> 0 then Some (- 1, s1)
             else case udp_kmalloc env (ucast (8 + len)) s1 of
                    (None, s2) \<Rightarrow> Some (- 1, s2)
                  | (Some _, s2) \<Rightarrow>
                      if length (the data) < unat len then None
                      else
                        let sk = udp_sockets s2 i;
                            packet = udp_datagram (us_local_ip sk) (us_local_port sk) dst dport (take (unat len) (the data));
                            ret = ip_send_packet dst IP_PROTO_UDP (Some packet) (8 + len) nb;
                            s3 = s2\<lparr>udp_out := udp_out s2 @ [(dst, packet)]\<rparr>
                        in if ret = 0
                           then Some (uint len, upd_counts (\<lambda>t. t\<lparr>datagrams_sent := datagrams_sent t + 1\<rparr>)
                                  (upd_sock (\<lambda>k. k\<lparr>packets_sent := packets_sent k + 1\<rparr>) i s3))
                           else Some (- 1, s3) })"

definition udp_send :: "net_env \<Rightarrow> netbase \<Rightarrow> int \<Rightarrow> u8 list option \<Rightarrow> u16 \<Rightarrow> udp \<Rightarrow> (int \<times> udp) option" where
  "udp_send env nb sockfd data len s =
     (if \<not> udp_fd_ok sockfd then Some (- 1, s)
      else
        let sk = udp_sockets s (nat sockfd)
        in if \<not> us_in_use sk \<or> \<not> us_connected sk then Some (- 1, s)
           else udp_sendto env nb sockfd data len (us_remote_ip sk) (us_remote_port sk) s)"

text \<open>
  \<open>udp_recvfrom\<close> with the bytes it stores in the caller's buffer and the source address it returns; an address
  stored through a null pointer is dropped by the caller.
\<close>

definition udp_recvfrom :: "int \<Rightarrow> bool \<Rightarrow> u16 \<Rightarrow> udp \<Rightarrow> (int \<times> (u8 list \<times> u32 \<times> u16) option \<times> udp)" where
  "udp_recvfrom sockfd buffer_null max_length s =
     (if \<not> udp_fd_ok sockfd then (- 1, None, s)
      else if buffer_null \<or> max_length = 0 then (- 1, None, s)
      else
        let i = nat sockfd; sk = udp_sockets s i
        in if \<not> us_in_use sk \<or> \<not> us_bound sk then (- 1, None, s)
           else case recv_queue sk of
                  [] \<Rightarrow> (0, None, s)
                | pkt # rest \<Rightarrow>
                    let copy_len = (if up_length pkt < max_length then up_length pkt else max_length)
                    in (uint copy_len, Some (take (unat copy_len) (up_data pkt), up_src_ip pkt, up_src_port pkt),
                        upd_sock (\<lambda>k. k\<lparr>recv_queue := rest, recv_queue_count := recv_queue_count k - 1\<rparr>) i s))"

definition udp_recv :: "int \<Rightarrow> bool \<Rightarrow> u16 \<Rightarrow> udp \<Rightarrow> int \<times> u8 list option \<times> udp" where
  "udp_recv sockfd buffer_null max_length s =
     (case udp_recvfrom sockfd buffer_null max_length s of (r, got, s1) \<Rightarrow> (r, map_option fst got, s1))"

definition udp_close :: "int \<Rightarrow> udp \<Rightarrow> int \<times> udp" where
  "udp_close sockfd s =
     (if \<not> udp_fd_ok sockfd then (- 1, s)
      else if \<not> us_in_use (udp_sockets s (nat sockfd)) then (- 1, s)
      else (0, upd_sock (\<lambda>_. zero_sock) (nat sockfd) s))"

subsection \<open>Reception\<close>

definition enqueue_packet :: "net_env \<Rightarrow> udp_packet \<Rightarrow> nat \<Rightarrow> udp \<Rightarrow> int \<times> udp" where
  "enqueue_packet env pkt i s =
     (case udp_kmalloc env 16 s of
        (None, s1) \<Rightarrow> (- 1, s1)
      | (Some _, s1) \<Rightarrow>
          (case udp_kmalloc env (ucast (up_length pkt)) s1 of
             (None, s2) \<Rightarrow> (- 1, s2)
           | (Some _, s2) \<Rightarrow>
               (0, upd_sock (\<lambda>k. k\<lparr>recv_queue := recv_queue k @ [pkt], recv_queue_count := recv_queue_count k + 1,
                     packets_received := packets_received k + 1\<rparr>) i s2)))"

definition udp_receive :: "net_env \<Rightarrow> u32 \<Rightarrow> u32 \<Rightarrow> u8 list option \<Rightarrow> u16 \<Rightarrow> udp \<Rightarrow> (int \<times> udp) option" where
  "udp_receive env src dst packet len s =
     (let bad = upd_counts (\<lambda>t. t\<lparr>receive_errors := receive_errors t + 1\<rparr>) s
      in case packet of
           None \<Rightarrow> Some (- 1, bad)
         | Some p \<Rightarrow>
             if len < 8 then Some (- 1, bad)
             else if length p < 8 then None
             else
               let sport = ntohs (get16 p 0); dport = ntohs (get16 p 2); udp_len = ntohs (get16 p 4); csum = get16 p 6
               in if udp_len < 8 \<or> udp_len > len then Some (- 1, bad)
                  else do {
                    calc \<leftarrow> (if csum \<noteq> 0 then udp_checksum src dst p udp_len else Some 0);
                    if calc \<noteq> 0 then Some (- 1, upd_counts (\<lambda>t. t\<lparr>checksum_errors := checksum_errors t + 1\<rparr>) s)
                    else
                      let s1 = upd_counts (\<lambda>t. t\<lparr>datagrams_received := datagrams_received t + 1\<rparr>) s
                      in case udp_find_socket dport s1 of
                           None \<Rightarrow> Some (- 1, upd_counts (\<lambda>t. t\<lparr>no_port_errors := no_port_errors t + 1\<rparr>) s1)
                         | Some i \<Rightarrow>
                             let sk = udp_sockets s1 i
                             in if us_connected sk \<and> (us_remote_ip sk \<noteq> src \<or> us_remote_port sk \<noteq> sport) then Some (0, s1)
                                else if recv_queue_count sk \<ge> UDP_RECV_QUEUE_SIZE then Some (- 1, s1)
                                else if length p < unat udp_len then None
                                else Some (enqueue_packet env \<lparr>up_src_ip = src, up_src_port = sport, up_length = udp_len - 8,
                                       up_data = take (unat (udp_len - 8)) (drop 8 p)\<rparr> i s1) })"

definition udp_get_stats :: "udp \<Rightarrow> u32 \<times> u32 \<times> u32" where
  "udp_get_stats s = (datagrams_sent (udp_counts s), datagrams_received (udp_counts s),
     receive_errors (udp_counts s) + checksum_errors (udp_counts s))"

end
