(* ===== verification/UdpProps.thy ===== *)
theory UdpProps
  imports Udp Ports
begin

unbundle bit_operations_syntax

text \<open>
  Properties of \<open>kernel/net/udp.c\<close>: the invariant of the socket table over every sequence of calls, the
  receive queue as a bounded first-in first-out list, and what the checksum test does to datagrams.
\<close>

subsection \<open>Frames\<close>

lemma udp_upd_simps [simp]:
  "udp_sockets (upd_sock f i s) = (udp_sockets s)(i := f (udp_sockets s i))" "udp_next_port (upd_sock f i s) = udp_next_port s"
  "udp_out (upd_sock f i s) = udp_out s" "udp_sockets (upd_counts h s) = udp_sockets s"
  "udp_next_port (upd_counts h s) = udp_next_port s" "udp_out (upd_counts h s) = udp_out s"
  by (simp_all add: upd_sock_def upd_counts_def)

interpretation udp_ports: port_search udp_next_port "\<lambda>n s. s\<lparr>udp_next_port := n\<rparr>" udp_port_used
  "\<lambda>s i. us_local_port (udp_sockets s i)" udp_alloc_port
proof unfold_locales
  show "udp_alloc_port s = (let s1 = s\<lparr>udp_next_port := next_port (udp_next_port s)\<rparr>
      in if udp_port_used s1 (udp_next_port s) then udp_alloc_port s1 else Some (udp_next_port s, s1))" for s
    by (subst udp_alloc_port.simps) (simp add: Let_def next_port_def)
qed (auto simp: udp_port_used_def image_iff dest: first_from_SomeD)

subsection \<open>The socket table\<close>

definition listening :: "udp_sock \<Rightarrow> bool" where
  "listening k \<longleftrightarrow> us_in_use k \<and> us_bound k"

definition queue_ok :: "udp_sock \<Rightarrow> bool" where
  "queue_ok k \<longleftrightarrow> recv_queue_count k = int (length (recv_queue k)) \<and> length (recv_queue k) \<le> 16"

definition udp_inv :: "udp \<Rightarrow> bool" where
  "udp_inv s \<longleftrightarrow> 49152 \<le> udp_next_port s \<and> (\<forall>i<UDP_MAX_SOCKETS. queue_ok (udp_sockets s i))
     \<and> (\<forall>i<UDP_MAX_SOCKETS. \<forall>j<UDP_MAX_SOCKETS. listening (udp_sockets s i) \<longrightarrow> listening (udp_sockets s j) \<longrightarrow>
          us_local_port (udp_sockets s i) = us_local_port (udp_sockets s j) \<longrightarrow> i = j)"

definition udp_boot :: udp where
  "udp_boot = \<lparr>udp_sockets = (\<lambda>_. zero_sock), udp_initialized = False, udp_next_port = 49152,
     udp_counts = \<lparr>datagrams_received = 0, datagrams_sent = 0, receive_errors = 0, no_port_errors = 0, checksum_errors = 0\<rparr>,
     udp_out = [], udp_allocs = 0\<rparr>"

text \<open>The states reached by calls of the socket interface and by arriving packets, in any order.\<close>

inductive udp_reachable :: "udp \<Rightarrow> bool" where
  boot: "udp_reachable udp_boot"
| init: "udp_reachable s \<Longrightarrow> udp_reachable (snd (udp_init s))"
| socket: "udp_reachable s \<Longrightarrow> udp_reachable (snd (udp_socket s))"
| bind: "udp_reachable s \<Longrightarrow> udp_bind nb fd port s = Some (r, s') \<Longrightarrow> udp_reachable s'"
| connect: "udp_reachable s \<Longrightarrow> udp_connect nb fd rip rport s = Some (r, s') \<Longrightarrow> udp_reachable s'"
| sendto: "udp_reachable s \<Longrightarrow> udp_sendto env nb fd data len dst dport s = Some (r, s') \<Longrightarrow> udp_reachable s'"
| send: "udp_reachable s \<Longrightarrow> udp_send env nb fd data len s = Some (r, s') \<Longrightarrow> udp_reachable s'"
| recvfrom: "udp_reachable s \<Longrightarrow> udp_recvfrom fd null maxlen s = (r, got, s') \<Longrightarrow> udp_reachable s'"
| close: "udp_reachable s \<Longrightarrow> udp_reachable (snd (udp_close fd s))"
| receive: "udp_reachable s \<Longrightarrow> udp_receive env src dst packet len s = Some (r, s') \<Longrightarrow> udp_reachable s'"

text \<open>A change of one socket that keeps its address, or makes it stop listening.\<close>

lemma inv_upd_same:
  assumes "udp_inv s" and "queue_ok (f (udp_sockets s i))"
    and "listening (f (udp_sockets s i)) \<Longrightarrow>
       listening (udp_sockets s i) \<and> us_local_port (f (udp_sockets s i)) = us_local_port (udp_sockets s i)"
  shows "udp_inv (upd_sock f i s)"
  using assms unfolding udp_inv_def by auto

lemma inv_upd_counts [simp]: "udp_inv (upd_counts h s) = udp_inv s" "udp_inv (s\<lparr>udp_allocs := n\<rparr>) = udp_inv s"
  by (simp_all add: udp_inv_def)

lemma inv_init: "udp_inv s \<Longrightarrow> udp_inv (snd (udp_init s))"
proof -
  assume inv: "udp_inv s"
  have "udp_inv (for_range 0 UDP_MAX_SOCKETS (upd_sock (\<lambda>_. zero_sock)) s)"
    by (rule for_range_rule [where I = "\<lambda>_. udp_inv"])
      (auto intro!: inv_upd_same simp: inv queue_ok_def listening_def zero_sock_def)
  then show ?thesis using inv by (simp add: udp_init_def udp_inv_def)
qed

lemma inv_bind:
  assumes inv: "udp_inv s" and bind: "udp_bind nb fd port s = Some (r, s')"
  shows "udp_inv s'"
proof (cases "udp_fd_ok fd \<and> us_in_use (udp_sockets s (nat fd))")
  case False
  then show ?thesis using inv bind by (auto simp: udp_bind_def Let_def split: if_splits)
next
  case True
  let ?i = "nat fd"
  have fresh: "udp_inv (upd_sock (\<lambda>k. k\<lparr>us_local_port := p, us_local_ip := a, us_bound := True\<rparr>) ?i (s\<lparr>udp_next_port := n\<rparr>))"
    if "\<And>j. j < UDP_MAX_SOCKETS \<Longrightarrow> j \<noteq> ?i \<Longrightarrow> listening (udp_sockets s j) \<Longrightarrow> us_local_port (udp_sockets s j) \<noteq> p" and "49152 \<le> n" for p a n
    using that inv unfolding udp_inv_def by (auto simp: listening_def queue_ok_def)
  show ?thesis
  proof (cases "port = 0")
    case True
    from inv obtain q n where al: "udp_alloc_port s = Some (q, s\<lparr>udp_next_port := n\<rparr>)" "\<not> udp_port_used s q" "49152 \<le> n"
      using udp_ports.alloc_total [of s] by (auto simp: udp_inv_def)
    then have "us_local_port (udp_sockets s j) \<noteq> q" if "j < UDP_MAX_SOCKETS" "listening (udp_sockets s j)" for j
      using that by (auto simp: udp_port_used_def first_from_None_iff listening_def)
    with fresh [of q n] al True \<open>udp_fd_ok fd \<and> _\<close> bind show ?thesis by (auto simp: udp_bind_def Let_def split: if_splits)
  next
    case False
    have same: "s\<lparr>udp_next_port := udp_next_port s\<rparr> = s" by simp
    let ?taken = "first_from (\<lambda>j. j \<noteq> ?i \<and> us_in_use (udp_sockets s j) \<and> us_bound (udp_sockets s j) \<and> us_local_port (udp_sockets s j) = port)
       0 UDP_MAX_SOCKETS"
    show ?thesis
    proof (cases "?taken = None")
      case True
      then have "us_local_port (udp_sockets s j) \<noteq> port" if "j < UDP_MAX_SOCKETS" "j \<noteq> ?i" "listening (udp_sockets s j)" for j
        using that by (auto simp: first_from_None_iff listening_def)
      with fresh [of port "udp_next_port s"] inv have "udp_inv (upd_sock (\<lambda>k. k\<lparr>us_local_port := port, us_local_ip := a, us_bound := True\<rparr>) ?i s)" for a
        unfolding same udp_inv_def [of s] by blast
      with True bind \<open>port \<noteq> 0\<close> \<open>udp_fd_ok fd \<and> _\<close> show ?thesis by (auto simp: udp_bind_def Let_def)
    next
      case False
      then have "s' = s" using bind \<open>port \<noteq> 0\<close> \<open>udp_fd_ok fd \<and> _\<close> by (simp add: udp_bind_def Let_def)
      then show ?thesis using inv by simp
    qed
  qed
qed

lemma inv_auto_bind: "udp_inv s \<Longrightarrow> auto_bind nb fd s = Some (r, s') \<Longrightarrow> udp_inv s'"
  by (auto simp: auto_bind_def intro: inv_bind split: if_splits)

lemma inv_connect:
  assumes "udp_inv s" and "udp_connect nb fd rip rport s = Some (r, s')"
  shows "udp_inv s'"
proof -
  have "udp_inv (upd_sock (\<lambda>k. k\<lparr>us_remote_ip := rip, us_remote_port := rport, us_connected := True\<rparr>) i s1)" if "udp_inv s1" for i s1
    using that by (cases "i < UDP_MAX_SOCKETS") (auto intro!: inv_upd_same simp: udp_inv_def queue_ok_def listening_def)
  then show ?thesis using assms inv_auto_bind [OF assms(1)]
    by (auto simp: udp_connect_def split: if_splits Option.bind_splits)
qed

lemma udp_inv_out [simp]: "udp_inv (s\<lparr>udp_out := x\<rparr>) = udp_inv s"
  by (simp add: udp_inv_def)

lemma inv_sendto:
  assumes "udp_inv s" and "udp_sendto env nb fd data len dst dport s = Some (r, s')"
  shows "udp_inv s'"
proof -
  have "udp_inv (upd_sock (\<lambda>k. k\<lparr>packets_sent := packets_sent k + 1\<rparr>) i s1)" if "udp_inv s1" for i s1
    using that by (cases "i < UDP_MAX_SOCKETS") (auto intro!: inv_upd_same simp: udp_inv_def queue_ok_def listening_def)
  then show ?thesis using assms inv_auto_bind [OF assms(1)]
    by (auto simp: udp_sendto_def udp_kmalloc_def Let_def split: if_splits option.splits Option.bind_splits)
qed

lemma inv_recvfrom:
  assumes inv: "udp_inv s" and "udp_recvfrom fd null maxlen s = (r, got, s')"
  shows "udp_inv s'"
proof -
  have "udp_inv (upd_sock (\<lambda>k. k\<lparr>recv_queue := rest, recv_queue_count := recv_queue_count k - 1\<rparr>) i s)"
    if "recv_queue (udp_sockets s i) = pkt # rest" "i < UDP_MAX_SOCKETS" for pkt rest i
    using that inv by (intro inv_upd_same) (auto simp: udp_inv_def queue_ok_def listening_def)
  then show ?thesis using assms
    by (auto simp: udp_recvfrom_def Let_def udp_fd_ok_def split: if_splits list.splits)
qed

lemma inv_enqueue:
  assumes "udp_inv s" and "recv_queue_count (udp_sockets s i) < UDP_RECV_QUEUE_SIZE" and "i < UDP_MAX_SOCKETS"
  shows "udp_inv (snd (enqueue_packet env pkt i s))"
  using assms unfolding enqueue_packet_def udp_kmalloc_def
  by (auto intro!: inv_upd_same simp: udp_inv_def queue_ok_def listening_def split: option.split)

lemma inv_receive:
  assumes inv: "udp_inv s" and recv: "udp_receive env src dst packet len s = Some (r, s')"
  shows "udp_inv s'"
proof -
  have find: "i < UDP_MAX_SOCKETS" if "udp_find_socket p (upd_counts h s) = Some i" for p h i
    using that by (auto simp: udp_find_socket_def dest: first_from_SomeD)
  have enq: "udp_inv s'" if "enqueue_packet env pkt i (upd_counts h s) = (r, s')" "i < UDP_MAX_SOCKETS"
    "recv_queue_count (udp_sockets s i) < UDP_RECV_QUEUE_SIZE" for pkt i h
    using inv_enqueue [of "upd_counts h s" i env pkt] that inv by simp
  from recv inv show ?thesis
    unfolding udp_receive_def Let_def
    by (auto simp: not_le split: option.splits if_splits Option.bind_splits dest: find intro: enq)
qed

lemma udp_reachable_inv: "udp_reachable s \<Longrightarrow> udp_inv s"
proof (induction rule: udp_reachable.induct)
  case boot
  show ?case by (simp add: udp_boot_def udp_inv_def queue_ok_def listening_def zero_sock_def)
next
  case (socket s)
  then show ?case
    by (auto simp: udp_socket_def queue_ok_def listening_def zero_sock_def split: option.splits intro!: inv_upd_same)
next
  case (send s env nb fd data len r s')
  then show ?case by (auto simp: udp_send_def Let_def split: if_splits intro: inv_sendto)
next
  case (close s fd)
  then show ?case by (auto simp: udp_close_def queue_ok_def listening_def zero_sock_def intro!: inv_upd_same)
qed (auto intro: inv_init inv_bind inv_connect inv_sendto inv_recvfrom inv_receive)

text \<open>
  C9. The socket table stays consistent. In every state reached by any sequence of socket calls and arriving
  packets, no two bound sockets have the same port, so the socket \<open>udp_find_socket\<close> returns is the only one
  bound to the port, and it finds one exactly when there is one; and the queue counter of every socket is the
  length of its queue, at most \<open>UDP_RECV_QUEUE_SIZE\<close>.
\<close>

theorem udp_reachable_consistent:
  assumes "udp_reachable s"
  shows "(udp_find_socket port s = Some i \<longleftrightarrow> i < UDP_MAX_SOCKETS \<and> listening (udp_sockets s i) \<and> us_local_port (udp_sockets s i) = port)
    \<and> (i < UDP_MAX_SOCKETS \<longrightarrow> recv_queue_count (udp_sockets s i) = int (length (recv_queue (udp_sockets s i)))
          \<and> length (recv_queue (udp_sockets s i)) \<le> 16)"
proof -
  have inv: "udp_inv s" using assms by (rule udp_reachable_inv)
  then have one: "j = i" if "i < UDP_MAX_SOCKETS" "j < UDP_MAX_SOCKETS" "listening (udp_sockets s i)" "listening (udp_sockets s j)"
    "us_local_port (udp_sockets s i) = us_local_port (udp_sockets s j)" for i j
    using that unfolding udp_inv_def by blast
  have "udp_find_socket port s = Some i \<longleftrightarrow> i < UDP_MAX_SOCKETS \<and> listening (udp_sockets s i) \<and> us_local_port (udp_sockets s i) = port"
    unfolding udp_find_socket_def first_from_Some_iff using one [of _ i]
    by (auto simp: listening_def) (metis nat_less_le order.strict_trans)
  then show ?thesis using inv by (simp add: udp_inv_def queue_ok_def)
qed

subsection \<open>The receive queue\<close>

lemma enqueue_packet_ok:
  assumes "has_memory env" and "up_length pkt \<noteq> 0"
  shows "enqueue_packet env pkt i s = (0, upd_sock (\<lambda>k. k\<lparr>recv_queue := recv_queue k @ [pkt],
     recv_queue_count := recv_queue_count k + 1, packets_received := packets_received k + 1\<rparr>) i
     (s\<lparr>udp_allocs := udp_allocs s + 2\<rparr>))"
proof -
  have "(0 :: u32) < 16" "(16 :: u32) \<le> 65536" by simp_all
  then obtain b where "env_kmalloc env (udp_allocs s) 16 = Some b" using memory_block [OF assms(1)] by metis
  moreover obtain c where "env_kmalloc env (Suc (udp_allocs s)) (ucast (up_length pkt)) = Some c"
    using memory_block16 [OF assms] by metis
  ultimately show ?thesis by (simp add: enqueue_packet_def udp_kmalloc_def)
qed

text \<open>
  A socket's receive queue is a bounded first-in first-out list. A well-formed datagram without checksum and with data for
  the port of a listening socket (from its peer, when the socket is connected) is appended with its source address
  and exactly its payload, unless 16 packets wait, when it is dropped with -1; \<open>udp_recvfrom\<close> delivers the oldest
  packet, cut to the length of the buffer, removes it, and returns 0 on an empty queue; other sockets are untouched.
\<close>

lemma udp_queue_fifo:
  assumes mem: "has_memory env" and inv: "udp_inv s" and i: "udp_find_socket (ntohs (get16 p 2)) s = Some i"
    and conn: "\<not> us_connected (udp_sockets s i) \<or> us_remote_ip (udp_sockets s i) = src \<and> us_remote_port (udp_sockets s i) = ntohs (get16 p 0)"
    and len: "8 < ntohs (get16 p 4)" "ntohs (get16 p 4) \<le> len" "unat (ntohs (get16 p 4)) \<le> length p" and csum: "get16 p 6 = 0"
    and maxlen: "maxlen \<noteq> 0"
  shows "(\<exists>r s'. udp_receive env src dst (Some p) len s = Some (r, s') \<and>
      (if length (recv_queue (udp_sockets s i)) < 16
       then r = 0 \<and> recv_queue (udp_sockets s' i) = recv_queue (udp_sockets s i)
         @ [\<lparr>up_src_ip = src, up_src_port = ntohs (get16 p 0), up_length = ntohs (get16 p 4) - 8,
             up_data = take (unat (ntohs (get16 p 4)) - 8) (drop 8 p)\<rparr>]
       else r = - 1 \<and> udp_sockets s' i = udp_sockets s i) \<and> (\<forall>k. k \<noteq> i \<longrightarrow> udp_sockets s' k = udp_sockets s k))
    \<and> (case recv_queue (udp_sockets s i) of
         [] \<Rightarrow> udp_recvfrom (int i) False maxlen s = (0, None, s)
       | pkt # rest \<Rightarrow> \<exists>s'. udp_recvfrom (int i) False maxlen s =
             (min (uint (up_length pkt)) (uint maxlen),
              Some (take (min (unat (up_length pkt)) (unat maxlen)) (up_data pkt), up_src_ip pkt, up_src_port pkt), s')
           \<and> recv_queue (udp_sockets s' i) = rest \<and> (\<forall>k. k \<noteq> i \<longrightarrow> udp_sockets s' k = udp_sockets s k))"
proof -
  let ?n = "ntohs (get16 p 4)" and ?k = "udp_sockets s i"
  have k: "i < UDP_MAX_SOCKETS" "us_in_use ?k" "us_bound ?k"
    using i by (auto simp: udp_find_socket_def dest: first_from_SomeD)
  have q: "recv_queue_count ?k = int (length (recv_queue ?k))" using inv k(1) by (simp add: udp_inv_def queue_ok_def)
  have sub: "unat (?n - 8) = unat ?n - 8" using len(1) by (simp add: unat_sub word_less_nat_alt word_le_nat_alt)
  have n: "?n - 8 \<noteq> 0" "\<not> ?n < 8" using len(1) by (auto simp: word_less_nat_alt)
  have "length p \<ge> 8" using len by (simp add: word_le_nat_alt word_less_nat_alt)
  moreover have "\<not> len < 8" using len by (simp add: word_le_nat_alt word_less_nat_alt)
  moreover have find: "udp_find_socket (ntohs (get16 p 2)) (upd_counts h s) = Some i" for h using i by (simp add: udp_find_socket_def)
  moreover note enqueue_packet_ok [OF mem]
  moreover note n
  ultimately have recv: "\<exists>r s'. udp_receive env src dst (Some p) len s = Some (r, s') \<and>
      (if length (recv_queue ?k) < 16
       then r = 0 \<and> recv_queue (udp_sockets s' i) = recv_queue ?k
         @ [\<lparr>up_src_ip = src, up_src_port = ntohs (get16 p 0), up_length = ?n - 8, up_data = take (unat ?n - 8) (drop 8 p)\<rparr>]
       else r = - 1 \<and> udp_sockets s' i = ?k) \<and> (\<forall>k. k \<noteq> i \<longrightarrow> udp_sockets s' k = udp_sockets s k)"
    using len csum conn q by (auto simp: udp_receive_def Let_def not_less sub)
  have cut: "uint (if a < b then a else b) = min (uint a) (uint b)" "unat (if a < b then a else b) = min (unat a) (unat b)" for a b :: u16
    by (auto simp: word_less_def min_def) (auto simp: word_less_nat_alt [unfolded word_less_def] min_def)
  have "case recv_queue ?k of
         [] \<Rightarrow> udp_recvfrom (int i) False maxlen s = (0, None, s)
       | pkt # rest \<Rightarrow> \<exists>s'. udp_recvfrom (int i) False maxlen s =
             (min (uint (up_length pkt)) (uint maxlen),
              Some (take (min (unat (up_length pkt)) (unat maxlen)) (up_data pkt), up_src_ip pkt, up_src_port pkt), s')
           \<and> recv_queue (udp_sockets s' i) = rest \<and> (\<forall>k. k \<noteq> i \<longrightarrow> udp_sockets s' k = udp_sockets s k)"
    using k maxlen by (auto simp: udp_recvfrom_def udp_fd_ok_def Let_def cut split: list.split)
  with recv show ?thesis by blast
qed

subsection \<open>Checksums\<close>

lemma udp_checksum_nonzero: "udp_checksum src dst p len = Some c \<Longrightarrow> c \<noteq> 0"
  by (auto simp: udp_checksum_def Let_def split: if_splits)

lemma sum_words_defined: "n \<le> length p \<Longrightarrow> \<exists>c. sum_words p n acc = Some c"
proof (induction p n acc rule: sum_words.induct)
  case (1 p n acc)
  show ?case
  proof (cases "n > 1")
    case True
    then obtain a b q where p: "p = a # b # q" using "1.prems" by (cases p rule: remdups_adj.cases) auto
    then show ?thesis using "1.IH" [OF True p refl] "1.prems" True by (subst sum_words.simps) simp
  next
    case False
    then show ?thesis using "1.prems" by (subst sum_words.simps) (auto split: list.split)
  qed
qed

lemma udp_checksum_defined: "unat len \<le> length p \<Longrightarrow> \<exists>c. udp_checksum src dst p len = Some c"
  using sum_words_defined [of "unat len" p "udp_pseudo src dst len"] by (auto simp: udp_checksum_def)

lemma header_length: "length (udp_header_bytes sport dport len c) = 8"
  by (simp add: udp_header_bytes_def field16_def)

lemma datagram_parts:
  fixes payload :: "u8 list" and src dst :: u32 and sport dport :: u16
  assumes "length payload \<le> 65507"
  defines "d \<equiv> udp_datagram src sport dst dport payload"
  shows "length d = 8 + length payload" "drop 8 d = payload" "ntohs (get16 d 0) = sport" "ntohs (get16 d 2) = dport"
    "ntohs (get16 d 4) = 8 + of_nat (length payload)" "get16 d 6 \<noteq> 0"
proof -
  let ?len = "8 + of_nat (length payload) :: u16"
  have len: "unat ?len = 8 + length payload" using assms(1) unat_of_nat_small [where 'a = 16, of "8 + length payload"] by simp
  obtain c where c: "udp_checksum src dst (udp_header_bytes sport dport ?len 0 @ payload) ?len = Some c" "c \<noteq> 0"
    using udp_checksum_defined [of ?len "udp_header_bytes sport dport ?len 0 @ payload" src dst] udp_checksum_nonzero len
    by (metis (no_types, lifting) header_length length_append order_refl)
  then have d: "d = udp_header_bytes sport dport ?len c @ payload" by (simp add: d_def udp_datagram_def Let_def)
  show "length d = 8 + length payload" "drop 8 d = payload" "ntohs (get16 d 0) = sport" "ntohs (get16 d 2) = dport"
    "ntohs (get16 d 4) = ?len" "get16 d 6 \<noteq> 0"
    unfolding d using c(2) by (simp_all add: udp_header_bytes_def field16_def get16_def le16_field16 ntohs_def)
qed

lemma udp_alloc_port_out:
  assumes "udp_alloc_port s = Some (q, s')"
  shows "udp_out s' = udp_out s"
proof -
  have "case z of (q, s') \<Rightarrow> udp_out s' = udp_out s" if "udp_alloc_port s = Some z" for z
  proof (rule udp_alloc_port.raw_induct [OF _ that, where P = "\<lambda>s z. case z of (q, s') \<Rightarrow> udp_out s' = udp_out s"])
    fix f s z
    assume IH: "\<And>s z. f s = Some z \<Longrightarrow> case z of (q, s') \<Rightarrow> udp_out s' = udp_out s"
      and body: "(let port = udp_next_port s; s1 = s\<lparr>udp_next_port := if port + 1 = 0 then 49152 else port + 1\<rparr>
        in if udp_port_used s1 port then f s1 else Some (port, s1)) = Some z"
    from body show "case z of (q, s') \<Rightarrow> udp_out s' = udp_out s"
      by (auto simp: Let_def split: if_splits dest!: IH)
  qed
  from this [OF assms] show ?thesis by simp
qed

lemma auto_bind_out: "auto_bind nb fd s = Some (r, s') \<Longrightarrow> udp_out s' = udp_out s"
  by (auto simp: auto_bind_def udp_bind_def Let_def split: if_splits Option.bind_splits dest!: udp_alloc_port_out)

text \<open>
  A datagram that carries a checksum is never accepted. \<open>udp_checksum\<close> replaces the value 0 by 0xFFFF, and
  \<open>udp_receive\<close> accepts only the value 0; so every datagram \<open>udp_sendto\<close> sends, which holds the ports, the length,
  the data and always a checksum other than zero, is refused by every host that runs this code, with -1 and no
  socket changed.
\<close>

lemma udp_sendto_never_received:
  assumes send: "udp_sendto env nb fd (Some data) len dst dport s = Some (r, s')" and sent: "0 \<le> r"
  shows "\<exists>packet. udp_out s' = udp_out s @ [(dst, packet)] \<and> r = uint len \<and> length packet = 8 + unat len
     \<and> drop 8 packet = take (unat len) data \<and> ntohs (get16 packet 2) = dport \<and> ntohs (get16 packet 4) = 8 + len
     \<and> (\<forall>env' src t. \<exists>t'. udp_receive env' src dst (Some packet) (8 + len) t = Some (- 1, t') \<and> udp_sockets t' = udp_sockets t)"
proof -
  from send sent obtain s1 where l: "len \<le> UDP_MAX_PAYLOAD" "unat len \<le> length data" and r: "r = uint len" and ab: "auto_bind nb fd s = Some (0, s1)"
    and out: "udp_out s' = udp_out s1 @ [(dst, udp_datagram (us_local_ip (udp_sockets s1 (nat fd))) (us_local_port (udp_sockets s1 (nat fd))) dst dport
        (take (unat len) data))]"
    by (auto simp: udp_sendto_def udp_kmalloc_def Let_def split: if_splits option.splits Option.bind_splits)
  have same: "udp_out s1 = udp_out s"
    using ab by (rule auto_bind_out)
  define packet where "packet = udp_datagram (us_local_ip (udp_sockets s1 (nat fd))) (us_local_port (udp_sockets s1 (nat fd))) dst dport (take (unat len) data)"
  have short: "length (take (unat len) data) \<le> 65507" using l by (simp add: word_le_nat_alt)
  have n: "length (take (unat len) data) = unat len" using l by simp
  note d = datagram_parts [OF short, of "us_local_ip (udp_sockets s1 (nat fd))" "us_local_port (udp_sockets s1 (nat fd))" dst dport, folded packet_def, unfolded n]
  have len8: "\<not> 8 + len < 8" "unat (8 + len) = 8 + unat len"
    using l(1) unat_plus_small [of 8 len] by (simp_all add: word_le_nat_alt word_less_nat_alt)
  have "\<exists>t'. udp_receive env' src dst (Some packet) (8 + len) t = Some (- 1, t') \<and> udp_sockets t' = udp_sockets t" for env' src t
  proof -
    obtain c where c: "udp_checksum src dst packet (8 + len) = Some c" "c \<noteq> 0"
      using udp_checksum_defined [of "8 + len" packet src dst] udp_checksum_nonzero d(1) len8(2) by auto
    then show ?thesis using d len8 by (simp add: udp_receive_def Let_def)
  qed
  then show ?thesis using out same r d packet_def by auto
qed

subsection \<open>A concrete socket\<close>

definition demo_udp :: udp where
  "demo_udp = udp_boot\<lparr>udp_sockets := (\<lambda>_. zero_sock)(0 := zero_sock\<lparr>us_in_use := True, us_bound := True, us_local_port := 53,
     us_local_ip := 0x0A000002\<rparr>)\<rparr>"

lemma demo_udp_inv: "udp_inv demo_udp"
  by (auto simp: demo_udp_def udp_boot_def udp_inv_def queue_ok_def listening_def zero_sock_def)

lemma demo_udp_find: "udp_find_socket 53 demo_udp = Some 0"
  by (simp add: udp_find_socket_def first_from_Some_iff demo_udp_def)

text \<open>Socket 0 created and bound to port 53.\<close>

theorem udp_reachable_consistent_witness:
  "\<exists>s. udp_bind demo_net 0 53 (snd (udp_socket udp_boot)) = Some (0, s) \<and> udp_find_socket 53 s = Some 0 \<and> udp_find_socket 54 s \<noteq> Some 0"
proof -
  have first: "first_from (\<lambda>i. \<not> us_in_use zero_sock) 0 64 = Some 0" by (simp add: first_from_Some_iff zero_sock_def)
  define s where "s = upd_sock (\<lambda>k. k\<lparr>us_local_port := 53, us_local_ip := tcpip_get_local_ip demo_net, us_bound := True\<rparr>) 0
     (snd (udp_socket udp_boot))"
  have k: "udp_sockets (snd (udp_socket udp_boot)) = (\<lambda>_. zero_sock)(0 := zero_sock\<lparr>us_in_use := True\<rparr>)"
    using first by (simp add: udp_socket_def udp_boot_def)
  have "first_from (\<lambda>j. j \<noteq> 0 \<and> us_in_use (udp_sockets (snd (udp_socket udp_boot)) j) \<and> us_bound (udp_sockets (snd (udp_socket udp_boot)) j)
      \<and> us_local_port (udp_sockets (snd (udp_socket udp_boot)) j) = 53) 0 64 = None"
    unfolding k by (auto simp: first_from_None_iff zero_sock_def)
  then have b: "udp_bind demo_net 0 53 (snd (udp_socket udp_boot)) = Some (0, s)"
    by (simp add: udp_bind_def udp_fd_ok_def Let_def k s_def)
  then have "udp_reachable s" by (intro udp_reachable.bind [OF udp_reachable.socket [OF udp_reachable.boot]])
  from udp_reachable_consistent [OF this, where port = 53 and i = 0] udp_reachable_consistent [OF this, where port = 54 and i = 0] b show ?thesis
    by (auto simp: s_def k listening_def)
qed

end
