(* ===== verification/Icmp.thy ===== *)
theory Icmp
  imports TcpProps
begin

unbundle bit_operations_syntax

text \<open>
  ICMP, \<open>kernel/net/icmp.c\<close>. The interface configuration is the argument \<open>nb\<close>, memory and ticks come from the
  \<open>net_env\<close> of theory \<open>Tcp\<close> (\<open>icmp_allocs\<close> counts the requests made); the bytes of a block from \<open>kmalloc\<close> that the code does not write stay what they were.
  Packets handed to \<open>ip_send_packet\<close> are appended to \<open>icmp_out\<close>.
\<close>

subsection \<open>Data\<close>

abbreviation (input) "ICMP_TYPE_ECHO_REPLY \<equiv> (0 :: u8)"
abbreviation (input) "ICMP_TYPE_DEST_UNREACHABLE \<equiv> (3 :: u8)"
abbreviation (input) "ICMP_TYPE_ECHO_REQUEST \<equiv> (8 :: u8)"
abbreviation (input) "ICMP_TYPE_TIME_EXCEEDED \<equiv> (11 :: u8)"
abbreviation (input) "IP_PROTO_ICMP \<equiv> (1 :: u8)"

record icmp_stats =
  msgs_received :: u32
  msgs_sent :: u32
  icmp_errors :: u32
  echo_requests :: u32
  echo_replies :: u32

record ping_state =
  ping_dest :: u32
  ping_cur_id :: u16
  ping_cur_seq :: u16
  ping_send_time :: u32
  ping_received :: bool
  ping_rtt :: u32

record icmp =
  icmp_counts :: icmp_stats
  ping_st :: ping_state
  ping_id :: u16
  ping_seq :: u16
  icmp_out :: "(u32 \<times> u8 list) list"
  icmp_allocs :: nat

definition icmp_kmalloc :: "net_env \<Rightarrow> u32 \<Rightarrow> icmp \<Rightarrow> u8 list option \<times> icmp" where
  "icmp_kmalloc env n s = (env_kmalloc env (icmp_allocs s) n, s\<lparr>icmp_allocs := Suc (icmp_allocs s)\<rparr>)"

definition upd_icmp :: "(icmp_stats \<Rightarrow> icmp_stats) \<Rightarrow> icmp \<Rightarrow> icmp" where
  "upd_icmp f s = s\<lparr>icmp_counts := f (icmp_counts s)\<rparr>"

definition icmp_checksum :: "u8 list \<Rightarrow> u16 \<Rightarrow> u16 option" where
  "icmp_checksum data len = map_option (\<lambda>sm. NOT (ucast (fold_sum sm))) (sum_words data (unat len) 0)"

subsection \<open>Sending\<close>

definition icmp_header_bytes :: "u8 \<Rightarrow> u8 \<Rightarrow> u16 \<Rightarrow> u32 \<Rightarrow> u8 list" where
  "icmp_header_bytes ty code csum rest = [ty, code] @ field16 csum @ field32 rest"

text \<open>A message with its checksum; the last argument is what follows the header.\<close>

definition icmp_message :: "u8 \<Rightarrow> u8 \<Rightarrow> u32 \<Rightarrow> u8 list \<Rightarrow> u8 list" where
  "icmp_message ty code rest body =
     icmp_header_bytes ty code (the (icmp_checksum (icmp_header_bytes ty code 0 rest @ body) (of_nat (8 + length body)))) rest @ body"

definition icmp_emit :: "netbase \<Rightarrow> u32 \<Rightarrow> u8 list \<Rightarrow> u16 \<Rightarrow> icmp \<Rightarrow> int \<times> icmp" where
  "icmp_emit nb dest packet tlen s =
     (ip_send_packet dest IP_PROTO_ICMP (Some packet) tlen nb, s\<lparr>icmp_out := icmp_out s @ [(dest, packet)]\<rparr>)"

definition echo_rest :: "u16 \<Rightarrow> u16 \<Rightarrow> u32" where
  "echo_rest i n = htonl (push_bit 16 (ucast i) OR ucast n)"

text \<open>
  What follows the header in the block: the data when there are any, otherwise the bytes as allocated. The
  size asked for is the 16-bit \<open>total_len\<close>; when \<open>8 + data_len\<close> wraps, header and data do not fit the block
  and the writes leave it, which is \<^term>\<open>None\<close>.
\<close>

definition echo_body :: "u8 list \<Rightarrow> u8 list option \<Rightarrow> u16 \<Rightarrow> u8 list option" where
  "echo_body block data len =
     (if length block < 8 + unat len then None
      else if data \<noteq> None \<and> len > 0 then (if unat len \<le> length (the data) then Some (take (unat len) (the data)) else None)
      else Some (take (unat len) (drop 8 block)))"

definition icmp_echo_request :: "net_env \<Rightarrow> netbase \<Rightarrow> u32 \<Rightarrow> u16 \<Rightarrow> u16 \<Rightarrow> u8 list option \<Rightarrow> u16 \<Rightarrow> icmp \<Rightarrow> (int \<times> icmp) option" where
  "icmp_echo_request env nb dest i n data len s =
     (let total = 8 + len
      in case icmp_kmalloc env (ucast total) s of
           (None, s0) \<Rightarrow> Some (- 1, s0)
         | (Some block, s0) \<Rightarrow> do {
             body \<leftarrow> echo_body block data len;
             let (ret, s1) = icmp_emit nb dest (icmp_message ICMP_TYPE_ECHO_REQUEST 0 (echo_rest i n) body) total s0
             in Some (ret, if ret = 0 then upd_icmp (\<lambda>t. t\<lparr>msgs_sent := msgs_sent t + 1, echo_requests := echo_requests t + 1\<rparr>) s1
                           else s1) })"

definition icmp_echo_reply :: "net_env \<Rightarrow> netbase \<Rightarrow> u32 \<Rightarrow> u16 \<Rightarrow> u16 \<Rightarrow> u8 list option \<Rightarrow> u16 \<Rightarrow> icmp \<Rightarrow> (int \<times> icmp) option" where
  "icmp_echo_reply env nb dest i n data len s =
     (let total = 8 + len
      in case icmp_kmalloc env (ucast total) s of
           (None, s0) \<Rightarrow> Some (- 1, s0)
         | (Some block, s0) \<Rightarrow> do {
             body \<leftarrow> echo_body block data len;
             let (ret, s1) = icmp_emit nb dest (icmp_message ICMP_TYPE_ECHO_REPLY 0 (echo_rest i n) body) total s0
             in Some (ret, if ret = 0 then upd_icmp (\<lambda>t. t\<lparr>msgs_sent := msgs_sent t + 1, echo_replies := echo_replies t + 1\<rparr>) s1
                           else s1) })"

definition quoted :: "u8 list \<Rightarrow> u16 \<Rightarrow> u8 list option" where
  "quoted orig len = (let n = unat (if len > 28 then 28 else len) in if n \<le> length orig then Some (take n orig) else None)"

definition icmp_dest_unreachable :: "net_env \<Rightarrow> netbase \<Rightarrow> u32 \<Rightarrow> u8 \<Rightarrow> u8 list \<Rightarrow> u16 \<Rightarrow> icmp \<Rightarrow> (int \<times> icmp) option" where
  "icmp_dest_unreachable env nb dest code orig len s =
     (let total = 8 + (if len > 28 then 28 else len)
      in case icmp_kmalloc env (ucast total) s of
           (None, s0) \<Rightarrow> Some (- 1, s0)
         | (Some _, s0) \<Rightarrow> do {
             body \<leftarrow> quoted orig len;
             let (ret, s1) = icmp_emit nb dest (icmp_message ICMP_TYPE_DEST_UNREACHABLE code 0 body) total s0
             in Some (ret, if ret = 0 then upd_icmp (\<lambda>t. t\<lparr>msgs_sent := msgs_sent t + 1\<rparr>) s1 else s1) })"

definition icmp_time_exceeded :: "net_env \<Rightarrow> netbase \<Rightarrow> u32 \<Rightarrow> u8 \<Rightarrow> u8 list \<Rightarrow> u16 \<Rightarrow> icmp \<Rightarrow> (int \<times> icmp) option" where
  "icmp_time_exceeded env nb dest code orig len s =
     (let total = 8 + (if len > 28 then 28 else len)
      in case icmp_kmalloc env (ucast total) s of
           (None, s0) \<Rightarrow> Some (- 1, s0)
         | (Some _, s0) \<Rightarrow> do {
             body \<leftarrow> quoted orig len;
             Some (icmp_emit nb dest (icmp_message ICMP_TYPE_TIME_EXCEEDED code 0 body) total s0) })"

subsection \<open>Receiving\<close>

definition icmp_receive :: "net_env \<Rightarrow> netbase \<Rightarrow> u32 \<Rightarrow> u8 list option \<Rightarrow> u16 \<Rightarrow> icmp \<Rightarrow> (int \<times> icmp) option" where
  "icmp_receive env nb src packet len s =
     (let bad = upd_icmp (\<lambda>t. t\<lparr>icmp_errors := icmp_errors t + 1\<rparr>) s
      in case packet of
           None \<Rightarrow> Some (- 1, bad)
         | Some p \<Rightarrow>
             if len < 8 then Some (- 1, bad)
             else do {
               c \<leftarrow> icmp_checksum p len;
               if c \<noteq> 0 then Some (- 1, bad)
               else
                 let s1 = upd_icmp (\<lambda>t. t\<lparr>msgs_received := msgs_received t + 1\<rparr>) s;
                     i = ucast (drop_bit 16 (ntohl (get32 p 4)) AND 0xFFFF); n = ucast (ntohl (get32 p 4) AND 0xFFFF)
                 in if p ! 0 = ICMP_TYPE_ECHO_REQUEST then icmp_echo_reply env nb src i n (Some (drop 8 p)) (len - 8) s1
                    else if p ! 0 = ICMP_TYPE_ECHO_REPLY
                    then Some (0, upd_icmp (\<lambda>t. t\<lparr>echo_replies := echo_replies t + 1\<rparr>) s1)
                    else Some (0, s1) })"

subsection \<open>Ping\<close>

definition ping_data :: "u8 list" where
  "ping_data = map (\<lambda>i. 97 + of_nat (i mod 26)) [0..<32]"

text \<open>
  \<open>ping\<close> waits for \<open>ping_state.received\<close>. The ticks of round \<open>k\<close> are \<open>clock k\<close>; the ICMP packets that arrive before the
  next round, with their sources, are \<open>arrivals k\<close>.
\<close>

fun icmp_deliver :: "net_env \<Rightarrow> netbase \<Rightarrow> (u32 \<times> u8 list) list \<Rightarrow> icmp \<Rightarrow> icmp option" where
  "icmp_deliver env nb [] s = Some s"
| "icmp_deliver env nb ((src, p) # ps) s =
     do { (_, s1) \<leftarrow> icmp_receive env nb src (Some p) (of_nat (length p)) s; icmp_deliver env nb ps s1 }"

partial_function (option) ping_wait ::
  "net_env \<Rightarrow> netbase \<Rightarrow> (nat \<Rightarrow> (u32 \<times> u8 list) list) \<Rightarrow> (nat \<Rightarrow> u32) \<Rightarrow> u32 \<Rightarrow> u16 \<Rightarrow> nat \<Rightarrow> icmp \<Rightarrow> (int \<times> icmp) option" where
  "ping_wait env nb arrivals clock start timeout k s =
     (if clock k - start < ucast timeout then
        if ping_received (ping_st s) then Some (sint (ping_rtt (ping_st s)), s)
        else do { s1 \<leftarrow> icmp_deliver env nb (arrivals k) s; ping_wait env nb arrivals clock start timeout (Suc k) s1 }
      else Some (- 1, s))"

definition ping :: "net_env \<Rightarrow> netbase \<Rightarrow> (nat \<Rightarrow> (u32 \<times> u8 list) list) \<Rightarrow> (nat \<Rightarrow> u32) \<Rightarrow> u32 \<Rightarrow> u16 \<Rightarrow> icmp \<Rightarrow> (int \<times> icmp) option" where
  "ping env nb arrivals clock dest timeout s =
     (let n = ping_seq s + 1;
          s1 = s\<lparr>ping_seq := n, ping_st := (ping_st s)\<lparr>ping_dest := dest, ping_cur_id := ping_id s, ping_cur_seq := n,
                   ping_send_time := env_ticks env, ping_received := False\<rparr>\<rparr>
      in do {
        (r, s2) \<leftarrow> icmp_echo_request env nb dest (ping_id s) n (Some ping_data) 32 s1;
        if r \<noteq> 0 then Some (- 1, s2) else ping_wait env nb arrivals clock (clock 0) timeout 0 s2 })"

definition icmp_get_stats :: "icmp \<Rightarrow> u32 \<times> u32 \<times> u32" where
  "icmp_get_stats s = (msgs_sent (icmp_counts s), msgs_received (icmp_counts s), icmp_errors (icmp_counts s))"

end
