(* ===== verification/IcmpProps.thy ===== *)
theory IcmpProps
  imports Icmp
begin

unbundle bit_operations_syntax

text \<open>Properties of \<open>kernel/net/icmp.c\<close>: an echo request is answered with its own data; \<open>ping\<close> never sees the answer.\<close>

lemma icmp_checksum_ip: "icmp_checksum = ip_checksum"
  by (simp add: fun_eq_iff icmp_checksum_def ip_checksum_def)

lemma icmp_header_length [simp]: "length (icmp_header_bytes ty code c rest) = 8"
  by (simp add: icmp_header_bytes_def field16_def field32_def)

lemma icmp_header_sum:
  "word_sum (icmp_header_bytes ty code c rest @ body) = word_sum (icmp_header_bytes ty code 0 rest @ body) + unat c"
  by (simp add: word_sum_append icmp_header_bytes_def) (simp add: field16_def field32_def word_sum_field16 [unfolded field16_def, simplified])

lemma icmp_message_parts:
  assumes "length body \<le> 65527"
  shows "icmp_checksum (icmp_message ty code rest body) (of_nat (8 + length body)) = Some 0"
    and "length (icmp_message ty code rest body) = 8 + length body" and "drop 8 (icmp_message ty code rest body) = body"
    and "icmp_message ty code rest body ! 0 = ty" and "get32 (icmp_message ty code rest body) 4 = rest"
proof -
  have len: "unat (of_nat (8 + length body) :: u16) = 8 + length body"
    using assms unat_of_nat_small [where 'a = 16, of "8 + length body"] by simp
  define n where "n = word_sum (icmp_header_bytes ty code 0 rest @ body)"
  have m: "icmp_message ty code rest body = icmp_header_bytes ty code (checksum_of n) rest @ body"
    using len by (simp add: icmp_message_def icmp_checksum_ip ip_checksum_eq n_def)
  show "icmp_checksum (icmp_message ty code rest body) (of_nat (8 + length body)) = Some 0"
    unfolding m icmp_checksum_ip ip_checksum_eq len
    using icmp_header_sum [of ty code "checksum_of n" rest body, folded n_def] checksum_cancels [of n] by simp
  show "length (icmp_message ty code rest body) = 8 + length body" "drop 8 (icmp_message ty code rest body) = body"
    "icmp_message ty code rest body ! 0 = ty" "get32 (icmp_message ty code rest body) 4 = rest"
    unfolding m by (simp_all add: icmp_header_bytes_def field16_def field32_def get32_def le32_bytes32)
qed

lemma echo_rest_parts:
  "(ucast (drop_bit 16 (ntohl (echo_rest i n)) AND 0xFFFF) :: u16) = i" "(ucast (ntohl (echo_rest i n) AND 0xFFFF) :: u16) = n"
proof -
  have m: "(0xFFFF :: u32) = mask 16" by (simp add: mask_eq_exp_minus_1)
  show "(ucast (drop_bit 16 (ntohl (echo_rest i n)) AND 0xFFFF) :: u16) = i"
    unfolding echo_rest_def ntohl_def htonl_htonl m
    by (rule bit_word_eqI) (auto simp: bit_simps dest: bit_imp_le_length)
  show "(ucast (ntohl (echo_rest i n) AND 0xFFFF) :: u16) = n"
    unfolding echo_rest_def ntohl_def htonl_htonl m
    by (rule bit_word_eqI) (auto simp: bit_simps)
qed

lemma upd_icmp_simps [simp]:
  "icmp_out (upd_icmp f s) = icmp_out s" "icmp_counts (upd_icmp f s) = f (icmp_counts s)" "ping_st (upd_icmp f s) = ping_st s"
  by (simp_all add: upd_icmp_def)

lemma icmp_emit_ok:
  "tcpip_initialized nb \<Longrightarrow> icmp_emit nb dest p n s = (0, s\<lparr>icmp_out := icmp_out s @ [(dest, p)]\<rparr>)"
  by (simp add: icmp_emit_def ip_send_packet_def ip_send_def Let_def)

lemma total_length:
  assumes "unat len \<le> 65527"
  shows "unat (8 + len :: u16) = 8 + unat len"
  using assms unat_plus_small [of 8 len] by simp

lemma echo_block:
  assumes "has_memory env" and "unat len \<le> 65527"
  obtains b where "env_kmalloc env k (ucast (8 + len :: u16)) = Some b" and "length b = 8 + unat len"
proof -
  have "8 + len \<noteq> 0" using total_length [OF assms(2)] by (metis add_eq_0_iff_both_eq_0 unat_0 zero_neq_numeral)
  then show ?thesis using memory_block16 [OF assms(1)] total_length [OF assms(2)] that by metis
qed

lemma echo_reply_sends:
  assumes "has_memory env" and "tcpip_initialized nb" and "length data = unat len" and "unat len \<le> 65527"
  shows "\<exists>s1. icmp_echo_reply env nb dest i n (Some data) len s = Some (0, s1)
    \<and> icmp_out s1 = icmp_out s @ [(dest, icmp_message ICMP_TYPE_ECHO_REPLY 0 (echo_rest i n) data)]"
proof -
  obtain b where "env_kmalloc env (icmp_allocs s) (ucast (8 + len)) = Some b" and "length b = 8 + unat len"
    using echo_block [OF assms(1,4)] .
  moreover from this(2) have "echo_body b (Some data) len = Some data" using assms(3) by (auto simp: echo_body_def word_gt_0)
  ultimately show ?thesis using icmp_emit_ok [OF assms(2)] by (simp add: icmp_echo_reply_def icmp_kmalloc_def Let_def)
qed

lemma echo_request_sends:
  assumes "has_memory env" and "tcpip_initialized nb" and "length data = unat len" and "unat len \<le> 65527"
  shows "\<exists>s1. icmp_echo_request env nb dest i n (Some data) len s = Some (0, s1)
    \<and> icmp_out s1 = icmp_out s @ [(dest, icmp_message ICMP_TYPE_ECHO_REQUEST 0 (echo_rest i n) data)]
    \<and> echo_replies (icmp_counts s1) = echo_replies (icmp_counts s) \<and> ping_st s1 = ping_st s"
proof -
  obtain b where "env_kmalloc env (icmp_allocs s) (ucast (8 + len)) = Some b" and "length b = 8 + unat len"
    using echo_block [OF assms(1,4)] .
  moreover from this(2) have "echo_body b (Some data) len = Some data" using assms(3) by (auto simp: echo_body_def word_gt_0)
  ultimately show ?thesis using icmp_emit_ok [OF assms(2)] by (simp add: icmp_echo_request_def icmp_kmalloc_def Let_def)
qed

text \<open>
  C32. An echo request is answered. The request of one host, handed to \<open>icmp_receive\<close> of the other, passes its checksum
  test and makes it send exactly one reply, back to the source, with the same identifier, sequence number and data; the reply
  passes the checksum test of the first host, is counted there and answered by nothing.
\<close>

theorem icmp_echo_answered:
  assumes mem: "has_memory ea" "has_memory eb" and up: "tcpip_initialized na" "tcpip_initialized nb"
    and len: "length data = unat len" "unat len \<le> 65527"
  shows "\<exists>req rep A1 B1 A2. icmp_echo_request ea na ipb i n (Some data) len A = Some (0, A1) \<and> icmp_out A1 = icmp_out A @ [(ipb, req)]
    \<and> icmp_receive eb nb ipa (Some req) (8 + len) B = Some (0, B1) \<and> icmp_out B1 = icmp_out B @ [(ipa, rep)]
    \<and> get32 rep 4 = get32 req 4 \<and> drop 8 rep = data \<and> drop 8 req = data
    \<and> icmp_receive ea na ipb (Some rep) (8 + len) A1 = Some (0, A2) \<and> icmp_out A2 = icmp_out A1
    \<and> echo_replies (icmp_counts A2) = echo_replies (icmp_counts A) + 1"
proof -
  define req where "req = icmp_message ICMP_TYPE_ECHO_REQUEST 0 (echo_rest i n) data"
  define rep where "rep = icmp_message ICMP_TYPE_ECHO_REPLY 0 (echo_rest i n) data"
  have short: "length data \<le> 65527" using len by simp
  have l: "of_nat (8 + length data) = 8 + len" unfolding len(1) by simp
  note q = icmp_message_parts [OF short, of ICMP_TYPE_ECHO_REQUEST 0 "echo_rest i n", folded req_def, unfolded l]
  note p = icmp_message_parts [OF short, of ICMP_TYPE_ECHO_REPLY 0 "echo_rest i n", folded rep_def, unfolded l]
  have len8: "\<not> 8 + len < 8" using len(2) unat_plus_small [of 8 len] by (simp add: word_less_nat_alt)
  obtain A1 where A1: "icmp_echo_request ea na ipb i n (Some data) len A = Some (0, A1)" "icmp_out A1 = icmp_out A @ [(ipb, req)]"
    "echo_replies (icmp_counts A1) = echo_replies (icmp_counts A)"
    using echo_request_sends [OF mem(1) up(1) len] unfolding req_def by blast
  obtain B1 where "icmp_echo_reply eb nb ipa i n (Some data) len (upd_icmp (\<lambda>t. t\<lparr>msgs_received := msgs_received t + 1\<rparr>) B) = Some (0, B1)"
    and B1: "icmp_out B1 = icmp_out B @ [(ipa, rep)]"
    using echo_reply_sends [OF mem(2) up(2) len, of ipa i n "upd_icmp (\<lambda>t. t\<lparr>msgs_received := msgs_received t + 1\<rparr>) B"]
    unfolding rep_def by auto
  then have "icmp_receive eb nb ipa (Some req) (8 + len) B = Some (0, B1)"
    using q len8 by (simp add: icmp_receive_def Let_def echo_rest_parts)
  moreover obtain A2 where "icmp_receive ea na ipb (Some rep) (8 + len) A1 = Some (0, A2)" "icmp_out A2 = icmp_out A1"
    "echo_replies (icmp_counts A2) = echo_replies (icmp_counts A1) + 1"
    using p len8 by (simp add: icmp_receive_def Let_def)
  ultimately show ?thesis using A1 B1 p q by auto
qed

subsection \<open>Ping\<close>

text \<open>No packet changes the state that \<open>ping\<close> waits for, and every packet is handled inside its bounds.\<close>

lemma icmp_receive_total:
  assumes mem: "has_memory env"
  shows "\<exists>r s'. icmp_receive env nb src (Some p) (of_nat (length p)) s = Some (r, s') \<and> ping_st s' = ping_st s"
proof -
  let ?len = "of_nat (length p) :: u16"
  have le: "unat ?len \<le> length p" by (simp add: unat_of_nat)
  obtain c where c: "icmp_checksum p ?len = Some c" using le by (auto simp: icmp_checksum_ip ip_checksum_eq)
  have rep: "\<exists>r s'. icmp_echo_reply env nb dest i n (Some (drop 8 p)) (?len - 8) t = Some (r, s') \<and> ping_st s' = ping_st t"
    if "\<not> ?len < 8" for dest i n t
  proof -
    have n: "unat (?len - 8) = unat ?len - 8" using that by (simp add: unat_sub word_le_nat_alt word_less_nat_alt)
    then have "unat (?len - 8) \<le> 65527" by (simp add: unat_of_nat)
    from echo_block [OF mem this, of "icmp_allocs t"] obtain b where
      b: "env_kmalloc env (icmp_allocs t) (ucast (8 + (?len - 8))) = Some b" "length b = 8 + unat (?len - 8)" .
    have "unat (?len - 8) \<le> length (drop 8 p)" using n le by simp
    then have "\<exists>body. echo_body b (Some (drop 8 p)) (?len - 8) = Some body" using b(2) by (simp add: echo_body_def)
    then obtain body where "echo_body b (Some (drop 8 p)) (?len - 8) = Some body" by blast
    then show ?thesis using b(1) by (simp add: icmp_echo_reply_def icmp_kmalloc_def icmp_emit_def Let_def)
  qed
  let ?s1 = "upd_icmp (\<lambda>t. t\<lparr>msgs_received := msgs_received t + 1\<rparr>) s"
  show ?thesis
    using c rep [of src "ucast (drop_bit 16 (ntohl (get32 p 4)) AND 0xFFFF)" "ucast (ntohl (get32 p 4) AND 0xFFFF)" ?s1]
    by (auto simp: icmp_receive_def Let_def)
qed

lemma icmp_deliver_total: "has_memory env \<Longrightarrow> \<exists>s'. icmp_deliver env nb ps s = Some s' \<and> ping_st s' = ping_st s"
proof (induction ps arbitrary: s)
  case (Cons a ps)
  obtain src p where a: "a = (src, p)" by fastforce
  obtain r s1 where "icmp_receive env nb src (Some p) (of_nat (length p)) s = Some (r, s1)" "ping_st s1 = ping_st s"
    using icmp_receive_total [OF Cons.prems] by blast
  then show ?case using Cons.IH [OF Cons.prems, of s1] a by auto
qed simp

lemma ping_wait_times_out:
  assumes mem: "has_memory env" and "\<not> clock n - start < ucast timeout"
  shows "k \<le> n \<Longrightarrow> \<not> ping_received (ping_st s) \<Longrightarrow> \<exists>s'. ping_wait env nb arrivals clock start timeout k s = Some (- 1, s')"
proof (induction "n - k" arbitrary: k s)
  case 0
  then have "k = n" by simp
  then show ?case using assms by (subst ping_wait.simps) simp
next
  case (Suc d)
  obtain s1 where s1: "icmp_deliver env nb (arrivals k) s = Some s1" "ping_st s1 = ping_st s" using icmp_deliver_total [OF mem] by blast
  have "\<exists>s'. ping_wait env nb arrivals clock start timeout (Suc k) s1 = Some (- 1, s')"
    using Suc.hyps(2) Suc.prems(2) s1(2) by (intro Suc.hyps(1)) simp_all
  then show ?case using s1 Suc.prems(2) by (subst ping_wait.simps) simp
qed

text \<open>
  \<open>ping\<close> fails, whatever arrives. When the echo request could be sent and the clock passes the timeout, the
  function returns -1 for every sequence of packets that arrive meanwhile, the matching reply included: nothing sets the
  flag it waits for.
\<close>

lemma ping_always_times_out:
  assumes "has_memory env" and "tcpip_initialized nb" and "\<not> clock n - clock 0 < ucast timeout"
  shows "\<exists>s'. ping env nb arrivals clock dest timeout s = Some (- 1, s')"
proof -
  let ?s1 = "s\<lparr>ping_seq := ping_seq s + 1, ping_st := (ping_st s)\<lparr>ping_dest := dest, ping_cur_id := ping_id s, ping_cur_seq := ping_seq s + 1,
                   ping_send_time := env_ticks env, ping_received := False\<rparr>\<rparr>"
  have "length ping_data = unat (32 :: u16)" by (simp add: ping_data_def)
  from echo_request_sends [OF assms(1,2) this _, of dest "ping_id s" "ping_seq s + 1" ?s1] obtain s2 where
    s2: "icmp_echo_request env nb dest (ping_id s) (ping_seq s + 1) (Some ping_data) 32 ?s1 = Some (0, s2)" "\<not> ping_received (ping_st s2)" by auto
  obtain s' where "ping_wait env nb arrivals clock (clock 0) timeout 0 s2 = Some (- 1, s')"
    using ping_wait_times_out [where clock = clock and start = "clock 0", OF assms(1,3) _ s2(2)] by blast
  then show ?thesis using s2 by (simp add: ping_def Let_def)
qed

subsection \<open>Concrete hosts\<close>

definition demo_icmp :: icmp where
  "demo_icmp = \<lparr>icmp_counts = \<lparr>msgs_received = 0, msgs_sent = 0, icmp_errors = 0, echo_requests = 0, echo_replies = 0\<rparr>,
     ping_st = \<lparr>ping_dest = 0, ping_cur_id = 0, ping_cur_seq = 0, ping_send_time = 0, ping_received = False, ping_rtt = 0\<rparr>,
     ping_id = 1, ping_seq = 0, icmp_out = [], icmp_allocs = 0\<rparr>"

lemma demo_net_up: "tcpip_initialized demo_net"
  by (simp add: demo_net_def)

theorem icmp_echo_answered_witness:
  "\<exists>req rep B1. icmp_receive demo_env demo_net 5 (Some req) 10 demo_icmp = Some (0, B1) \<and> icmp_out B1 = [(5, rep)] \<and> drop 8 rep = [65, 66]"
proof -
  from icmp_echo_answered [OF demo_simps(1) demo_simps(1) demo_net_up demo_net_up, of "[65, 66]" 2 6 1 1 demo_icmp 5 demo_icmp]
  obtain req rep B1 where "icmp_receive demo_env demo_net 5 (Some req) (8 + 2) demo_icmp = Some (0, B1)"
    "icmp_out B1 = icmp_out demo_icmp @ [(5, rep)]" "drop 8 rep = [65, 66]" by auto
  then show ?thesis by (auto simp: demo_icmp_def)
qed

end
