(* ===== verification/Arp.thy ===== *)
theory Arp
  imports Net "HOL-Library.Monad_Syntax"
begin

unbundle bit_operations_syntax

text \<open>
  ARP, \<open>kernel/net/arp.c\<close>. An \<open>arp_entry_t *\<close> is an index into \<open>arp_cache\<close>. Frames handed to the network driver
  are appended to \<open>arp_out\<close>; the driver's answer to a frame is the argument \<open>drv\<close> and the address it reports
  for the card is \<open>mac\<close>. Console output is left out.
\<close>

subsection \<open>Data\<close>

abbreviation (input) "ARP_CACHE_SIZE \<equiv> (64 :: nat)"
abbreviation (input) "ARP_PENDING_TIMEOUT \<equiv> (3000 :: u32)"
abbreviation (input) "ARP_RETRIES \<equiv> (3 :: int)"
abbreviation (input) "ARP_OP_REQUEST \<equiv> (1 :: u16)"
abbreviation (input) "ARP_OP_REPLY \<equiv> (2 :: u16)"
abbreviation (input) "ETHERTYPE_ARP \<equiv> (0x0806 :: u16)"

datatype arp_state = ARP_STATE_FREE | ARP_STATE_PENDING | ARP_STATE_RESOLVED

record arp_entry =
  ae_ip :: u32
  ae_mac :: "u8 list"
  ae_state :: arp_state
  ae_timestamp :: u32
  ae_retries :: int

record arp =
  arp_cache :: "nat \<Rightarrow> arp_entry"
  arp_initialized :: bool
  arp_local_mac :: "u8 list"
  arp_local_ip :: u32
  arp_out :: "u8 list list"

record arp_packet =
  ap_hw_type :: u16
  ap_proto_type :: u16
  ap_hw_addr_len :: u8
  ap_proto_addr_len :: u8
  ap_operation :: u16
  ap_sender_hw :: "u8 list"
  ap_sender_ip :: u32
  ap_target_hw :: "u8 list"
  ap_target_ip :: u32

definition upd_arp :: "(arp_entry \<Rightarrow> arp_entry) \<Rightarrow> nat \<Rightarrow> arp \<Rightarrow> arp" where
  "upd_arp f i s = s\<lparr>arp_cache := (arp_cache s)(i := f (arp_cache s i))\<rparr>"

subsection \<open>Initialisation\<close>

definition arp_init :: "u8 list \<Rightarrow> arp \<Rightarrow> int \<times> arp" where
  "arp_init mac s =
     (if arp_initialized s then (0, s)
      else (0, (for_range 0 ARP_CACHE_SIZE (upd_arp (\<lambda>e. e\<lparr>ae_state := ARP_STATE_FREE, ae_ip := 0, ae_timestamp := 0\<rparr>)) s)
               \<lparr>arp_local_mac := mac, arp_initialized := True\<rparr>))"

definition arp_set_ip :: "u32 \<Rightarrow> arp \<Rightarrow> arp" where
  "arp_set_ip ip s = s\<lparr>arp_local_ip := ip\<rparr>"

subsection \<open>The cache\<close>

definition arp_cache_find :: "u32 \<Rightarrow> arp \<Rightarrow> nat option" where
  "arp_cache_find ip s =
     first_from (\<lambda>i. ae_state (arp_cache s i) \<noteq> ARP_STATE_FREE \<and> ae_ip (arp_cache s i) = ip) 0 ARP_CACHE_SIZE"

definition oldest_entry :: "arp \<Rightarrow> nat" where
  "oldest_entry s = for_range 1 ARP_CACHE_SIZE
     (\<lambda>i oldest. if ae_timestamp (arp_cache s i) < ae_timestamp (arp_cache s oldest) then i else oldest) 0"

definition arp_cache_alloc :: "arp \<Rightarrow> nat \<times> arp" where
  "arp_cache_alloc s =
     (case first_from (\<lambda>i. ae_state (arp_cache s i) = ARP_STATE_FREE) 0 ARP_CACHE_SIZE of
        Some i \<Rightarrow> (i, s)
      | None \<Rightarrow> (oldest_entry s, upd_arp (\<lambda>e. e\<lparr>ae_state := ARP_STATE_FREE\<rparr>) (oldest_entry s) s))"

definition arp_cache_add :: "u32 \<Rightarrow> u32 \<Rightarrow> u8 list \<Rightarrow> arp \<Rightarrow> arp" where
  "arp_cache_add ticks ip mac s =
     (let (i, s1) = (case arp_cache_find ip s of Some i \<Rightarrow> (i, s) | None \<Rightarrow> arp_cache_alloc s)
      in upd_arp (\<lambda>e. e\<lparr>ae_ip := ip, ae_mac := take 6 mac, ae_state := ARP_STATE_RESOLVED, ae_timestamp := ticks\<rparr>) i s1)"

definition arp_cache_clear :: "arp \<Rightarrow> arp" where
  "arp_cache_clear s = for_range 0 ARP_CACHE_SIZE (upd_arp (\<lambda>e. e\<lparr>ae_state := ARP_STATE_FREE\<rparr>)) s"

subsection \<open>Packets\<close>

definition arp_bytes :: "arp_packet \<Rightarrow> u8 list" where
  "arp_bytes a = field16 (ap_hw_type a) @ field16 (ap_proto_type a) @ [ap_hw_addr_len a, ap_proto_addr_len a]
     @ field16 (ap_operation a) @ ap_sender_hw a @ field32 (ap_sender_ip a) @ ap_target_hw a @ field32 (ap_target_ip a)"

definition arp_frame :: "u8 list \<Rightarrow> u8 list \<Rightarrow> u16 \<Rightarrow> u32 \<Rightarrow> u8 list \<Rightarrow> u32 \<Rightarrow> u8 list" where
  "arp_frame dest mac op sip thw tip =
     dest @ mac @ [ucast (drop_bit 8 ETHERTYPE_ARP AND 0xFF), ucast (ETHERTYPE_ARP AND 0xFF)]
     @ arp_bytes \<lparr>ap_hw_type = htons 1, ap_proto_type = htons 0x0800, ap_hw_addr_len = 6, ap_proto_addr_len = 4,
         ap_operation = htons op, ap_sender_hw = mac, ap_sender_ip = htonl sip, ap_target_hw = thw, ap_target_ip = htonl tip\<rparr>"

definition send_frame :: "u8 list \<Rightarrow> arp \<Rightarrow> arp" where
  "send_frame frame s = s\<lparr>arp_out := arp_out s @ [frame]\<rparr>"

definition arp_send_request :: "(u8 list \<Rightarrow> int) \<Rightarrow> u32 \<Rightarrow> arp \<Rightarrow> int \<times> arp" where
  "arp_send_request drv target s =
     (let frame = arp_frame (replicate 6 0xFF) (arp_local_mac s) ARP_OP_REQUEST (arp_local_ip s) (replicate 6 0) target
      in (drv frame, send_frame frame s))"

definition arp_send_reply :: "(u8 list \<Rightarrow> int) \<Rightarrow> u32 \<Rightarrow> u8 list \<Rightarrow> arp \<Rightarrow> int \<times> arp" where
  "arp_send_reply drv target target_mac s =
     (let frame = arp_frame (take 6 target_mac) (arp_local_mac s) ARP_OP_REPLY (arp_local_ip s) (take 6 target_mac) target
      in (drv frame, send_frame frame s))"

definition read_arp :: "u8 list \<Rightarrow> arp_packet" where
  "read_arp p = \<lparr>ap_hw_type = get16 p 0, ap_proto_type = get16 p 2, ap_hw_addr_len = p ! 4, ap_proto_addr_len = p ! 5,
     ap_operation = get16 p 6, ap_sender_hw = take 6 (drop 8 p), ap_sender_ip = get32 p 14,
     ap_target_hw = take 6 (drop 18 p), ap_target_ip = get32 p 24\<rparr>"

definition arp_receive :: "(u8 list \<Rightarrow> int) \<Rightarrow> u32 \<Rightarrow> u8 list option \<Rightarrow> u16 \<Rightarrow> arp \<Rightarrow> (int \<times> arp) option" where
  "arp_receive drv ticks packet len s =
     (case packet of
        None \<Rightarrow> Some (- 1, s)
      | Some p \<Rightarrow>
          if len < 28 then Some (- 1, s)
          else if length p < 28 then None
          else
            let a = read_arp p
            in if ntohs (ap_hw_type a) \<noteq> 1 \<or> ntohs (ap_proto_type a) \<noteq> 0x0800 \<or> ap_hw_addr_len a \<noteq> 6 \<or> ap_proto_addr_len a \<noteq> 4
               then Some (- 1, s)
               else
                 let sender_ip = ntohl (ap_sender_ip a); target_ip = ntohl (ap_target_ip a); op = ntohs (ap_operation a);
                     s1 = arp_cache_add ticks sender_ip (ap_sender_hw a) s
                 in Some (0, if op = ARP_OP_REQUEST \<and> target_ip = arp_local_ip s1
                             then snd (arp_send_reply drv sender_ip (ap_sender_hw a) s1) else s1))"

definition arp_announce :: "(u8 list \<Rightarrow> int) \<Rightarrow> arp \<Rightarrow> int \<times> arp" where
  "arp_announce drv s = arp_send_request drv (arp_local_ip s) s"

subsection \<open>Resolution\<close>

text \<open>
  \<open>arp_resolve\<close> watches the cache and the clock. The ticks read in round \<open>k\<close> are \<open>clock k\<close>; the ARP packets that
  arrive between round \<open>k\<close> and the next are \<open>arrivals k\<close>, each handled by \<open>arp_receive\<close>.
\<close>

fun receive_packets :: "(u8 list \<Rightarrow> int) \<Rightarrow> u32 \<Rightarrow> u8 list list \<Rightarrow> arp \<Rightarrow> arp option" where
  "receive_packets drv ticks [] s = Some s"
| "receive_packets drv ticks (p # ps) s =
     do { (_, s1) \<leftarrow> arp_receive drv ticks (Some p) (of_nat (length p)) s; receive_packets drv ticks ps s1 }"

partial_function (option) arp_wait ::
  "(u8 list \<Rightarrow> int) \<Rightarrow> (nat \<Rightarrow> u8 list list) \<Rightarrow> (nat \<Rightarrow> u32) \<Rightarrow> u32 \<Rightarrow> u32 \<Rightarrow> nat option \<Rightarrow> nat \<Rightarrow> arp \<Rightarrow>
     (u8 list option \<times> nat option \<times> nat \<times> arp) option" where
  "arp_wait drv arrivals clock start ip entry k s =
     (if clock k - start < ARP_PENDING_TIMEOUT then
        let entry1 = arp_cache_find ip s
        in if entry1 \<noteq> None \<and> ae_state (arp_cache s (the entry1)) = ARP_STATE_RESOLVED
           then Some (Some (ae_mac (arp_cache s (the entry1))), entry1, k, s)
           else do { s1 \<leftarrow> receive_packets drv (clock k) (arrivals k) s;
                     arp_wait drv arrivals clock start ip entry1 (Suc k) s1 }
      else Some (None, entry, k, s))"

definition arp_ask :: "(u8 list \<Rightarrow> int) \<Rightarrow> u32 \<Rightarrow> u32 \<Rightarrow> arp \<Rightarrow> nat \<times> arp" where
  "arp_ask drv ticks ip s =
     (let (i, s1) = (case arp_cache_find ip s of
            Some i \<Rightarrow> (i, s)
          | None \<Rightarrow> (case arp_cache_alloc s of (i, s') \<Rightarrow>
              (i, upd_arp (\<lambda>e. e\<lparr>ae_ip := ip, ae_state := ARP_STATE_PENDING, ae_retries := 0, ae_timestamp := ticks\<rparr>) i s')))
      in (i, upd_arp (\<lambda>e. e\<lparr>ae_retries := ae_retries e + 1\<rparr>) i (snd (arp_send_request drv ip s1))))"

text \<open>The result is the return value and what is stored through \<open>mac_addr\<close>.\<close>

partial_function (option) arp_resolve ::
  "(u8 list \<Rightarrow> int) \<Rightarrow> (nat \<Rightarrow> u8 list list) \<Rightarrow> (nat \<Rightarrow> u32) \<Rightarrow> u32 \<Rightarrow> bool \<Rightarrow> nat \<Rightarrow> arp \<Rightarrow> (int \<times> u8 list option \<times> nat \<times> arp) option" where
  "arp_resolve drv arrivals clock ip mac_null k s =
     (if mac_null then Some (- 1, None, k, s)
      else if ip = 0xFFFFFFFF then Some (0, Some (replicate 6 0xFF), k, s)
      else
        let entry = arp_cache_find ip s
        in if entry \<noteq> None \<and> ae_state (arp_cache s (the entry)) = ARP_STATE_RESOLVED
           then Some (0, Some (ae_mac (arp_cache s (the entry))), k, s)
           else
             let (i, s1) = arp_ask drv (clock k) ip s
             in do {
               (found, entry1, k1, s2) \<leftarrow> arp_wait drv arrivals clock (clock k) ip (Some i) k s1;
               if found \<noteq> None then Some (0, found, k1, s2)
               else if entry1 \<noteq> None \<and> ae_retries (arp_cache s2 (the entry1)) < ARP_RETRIES
               then arp_resolve drv arrivals clock ip mac_null k1 s2
               else Some (- 1, None, k1, s2) })"

end
