(* ===== verification/ArpProps.thy ===== *)
theory ArpProps
  imports Arp
begin

unbundle bit_operations_syntax

text \<open>
  Properties of \<open>kernel/net/arp.c\<close>: the cache as a finite map with eviction of the oldest entry, the request and
  reply exchange of two hosts, and that \<open>arp_resolve\<close> returns.
\<close>

subsection \<open>The cache as a map\<close>

definition occupied :: "arp \<Rightarrow> nat \<Rightarrow> bool" where
  "occupied s i \<longleftrightarrow> i < ARP_CACHE_SIZE \<and> ae_state (arp_cache s i) \<noteq> ARP_STATE_FREE"

definition arp_inv :: "arp \<Rightarrow> bool" where
  "arp_inv s \<longleftrightarrow> (\<forall>i j. occupied s i \<longrightarrow> occupied s j \<longrightarrow> ae_ip (arp_cache s i) = ae_ip (arp_cache s j) \<longrightarrow> i = j)"

definition arp_lookup :: "u32 \<Rightarrow> arp \<Rightarrow> u8 list option" where
  "arp_lookup ip s =
     (case arp_cache_find ip s of
        None \<Rightarrow> None
      | Some i \<Rightarrow> if ae_state (arp_cache s i) = ARP_STATE_RESOLVED then Some (ae_mac (arp_cache s i)) else None)"

definition cache_full :: "arp \<Rightarrow> bool" where
  "cache_full s \<longleftrightarrow> (\<forall>i<ARP_CACHE_SIZE. ae_state (arp_cache s i) \<noteq> ARP_STATE_FREE)"

lemma arp_upd_simps [simp]:
  "arp_cache (upd_arp f i s) = (arp_cache s)(i := f (arp_cache s i))" "arp_out (upd_arp f i s) = arp_out s"
  "arp_local_ip (upd_arp f i s) = arp_local_ip s" "arp_local_mac (upd_arp f i s) = arp_local_mac s"
  "arp_cache (send_frame fr s) = arp_cache s" "arp_out (send_frame fr s) = arp_out s @ [fr]"
  "arp_local_ip (send_frame fr s) = arp_local_ip s" "arp_local_mac (send_frame fr s) = arp_local_mac s"
  by (simp_all add: upd_arp_def send_frame_def)

lemma find_iff:
  assumes "arp_inv s"
  shows "arp_cache_find ip s = Some i \<longleftrightarrow> occupied s i \<and> ae_ip (arp_cache s i) = ip"
proof -
  have "j = i" if "occupied s i" "occupied s j" "ae_ip (arp_cache s i) = ae_ip (arp_cache s j)" for j
    using assms that unfolding arp_inv_def by blast
  then show ?thesis
    unfolding arp_cache_find_def first_from_Some_iff by (auto simp: occupied_def) (metis nat_less_le order.strict_trans)
qed

lemma find_None_iff: "arp_cache_find ip s = None \<longleftrightarrow> (\<forall>i. occupied s i \<longrightarrow> ae_ip (arp_cache s i) \<noteq> ip)"
  by (auto simp: arp_cache_find_def first_from_None_iff occupied_def)

lemma oldest_entry_spec:
  "oldest_entry s < ARP_CACHE_SIZE \<and> (\<forall>j<ARP_CACHE_SIZE. ae_timestamp (arp_cache s (oldest_entry s)) \<le> ae_timestamp (arp_cache s j))"
proof -
  have "oldest_entry s < ARP_CACHE_SIZE \<and> (\<forall>j<64. ae_timestamp (arp_cache s (oldest_entry s)) \<le> ae_timestamp (arp_cache s j))"
    unfolding oldest_entry_def
    by (rule for_range_rule [where I = "\<lambda>n i. i < ARP_CACHE_SIZE \<and> (\<forall>j<n. ae_timestamp (arp_cache s i) \<le> ae_timestamp (arp_cache s j))"])
      (auto simp: less_Suc_eq)
  then show ?thesis .
qed

text \<open>Where \<open>arp_cache_add\<close> puts an address.\<close>

definition slot_for :: "u32 \<Rightarrow> arp \<Rightarrow> nat" where
  "slot_for ip s = (case arp_cache_find ip s of Some i \<Rightarrow> i | None \<Rightarrow> fst (arp_cache_alloc s))"

lemma slot_for_range: "slot_for ip s < ARP_CACHE_SIZE"
  using oldest_entry_spec [of s]
  by (auto simp: slot_for_def arp_cache_find_def arp_cache_alloc_def split: option.splits dest: first_from_SomeD)

lemma slot_for_full:
  "arp_cache_find ip s = None \<Longrightarrow> cache_full s \<Longrightarrow> slot_for ip s = oldest_entry s"
proof -
  assume "arp_cache_find ip s = None" "cache_full s"
  moreover from this(2) have "first_from (\<lambda>i. ae_state (arp_cache s i) = ARP_STATE_FREE) 0 ARP_CACHE_SIZE = None"
    by (simp add: cache_full_def first_from_None_iff)
  ultimately show ?thesis by (simp add: slot_for_def arp_cache_alloc_def)
qed

lemma slot_for_other:
  assumes "arp_inv s" and "occupied s (slot_for ip s)" and "ae_ip (arp_cache s (slot_for ip s)) \<noteq> ip"
  shows "arp_cache_find ip s = None" and "cache_full s" and "slot_for ip s = oldest_entry s"
proof -
  show none: "arp_cache_find ip s = None"
    using assms(3) find_iff [OF assms(1)] by (auto simp: slot_for_def split: option.splits)
  have "first_from (\<lambda>i. ae_state (arp_cache s i) = ARP_STATE_FREE) 0 ARP_CACHE_SIZE = None"
  proof (rule ccontr)
    assume "\<not> ?thesis"
    then obtain i where i: "first_from (\<lambda>i. ae_state (arp_cache s i) = ARP_STATE_FREE) 0 ARP_CACHE_SIZE = Some i" by auto
    then show False using assms(2) none first_from_SomeD [OF i] by (simp add: slot_for_def arp_cache_alloc_def occupied_def)
  qed
  then show "cache_full s" by (simp add: cache_full_def first_from_None_iff)
  then show "slot_for ip s = oldest_entry s" by (rule slot_for_full [OF none])
qed

text \<open>The effect of filling that slot with an entry for the address, on the map and on the invariant.\<close>

lemma fill_slot:
  assumes inv: "arp_inv s" and ip: "ae_ip e = ip" and st: "ae_state e \<noteq> ARP_STATE_FREE"
    and c: "arp_cache s' = (arp_cache s)(slot_for ip s := e)"
  shows "arp_inv s'"
    and "arp_cache_find ip' s' = (if ip' = ip then Some (slot_for ip s)
       else if arp_cache_find ip s = None \<and> cache_full s \<and> arp_cache_find ip' s = Some (oldest_entry s) then None
       else arp_cache_find ip' s)"
proof -
  let ?i = "slot_for ip s"
  have occ: "occupied s' j \<longleftrightarrow> j = ?i \<or> occupied s j" for j
    using st slot_for_range by (auto simp: occupied_def c)
  have self: "j = ?i" if "occupied s j" "ae_ip (arp_cache s j) = ip" for j
    using that find_iff [OF inv, of ip j] by (simp add: slot_for_def)
  show inv': "arp_inv s'"
    unfolding arp_inv_def occ
  proof (intro allI impI)
    fix j k
    assume o: "j = ?i \<or> occupied s j" "k = ?i \<or> occupied s k" and e: "ae_ip (arp_cache s' j) = ae_ip (arp_cache s' k)"
    have "j = k" if "j \<noteq> ?i" "k \<noteq> ?i" using that o e inv unfolding arp_inv_def c by simp
    moreover have "k = ?i" if "j = ?i"
    proof (rule ccontr)
      assume "k \<noteq> ?i"
      then show False using self [of k] o(2) e ip that by (simp add: c)
    qed
    moreover have "j = ?i" if "k = ?i"
    proof (rule ccontr)
      assume "j \<noteq> ?i"
      then show False using self [of j] o(1) e ip that by (simp add: c)
    qed
    ultimately show "j = k" by blast
  qed
  show "arp_cache_find ip' s' = (if ip' = ip then Some ?i
       else if arp_cache_find ip s = None \<and> cache_full s \<and> arp_cache_find ip' s = Some (oldest_entry s) then None
       else arp_cache_find ip' s)"
  proof (cases "ip' = ip")
    case True
    then show ?thesis using find_iff [OF inv', of ip ?i] occ ip by (simp add: c)
  next
    case False
    have new: "arp_cache_find ip' s' = Some j \<longleftrightarrow> j \<noteq> ?i \<and> arp_cache_find ip' s = Some j" for j
      unfolding find_iff [OF inv'] find_iff [OF inv] occ using False ip by (auto simp: c)
    have "arp_cache_find ip' s = Some ?i \<longleftrightarrow> arp_cache_find ip s = None \<and> cache_full s \<and> arp_cache_find ip' s = Some (oldest_entry s)"
      using slot_for_other [OF inv] slot_for_full [of ip s] find_iff [OF inv, of ip' ?i] False by auto
    moreover have "arp_cache_find ip' s' = (if arp_cache_find ip' s = Some ?i then None else arp_cache_find ip' s)"
    proof (cases "arp_cache_find ip' s")
      case None
      then show ?thesis using new [of "the (arp_cache_find ip' s')"] by (cases "arp_cache_find ip' s'") simp_all
    next
      case (Some j)
      then show ?thesis using new [of j] new [of "the (arp_cache_find ip' s')"] by (cases "arp_cache_find ip' s'") auto
    qed
    ultimately show ?thesis using False by simp
  qed
qed

lemma cache_add_at:
  "arp_cache (arp_cache_add t ip mac s) = (arp_cache s)(slot_for ip s :=
     (arp_cache s (slot_for ip s))\<lparr>ae_ip := ip, ae_mac := take 6 mac, ae_state := ARP_STATE_RESOLVED, ae_timestamp := t\<rparr>)"
  "arp_out (arp_cache_add t ip mac s) = arp_out s" "arp_local_ip (arp_cache_add t ip mac s) = arp_local_ip s"
  "arp_local_mac (arp_cache_add t ip mac s) = arp_local_mac s"
  by (auto simp: arp_cache_add_def slot_for_def arp_cache_alloc_def split: option.splits)

lemma lookup_added:
  assumes "arp_inv s"
  shows "arp_lookup ip (arp_cache_add t ip mac s) = Some (take 6 mac)"
  using fill_slot(2) [OF assms _ _ cache_add_at(1) [of t ip mac s], where ip' = ip] by (simp add: arp_lookup_def cache_add_at)

text \<open>
  The cache is a map from addresses to hardware addresses with eviction. After \<open>arp_cache_add\<close> the address
  resolves to the six bytes given; every other address resolves as before, except that adding a new address to a full
  cache forgets the entry with the smallest timestamp, and only that one; and no address ever has two entries.
\<close>

lemma arp_cache_add_lookup:
  assumes "arp_inv s"
  shows "arp_inv (arp_cache_add t ip mac s)
    \<and> arp_lookup ip' (arp_cache_add t ip mac s) =
        (if ip' = ip then Some (take 6 mac)
         else if arp_cache_find ip s = None \<and> cache_full s \<and> arp_cache_find ip' s = Some (oldest_entry s) then None
         else arp_lookup ip' s)
    \<and> (\<forall>j<ARP_CACHE_SIZE. ae_timestamp (arp_cache s (oldest_entry s)) \<le> ae_timestamp (arp_cache s j))"
proof -
  let ?e = "(arp_cache s (slot_for ip s))\<lparr>ae_ip := ip, ae_mac := take 6 mac, ae_state := ARP_STATE_RESOLVED, ae_timestamp := t\<rparr>"
  note f = fill_slot [OF assms, of ?e ip "arp_cache_add t ip mac s", simplified, OF cache_add_at(1)]
  have "j \<noteq> slot_for ip s" if "ip' \<noteq> ip" "arp_cache_find ip' (arp_cache_add t ip mac s) = Some j" for j
    using that find_iff [OF f(1), of ip' j] by (auto simp: cache_add_at)
  then show ?thesis
    using f oldest_entry_spec [of s] by (auto simp: arp_lookup_def cache_add_at split: option.splits if_splits)
qed

subsection \<open>Request and reply\<close>

lemma read_arp_bytes:
  "length (ap_sender_hw a) = 6 \<Longrightarrow> length (ap_target_hw a) = 6 \<Longrightarrow> read_arp (arp_bytes a) = a"
  by (simp add: read_arp_def arp_bytes_def field16_def field32_def get16_def get32_def nth_append le16_field16 le32_bytes32)

lemma receive_frame:
  assumes "length dest = 6" and "length mac = 6" and "length thw = 6"
  shows "arp_receive drv t (Some (drop 14 (arp_frame dest mac op sip thw tip))) 28 s =
     Some (0, let s1 = arp_cache_add t sip mac s
       in if op = ARP_OP_REQUEST \<and> tip = arp_local_ip s then snd (arp_send_reply drv sip mac s1) else s1)"
proof -
  let ?a = "\<lparr>ap_hw_type = htons 1, ap_proto_type = htons 0x0800, ap_hw_addr_len = 6, ap_proto_addr_len = 4,
         ap_operation = htons op, ap_sender_hw = mac, ap_sender_ip = htonl sip, ap_target_hw = thw, ap_target_ip = htonl tip\<rparr>"
  have d: "drop 14 (arp_frame dest mac op sip thw tip) = arp_bytes ?a" using assms by (simp add: arp_frame_def)
  have l: "length (arp_bytes ?a) = 28" using assms by (simp add: arp_bytes_def field16_def field32_def)
  show ?thesis
    unfolding d arp_receive_def using l read_arp_bytes [of ?a] assms by (simp add: Let_def ntohs_def ntohl_def cache_add_at)
qed

text \<open>
  C31. An exchange resolves both ways. Host A asks for the address of host B; the request, handed to \<open>arp_receive\<close> of B,
  makes B remember A and send exactly one reply, addressed to A; the reply, handed to \<open>arp_receive\<close> of A, makes A
  remember B and send nothing. Then each host resolves the other's address to the other's hardware address.
\<close>

theorem arp_exchange:
  assumes inv: "arp_inv A" "arp_inv B" and mac: "length (arp_local_mac A) = 6" "length (arp_local_mac B) = 6"
    and ip: "arp_local_ip B = ipb"
  shows "\<exists>req rep B1 A1. arp_out (snd (arp_send_request drv ipb A)) = arp_out A @ [req]
     \<and> arp_receive drv' t (Some (drop 14 req)) 28 B = Some (0, B1) \<and> arp_out B1 = arp_out B @ [rep] \<and> take 6 rep = arp_local_mac A
     \<and> arp_receive drv t' (Some (drop 14 rep)) 28 (snd (arp_send_request drv ipb A)) = Some (0, A1) \<and> arp_out A1 = arp_out A @ [req]
     \<and> arp_lookup ipb A1 = Some (arp_local_mac B) \<and> arp_lookup (arp_local_ip A) B1 = Some (arp_local_mac A)"
proof -
  define req where "req = arp_frame (replicate 6 0xFF) (arp_local_mac A) ARP_OP_REQUEST (arp_local_ip A) (replicate 6 0) ipb"
  define rep where "rep = arp_frame (arp_local_mac A) (arp_local_mac B) ARP_OP_REPLY ipb (arp_local_mac A) (arp_local_ip A)"
  define B1 where "B1 = send_frame rep (arp_cache_add t (arp_local_ip A) (arp_local_mac A) B)"
  define A1 where "A1 = arp_cache_add t' ipb (arp_local_mac B) (send_frame req A)"
  have A0: "snd (arp_send_request drv ipb A) = send_frame req A" by (simp add: arp_send_request_def req_def Let_def)
  have "arp_receive drv' t (Some (drop 14 req)) 28 B = Some (0, B1)"
    using receive_frame [of "replicate 6 0xFF" "arp_local_mac A" "replicate 6 0"] mac ip
    by (simp add: req_def B1_def rep_def arp_send_reply_def Let_def cache_add_at)
  moreover have "arp_receive drv t' (Some (drop 14 rep)) 28 (send_frame req A) = Some (0, A1)"
    using receive_frame [of "arp_local_mac A" "arp_local_mac B" "arp_local_mac A"] mac by (simp add: rep_def A1_def)
  moreover have "take 6 rep = arp_local_mac A" using mac by (simp add: rep_def arp_frame_def)
  moreover have "arp_inv (send_frame req A)" using inv(1) by (simp add: arp_inv_def occupied_def)
  moreover have "arp_lookup ip (send_frame fr s) = arp_lookup ip s" for ip fr s
    by (simp add: arp_lookup_def arp_cache_find_def cong: option.case_cong if_cong)
  ultimately show ?thesis using inv mac unfolding A0
    by (intro exI [of _ req] exI [of _ rep] exI [of _ B1] exI [of _ A1]) (simp add: B1_def A1_def cache_add_at lookup_added)
qed

subsection \<open>Resolution\<close>

definition pending :: "u32 \<Rightarrow> nat \<Rightarrow> int \<Rightarrow> arp \<Rightarrow> bool" where
  "pending ip i r s \<longleftrightarrow> arp_inv s \<and> arp_cache_find ip s = Some i \<and> ae_state (arp_cache s i) = ARP_STATE_PENDING \<and> ae_retries (arp_cache s i) = r"

lemma wait_idle:
  assumes "arp_cache_find ip s = Some i" and "ae_state (arp_cache s i) = ARP_STATE_PENDING"
    and "k \<le> n" and "\<not> clock n - start < ARP_PENDING_TIMEOUT"
  shows "\<exists>m. arp_wait drv (\<lambda>_. []) clock start ip (Some i) k s = Some (None, Some i, m, s)"
  using assms(3)
proof (induction "n - k" arbitrary: k)
  case 0
  then have "k = n" by simp
  then show ?case using assms(4) by (subst arp_wait.simps) simp
next
  case (Suc d)
  from Suc(2) have "d = n - Suc k" "Suc k \<le> n" by simp_all
  from Suc(1) [OF this] obtain m where "arp_wait drv (\<lambda>_. []) clock start ip (Some i) (Suc k) s = Some (None, Some i, m, s)" by blast
  then show ?case using assms(1,2) by (subst arp_wait.simps) (simp add: Let_def)
qed

lemma ask_pending:
  assumes "pending ip i r s"
  shows "\<exists>s1 fr. arp_ask drv t ip s = (i, s1) \<and> pending ip i (r + 1) s1 \<and> arp_out s1 = arp_out s @ [fr]
    \<and> fr = arp_frame (replicate 6 0xFF) (arp_local_mac s) ARP_OP_REQUEST (arp_local_ip s) (replicate 6 0) ip
    \<and> arp_local_mac s1 = arp_local_mac s \<and> arp_local_ip s1 = arp_local_ip s"
proof -
  have a: "arp_cache_find ip s = Some i" "ae_state (arp_cache s i) = ARP_STATE_PENDING" "ae_retries (arp_cache s i) = r" "arp_inv s"
    using assms by (simp_all add: pending_def)
  define s1 where "s1 = upd_arp (\<lambda>e. e\<lparr>ae_retries := ae_retries e + 1\<rparr>) i (snd (arp_send_request drv ip s))"
  have same: "ae_state (arp_cache s1 j) = ae_state (arp_cache s j)" "ae_ip (arp_cache s1 j) = ae_ip (arp_cache s j)" for j
    by (simp_all add: s1_def arp_send_request_def Let_def)
  have "arp_cache_find ip s1 = Some i" "arp_inv s1"
    using a(1,4) by (simp_all add: arp_cache_find_def arp_inv_def occupied_def same)
  then have "pending ip i (r + 1) s1" using a by (simp add: pending_def same) (simp add: s1_def arp_send_request_def Let_def)
  then show ?thesis using a(1) by (simp add: arp_ask_def s1_def arp_send_request_def Let_def)
qed

lemma resolve_round:
  assumes p: "pending ip i r s" and ip: "ip \<noteq> 0xFFFFFFFF" and late: "\<forall>k. \<exists>n\<ge>k. \<not> clock n - clock k < ARP_PENDING_TIMEOUT"
  shows "\<exists>m s1. pending ip i (r + 1) s1 \<and> arp_local_mac s1 = arp_local_mac s \<and> arp_local_ip s1 = arp_local_ip s
    \<and> arp_out s1 = arp_out s @ [arp_frame (replicate 6 0xFF) (arp_local_mac s) ARP_OP_REQUEST (arp_local_ip s) (replicate 6 0) ip]
    \<and> arp_resolve drv (\<lambda>_. []) clock ip False k s =
        (if r + 1 < ARP_RETRIES then arp_resolve drv (\<lambda>_. []) clock ip False m s1 else Some (- 1, None, m, s1))"
proof -
  from ask_pending [OF p, of drv "clock k"] obtain s1 where
    s1: "arp_ask drv (clock k) ip s = (i, s1)" "pending ip i (r + 1) s1" "arp_local_mac s1 = arp_local_mac s" "arp_local_ip s1 = arp_local_ip s"
      "arp_out s1 = arp_out s @ [arp_frame (replicate 6 0xFF) (arp_local_mac s) ARP_OP_REQUEST (arp_local_ip s) (replicate 6 0) ip]" by blast
  from late obtain n where "k \<le> n" "\<not> clock n - clock k < ARP_PENDING_TIMEOUT" by blast
  with s1(2) obtain m where "arp_wait drv (\<lambda>_. []) clock (clock k) ip (Some i) k s1 = Some (None, Some i, m, s1)"
    using wait_idle [of ip s1 i k n clock "clock k" drv] by (auto simp: pending_def)
  moreover have "arp_cache_find ip s = Some i" "ae_state (arp_cache s i) = ARP_STATE_PENDING" "ae_retries (arp_cache s1 i) = r + 1"
    using p s1(2) by (simp_all add: pending_def)
  ultimately show ?thesis using s1 ip
    by (intro exI [of _ m] exI [of _ s1]) (subst arp_resolve.simps, simp)
qed

lemma resolve_fresh:
  assumes inv: "arp_inv s" and none: "arp_cache_find ip s = None" and ip: "ip \<noteq> 0xFFFFFFFF"
  shows "\<exists>i s0. pending ip i 0 s0 \<and> arp_out s0 = arp_out s \<and> arp_local_mac s0 = arp_local_mac s \<and> arp_local_ip s0 = arp_local_ip s
    \<and> arp_resolve drv arrivals clock ip False k s = arp_resolve drv arrivals clock ip False k s0"
proof -
  obtain i s' where al: "arp_cache_alloc s = (i, s')" by fastforce
  have i: "i = slot_for ip s" using none al by (simp add: slot_for_def)
  define e where "e = (arp_cache s' i)\<lparr>ae_ip := ip, ae_state := ARP_STATE_PENDING, ae_retries := 0, ae_timestamp := clock k\<rparr>"
  define s0 where "s0 = upd_arp (\<lambda>e. e\<lparr>ae_ip := ip, ae_state := ARP_STATE_PENDING, ae_retries := 0, ae_timestamp := clock k\<rparr>) i s'"
  have s': "arp_out s' = arp_out s" "arp_local_mac s' = arp_local_mac s" "arp_local_ip s' = arp_local_ip s"
    "(arp_cache s')(i := e) = (arp_cache s)(i := e)"
    using al by (auto simp: arp_cache_alloc_def split: option.splits)
  have c: "arp_cache s0 = (arp_cache s)(slot_for ip s := e)" using s'(4) by (simp add: s0_def e_def i)
  have "arp_inv s0" "arp_cache_find ip s0 = Some i"
    using fill_slot(1) [OF inv _ _ c] fill_slot(2) [OF inv _ _ c, where ip' = ip] by (simp_all add: e_def i)
  then have p: "pending ip i 0 s0" by (simp add: pending_def c i e_def)
  then have f: "arp_cache_find ip s0 = Some i" "ae_state (arp_cache s0 i) = ARP_STATE_PENDING" by (simp_all add: pending_def)
  have "arp_ask drv (clock k) ip s = arp_ask drv (clock k) ip s0"
    using none al f(1) by (simp add: arp_ask_def s0_def)
  then have "arp_resolve drv arrivals clock ip False k s = arp_resolve drv arrivals clock ip False k s0"
    using none f ip by (subst (1 2) arp_resolve.simps) (simp add: Let_def)
  then show ?thesis using p s'(1-3) by (intro exI [of _ i] exI [of _ s0]) (simp add: s0_def)
qed

text \<open>
  \<open>arp_resolve\<close> returns, as long as the clock advances. The broadcast address and an address in the cache are answered
  at once. For an unknown address, when no ARP packet is handed to \<open>arp_receive\<close> while it waits, exactly three requests for the
  address are sent, the result is -1, and the address stays unresolved.
\<close>

lemma arp_resolve_returns:
  assumes inv: "arp_inv s" and late: "\<forall>k. \<exists>n\<ge>k. \<not> clock n - clock k < ARP_PENDING_TIMEOUT"
  defines "fr \<equiv> \<lambda>ip. arp_frame (replicate 6 0xFF) (arp_local_mac s) ARP_OP_REQUEST (arp_local_ip s) (replicate 6 0) ip"
  shows "arp_resolve drv arrivals clock 0xFFFFFFFF False k s = Some (0, Some (replicate 6 0xFF), k, s)
    \<and> (arp_lookup ip s = Some mac \<longrightarrow> ip \<noteq> 0xFFFFFFFF \<longrightarrow> arp_resolve drv arrivals clock ip False k s = Some (0, Some mac, k, s))
    \<and> (arp_cache_find ip s = None \<longrightarrow> ip \<noteq> 0xFFFFFFFF \<longrightarrow>
         (\<exists>m s'. arp_resolve drv (\<lambda>_. []) clock ip False k s = Some (- 1, None, m, s')
            \<and> arp_out s' = arp_out s @ [fr ip, fr ip, fr ip] \<and> arp_lookup ip s' = None))"
proof (intro conjI impI)
  show "arp_resolve drv arrivals clock 0xFFFFFFFF False k s = Some (0, Some (replicate 6 0xFF), k, s)"
    by (subst arp_resolve.simps) simp
next
  assume "arp_lookup ip s = Some mac" "ip \<noteq> 0xFFFFFFFF"
  then show "arp_resolve drv arrivals clock ip False k s = Some (0, Some mac, k, s)"
    by (subst arp_resolve.simps) (auto simp: arp_lookup_def Let_def split: option.splits if_splits)
next
  assume none: "arp_cache_find ip s = None" and ip: "ip \<noteq> 0xFFFFFFFF"
  obtain i s0 where s0: "pending ip i 0 s0" "arp_out s0 = arp_out s" "arp_local_mac s0 = arp_local_mac s" "arp_local_ip s0 = arp_local_ip s"
    "arp_resolve drv (\<lambda>_. []) clock ip False k s = arp_resolve drv (\<lambda>_. []) clock ip False k s0"
    using resolve_fresh [OF inv none ip] by blast
  obtain m1 s1 where s1: "pending ip i 1 s1" "arp_local_mac s1 = arp_local_mac s" "arp_local_ip s1 = arp_local_ip s" "arp_out s1 = arp_out s @ [fr ip]"
    "arp_resolve drv (\<lambda>_. []) clock ip False k s = arp_resolve drv (\<lambda>_. []) clock ip False m1 s1"
    using resolve_round [OF s0(1) ip late, of drv k] s0 by (auto simp: fr_def)
  obtain m2 s2 where s2: "pending ip i 2 s2" "arp_local_mac s2 = arp_local_mac s" "arp_local_ip s2 = arp_local_ip s" "arp_out s2 = arp_out s @ [fr ip, fr ip]"
    "arp_resolve drv (\<lambda>_. []) clock ip False k s = arp_resolve drv (\<lambda>_. []) clock ip False m2 s2"
    using resolve_round [OF s1(1) ip late, of drv m1] s1 by (auto simp: fr_def)
  obtain m3 s3 where "pending ip i 3 s3" "arp_out s3 = arp_out s @ [fr ip, fr ip, fr ip]"
    "arp_resolve drv (\<lambda>_. []) clock ip False k s = Some (- 1, None, m3, s3)"
    using resolve_round [OF s2(1) ip late, of drv m2] s2 by (auto simp: fr_def)
  then show "\<exists>m s'. arp_resolve drv (\<lambda>_. []) clock ip False k s = Some (- 1, None, m, s')
            \<and> arp_out s' = arp_out s @ [fr ip, fr ip, fr ip] \<and> arp_lookup ip s' = None"
    by (auto simp: arp_lookup_def pending_def)
qed

subsection \<open>Concrete hosts\<close>

definition demo_arp :: "u8 \<Rightarrow> u32 \<Rightarrow> arp" where
  "demo_arp b ip = \<lparr>arp_cache = (\<lambda>_. \<lparr>ae_ip = 0, ae_mac = [0, 0, 0, 0, 0, 0], ae_state = ARP_STATE_FREE, ae_timestamp = 0, ae_retries = 0\<rparr>),
     arp_initialized = True, arp_local_mac = [2, 0, 0, 0, 0, b], arp_local_ip = ip, arp_out = []\<rparr>"

lemma demo_arp_inv: "arp_inv (demo_arp b ip)"
  by (simp add: arp_inv_def occupied_def demo_arp_def)

lemma demo_arp_empty: "arp_cache_find x (demo_arp b ip) = None"
  by (simp add: arp_cache_find_def first_from_None_iff demo_arp_def)

theorem arp_exchange_witness:
  "\<exists>req rep A1 B1. arp_receive (\<lambda>_. 0) 0 (Some (drop 14 req)) 28 (demo_arp 2 6) = Some (0, B1)
     \<and> arp_receive (\<lambda>_. 0) 0 (Some (drop 14 rep)) 28 (snd (arp_send_request (\<lambda>_. 0) 6 (demo_arp 1 5))) = Some (0, A1)
     \<and> arp_lookup 6 A1 = Some [2, 0, 0, 0, 0, 2] \<and> arp_lookup 5 B1 = Some [2, 0, 0, 0, 0, 1] \<and> arp_out B1 = [rep]"
proof -
  have d: "arp_local_mac (demo_arp b ip) = [2, 0, 0, 0, 0, b]" "arp_local_ip (demo_arp b ip) = ip" "arp_out (demo_arp b ip) = []" for b ip
    by (simp_all add: demo_arp_def)
  show ?thesis
    using arp_exchange [OF demo_arp_inv [of 1 5] demo_arp_inv [of 2 6], of 6 "\<lambda>_. 0" "\<lambda>_. 0" 0 0, unfolded d] by auto
qed

end
