(* ===== verification/NetStack.thy ===== *)
theory NetStack
  imports UdpProps IcmpProps ArpProps
begin

unbundle bit_operations_syntax

text \<open>
  The receive path of \<open>kernel/tcpip.c\<close>: from an Ethernet frame through \<open>ip_receive\<close> to the protocol handlers, and the
  initialisation of the stack. The interface record of \<open>tcpip.c\<close> is the one kept in the TCP component.
\<close>

abbreviation (input) "ETHERTYPE_IPV4 \<equiv> (0x0800 :: u16)"

text \<open>The size of \<open>eth_frame_t\<close>, with its payload array of 1500 bytes.\<close>

abbreviation (input) "ETH_FRAME_SIZE \<equiv> (1514 :: u16)"

record netstack =
  ns_arp :: arp
  ns_tcp :: tcp
  ns_udp :: udp
  ns_icmp :: icmp

definition ns_net :: "netstack \<Rightarrow> netbase" where
  "ns_net s = tcp_net (ns_tcp s)"

definition tcpip_init :: "u8 list \<Rightarrow> netstack \<Rightarrow> int \<times> netstack" where
  "tcpip_init mac s =
     (if tcpip_initialized (ns_net s) then (0, s)
      else
        let t = snd (tcp_init (ns_tcp s));
            n = \<lparr>net_iface = (net_iface (tcp_net t))\<lparr>ni_ip_addr := 0, ni_netmask := 0, ni_gateway := 0, ni_up := False\<rparr>, tcpip_initialized = True\<rparr>
        in (0, s\<lparr>ns_arp := snd (arp_init mac (ns_arp s)), ns_tcp := t\<lparr>tcp_net := n\<rparr>, ns_udp := snd (udp_init (ns_udp s))\<rparr>))"

definition ip_deliver :: "net_env \<Rightarrow> u8 \<Rightarrow> u32 \<Rightarrow> u32 \<Rightarrow> u8 list \<Rightarrow> u16 \<Rightarrow> netstack \<Rightarrow> (int \<times> netstack) option" where
  "ip_deliver env proto src dst payload len s =
     (if proto = IP_PROTO_ICMP then
        do { (r, t) \<leftarrow> icmp_receive env (ns_net s) src (Some payload) len (ns_icmp s); Some (r, s\<lparr>ns_icmp := t\<rparr>) }
      else if proto = IP_PROTO_TCP then
        do { (r, t) \<leftarrow> tcp_receive env src dst (Some payload) len (ns_tcp s); Some (r, s\<lparr>ns_tcp := t\<rparr>) }
      else if proto = IP_PROTO_UDP then
        do { (r, t) \<leftarrow> udp_receive env src dst (Some payload) len (ns_udp s); Some (r, s\<lparr>ns_udp := t\<rparr>) }
      else Some (0, s))"

definition ip_receive :: "net_env \<Rightarrow> u8 list option \<Rightarrow> u16 \<Rightarrow> netstack \<Rightarrow> (int \<times> netstack) option" where
  "ip_receive env packet len s =
     (case packet of
        None \<Rightarrow> Some (- 1, s)
      | Some p \<Rightarrow>
          if len < 20 then Some (- 1, s)
          else do {
            c \<leftarrow> ip_checksum p 20;
            if c \<noteq> 0 then Some (- 1, s)
            else if ntohl (get32 p 16) \<noteq> ni_ip_addr (net_iface (ns_net s)) then Some (- 1, s)
            else ip_deliver env (p ! 9) (ntohl (get32 p 12)) (ntohl (get32 p 16)) (drop 20 p) (ntohs (get16 p 2) - 20) s })"

definition tcpip_process_packet :: "net_env \<Rightarrow> u8 list option \<Rightarrow> u16 \<Rightarrow> netstack \<Rightarrow> (int \<times> netstack) option" where
  "tcpip_process_packet env data len s =
     (if \<not> tcpip_initialized (ns_net s) \<or> data = None \<or> len < ETH_FRAME_SIZE then Some (- 1, s)
      else if length (the data) < 14 then None
      else if ntohs (get16 (the data) 12) = ETHERTYPE_IPV4 then ip_receive env (Some (drop 14 (the data))) (len - 14) s
      else Some (0, s))"


definition demo_stack :: netstack where
  "demo_stack = \<lparr>ns_arp = demo_arp 1 0x0A000002, ns_tcp = demo_host zero_cb, ns_udp = demo_udp, ns_icmp = demo_icmp\<rparr>"


end
