(* ===== verification/Chains.thy ===== *)
theory Chains
  imports Intrusive
begin

text \<open>
  Singly linked chains through a static array, and the free lists the memory managers keep in
  them. \<open>vma.c\<close> threads its free \<open>vma_t\<close> slots through \<open>vm_next\<close> and its free \<open>mm_struct_t\<close> slots
  through \<open>vmas\<close>; \<open>page_cache.c\<close> threads its free entries and its hash chains through \<open>hash_next\<close>.
  The locale \<open>free_pool\<close> is the contract of taking a slot and giving it back.
\<close>

fun chain :: "(nat \<Rightarrow> nat option) \<Rightarrow> nat option \<Rightarrow> nat list \<Rightarrow> bool" where
  "chain nx p [] \<longleftrightarrow> p = None"
| "chain nx p (x # xs) \<longleftrightarrow> p = Some x \<and> chain nx (nx x) xs"

lemma chain_unique: "chain nx p xs \<Longrightarrow> chain nx p ys \<Longrightarrow> xs = ys"
proof (induction xs arbitrary: p ys)
  case Nil
  then show ?case by (cases ys) auto
next
  case (Cons x xs)
  then show ?case by (cases ys) auto
qed

lemma chain_append:
  "chain nx p (xs @ y # ys) \<Longrightarrow> chain nx (Some y) (y # ys)"
  by (induction xs arbitrary: p) auto

lemma chain_distinct: "chain nx p xs \<Longrightarrow> distinct xs"
proof (induction xs arbitrary: p)
  case (Cons x xs)
  have "x \<notin> set xs"
  proof
    assume "x \<in> set xs"
    then obtain ys zs where xs: "xs = ys @ x # zs" by (auto simp: in_set_conv_decomp)
    with Cons.prems have "chain nx (Some x) (x # zs)" using chain_append [of nx "nx x" ys x zs] by simp
    moreover have "chain nx (Some x) (x # xs)" using Cons.prems by simp
    ultimately have "x # zs = x # xs" by (rule chain_unique)
    with xs show False by simp
  qed
  with Cons show ?case by auto
qed simp

lemma chain_cong: "(\<And>x. x \<in> set xs \<Longrightarrow> nx' x = nx x) \<Longrightarrow> chain nx' p xs \<longleftrightarrow> chain nx p xs"
  by (induction xs arbitrary: p) auto

lemma chain_None_iff [simp]: "chain nx None xs \<longleftrightarrow> xs = []"
  by (cases xs) auto

lemma chain_SomeD: "chain nx (Some x) xs \<Longrightarrow> \<exists>ys. xs = x # ys \<and> chain nx (nx x) ys"
  by (cases xs) auto

lemma dseg_chain: "dseg nx pv b p xs e None \<Longrightarrow> chain nx p xs"
  by (induction xs arbitrary: b p) auto

lemma dll_chain: "dll nx pv p xs \<Longrightarrow> chain nx p xs"
  by (auto simp: dll_def intro: dseg_chain)

lemma chain_upto:
  assumes "\<And>i. i < n \<Longrightarrow> nx i = (if Suc i < n then Some (Suc i) else None)" and "k < n"
  shows "chain nx (Some k) [k..<n]"
  using assms(2)
proof (induction "n - k" arbitrary: k)
  case (Suc d)
  show ?case
  proof (cases "Suc k < n")
    case True
    with Suc have "chain nx (Some (Suc k)) [Suc k..<n]" by simp
    with True assms(1) [of k] show ?thesis by (simp add: upt_conv_Cons)
  next
    case False
    with Suc.prems assms(1) [of k] show ?thesis by (simp add: upt_conv_Cons)
  qed
qed simp

lemma chain_unlink:
  assumes "chain nx p (ys @ e # zs)"
  shows "chain (relink (last_opt ys) (nx e) nx) (case last_opt ys of None \<Rightarrow> nx e | Some y \<Rightarrow> p) (ys @ zs)"
  using assms
proof (induction ys arbitrary: p)
  case Nil
  then show ?case by (simp add: relink_def)
next
  case (Cons y ys)
  have dist: "distinct (y # ys @ e # zs)" using chain_distinct [OF Cons.prems] by simp
  show ?case
  proof (cases ys rule: rev_cases)
    case Nil
    with Cons.prems dist have "chain (nx(y := nx e)) (nx e) zs"
      by (subst chain_cong [where nx = nx]) auto
    with Nil Cons.prems show ?thesis by (simp add: relink_def fun_upd_def)
  next
    case (snoc us w)
    then have "relink (last_opt (y # ys)) (nx e) nx = relink (last_opt ys) (nx e) nx" by simp
    moreover have "relink (last_opt ys) (nx e) nx y = nx y" using snoc dist by (auto simp: relink_def)
    ultimately show ?thesis using Cons snoc by simp
  qed
qed

subsection \<open>Loops over a chain\<close>

text \<open>
  \<open>while (p) { if (found) return p; p = p->next; }\<close> and the loop that folds over every node. On a
  cyclic chain they do not end, which is the value \<open>None\<close>.
\<close>

partial_function (option) chain_find ::
  "(nat \<Rightarrow> nat option) \<Rightarrow> (nat \<Rightarrow> bool) \<Rightarrow> nat option \<Rightarrow> nat option option" where
  "chain_find nx f p =
     (case p of None \<Rightarrow> Some None
      | Some y \<Rightarrow> if f y then Some (Some y) else chain_find nx f (nx y))"

partial_function (option) chain_fold ::
  "(nat \<Rightarrow> nat option) \<Rightarrow> (nat \<Rightarrow> 'a \<Rightarrow> 'a) \<Rightarrow> nat option \<Rightarrow> 'a \<Rightarrow> 'a option" where
  "chain_fold nx f p acc =
     (case p of None \<Rightarrow> Some acc
      | Some y \<Rightarrow> chain_fold nx f (nx y) (f y acc))"

text \<open>A loop over a chain whose body changes the state and reads the next link only afterwards.\<close>

partial_function (option) chain_run ::
  "('s \<Rightarrow> nat \<Rightarrow> nat option) \<Rightarrow> (nat \<Rightarrow> 's \<Rightarrow> 's) \<Rightarrow> nat option \<Rightarrow> 's \<Rightarrow> 's option" where
  "chain_run nx f p s =
     (case p of None \<Rightarrow> Some s
      | Some y \<Rightarrow> chain_run nx f (nx (f y s) y) (f y s))"

lemma chain_find_chain: "chain nx p xs \<Longrightarrow> chain_find nx f p = Some (List.find f xs)"
  by (induction xs arbitrary: p) (auto simp: chain_find.simps)

lemma chain_fold_chain: "chain nx p xs \<Longrightarrow> chain_fold nx f p acc = Some (fold f xs acc)"
  by (induction xs arbitrary: p acc) (auto simp: chain_fold.simps)

lemma chain_run_chain:
  assumes "chain (nx s) p xs" and "\<And>x s. nx (f x s) = nx s"
  shows "chain_run nx f p s = Some (fold f xs s)"
  using assms(1)
proof (induction xs arbitrary: p s)
  case Nil
  then show ?case by (simp add: chain_run.simps)
next
  case (Cons x xs)
  then have "chain (nx (f x s)) (nx s x) xs" using assms(2) by simp
  with Cons show ?case using assms(2) by (simp add: chain_run.simps [of nx f "Some x"])
qed

lemma find_Some_mem: "List.find f xs = Some x \<Longrightarrow> x \<in> set xs \<and> f x"
  by (auto simp: find_Some_iff)

lemma find_unique:
  assumes "x \<in> set xs" and "f x" and "\<And>y. y \<in> set xs \<Longrightarrow> f y \<Longrightarrow> y = x"
  shows "List.find f xs = Some x"
proof (cases "List.find f xs")
  case None
  then show ?thesis using assms(1,2) by (auto simp: find_None_iff)
next
  case (Some y)
  then have "y = x" using assms(3) find_Some_mem [OF Some] by blast
  with Some show ?thesis by simp
qed

subsection \<open>Free pools\<close>

text \<open>
  \<open>nxt\<close> and \<open>head\<close> are the link field and the list head; \<open>pop\<close> moves the head to the next slot and
  may reset the link of the slot it takes; \<open>put a\<close> links \<open>a\<close> in front.
\<close>

locale free_pool =
  fixes nxt :: "'s \<Rightarrow> nat \<Rightarrow> nat option" and head :: "'s \<Rightarrow> nat option"
    and pop :: "'s \<Rightarrow> nat option \<times> 's" and put :: "nat \<Rightarrow> 's \<Rightarrow> 's" and ready :: "'s \<Rightarrow> bool"
  assumes pop_None: "ready s \<Longrightarrow> head s = None \<Longrightarrow> pop s = (None, s)"
    and pop_Some: "ready s \<Longrightarrow> head s = Some a \<Longrightarrow> fst (pop s) = Some a \<and> head (snd (pop s)) = nxt s a
          \<and> ready (snd (pop s)) \<and> (\<forall>b. b \<noteq> a \<longrightarrow> nxt (snd (pop s)) b = nxt s b)"
    and put_head: "head (put a s) = Some a" and put_nxt: "nxt (put a s) = (nxt s)(a := head s)"
    and put_ready: "ready s \<Longrightarrow> ready (put a s)"
begin

definition free_slots :: "'s \<Rightarrow> nat list \<Rightarrow> bool" where
  "free_slots s F \<longleftrightarrow> ready s \<and> chain (nxt s) (head s) F"

lemma free_slots_distinct: "free_slots s F \<Longrightarrow> distinct F"
  by (auto simp: free_slots_def dest: chain_distinct)

lemma pop_free_slots:
  assumes "free_slots s F"
  shows "fst (pop s) = head_opt F" and "free_slots (snd (pop s)) (tl F)"
proof -
  have F: "ready s" "chain (nxt s) (head s) F" using assms by (auto simp: free_slots_def)
  have "fst (pop s) = head_opt F \<and> free_slots (snd (pop s)) (tl F)"
  proof (cases F)
    case Nil
    with F assms pop_None show ?thesis by simp
  next
    case (Cons a G)
    then have a: "head s = Some a" "chain (nxt s) (nxt s a) G" "a \<notin> set G"
      using F chain_distinct [OF F(2)] by auto
    with pop_Some [OF F(1) a(1)] have "chain (nxt (snd (pop s))) (nxt s a) G"
      by (subst chain_cong [where nx = "nxt s"]) auto
    with pop_Some [OF F(1) a(1)] Cons show ?thesis by (simp add: free_slots_def)
  qed
  then show "fst (pop s) = head_opt F" and "free_slots (snd (pop s)) (tl F)" by simp_all
qed

lemma put_free_slots:
  assumes "free_slots s F" and "a \<notin> set F"
  shows "free_slots (put a s) (a # F)"
proof -
  have "chain ((nxt s)(a := head s)) (head s) F"
    using assms by (subst chain_cong [where nx = "nxt s"]) (auto simp: free_slots_def)
  with assms(1) show ?thesis by (simp add: free_slots_def put_head put_nxt put_ready)
qed

lemma free_slots_cong:
  assumes "head t = head s" and "ready t = ready s" and "\<And>x. x \<in> set F \<Longrightarrow> nxt t x = nxt s x"
  shows "free_slots t F = free_slots s F"
  using assms by (simp add: free_slots_def chain_cong [of F "nxt t" "nxt s"])

end

end
