(* ===== verification/Vma.thy ===== *)
theory Vma
  imports Chains VMM "HOL-Library.Monad_Syntax"
begin

unbundle bit_operations_syntax

text \<open>
  Virtual memory areas, the first half of \<open>kernel/mm/vma.c\<close>: the static pools of \<open>vma_t\<close> and
  \<open>mm_struct_t\<close> with their free lists, and the operations on the address-sorted, doubly linked
  area list of one \<open>mm_struct_t\<close>. Pointers into the pools are indices; \<open>NULL\<close> is \<open>None\<close>. A free
  \<open>mm_struct_t\<close> keeps the link to the next free one in its \<open>vmas\<close> field, as the casts in the code do.
  The loops that walk a list have no fuel: on a cyclic list their value is \<open>None\<close>.
\<close>

abbreviation (input) "VMA_POOL_SIZE \<equiv> (256 :: nat)"
abbreviation (input) "MM_POOL_SIZE \<equiv> (64 :: nat)"
abbreviation (input) "VM_READ \<equiv> (0x001 :: u32)"
abbreviation (input) "VM_WRITE \<equiv> (0x002 :: u32)"
abbreviation (input) "VM_EXEC \<equiv> (0x004 :: u32)"
abbreviation (input) "VM_SHARED \<equiv> (0x008 :: u32)"
abbreviation (input) "VM_PRIVATE \<equiv> (0x010 :: u32)"
abbreviation (input) "VM_ANONYMOUS \<equiv> (0x020 :: u32)"
abbreviation (input) "VM_FILE \<equiv> (0x040 :: u32)"
abbreviation (input) "VM_LAZY \<equiv> (0x080 :: u32)"
abbreviation (input) "VM_LOCKED \<equiv> (0x100 :: u32)"
abbreviation (input) "VM_GROWSDOWN \<equiv> (0x200 :: u32)"
abbreviation (input) "VM_STACK \<equiv> (0x800 :: u32)"

record vma =
  vm_start :: u32
  vm_end :: u32
  vm_flags :: u32
  vm_file_inode :: u32
  vm_file_offset :: u32
  vm_fd :: int
  vm_swap_count :: u32
  vm_ref_count :: u32
  vm_next :: "nat option"
  vm_prev :: "nat option"

record mm_struct =
  mm_vmas :: "nat option"
  mm_vma_count :: u32
  mm_page_directory :: u32
  mm_code_start :: u32
  mm_code_end :: u32
  mm_data_start :: u32
  mm_data_end :: u32
  mm_heap_start :: u32
  mm_heap_end :: u32
  mm_stack_start :: u32
  mm_stack_end :: u32
  mm_mmap_base :: u32
  mm_total_vm :: u32
  mm_rss :: u32
  mm_shared :: u32
  mm_locked :: u32
  mm_ref_count :: u32

record areas =
  vma_pool :: "nat \<Rightarrow> vma"
  vma_free_list :: "nat option"
  vma_initialized :: bool
  mm_pool :: "nat \<Rightarrow> mm_struct"
  mm_free_list :: "nat option"

definition upd_vma :: "(vma \<Rightarrow> vma) \<Rightarrow> nat \<Rightarrow> areas \<Rightarrow> areas" where
  "upd_vma f i s = s\<lparr>vma_pool := (vma_pool s)(i := f (vma_pool s i))\<rparr>"

definition upd_mm :: "(mm_struct \<Rightarrow> mm_struct) \<Rightarrow> nat \<Rightarrow> areas \<Rightarrow> areas" where
  "upd_mm f m s = s\<lparr>mm_pool := (mm_pool s)(m := f (mm_pool s m))\<rparr>"

definition area_next :: "areas \<Rightarrow> nat \<Rightarrow> nat option" where
  "area_next s i = vm_next (vma_pool s i)"

definition area_prev :: "areas \<Rightarrow> nat \<Rightarrow> nat option" where
  "area_prev s i = vm_prev (vma_pool s i)"

definition mm_link :: "areas \<Rightarrow> nat \<Rightarrow> nat option" where
  "mm_link s m = mm_vmas (mm_pool s m)"

subsection \<open>The pools\<close>

definition vma_allocator_init :: "areas \<Rightarrow> areas" where
  "vma_allocator_init s =
     (if vma_initialized s then s
      else
        let s1 = for_range 0 (VMA_POOL_SIZE - 1) (\<lambda>i. upd_vma (vm_next_update (\<lambda>_. Some (Suc i))) i) s;
            s2 = (upd_vma (vm_next_update (\<lambda>_. None)) (VMA_POOL_SIZE - 1) s1)\<lparr>vma_free_list := Some 0\<rparr>;
            s3 = for_range 0 (MM_POOL_SIZE - 1) (\<lambda>i. upd_mm (mm_vmas_update (\<lambda>_. Some (Suc i))) i) s2;
            s4 = (upd_mm (mm_vmas_update (\<lambda>_. None)) (MM_POOL_SIZE - 1) s3)\<lparr>mm_free_list := Some 0\<rparr>
        in s4\<lparr>vma_initialized := True\<rparr>)"

definition vma_alloc :: "areas \<Rightarrow> nat option \<times> areas" where
  "vma_alloc s0 =
     (let s = vma_allocator_init s0
      in case vma_free_list s of
           None \<Rightarrow> (None, s)
         | Some v \<Rightarrow>
             let s1 = s\<lparr>vma_free_list := vm_next (vma_pool s v)\<rparr>
             in (Some v, upd_vma (\<lambda>a. a\<lparr>vm_start := 0, vm_end := 0, vm_flags := 0, vm_file_inode := 0,
                   vm_file_offset := 0, vm_fd := - 1, vm_swap_count := 0, vm_ref_count := 1,
                   vm_next := None, vm_prev := None\<rparr>) v s1))"

definition vma_free :: "nat option \<Rightarrow> areas \<Rightarrow> areas" where
  "vma_free p s =
     (case p of
        None \<Rightarrow> s
      | Some v \<Rightarrow> (upd_vma (vm_next_update (\<lambda>_. vma_free_list s)) v s)\<lparr>vma_free_list := Some v\<rparr>)"

definition vma_create :: "u32 \<Rightarrow> u32 \<Rightarrow> u32 \<Rightarrow> areas \<Rightarrow> nat option \<times> areas" where
  "vma_create start end_addr flags s =
     (if start \<ge> end_addr \<or> start AND 0xFFF \<noteq> 0 \<or> end_addr AND 0xFFF \<noteq> 0 then (None, s)
      else case vma_alloc s of
        (None, s1) \<Rightarrow> (None, s1)
      | (Some v, s1) \<Rightarrow>
          (Some v, upd_vma (\<lambda>a. a\<lparr>vm_start := start, vm_end := end_addr, vm_flags := flags, vm_ref_count := 1\<rparr>) v s1))"

definition vma_destroy :: "nat option \<Rightarrow> areas \<Rightarrow> areas" where
  "vma_destroy p s =
     (case p of
        None \<Rightarrow> s
      | Some v \<Rightarrow>
          let s1 = upd_vma (\<lambda>a. a\<lparr>vm_ref_count := vm_ref_count a - 1\<rparr>) v s
          in if vm_ref_count (vma_pool s1 v) = 0 then vma_free (Some v) s1 else s1)"

definition mm_alloc :: "areas \<Rightarrow> nat option \<times> areas" where
  "mm_alloc s0 =
     (let s = vma_allocator_init s0
      in case mm_free_list s of
           None \<Rightarrow> (None, s)
         | Some m \<Rightarrow>
             let s1 = s\<lparr>mm_free_list := mm_vmas (mm_pool s m)\<rparr>
             in (Some m, upd_mm (\<lambda>a. a\<lparr>mm_vmas := None, mm_vma_count := 0, mm_page_directory := 0,
                   mm_code_start := 0, mm_code_end := 0, mm_data_start := 0, mm_data_end := 0,
                   mm_heap_start := 0, mm_heap_end := 0, mm_stack_start := 0, mm_stack_end := 0,
                   mm_mmap_base := 0x40000000, mm_total_vm := 0, mm_rss := 0, mm_shared := 0,
                   mm_locked := 0, mm_ref_count := 1\<rparr>) m s1))"

definition mm_free_struct :: "nat option \<Rightarrow> areas \<Rightarrow> areas" where
  "mm_free_struct p s =
     (case p of
        None \<Rightarrow> s
      | Some m \<Rightarrow> (upd_mm (mm_vmas_update (\<lambda>_. mm_free_list s)) m s)\<lparr>mm_free_list := Some m\<rparr>)"

subsection \<open>The area list of an address space\<close>

definition area_has :: "areas \<Rightarrow> u32 \<Rightarrow> nat \<Rightarrow> bool" where
  "area_has s addr v \<longleftrightarrow> vm_start (vma_pool s v) \<le> addr \<and> addr < vm_end (vma_pool s v)"

definition vma_find :: "nat option \<Rightarrow> u32 \<Rightarrow> areas \<Rightarrow> nat option option" where
  "vma_find mm addr s =
     (case mm of
        None \<Rightarrow> Some None
      | Some m \<Rightarrow> chain_find (area_next s) (area_has s addr) (mm_vmas (mm_pool s m)))"

definition nearer :: "areas \<Rightarrow> u32 \<Rightarrow> nat \<Rightarrow> nat option \<Rightarrow> nat option" where
  "nearer s addr v nearest =
     (if addr < vm_end (vma_pool s v)
         \<and> (case nearest of None \<Rightarrow> True | Some n \<Rightarrow> vm_start (vma_pool s v) < vm_start (vma_pool s n))
      then Some v else nearest)"

definition vma_find_nearest :: "nat option \<Rightarrow> u32 \<Rightarrow> areas \<Rightarrow> nat option option" where
  "vma_find_nearest mm addr s =
     (case mm of
        None \<Rightarrow> Some None
      | Some m \<Rightarrow> chain_fold (area_next s) (nearer s addr) (mm_vmas (mm_pool s m)) None)"

partial_function (option) insert_point ::
  "areas \<Rightarrow> u32 \<Rightarrow> nat option \<Rightarrow> nat option \<Rightarrow> (nat option \<times> nat option) option" where
  "insert_point s start prev cur =
     (if cur \<noteq> None \<and> vm_start (vma_pool s (the cur)) < start
      then insert_point s start cur (vm_next (vma_pool s (the cur)))
      else Some (prev, cur))"

definition link_area :: "nat \<Rightarrow> nat \<Rightarrow> nat option \<Rightarrow> nat option \<Rightarrow> areas \<Rightarrow> areas" where
  "link_area m v prev cur s =
     (let s1 = upd_vma (\<lambda>a. a\<lparr>vm_prev := prev, vm_next := cur\<rparr>) v s;
          s2 = (case prev of
                  Some p \<Rightarrow> upd_vma (vm_next_update (\<lambda>_. Some v)) p s1
                | None \<Rightarrow> upd_mm (mm_vmas_update (\<lambda>_. Some v)) m s1)
      in case cur of Some c \<Rightarrow> upd_vma (vm_prev_update (\<lambda>_. Some v)) c s2 | None \<Rightarrow> s2)"

definition vma_insert :: "nat option \<Rightarrow> nat option \<Rightarrow> areas \<Rightarrow> (int \<times> areas) option" where
  "vma_insert mm vma s =
     (case (mm, vma) of
        (Some m, Some v) \<Rightarrow>
          if mm_vmas (mm_pool s m) = None then
            Some (0, upd_mm (mm_vma_count_update (\<lambda>_. 1)) m
              (upd_vma (\<lambda>a. a\<lparr>vm_next := None, vm_prev := None\<rparr>) v (upd_mm (mm_vmas_update (\<lambda>_. Some v)) m s)))
          else do {
            (prev, cur) \<leftarrow> insert_point s (vm_start (vma_pool s v)) None (mm_vmas (mm_pool s m));
            if (case prev of Some p \<Rightarrow> vm_end (vma_pool s p) > vm_start (vma_pool s v) | None \<Rightarrow> False)
            then Some (- 1, s)
            else if (case cur of Some c \<Rightarrow> vm_end (vma_pool s v) > vm_start (vma_pool s c) | None \<Rightarrow> False)
            then Some (- 1, s)
            else Some (0, upd_mm (\<lambda>a. a\<lparr>mm_vma_count := mm_vma_count a + 1,
                   mm_total_vm := mm_total_vm a + (vm_end (vma_pool s v) - vm_start (vma_pool s v))\<rparr>) m
                   (link_area m v prev cur s)) }
      | _ \<Rightarrow> Some (- 1, s))"

definition vma_remove :: "nat option \<Rightarrow> nat option \<Rightarrow> areas \<Rightarrow> int \<times> areas" where
  "vma_remove mm vma s =
     (case (mm, vma) of
        (Some m, Some v) \<Rightarrow>
          let s1 = (case vm_prev (vma_pool s v) of
                      Some p \<Rightarrow> upd_vma (vm_next_update (\<lambda>_. vm_next (vma_pool s v))) p s
                    | None \<Rightarrow> upd_mm (mm_vmas_update (\<lambda>_. vm_next (vma_pool s v))) m s);
              s2 = (case vm_next (vma_pool s1 v) of
                      Some n \<Rightarrow> upd_vma (vm_prev_update (\<lambda>_. vm_prev (vma_pool s1 v))) n s1
                    | None \<Rightarrow> s1);
              s3 = upd_mm (\<lambda>a. a\<lparr>mm_vma_count := mm_vma_count a - 1,
                     mm_total_vm := mm_total_vm a - (vm_end (vma_pool s2 v) - vm_start (vma_pool s2 v))\<rparr>) m s2
          in (0, upd_vma (\<lambda>a. a\<lparr>vm_next := None, vm_prev := None\<rparr>) v s3)
      | _ \<Rightarrow> (- 1, s))"

definition mergeable :: "nat \<Rightarrow> nat \<Rightarrow> areas \<Rightarrow> bool" where
  "mergeable a b s \<longleftrightarrow> vm_end (vma_pool s a) = vm_start (vma_pool s b)
     \<and> vm_flags (vma_pool s a) = vm_flags (vma_pool s b) \<and> vm_fd (vma_pool s a) = vm_fd (vma_pool s b)"

definition absorb :: "nat \<Rightarrow> nat \<Rightarrow> nat \<Rightarrow> areas \<Rightarrow> areas" where
  "absorb m a b s =
     (let s1 = upd_vma (\<lambda>v. v\<lparr>vm_end := vm_end (vma_pool s b), vm_next := vm_next (vma_pool s b)\<rparr>) a s;
          s2 = (case vm_next (vma_pool s1 b) of
                  Some n \<Rightarrow> upd_vma (vm_prev_update (\<lambda>_. Some a)) n s1
                | None \<Rightarrow> s1)
      in vma_free (Some b) (upd_mm (\<lambda>k. k\<lparr>mm_vma_count := mm_vma_count k - 1\<rparr>) m s2))"

definition vma_merge :: "nat option \<Rightarrow> nat option \<Rightarrow> areas \<Rightarrow> int \<times> areas" where
  "vma_merge mm vma s =
     (case (mm, vma) of
        (Some m, Some v) \<Rightarrow>
          let (v', merged, s1) =
                (case vm_prev (vma_pool s v) of
                   Some p \<Rightarrow> if mergeable p v s then (p, 1, absorb m p v s) else (v, 0, s)
                 | None \<Rightarrow> (v, 0, s))
          in case vm_next (vma_pool s1 v') of
               Some n \<Rightarrow> if mergeable v' n s1 then (merged + 1, absorb m v' n s1) else (merged, s1)
             | None \<Rightarrow> (merged, s1)
      | _ \<Rightarrow> (0, s))"

partial_function (option) free_region ::
  "areas \<Rightarrow> u32 \<Rightarrow> nat option \<Rightarrow> u32 \<Rightarrow> u32 option" where
  "free_region s sz p addr =
     (case p of
        None \<Rightarrow> Some (if addr + sz \<le> 0xC0000000 then addr else 0)
      | Some v \<Rightarrow>
          if addr + sz \<le> vm_start (vma_pool s v) then Some addr
          else free_region s sz (vm_next (vma_pool s v))
                 (if vm_end (vma_pool s v) > addr then vm_end (vma_pool s v) else addr))"

definition find_free_region :: "nat option \<Rightarrow> u32 \<Rightarrow> areas \<Rightarrow> u32 option" where
  "find_free_region mm sz s =
     (case mm of
        None \<Rightarrow> Some 0
      | Some m \<Rightarrow> free_region s sz (mm_vmas (mm_pool s m)) (mm_mmap_base (mm_pool s m)))"

end
