(* ===== verification/PageCache.thy ===== *)
theory PageCache
  imports Chains PMM "HOL-Library.Monad_Syntax"
begin

unbundle bit_operations_syntax

text \<open>
  The page cache of the memory manager, \<open>kernel/mm/page_cache.c\<close>: a static pool of entries, a hash
  table of singly linked chains for lookup and one doubly linked list in order of use for eviction.
  Pointers to entries are indices into the pool. The cache gives pages back to the frame allocator,
  which is part of its state (\<open>pc_frames\<close>). The bit fields \<open>dirty\<close>, \<open>locked\<close> and \<open>uptodate\<close> are truth
  values. Reading and printing the statistics and the console messages are left out; writing a page
  back is only a counter in the code.
\<close>

abbreviation (input) "VMM_PAGE_CACHE_POOL_SIZE \<equiv> (512 :: nat)"
abbreviation (input) "VMM_PAGE_CACHE_HASH_SIZE \<equiv> (256 :: nat)"

record pc_entry =
  pe_inode :: u32
  pe_offset :: u32
  pe_phys_addr :: u32
  pe_flags :: u32
  pe_ref_count :: u32
  pe_access_time :: u32
  pe_dirty :: bool
  pe_locked :: bool
  pe_uptodate :: bool
  pe_hash_next :: "nat option"
  pe_lru_next :: "nat option"
  pe_lru_prev :: "nat option"

record pc_stats =
  pc_hits :: u32
  pc_misses :: u32
  pc_evictions :: u32
  pc_writebacks :: u32
  pc_total_pages :: u32

record pcache =
  pc_pool :: "nat \<Rightarrow> pc_entry"
  pc_free_list :: "nat option"
  pc_hash :: "nat \<Rightarrow> nat option"
  lru_head :: "nat option"
  lru_tail :: "nat option"
  cache_stats :: pc_stats
  cache_clock :: u32
  pc_initialized :: bool
  pc_frames :: pmm

definition upd_entry :: "(pc_entry \<Rightarrow> pc_entry) \<Rightarrow> nat \<Rightarrow> pcache \<Rightarrow> pcache" where
  "upd_entry f e s = s\<lparr>pc_pool := (pc_pool s)(e := f (pc_pool s e))\<rparr>"

definition upd_stats :: "(pc_stats \<Rightarrow> pc_stats) \<Rightarrow> pcache \<Rightarrow> pcache" where
  "upd_stats f s = s\<lparr>cache_stats := f (cache_stats s)\<rparr>"

definition entry_next :: "pcache \<Rightarrow> nat \<Rightarrow> nat option" where
  "entry_next s e = pe_hash_next (pc_pool s e)"

definition older :: "pcache \<Rightarrow> nat \<Rightarrow> nat option" where
  "older s e = pe_lru_next (pc_pool s e)"

definition newer :: "pcache \<Rightarrow> nat \<Rightarrow> nat option" where
  "newer s e = pe_lru_prev (pc_pool s e)"

definition page_cache_hash_fn :: "u32 \<Rightarrow> u32 \<Rightarrow> nat" where
  "page_cache_hash_fn inode offset =
     unat ((inode XOR push_bit 4 offset XOR drop_bit 3 offset) AND (of_nat VMM_PAGE_CACHE_HASH_SIZE - 1))"

subsection \<open>The list in order of use\<close>

definition lru_add :: "nat \<Rightarrow> pcache \<Rightarrow> pcache" where
  "lru_add e s =
     (let s1 = (upd_entry (\<lambda>x. x\<lparr>pe_access_time := cache_clock s + 1, pe_lru_prev := None, pe_lru_next := lru_head s\<rparr>) e s)
            \<lparr>cache_clock := cache_clock s + 1\<rparr>;
          s2 = (case lru_head s1 of Some h \<Rightarrow> upd_entry (pe_lru_prev_update (\<lambda>_. Some e)) h s1 | None \<Rightarrow> s1);
          s3 = s2\<lparr>lru_head := Some e\<rparr>
      in if lru_tail s3 = None then s3\<lparr>lru_tail := Some e\<rparr> else s3)"

definition lru_remove :: "nat \<Rightarrow> pcache \<Rightarrow> pcache" where
  "lru_remove e s =
     (let s1 = (case pe_lru_prev (pc_pool s e) of
                  Some p \<Rightarrow> upd_entry (pe_lru_next_update (\<lambda>_. pe_lru_next (pc_pool s e))) p s
                | None \<Rightarrow> s\<lparr>lru_head := pe_lru_next (pc_pool s e)\<rparr>);
          s2 = (case pe_lru_next (pc_pool s1 e) of
                  Some n \<Rightarrow> upd_entry (pe_lru_prev_update (\<lambda>_. pe_lru_prev (pc_pool s1 e))) n s1
                | None \<Rightarrow> s1\<lparr>lru_tail := pe_lru_prev (pc_pool s1 e)\<rparr>)
      in upd_entry (\<lambda>x. x\<lparr>pe_lru_prev := None, pe_lru_next := None\<rparr>) e s2)"

definition lru_touch :: "nat \<Rightarrow> pcache \<Rightarrow> pcache" where
  "lru_touch e s =
     (if lru_head s = Some e then s
      else
        let s0 = (upd_entry (pe_access_time_update (\<lambda>_. cache_clock s + 1)) e s)\<lparr>cache_clock := cache_clock s + 1\<rparr>;
            s1 = (case pe_lru_prev (pc_pool s0 e) of
                    Some p \<Rightarrow> upd_entry (pe_lru_next_update (\<lambda>_. pe_lru_next (pc_pool s0 e))) p s0
                  | None \<Rightarrow> s0);
            s2 = (case pe_lru_next (pc_pool s1 e) of
                    Some n \<Rightarrow> upd_entry (pe_lru_prev_update (\<lambda>_. pe_lru_prev (pc_pool s1 e))) n s1
                  | None \<Rightarrow> s1);
            s3 = (if lru_tail s2 = Some e then s2\<lparr>lru_tail := pe_lru_prev (pc_pool s2 e)\<rparr> else s2);
            s4 = upd_entry (\<lambda>x. x\<lparr>pe_lru_prev := None, pe_lru_next := lru_head s3\<rparr>) e s3;
            s5 = (case lru_head s4 of Some h \<Rightarrow> upd_entry (pe_lru_prev_update (\<lambda>_. Some e)) h s4 | None \<Rightarrow> s4);
            s6 = s5\<lparr>lru_head := Some e\<rparr>
        in if lru_tail s6 = None then s6\<lparr>lru_tail := Some e\<rparr> else s6)"

subsection \<open>Set-up and lookup\<close>

definition vmm_page_cache_init :: "pcache \<Rightarrow> pcache" where
  "vmm_page_cache_init s =
     (if pc_initialized s then s
      else
        let s1 = for_range 0 (VMM_PAGE_CACHE_POOL_SIZE - 1) (\<lambda>i. upd_entry (pe_hash_next_update (\<lambda>_. Some (Suc i))) i) s;
            s2 = upd_entry (pe_hash_next_update (\<lambda>_. None)) (VMM_PAGE_CACHE_POOL_SIZE - 1) s1;
            s3 = for_range 0 VMM_PAGE_CACHE_HASH_SIZE (\<lambda>i s. s\<lparr>pc_hash := (pc_hash s)(i := None)\<rparr>)
                   (s2\<lparr>pc_free_list := Some 0\<rparr>)
        in s3\<lparr>lru_head := None, lru_tail := None,
              cache_stats := \<lparr>pc_hits = 0, pc_misses = 0, pc_evictions = 0, pc_writebacks = 0, pc_total_pages = 0\<rparr>,
              pc_initialized := True\<rparr>)"

definition has_key :: "pcache \<Rightarrow> u32 \<Rightarrow> u32 \<Rightarrow> nat \<Rightarrow> bool" where
  "has_key s inode offset e \<longleftrightarrow> pe_inode (pc_pool s e) = inode \<and> pe_offset (pc_pool s e) = offset"

definition vmm_page_cache_lookup :: "u32 \<Rightarrow> u32 \<Rightarrow> pcache \<Rightarrow> (nat option \<times> pcache) option" where
  "vmm_page_cache_lookup inode offset s0 =
     (let s = vmm_page_cache_init s0
      in do {
        r \<leftarrow> chain_find (entry_next s) (has_key s inode offset) (pc_hash s (page_cache_hash_fn inode offset));
        (case r of
           Some e \<Rightarrow> Some (Some e, lru_touch e (upd_stats (\<lambda>t. t\<lparr>pc_hits := pc_hits t + 1\<rparr>) s))
         | None \<Rightarrow> Some (None, upd_stats (\<lambda>t. t\<lparr>pc_misses := pc_misses t + 1\<rparr>) s)) })"

definition vmm_page_cache_mark_dirty :: "nat option \<Rightarrow> pcache \<Rightarrow> pcache" where
  "vmm_page_cache_mark_dirty p s =
     (case p of None \<Rightarrow> s | Some e \<Rightarrow> lru_touch e (upd_entry (pe_dirty_update (\<lambda>_. True)) e s))"

subsection \<open>Removal and eviction\<close>

text \<open>
  \<open>vmm_page_cache_remove\<close> unlinks from the hash chain through a pointer to the link it follows, which is
  the bucket first and the \<open>hash_next\<close> field of an entry afterwards.
\<close>

datatype hash_link = Bucket nat | Link nat

fun read_link :: "hash_link \<Rightarrow> pcache \<Rightarrow> nat option" where
  "read_link (Bucket h) s = pc_hash s h"
| "read_link (Link e) s = pe_hash_next (pc_pool s e)"

fun write_link :: "hash_link \<Rightarrow> nat option \<Rightarrow> pcache \<Rightarrow> pcache" where
  "write_link (Bucket h) v s = s\<lparr>pc_hash := (pc_hash s)(h := v)\<rparr>"
| "write_link (Link e) v s = upd_entry (pe_hash_next_update (\<lambda>_. v)) e s"

partial_function (option) unhash :: "nat \<Rightarrow> pcache \<Rightarrow> hash_link \<Rightarrow> pcache option" where
  "unhash e s pp =
     (if read_link pp s = None then Some s
      else if read_link pp s = Some e then Some (write_link pp (pe_hash_next (pc_pool s e)) s)
      else unhash e s (Link (the (read_link pp s))))"

definition cache_entry_free :: "nat \<Rightarrow> pcache \<Rightarrow> pcache" where
  "cache_entry_free e s =
     (upd_entry (pe_hash_next_update (\<lambda>_. pc_free_list s)) e s)\<lparr>pc_free_list := Some e\<rparr>"

definition release_page :: "nat \<Rightarrow> pcache \<Rightarrow> pcache option" where
  "release_page e s =
     (if pe_ref_count (pc_pool s e) \<le> 1 \<and> pe_phys_addr (pc_pool s e) \<noteq> 0 then
        do { f \<leftarrow> pmm_free_page (pe_phys_addr (pc_pool s e)) (pc_frames s); Some (s\<lparr>pc_frames := f\<rparr>) }
      else Some s)"

definition vmm_page_cache_remove :: "nat option \<Rightarrow> pcache \<Rightarrow> pcache option" where
  "vmm_page_cache_remove p s =
     (case p of
        None \<Rightarrow> Some s
      | Some e \<Rightarrow>
          let s1 = (if pe_dirty (pc_pool s e) then upd_stats (\<lambda>t. t\<lparr>pc_writebacks := pc_writebacks t + 1\<rparr>) s else s);
              h = page_cache_hash_fn (pe_inode (pc_pool s1 e)) (pe_offset (pc_pool s1 e))
          in do {
            s2 \<leftarrow> unhash e s1 (Bucket h);
            s3 \<leftarrow> release_page e (lru_remove e s2);
            Some (cache_entry_free e (upd_stats (\<lambda>t. t\<lparr>pc_total_pages := pc_total_pages t - 1\<rparr>) s3)) })"

definition pinned :: "pcache \<Rightarrow> nat \<Rightarrow> bool" where
  "pinned s e \<longleftrightarrow> pe_locked (pc_pool s e) \<or> pe_ref_count (pc_pool s e) > 1"

fun evict_loop :: "nat \<Rightarrow> pcache \<Rightarrow> pcache option" where
  "evict_loop 0 s = Some s"
| "evict_loop (Suc n) s =
     (if lru_tail s = None then Some s
      else do {
        victim \<leftarrow> chain_find (newer s) (\<lambda>e. \<not> pinned s e) (lru_tail s);
        (case victim of
           None \<Rightarrow> Some s
         | Some e \<Rightarrow> do {
             s1 \<leftarrow> vmm_page_cache_remove (Some e) s;
             evict_loop n (upd_stats (\<lambda>t. t\<lparr>pc_evictions := pc_evictions t + 1\<rparr>) s1) }) })"

definition vmm_page_cache_evict :: "u32 \<Rightarrow> pcache \<Rightarrow> pcache option" where
  "vmm_page_cache_evict num_pages s =
     (if \<not> pc_initialized s then Some s else evict_loop (unat num_pages) s)"

fun shrink_loop :: "nat \<Rightarrow> u32 \<Rightarrow> pcache \<Rightarrow> (u32 \<times> pcache) option" where
  "shrink_loop 0 freed s = Some (freed, s)"
| "shrink_loop (Suc n) freed s =
     (if pc_total_pages (cache_stats s) = 0 then Some (freed, s)
      else do {
        victim \<leftarrow> chain_find (newer s) (\<lambda>e. \<not> (pinned s e \<or> pe_dirty (pc_pool s e))) (lru_tail s);
        (case victim of
           None \<Rightarrow> Some (freed, s)
         | Some e \<Rightarrow> do { s1 \<leftarrow> vmm_page_cache_remove (Some e) s; shrink_loop n (freed + 1) s1 }) })"

definition vmm_page_cache_shrink :: "u32 \<Rightarrow> pcache \<Rightarrow> (u32 \<times> pcache) option" where
  "vmm_page_cache_shrink target_free s = shrink_loop (unat target_free) 0 s"

subsection \<open>Insertion\<close>

definition take_entry :: "pcache \<Rightarrow> nat option \<times> pcache" where
  "take_entry s =
     (case pc_free_list s of
        None \<Rightarrow> (None, s)
      | Some e \<Rightarrow>
          (Some e, upd_entry (\<lambda>x. x\<lparr>pe_inode := 0, pe_offset := 0, pe_phys_addr := 0, pe_flags := 0, pe_ref_count := 0,
             pe_access_time := 0, pe_dirty := False, pe_locked := False, pe_uptodate := False,
             pe_hash_next := None, pe_lru_prev := None, pe_lru_next := None\<rparr>) e
             (s\<lparr>pc_free_list := pe_hash_next (pc_pool s e)\<rparr>)))"

definition cache_entry_alloc :: "pcache \<Rightarrow> (nat option \<times> pcache) option" where
  "cache_entry_alloc s =
     do {
       s1 \<leftarrow> (if pc_free_list s = None then vmm_page_cache_evict 4 s else Some s);
       Some (take_entry s1) }"

definition vmm_page_cache_insert :: "u32 \<Rightarrow> u32 \<Rightarrow> u32 \<Rightarrow> pcache \<Rightarrow> (nat option \<times> pcache) option" where
  "vmm_page_cache_insert inode offset phys_addr s0 =
     do {
       (existing, s1) \<leftarrow> vmm_page_cache_lookup inode offset (vmm_page_cache_init s0);
       (case existing of
          Some e \<Rightarrow> Some (Some e, s1)
        | None \<Rightarrow> do {
            (entry, s2) \<leftarrow> cache_entry_alloc s1;
            (case entry of
               None \<Rightarrow> Some (None, s2)
             | Some e \<Rightarrow>
                 let h = page_cache_hash_fn inode offset;
                     s3 = upd_entry (\<lambda>x. x\<lparr>pe_inode := inode, pe_offset := offset, pe_phys_addr := phys_addr,
                            pe_ref_count := 1, pe_uptodate := True, pe_hash_next := pc_hash s2 h\<rparr>) e s2;
                     s4 = s3\<lparr>pc_hash := (pc_hash s3)(h := Some e)\<rparr>
                 in Some (Some e, upd_stats (\<lambda>t. t\<lparr>pc_total_pages := pc_total_pages t + 1\<rparr>) (lru_add e s4))) }) }"

subsection \<open>Writing back and invalidating\<close>

definition sync_entry :: "(pc_entry \<Rightarrow> bool) \<Rightarrow> nat \<Rightarrow> pcache \<Rightarrow> pcache" where
  "sync_entry want e s =
     (if want (pc_pool s e) \<and> pe_dirty (pc_pool s e)
      then upd_stats (\<lambda>t. t\<lparr>pc_writebacks := pc_writebacks t + 1\<rparr>) (upd_entry (pe_dirty_update (\<lambda>_. False)) e s)
      else s)"

definition sync_buckets :: "(pc_entry \<Rightarrow> bool) \<Rightarrow> pcache \<Rightarrow> pcache option" where
  "sync_buckets want s =
     for_range_opt 0 VMM_PAGE_CACHE_HASH_SIZE (\<lambda>i s. chain_run entry_next (sync_entry want) (pc_hash s i) s) s"

definition vmm_page_cache_sync :: "u32 \<Rightarrow> pcache \<Rightarrow> pcache option" where
  "vmm_page_cache_sync inode s = (if \<not> pc_initialized s then Some s else sync_buckets (\<lambda>x. pe_inode x = inode) s)"

definition vmm_page_cache_sync_all :: "pcache \<Rightarrow> pcache option" where
  "vmm_page_cache_sync_all s = (if \<not> pc_initialized s then Some s else sync_buckets (\<lambda>x. True) s)"

partial_function (option) invalidate_chain :: "u32 \<Rightarrow> nat option \<Rightarrow> pcache \<Rightarrow> pcache option" where
  "invalidate_chain inode p s =
     (case p of
        None \<Rightarrow> Some s
      | Some e \<Rightarrow>
          Option.bind (if pe_inode (pc_pool s e) = inode then vmm_page_cache_remove (Some e) s else Some s)
            (invalidate_chain inode (pe_hash_next (pc_pool s e))))"

definition vmm_page_cache_invalidate :: "u32 \<Rightarrow> pcache \<Rightarrow> pcache option" where
  "vmm_page_cache_invalidate inode s =
     (if \<not> pc_initialized s then Some s
      else for_range_opt 0 VMM_PAGE_CACHE_HASH_SIZE (\<lambda>i s. invalidate_chain inode (pc_hash s i) s) s)"

end
