(* ===== verification/Swap.thy ===== *)
theory Swap
  imports PageCache VMM
begin

unbundle bit_operations_syntax

text \<open>
  The swap manager, \<open>kernel/mm/swap.c\<close>: up to four swap areas with an allocation bitmap each, of which the
  first is a simulated one kept in a static byte array, and the transfer of pages between it and physical
  memory. Physical memory and the page tables are those of theory \<open>VMM\<close>; bytes of it are read and written
  through its little-endian words. Reading a bitmap outside its bounds is the value \<open>None\<close>. Areas on a real
  device transfer nothing in the code and report success. Invalidating the TLB and the console messages are left out.
\<close>

abbreviation (input) "MAX_SWAP_AREAS \<equiv> (4 :: nat)"
abbreviation (input) "EMBEDDED_SWAP_PAGES \<equiv> (4096 :: nat)"
abbreviation (input) "SWAP_STORAGE_SIZE \<equiv> (256 * PAGE_SIZE :: u32)"
abbreviation (input) "SWAP_MAX_PAGES \<equiv> (16 * 1024 :: u32)"
abbreviation (input) "PTE_SWAPPED \<equiv> (0x200 :: u32)"
abbreviation (input) "NO_SLOT \<equiv> (0xFFFFFFFF :: u32)"

record swap_area =
  sa_start_block :: u32
  sa_total_pages :: u32
  sa_free_pages :: u32
  sa_bitmap :: "u32 list"
  sa_device :: int
  sa_flags :: u32

record swap =
  swap_areas :: "nat \<Rightarrow> swap_area"
  num_swap_areas :: nat
  swap_storage :: "nat \<Rightarrow> u8"
  pages_swapped_out :: u32
  pages_swapped_in :: u32
  swap_initialized :: bool
  sw_vmm :: vmm

definition upd_area :: "(swap_area \<Rightarrow> swap_area) \<Rightarrow> nat \<Rightarrow> swap \<Rightarrow> swap" where
  "upd_area f i s = s\<lparr>swap_areas := (swap_areas s)(i := f (swap_areas s i))\<rparr>"

subsection \<open>Bytes of physical memory\<close>

definition mem_byte :: "word_mem \<Rightarrow> u32 \<Rightarrow> u8" where
  "mem_byte m a = ucast (drop_bit (8 * unat (a AND 3)) (m (a AND NOT 3)))"

definition mem_put :: "u32 \<Rightarrow> u8 \<Rightarrow> word_mem \<Rightarrow> word_mem" where
  "mem_put a b m =
     (let w = a AND NOT 3; k = 8 * unat (a AND 3)
      in m(w := (m w AND NOT (push_bit k 0xFF)) OR push_bit k (ucast b)))"

subsection \<open>Slots\<close>

function bitmap_find_free :: "u32 list \<Rightarrow> nat \<Rightarrow> nat \<Rightarrow> nat option option" where
  "bitmap_find_free bm max_bits i =
     (if i < max_bits then
        if i div 32 < length bm then
          if bm_test bm i then bitmap_find_free bm max_bits (Suc i) else Some (Some i)
        else None
      else Some None)"
  by pat_completeness auto
termination
  by (relation "measure (\<lambda>(bm, n, i). n - i)") auto

function alloc_slot_from :: "nat \<Rightarrow> swap \<Rightarrow> (u32 \<times> swap) option" where
  "alloc_slot_from i s =
     (if i < num_swap_areas s then
        let sa = swap_areas s i
        in if sa_free_pages sa = 0 then alloc_slot_from (Suc i) s
           else (case bitmap_find_free (sa_bitmap sa) (unat (sa_total_pages sa)) 0 of
                   None \<Rightarrow> None
                 | Some None \<Rightarrow> alloc_slot_from (Suc i) s
                 | Some (Some slot) \<Rightarrow>
                     Some (push_bit 24 (of_nat i) OR of_nat slot,
                       upd_area (\<lambda>a. a\<lparr>sa_bitmap := bm_set (sa_bitmap a) slot, sa_free_pages := sa_free_pages a - 1\<rparr>) i s))
      else Some (NO_SLOT, s))"
  by pat_completeness auto
termination
  by (relation "measure (\<lambda>(i, s). num_swap_areas s - i)") auto

declare bitmap_find_free.simps [simp del] alloc_slot_from.simps [simp del]

definition swap_alloc_slot :: "swap \<Rightarrow> (u32 \<times> swap) option" where
  "swap_alloc_slot s = (if \<not> swap_initialized s then Some (NO_SLOT, s) else alloc_slot_from 0 s)"

definition slot_area :: "u32 \<Rightarrow> nat" where
  "slot_area slot = unat (drop_bit 24 slot AND 0xFF)"

definition slot_page :: "u32 \<Rightarrow> nat" where
  "slot_page slot = unat (slot AND 0x00FFFFFF)"

definition swap_free_slot :: "u32 \<Rightarrow> swap \<Rightarrow> swap option" where
  "swap_free_slot slot s =
     (if slot = NO_SLOT then Some s
      else if slot_area slot \<ge> num_swap_areas s then Some s
      else
        let sa = swap_areas s (slot_area slot)
        in if slot_page slot \<ge> unat (sa_total_pages sa) then Some s
           else if slot_page slot div 32 < length (sa_bitmap sa)
           then Some (upd_area (\<lambda>a. a\<lparr>sa_bitmap := bm_clear (sa_bitmap a) (slot_page slot),
                  sa_free_pages := sa_free_pages a + 1\<rparr>) (slot_area slot) s)
           else None)"

subsection \<open>Transfer\<close>

definition swap_write_page :: "u32 \<Rightarrow> u32 \<Rightarrow> swap \<Rightarrow> int \<times> swap" where
  "swap_write_page slot phys_addr s =
     (if slot_area slot \<ge> num_swap_areas s then (- 1, s)
      else if sa_device (swap_areas s (slot_area slot)) = - 1 then
        let offset = of_nat (slot_page slot) * PAGE_SIZE
        in if offset + PAGE_SIZE \<le> SWAP_STORAGE_SIZE then
             (0, s\<lparr>swap_storage := for_range 0 4096
                (\<lambda>i st. st(unat offset + i := mem_byte (vm_words (sw_vmm s)) (phys_addr + of_nat i))) (swap_storage s)\<rparr>)
           else (- 1, s)
      else (0, s))"

definition swap_read_page :: "u32 \<Rightarrow> u32 \<Rightarrow> swap \<Rightarrow> int \<times> swap" where
  "swap_read_page slot phys_addr s =
     (if slot_area slot \<ge> num_swap_areas s then (- 1, s)
      else if sa_device (swap_areas s (slot_area slot)) = - 1 then
        let offset = of_nat (slot_page slot) * PAGE_SIZE
        in if offset + PAGE_SIZE \<le> SWAP_STORAGE_SIZE then
             (0, s\<lparr>sw_vmm := (sw_vmm s)\<lparr>vm_words := for_range 0 4096
                (\<lambda>i m. mem_put (phys_addr + of_nat i) (swap_storage s (unat offset + i)) m) (vm_words (sw_vmm s))\<rparr>\<rparr>)
           else (- 1, s)
      else (0, s))"

definition swap_init :: "swap \<Rightarrow> swap" where
  "swap_init s =
     (if swap_initialized s then s
      else
        let empty = \<lparr>sa_start_block = 0, sa_total_pages = 0, sa_free_pages = 0, sa_bitmap = [], sa_device = 0, sa_flags = 0\<rparr>;
            s1 = for_range 0 MAX_SWAP_AREAS (\<lambda>i. upd_area (\<lambda>_. empty) i) s;
            total = SWAP_STORAGE_SIZE div PAGE_SIZE
        in (upd_area (\<lambda>_. \<lparr>sa_start_block = 0, sa_total_pages = total, sa_free_pages = total,
              sa_bitmap = replicate (EMBEDDED_SWAP_PAGES div 32) 0, sa_device = - 1, sa_flags = 0\<rparr>) 0 s1)
           \<lparr>num_swap_areas := 1, swap_initialized := True\<rparr>)"

definition sw_free_frame :: "u32 \<Rightarrow> swap \<Rightarrow> swap option" where
  "sw_free_frame phys s =
     do { f \<leftarrow> pmm_free_page phys (vm_frames (sw_vmm s)); Some (s\<lparr>sw_vmm := (sw_vmm s)\<lparr>vm_frames := f\<rparr>\<rparr>) }"

definition sw_alloc_frame :: "swap \<Rightarrow> u32 \<times> swap" where
  "sw_alloc_frame s =
     (let (phys, f) = pmm_alloc_page (vm_frames (sw_vmm s)) in (phys, s\<lparr>sw_vmm := (sw_vmm s)\<lparr>vm_frames := f\<rparr>\<rparr>))"

definition swap_out_page :: "u32 \<Rightarrow> u32 option \<Rightarrow> swap \<Rightarrow> (int \<times> swap) option" where
  "swap_out_page virt_addr pte s =
     (if \<not> swap_initialized s then Some (- 1, s)
      else case pte of
        None \<Rightarrow> Some (- 1, s)
      | Some p \<Rightarrow>
          let e = vm_words (sw_vmm s) p
          in if e AND PAGE_PRESENT = 0 then Some (- 1, s)
             else do {
               (slot, s1) \<leftarrow> swap_alloc_slot s;
               if slot = NO_SLOT then Some (- 1, s1)
               else
                 let (r, s2) = swap_write_page slot (frame_bits e) s1
                 in if r < 0 then do { s3 \<leftarrow> swap_free_slot slot s2; Some (- 1, s3) }
                    else do {
                      s3 \<leftarrow> sw_free_frame (frame_bits e)
                              (s2\<lparr>sw_vmm := (sw_vmm s2)\<lparr>vm_words := (vm_words (sw_vmm s2))(p := push_bit 12 slot OR PTE_SWAPPED)\<rparr>\<rparr>);
                      Some (0, s3\<lparr>pages_swapped_out := pages_swapped_out s3 + 1\<rparr>) } })"

definition swap_in_page :: "u32 \<Rightarrow> u32 \<Rightarrow> swap \<Rightarrow> (int \<times> swap) option" where
  "swap_in_page virt_addr pte s =
     (if \<not> swap_initialized s then Some (- 1, s)
      else if pte AND PTE_SWAPPED = 0 then Some (- 1, s)
      else
        let slot = drop_bit 12 pte; (phys, s1) = sw_alloc_frame s
        in if phys = 0 then Some (- 1, s1)
           else
             let (r, s2) = swap_read_page slot phys s1
             in if r < 0 then do { s3 \<leftarrow> sw_free_frame phys s2; Some (- 1, s3) }
                else do {
                  s3 \<leftarrow> swap_free_slot slot s2;
                  Some (0, s3\<lparr>sw_vmm := vmm_map_page (frame_bits virt_addr) phys (PAGE_PRESENT OR PAGE_WRITE OR PAGE_USER) (sw_vmm s3),
                     pages_swapped_in := pages_swapped_in s3 + 1\<rparr>) })"

subsection \<open>Areas and statistics\<close>

text \<open>\<open>kmalloc_ok\<close> says for which sizes the kernel heap has a block left.\<close>

definition swap_add_area :: "(u32 \<Rightarrow> bool) \<Rightarrow> int \<Rightarrow> u32 \<Rightarrow> u32 \<Rightarrow> swap \<Rightarrow> int \<times> swap" where
  "swap_add_area kmalloc_ok device start sz s =
     (if num_swap_areas s \<ge> MAX_SWAP_AREAS then (- 1, s)
      else
        let pages = (if sz div PAGE_SIZE > SWAP_MAX_PAGES then SWAP_MAX_PAGES else sz div PAGE_SIZE);
            bitmap_size = (pages + 31) div 32
        in if \<not> kmalloc_ok (bitmap_size * 4) then (- 1, s)
           else (0, (upd_area (\<lambda>_. \<lparr>sa_start_block = start, sa_total_pages = pages, sa_free_pages = pages,
                   sa_bitmap = replicate (unat bitmap_size) 0, sa_device = device, sa_flags = 0\<rparr>) (num_swap_areas s) s)
                   \<lparr>num_swap_areas := Suc (num_swap_areas s)\<rparr>))"

definition swap_get_stats :: "swap \<Rightarrow> u32 \<times> u32" where
  "swap_get_stats s =
     for_range 0 (num_swap_areas s)
       (\<lambda>i (t, f). (t + sa_total_pages (swap_areas s i), f + sa_free_pages (swap_areas s i))) (0, 0)"

definition swap_is_low :: "swap \<Rightarrow> bool" where
  "swap_is_low s = (let (total, free) = swap_get_stats s in total > 0 \<and> free * 100 div total < 10)"

definition swap_try_reclaim :: "u32 \<Rightarrow> pcache \<Rightarrow> (u32 \<times> pcache) option" where
  "swap_try_reclaim target_pages c =
     do { (n, c') \<leftarrow> vmm_page_cache_shrink target_pages c; Some (0 + n, c') }"

end
