(* ===== verification/Demand.thy ===== *)
theory Demand
  imports Vma Swap
begin

unbundle bit_operations_syntax

text \<open>
  Demand paging, \<open>kernel/mm/demand.c\<close>: the handler of page faults and what it does for anonymous, file-backed,
  copy-on-write and swapped pages and for a growing stack. Its state \<open>vmem\<close> joins the area pools, the page
  cache, the swap areas with the page tables and the frame allocator, and the current address space. The frame
  allocator is one component of the kernel: it is kept with the page tables and handed to the page cache for each call.
  A file-backed page is filled with zeros, as in the code. Registering the interrupt handler, reading the faulting
  address and halting on an unresolved fault are left out, as are the console messages.
\<close>

abbreviation (input) "PAGE_COW \<equiv> (0x200 :: u32)"
abbreviation (input) "PF_PRESENT \<equiv> (0x01 :: u32)"
abbreviation (input) "PF_WRITE \<equiv> (0x02 :: u32)"
abbreviation (input) "PF_USER \<equiv> (0x04 :: u32)"
abbreviation (input) "PROT_READ \<equiv> (0x1 :: u32)"
abbreviation (input) "PROT_WRITE \<equiv> (0x2 :: u32)"
abbreviation (input) "PROT_EXEC \<equiv> (0x4 :: u32)"
abbreviation (input) "MAP_SHARED \<equiv> (0x01 :: u32)"
abbreviation (input) "MAP_PRIVATE \<equiv> (0x02 :: u32)"
abbreviation (input) "MAP_FIXED \<equiv> (0x10 :: u32)"
abbreviation (input) "MAP_ANONYMOUS \<equiv> (0x20 :: u32)"
abbreviation (input) "MAP_LOCKED \<equiv> (0x200 :: u32)"
abbreviation (input) "MAP_STACK \<equiv> (0x400 :: u32)"
abbreviation (input) "MAP_FAILED \<equiv> (0xFFFFFFFF :: u32)"

datatype pf_result = PF_HANDLED | PF_SIGBUS | PF_SIGSEGV | PF_OOM | PF_SWAP_ERROR

record vmem =
  vs_areas :: areas
  vs_cache :: pcache
  vs_swap :: swap
  current_mm :: "nat option"
  total_faults :: u32
  minor_faults :: u32
  major_faults :: u32
  cow_faults :: u32
  segfaults :: u32

definition vs_vmm :: "vmem \<Rightarrow> vmm" where
  "vs_vmm s = sw_vmm (vs_swap s)"

definition set_vmm :: "vmm \<Rightarrow> vmem \<Rightarrow> vmem" where
  "set_vmm v s = s\<lparr>vs_swap := (vs_swap s)\<lparr>sw_vmm := v\<rparr>\<rparr>"

definition alloc_frame :: "vmem \<Rightarrow> u32 \<times> vmem" where
  "alloc_frame s =
     (let (phys, f) = pmm_alloc_page (vm_frames (vs_vmm s)) in (phys, set_vmm ((vs_vmm s)\<lparr>vm_frames := f\<rparr>) s))"

definition free_frame :: "u32 \<Rightarrow> vmem \<Rightarrow> vmem option" where
  "free_frame phys s =
     do { f \<leftarrow> pmm_free_page phys (vm_frames (vs_vmm s)); Some (set_vmm ((vs_vmm s)\<lparr>vm_frames := f\<rparr>) s) }"

definition write_words :: "u32 \<Rightarrow> (nat \<Rightarrow> u32) \<Rightarrow> vmem \<Rightarrow> vmem" where
  "write_words phys f s = set_vmm ((vs_vmm s)\<lparr>vm_words := fill_table phys f (vm_words (vs_vmm s))\<rparr>) s"

definition map_frame :: "u32 \<Rightarrow> u32 \<Rightarrow> u32 \<Rightarrow> vmem \<Rightarrow> vmem" where
  "map_frame va phys flags s = set_vmm (vmm_map_page va phys flags (vs_vmm s)) s"

definition on_cache :: "(pcache \<Rightarrow> ('r \<times> pcache) option) \<Rightarrow> vmem \<Rightarrow> ('r \<times> vmem) option" where
  "on_cache f s =
     do { (r, c) \<leftarrow> f ((vs_cache s)\<lparr>pc_frames := vm_frames (vs_vmm s)\<rparr>);
          Some (r, set_vmm ((vs_vmm s)\<lparr>vm_frames := pc_frames c\<rparr>) (s\<lparr>vs_cache := c\<rparr>)) }"

definition run_cache :: "(pcache \<Rightarrow> pcache option) \<Rightarrow> vmem \<Rightarrow> vmem option" where
  "run_cache f s = map_option snd (on_cache (\<lambda>c. map_option (Pair ()) (f c)) s)"

definition count_rss :: "vmem \<Rightarrow> vmem" where
  "count_rss s =
     (case current_mm s of
        None \<Rightarrow> s
      | Some m \<Rightarrow> s\<lparr>vs_areas := upd_mm (\<lambda>a. a\<lparr>mm_rss := mm_rss a + 1\<rparr>) m (vs_areas s)\<rparr>)"

definition area_of :: "vmem \<Rightarrow> nat \<Rightarrow> vma" where
  "area_of s v = vma_pool (vs_areas s) v"

subsection \<open>Page faults\<close>

definition get_pte :: "u32 \<Rightarrow> vmm \<Rightarrow> u32 option" where
  "get_pte virt_addr s =
     (let pde = vm_words s (entry_addr KERNEL_DIRECTORY (dir_index virt_addr))
      in if pde AND PAGE_PRESENT = 0 then None else Some (entry_addr (frame_bits pde) (table_index virt_addr)))"

definition alloc_and_map_page :: "u32 \<Rightarrow> u32 \<Rightarrow> vmem \<Rightarrow> int \<times> vmem" where
  "alloc_and_map_page virt_addr flags s =
     (let (phys, s1) = alloc_frame s
      in if phys = 0 then (- 1, s1)
         else
           let s2 = write_words phys (\<lambda>i. 0) s1;
               page_flags = (if flags AND VM_WRITE \<noteq> 0 then PAGE_PRESENT OR PAGE_USER OR PAGE_WRITE else PAGE_PRESENT OR PAGE_USER)
           in (0, count_rss (map_frame (frame_bits virt_addr) phys page_flags s2)))"

definition demand_page_anon :: "nat \<Rightarrow> u32 \<Rightarrow> vmem \<Rightarrow> int \<times> vmem" where
  "demand_page_anon v fault_addr s =
     (let (r, s1) = alloc_and_map_page (frame_bits fault_addr) (vm_flags (area_of s v)) s
      in if r < 0 then (- 1, s1) else (0, s1\<lparr>minor_faults := minor_faults s1 + 1\<rparr>))"

definition file_page_cached :: "nat \<Rightarrow> u32 \<Rightarrow> nat \<Rightarrow> vmem \<Rightarrow> int \<times> vmem" where
  "file_page_cached v page_addr e s =
     (let fl = vm_flags (area_of s v);
          phys = pe_phys_addr (pc_pool (vs_cache s) e);
          page_flags = PAGE_PRESENT OR PAGE_USER;
          s1 = (if fl AND VM_SHARED \<noteq> 0 then
                  map_frame page_addr phys (if fl AND VM_WRITE \<noteq> 0 then page_flags OR PAGE_WRITE else page_flags) s
                else if fl AND VM_WRITE \<noteq> 0 then map_frame page_addr phys (page_flags OR PAGE_COW) s
                else map_frame page_addr phys page_flags s);
          s2 = s1\<lparr>vs_cache := upd_entry (\<lambda>x. x\<lparr>pe_ref_count := pe_ref_count x + 1\<rparr>) e (vs_cache s1)\<rparr>
      in (0, s2\<lparr>minor_faults := minor_faults s2 + 1\<rparr>))"

definition file_page_new :: "nat \<Rightarrow> u32 \<Rightarrow> u32 \<Rightarrow> u32 \<Rightarrow> vmem \<Rightarrow> (int \<times> vmem) option" where
  "file_page_new v page_addr file_page phys s =
     (let a = area_of s v
      in do {
        (entry, s2) \<leftarrow> on_cache (vmm_page_cache_insert (vm_file_inode a) file_page phys) (write_words phys (\<lambda>i. 0) s);
        let s3 = (case entry of
                    Some e \<Rightarrow> s2\<lparr>vs_cache := upd_entry (pe_uptodate_update (\<lambda>_. True)) e (vs_cache s2)\<rparr>
                  | None \<Rightarrow> s2);
            page_flags = (if vm_flags a AND VM_SHARED \<noteq> 0 \<and> vm_flags a AND VM_WRITE \<noteq> 0
                          then PAGE_PRESENT OR PAGE_USER OR PAGE_WRITE
                          else if vm_flags a AND VM_WRITE \<noteq> 0 then PAGE_PRESENT OR PAGE_USER OR PAGE_COW
                          else PAGE_PRESENT OR PAGE_USER);
            s4 = count_rss (map_frame page_addr phys page_flags s3)
        in Some (0, s4\<lparr>major_faults := major_faults s4 + 1\<rparr>) })"

definition demand_page_file :: "nat \<Rightarrow> u32 \<Rightarrow> vmem \<Rightarrow> (int \<times> vmem) option" where
  "demand_page_file v fault_addr s =
     (let a = area_of s v;
          page_addr = frame_bits fault_addr;
          vma_offset = page_addr - vm_start a;
          file_offset = vm_file_offset a + vma_offset;
          file_page = file_offset div PAGE_SIZE
      in do {
        (cached, s1) \<leftarrow> on_cache (vmm_page_cache_lookup (vm_file_inode a) file_page) s;
        (case cached of
           Some e \<Rightarrow> Some (file_page_cached v page_addr e s1)
         | None \<Rightarrow>
             let (phys, s2) = alloc_frame s1
             in if phys = 0 then Some (- 1, s2) else file_page_new v page_addr file_page phys s2) })"

definition handle_cow_fault :: "u32 \<Rightarrow> u32 \<Rightarrow> vmem \<Rightarrow> int \<times> vmem" where
  "handle_cow_fault fault_addr pte s =
     (let page_addr = frame_bits fault_addr; old_phys = frame_bits pte; (new_phys, s1) = alloc_frame s
      in if new_phys = 0 then (- 1, s1)
         else
           let m = for_range 0 1024 (\<lambda>i m. m(entry_addr new_phys i := m (entry_addr old_phys i))) (vm_words (vs_vmm s1));
               s2 = set_vmm ((vs_vmm s1)\<lparr>vm_words := m\<rparr>) s1;
               s3 = count_rss (map_frame page_addr new_phys (PAGE_PRESENT OR PAGE_WRITE OR PAGE_USER) s2)
           in (0, s3\<lparr>cow_faults := cow_faults s3 + 1\<rparr>))"

definition handle_stack_growth :: "nat \<Rightarrow> nat \<Rightarrow> u32 \<Rightarrow> vmem \<Rightarrow> int \<times> vmem" where
  "handle_stack_growth m v fault_addr s =
     (let start = vm_start (area_of s v)
      in if fault_addr < start \<and> fault_addr \<ge> start - PAGE_SIZE then
           let s1 = s\<lparr>vs_areas := upd_mm (mm_stack_start_update (\<lambda>_. start - PAGE_SIZE)) m
                      (upd_vma (vm_start_update (\<lambda>_. start - PAGE_SIZE)) v (vs_areas s))\<rparr>
           in alloc_and_map_page (frame_bits fault_addr) (vm_flags (area_of s1 v)) s1
         else (- 1, s))"

definition on_swap :: "(swap \<Rightarrow> ('r \<times> swap) option) \<Rightarrow> vmem \<Rightarrow> ('r \<times> vmem) option" where
  "on_swap f s = do { (r, w) \<leftarrow> f (vs_swap s); Some (r, s\<lparr>vs_swap := w\<rparr>) }"

definition handle_swap_in :: "u32 \<Rightarrow> u32 \<Rightarrow> vmem \<Rightarrow> (int \<times> vmem) option" where
  "handle_swap_in fault_addr pte s =
     (let page_addr = frame_bits fault_addr; swap_slot = drop_bit 12 pte; (p1, s1) = alloc_frame s
      in do {
        (phys, s2) \<leftarrow> (if p1 = 0 then do { s' \<leftarrow> run_cache (vmm_page_cache_evict 4) s1; Some (alloc_frame s') }
                       else Some (p1, s1));
        if phys = 0 then Some (- 1, s2)
        else do {
          (r, s3) \<leftarrow> on_swap (swap_in_page page_addr pte) s2;
          if r < 0 then do { s4 \<leftarrow> free_frame phys s3; Some (- 1, s4) }
          else do {
            w \<leftarrow> swap_free_slot swap_slot (vs_swap s3);
            let s5 = count_rss (map_frame page_addr phys (PAGE_PRESENT OR PAGE_WRITE OR PAGE_USER) (s3\<lparr>vs_swap := w\<rparr>))
            in Some (0, s5\<lparr>major_faults := major_faults s5 + 1\<rparr>) } } })"

definition segfault :: "vmem \<Rightarrow> pf_result \<times> vmem" where
  "segfault s = (PF_SIGSEGV, s\<lparr>segfaults := segfaults s + 1\<rparr>)"

definition fault_in_area :: "nat \<Rightarrow> u32 \<Rightarrow> u32 \<Rightarrow> vmem \<Rightarrow> (pf_result \<times> vmem) option" where
  "fault_in_area v fault_addr error_code s =
     (let fl = vm_flags (area_of s v)
      in if error_code AND PF_WRITE \<noteq> 0 \<and> fl AND VM_WRITE = 0 then Some (segfault s)
         else if error_code AND PF_USER \<noteq> 0 \<and> fl AND (VM_READ OR VM_WRITE OR VM_EXEC) = 0 then Some (segfault s)
         else do {
           (result, s1) \<leftarrow> (if fl AND VM_ANONYMOUS \<noteq> 0 then Some (demand_page_anon v fault_addr s)
                            else if fl AND VM_FILE \<noteq> 0 then demand_page_file v fault_addr s
                            else Some (demand_page_anon v fault_addr s));
           Some (if result < 0 then PF_OOM else PF_HANDLED, s1) })"

definition handle_page_fault :: "u32 \<Rightarrow> u32 \<Rightarrow> vmem \<Rightarrow> (pf_result \<times> vmem) option" where
  "handle_page_fault fault_addr error_code s0 =
     (let s = s0\<lparr>total_faults := total_faults s0 + 1\<rparr>;
          pte_ptr = get_pte fault_addr (vs_vmm s);
          pte = (case pte_ptr of Some p \<Rightarrow> vm_words (vs_vmm s) p | None \<Rightarrow> 0)
      in if pte_ptr \<noteq> None \<and> pte AND PTE_SWAPPED \<noteq> 0 \<and> pte AND PAGE_PRESENT = 0 then
           do { (r, s1) \<leftarrow> handle_swap_in fault_addr pte s; Some (if r = 0 then PF_HANDLED else PF_SWAP_ERROR, s1) }
         else if error_code AND PF_PRESENT \<noteq> 0 \<and> error_code AND PF_WRITE \<noteq> 0 \<and> pte AND PAGE_COW \<noteq> 0 then
           let (r, s1) = handle_cow_fault fault_addr pte s in Some (if r = 0 then PF_HANDLED else PF_OOM, s1)
         else case current_mm s of
           None \<Rightarrow> Some (if error_code AND PF_USER = 0 then (PF_SIGSEGV, s) else segfault s)
         | Some m \<Rightarrow> do {
             found \<leftarrow> vma_find (Some m) fault_addr (vs_areas s);
             (case found of
                Some v \<Rightarrow> fault_in_area v fault_addr error_code s
              | None \<Rightarrow> do {
                  nearest \<leftarrow> vma_find_nearest (Some m) fault_addr (vs_areas s);
                  (case nearest of
                     Some v \<Rightarrow>
                       if vm_flags (area_of s v) AND VM_STACK \<noteq> 0 then
                         let (r, s1) = handle_stack_growth m v fault_addr s
                         in Some (if r = 0 then (PF_HANDLED, s1) else segfault s1)
                       else Some (segfault s)
                   | None \<Rightarrow> Some (segfault s)) }) })"

definition demand_paging_init :: "vmem \<Rightarrow> vmem" where
  "demand_paging_init s = s\<lparr>vs_cache := vmm_page_cache_init (vs_cache s), vs_swap := swap_init (vs_swap s)\<rparr>"

definition demand_paging_stats :: "vmem \<Rightarrow> u32 \<times> u32 \<times> u32 \<times> u32 \<times> u32" where
  "demand_paging_stats s = (total_faults s, minor_faults s, major_faults s, cow_faults s, segfaults s)"

end
