(* ===== verification/Mmap.thy ===== *)
theory Mmap
  imports Demand
begin

unbundle bit_operations_syntax

text \<open>
  Address spaces as a whole, the second half of \<open>kernel/mm/vma.c\<close>: creating, destroying and cloning an
  \<open>mm_struct_t\<close>, and the system calls \<open>mmap\<close>, \<open>munmap\<close>, \<open>mprotect\<close>, \<open>msync\<close> and \<open>brk\<close> on the current one. The loops over the
  pages of a range compare and advance 32-bit addresses; \<open>None\<close> is the value of one that does not end.
\<close>

partial_function (option) page_loop :: "(u32 \<Rightarrow> 's \<Rightarrow> 's option) \<Rightarrow> u32 \<Rightarrow> u32 \<Rightarrow> 's \<Rightarrow> 's option" where
  "page_loop f addr end_addr s =
     (if addr < end_addr then Option.bind (f addr s) (page_loop f (addr + PAGE_SIZE) end_addr) else Some s)"

definition set_areas :: "areas \<Rightarrow> vmem \<Rightarrow> vmem" where
  "set_areas a s = s\<lparr>vs_areas := a\<rparr>"

definition the_mm :: "vmem \<Rightarrow> nat \<Rightarrow> mm_struct" where
  "the_mm s m = mm_pool (vs_areas s) m"

subsection \<open>Address spaces\<close>

definition mm_create :: "vmem \<Rightarrow> nat option \<times> vmem" where
  "mm_create s =
     (case mm_alloc (vs_areas s) of
        (None, a) \<Rightarrow> (None, set_areas a s)
      | (Some m, a) \<Rightarrow>
          let (dir, s1) = alloc_frame (set_areas a s);
              s2 = set_areas (upd_mm (mm_page_directory_update (\<lambda>_. dir)) m (vs_areas s1)) s1
          in if dir = 0 then (None, set_areas (mm_free_struct (Some m) (vs_areas s2)) s2)
             else
               let s3 = write_words dir (\<lambda>i. 0) s2;
                   w = for_range 768 1024
                         (\<lambda>i w. w(entry_addr dir i := w (entry_addr KERNEL_DIRECTORY i))) (vm_words (vs_vmm s3))
               in (Some m, set_vmm ((vs_vmm s3)\<lparr>vm_words := w\<rparr>) s3))"

definition release_mapping :: "u32 \<Rightarrow> vmem \<Rightarrow> vmem option" where
  "release_mapping addr s =
     (let phys = vmm_virt_to_phys addr (vs_vmm s)
      in if phys \<noteq> 0 then free_frame phys (set_vmm (vmm_unmap_page addr (vs_vmm s)) s) else Some s)"

partial_function (option) destroy_areas :: "nat option \<Rightarrow> vmem \<Rightarrow> vmem option" where
  "destroy_areas p s =
     (case p of
        None \<Rightarrow> Some s
      | Some v \<Rightarrow>
          Option.bind (page_loop release_mapping (vm_start (area_of s v)) (vm_end (area_of s v)) s)
            (\<lambda>s1. destroy_areas (vm_next (area_of s v)) (set_areas (vma_destroy (Some v) (vs_areas s1)) s1)))"

definition mm_destroy :: "nat option \<Rightarrow> vmem \<Rightarrow> vmem option" where
  "mm_destroy p s =
     (case p of
        None \<Rightarrow> Some s
      | Some m \<Rightarrow> do {
          s1 \<leftarrow> destroy_areas (mm_vmas (the_mm s m)) s;
          s2 \<leftarrow> (if mm_page_directory (the_mm s1 m) \<noteq> 0 then free_frame (mm_page_directory (the_mm s1 m)) s1 else Some s1);
          Some (set_areas (mm_free_struct (Some m) (vs_areas s2)) s2) })"

definition copy_regions :: "nat \<Rightarrow> nat \<Rightarrow> areas \<Rightarrow> areas" where
  "copy_regions src dst a =
     (let r = mm_pool a src
      in upd_mm (\<lambda>k. k\<lparr>mm_code_start := mm_code_start r, mm_code_end := mm_code_end r,
           mm_data_start := mm_data_start r, mm_data_end := mm_data_end r,
           mm_heap_start := mm_heap_start r, mm_heap_end := mm_heap_end r,
           mm_stack_start := mm_stack_start r, mm_stack_end := mm_stack_end r, mm_mmap_base := mm_mmap_base r\<rparr>) dst a)"

definition mark_area_cow :: "nat \<Rightarrow> vmem \<Rightarrow> vmem option" where
  "mark_area_cow v s =
     (let a = area_of s v
      in if vm_flags a AND VM_PRIVATE \<noteq> 0 \<and> vm_flags a AND VM_WRITE \<noteq> 0
         then page_loop (\<lambda>addr s. Some (set_vmm (snd (vmm_mark_cow addr (vs_vmm s))) s)) (vm_start a) (vm_end a) s
         else Some s)"

definition clone_area :: "nat \<Rightarrow> nat \<Rightarrow> vmem \<Rightarrow> (bool \<times> vmem) option" where
  "clone_area dst v s =
     (let a = area_of s v
      in case vma_create (vm_start a) (vm_end a) (vm_flags a) (vs_areas s) of
           (None, b) \<Rightarrow> Some (False, set_areas b s)
         | (Some w, b) \<Rightarrow>
             do { (r, c) \<leftarrow> vma_insert (Some dst) (Some w)
                     (upd_vma (\<lambda>x. x\<lparr>vm_file_inode := vm_file_inode (vma_pool b v), vm_file_offset := vm_file_offset (vma_pool b v),
                        vm_fd := vm_fd (vma_pool b v)\<rparr>) w b);
                  s1 \<leftarrow> mark_area_cow v (set_areas c s);
                  Some (True, s1) })"

partial_function (option) clone_areas :: "nat \<Rightarrow> nat option \<Rightarrow> vmem \<Rightarrow> (bool \<times> vmem) option" where
  "clone_areas dst p s =
     (case p of
        None \<Rightarrow> Some (True, s)
      | Some v \<Rightarrow>
          Option.bind (clone_area dst v s)
            (\<lambda>(ok, s1). if ok then clone_areas dst (vm_next (area_of s1 v)) s1 else Some (False, s1)))"

definition mm_clone :: "nat option \<Rightarrow> vmem \<Rightarrow> (nat option \<times> vmem) option" where
  "mm_clone p s =
     (case p of
        None \<Rightarrow> Some (None, s)
      | Some src \<Rightarrow>
          (case mm_create s of
             (None, s1) \<Rightarrow> Some (None, s1)
           | (Some dst, s1) \<Rightarrow> do {
               (ok, s2) \<leftarrow> clone_areas dst (mm_vmas (the_mm s1 src)) (set_areas (copy_regions src dst (vs_areas s1)) s1);
               if ok then Some (Some dst, s2) else do { s3 \<leftarrow> mm_destroy (Some dst) s2; Some (None, s3) } }))"

definition mm_release :: "nat option \<Rightarrow> vmem \<Rightarrow> vmem option" where
  "mm_release p s =
     (case p of
        None \<Rightarrow> Some s
      | Some m \<Rightarrow>
          let s1 = set_areas (upd_mm (\<lambda>k. k\<lparr>mm_ref_count := mm_ref_count k - 1\<rparr>) m (vs_areas s)) s
          in if mm_ref_count (the_mm s1 m) = 0 then mm_destroy (Some m) s1 else Some s1)"

subsection \<open>System calls\<close>

definition round_up :: "u32 \<Rightarrow> u32" where
  "round_up n = (n + PAGE_SIZE - 1) AND NOT (PAGE_SIZE - 1)"

definition round_down :: "u32 \<Rightarrow> u32" where
  "round_down n = n AND NOT (PAGE_SIZE - 1)"

definition flag_if :: "bool \<Rightarrow> u32 \<Rightarrow> u32 \<Rightarrow> u32" where
  "flag_if b fl w = (if b then w OR fl else w)"

definition prot_flags :: "u32 \<Rightarrow> u32 \<Rightarrow> u32" where
  "prot_flags prot w =
     flag_if (prot AND PROT_EXEC \<noteq> 0) VM_EXEC
       (flag_if (prot AND PROT_WRITE \<noteq> 0) VM_WRITE (flag_if (prot AND PROT_READ \<noteq> 0) VM_READ w))"

definition mmap_flags :: "u32 \<Rightarrow> u32 \<Rightarrow> u32" where
  "mmap_flags prot flags =
     flag_if (flags AND MAP_ANONYMOUS = 0) VM_FILE
       (flag_if (flags AND MAP_STACK \<noteq> 0) (VM_STACK OR VM_GROWSDOWN)
         (flag_if (flags AND MAP_LOCKED \<noteq> 0) VM_LOCKED
           (flag_if (flags AND MAP_ANONYMOUS \<noteq> 0) VM_ANONYMOUS
             (flag_if (flags AND MAP_PRIVATE \<noteq> 0) VM_PRIVATE
               (flag_if (flags AND MAP_SHARED \<noteq> 0) VM_SHARED (prot_flags prot VM_LAZY))))))"

definition mmap_address :: "nat \<Rightarrow> u32 \<Rightarrow> u32 \<Rightarrow> u32 \<Rightarrow> areas \<Rightarrow> u32 option option" where
  "mmap_address m addr len flags a =
     (if flags AND MAP_FIXED \<noteq> 0 then
        Some (if round_down addr < 0x1000 \<or> round_down addr \<ge> 0xC0000000 then None else Some (round_down addr))
      else do { r \<leftarrow> find_free_region (Some m) len a; Some (if r = 0 then None else Some r) })"

definition sys_mmap :: "u32 \<Rightarrow> u32 \<Rightarrow> u32 \<Rightarrow> u32 \<Rightarrow> int \<Rightarrow> u32 \<Rightarrow> vmem \<Rightarrow> (u32 \<times> vmem) option" where
  "sys_mmap addr len0 prot flags fd offset s =
     (case current_mm s of
        None \<Rightarrow> Some (MAP_FAILED, s)
      | Some m \<Rightarrow>
          let len = round_up len0
          in if len = 0 then Some (MAP_FAILED, s)
             else do {
               where_to \<leftarrow> mmap_address m addr len flags (vs_areas s);
               (case where_to of
                  None \<Rightarrow> Some (MAP_FAILED, s)
                | Some map_addr \<Rightarrow>
                    if flags AND MAP_ANONYMOUS = 0 \<and> fd < 0 then Some (MAP_FAILED, s)
                    else (case vma_create map_addr (map_addr + len) (mmap_flags prot flags) (vs_areas s) of
                            (None, a) \<Rightarrow> Some (MAP_FAILED, set_areas a s)
                          | (Some v, a) \<Rightarrow> do {
                              (r, b) \<leftarrow> vma_insert (Some m) (Some v) (upd_vma (\<lambda>x. x\<lparr>vm_fd := fd, vm_file_offset := offset\<rparr>) v a);
                              if r < 0 then Some (MAP_FAILED, set_areas (vma_destroy (Some v) b) s)
                              else do {
                                s1 \<leftarrow> (if flags AND MAP_LOCKED \<noteq> 0
                                       then page_loop (\<lambda>p s. map_option snd (handle_page_fault p PF_WRITE s)) map_addr (map_addr + len) (set_areas b s)
                                       else Some (set_areas b s));
                                Some (map_addr, s1) } })) })"

definition munmap_page :: "nat \<Rightarrow> u32 \<Rightarrow> vmem \<Rightarrow> vmem option" where
  "munmap_page m addr s =
     (if vmm_virt_to_phys addr (vs_vmm s) \<noteq> 0
      then map_option (\<lambda>s1. set_areas (upd_mm (\<lambda>k. k\<lparr>mm_rss := mm_rss k - 1\<rparr>) m (vs_areas s1)) s1) (release_mapping addr s)
      else release_mapping addr s)"

definition munmap_area :: "nat \<Rightarrow> u32 \<Rightarrow> u32 \<Rightarrow> nat \<Rightarrow> vmem \<Rightarrow> vmem option" where
  "munmap_area m start end_addr v s =
     (let a = area_of s v
      in if vm_end a \<le> start \<or> vm_start a \<ge> end_addr then Some s
         else if vm_start a \<ge> start \<and> vm_end a \<le> end_addr then
           do { s1 \<leftarrow> page_loop (munmap_page m) (vm_start a) (vm_end a) s;
                let b = snd (vma_remove (Some m) (Some v) (vs_areas s1))
                in Some (set_areas (vma_destroy (Some v) b) s1) }
         else Some s)"

partial_function (option) munmap_areas :: "nat \<Rightarrow> u32 \<Rightarrow> u32 \<Rightarrow> nat option \<Rightarrow> vmem \<Rightarrow> vmem option" where
  "munmap_areas m start end_addr p s =
     (if p = None then Some s
      else Option.bind (munmap_area m start end_addr (the p) s)
             (munmap_areas m start end_addr (vm_next (area_of s (the p)))))"

definition sys_munmap :: "u32 \<Rightarrow> u32 \<Rightarrow> vmem \<Rightarrow> (int \<times> vmem) option" where
  "sys_munmap addr len s =
     (case current_mm s of
        None \<Rightarrow> Some (- 1, s)
      | Some m \<Rightarrow>
          let start = round_down addr; end_addr = start + round_up len
          in do { s1 \<leftarrow> munmap_areas m start end_addr (mm_vmas (the_mm s m)) s; Some (0, s1) })"

definition sys_mprotect :: "u32 \<Rightarrow> u32 \<Rightarrow> u32 \<Rightarrow> vmem \<Rightarrow> (int \<times> vmem) option" where
  "sys_mprotect addr len0 prot s =
     (case current_mm s of
        None \<Rightarrow> Some (- 1, s)
      | Some m \<Rightarrow>
          let start = round_down addr; len = round_up len0
          in do {
            found \<leftarrow> vma_find (Some m) start (vs_areas s);
            (case found of
               None \<Rightarrow> Some (- 1, s)
             | Some v \<Rightarrow>
                 if vm_start (area_of s v) > start \<or> vm_end (area_of s v) < start + len then Some (- 1, s)
                 else
                   let new_flags = prot_flags prot (vm_flags (area_of s v) AND NOT (VM_READ OR VM_WRITE OR VM_EXEC));
                       s1 = set_areas (upd_vma (vm_flags_update (\<lambda>_. new_flags)) v (vs_areas s)) s;
                       page_flags = flag_if (prot AND PROT_WRITE \<noteq> 0) PAGE_WRITE (PAGE_PRESENT OR PAGE_USER)
                   in do {
                     s2 \<leftarrow> page_loop (\<lambda>a s. Some (set_vmm (snd (vmm_set_page_flags a page_flags (vs_vmm s))) s)) start (start + len) s1;
                     Some (0, s2) }) })"

definition sys_msync :: "u32 \<Rightarrow> u32 \<Rightarrow> vmem \<Rightarrow> (int \<times> vmem) option" where
  "sys_msync addr len s =
     (case current_mm s of
        None \<Rightarrow> Some (- 1, s)
      | Some m \<Rightarrow> do {
          found \<leftarrow> vma_find (Some m) (round_down addr) (vs_areas s);
          (case found of
             None \<Rightarrow> Some (- 1, s)
           | Some v \<Rightarrow>
               if vm_flags (area_of s v) AND VM_FILE = 0 then Some (- 1, s)
               else do { s1 \<leftarrow> run_cache (vmm_page_cache_sync (vm_file_inode (area_of s v))) s; Some (0, s1) }) })"

definition extend_heap :: "nat \<Rightarrow> u32 \<Rightarrow> vmem \<Rightarrow> (bool \<times> vmem) option" where
  "extend_heap m new_brk s =
     do {
       found \<leftarrow> vma_find (Some m) (mm_heap_start (the_mm s m)) (vs_areas s);
       (case found of
          Some v \<Rightarrow> Some (True, set_areas (upd_vma (vm_end_update (\<lambda>_. new_brk)) v (vs_areas s)) s)
        | None \<Rightarrow>
            (case vma_create (mm_heap_end (the_mm s m)) new_brk (VM_READ OR VM_WRITE OR VM_ANONYMOUS OR VM_LAZY) (vs_areas s) of
               (None, a) \<Rightarrow> Some (False, set_areas a s)
             | (Some v, a) \<Rightarrow> do { (r, b) \<leftarrow> vma_insert (Some m) (Some v) a; Some (True, set_areas b s) })) }"

definition sys_brk :: "u32 \<Rightarrow> vmem \<Rightarrow> (u32 \<times> vmem) option" where
  "sys_brk addr s =
     (case current_mm s of
        None \<Rightarrow> Some (MAP_FAILED, s)
      | Some m \<Rightarrow>
          if addr = 0 then Some (mm_heap_end (the_mm s m), s)
          else
            let new_brk = round_up addr
            in if new_brk < mm_heap_start (the_mm s m) then Some (MAP_FAILED, s)
               else if new_brk > mm_stack_start (the_mm s m) - 0x100000 then Some (MAP_FAILED, s)
               else do {
                 (ok, s1) \<leftarrow> (if new_brk > mm_heap_end (the_mm s m) then extend_heap m new_brk s else Some (True, s));
                 if \<not> ok then Some (MAP_FAILED, s1)
                 else Some (new_brk, set_areas (upd_mm (mm_heap_end_update (\<lambda>_. new_brk)) m (vs_areas s1)) s1) })"

end
