(* ===== verification/SwapProps.thy ===== *)
theory SwapProps
  imports Swap
begin

unbundle bit_operations_syntax

text \<open>
  Swapping: bytes of physical memory behave like an array of bytes; the slots of the swap areas are handed
  out once; a page that is swapped out and in again comes back with its content. A slot of a
  second swap area does not survive the page table entry.
\<close>

subsection \<open>Bytes of physical memory\<close>

lemma three_mask: "(3 :: u32) = mask 2"
  by (simp add: mask_eq_exp_minus_1)

lemma byte_address_eq_iff: "(a AND NOT 3) = (b AND NOT 3) \<and> (a AND 3) = (b AND 3) \<longleftrightarrow> a = (b :: u32)"
proof
  assume "(a AND NOT 3) = (b AND NOT 3) \<and> (a AND 3) = (b AND 3)"
  then have "(a AND NOT 3) OR (a AND 3) = (b AND NOT 3) OR (b AND 3)" by simp
  then show "a = b" by (simp add: bit.conj_disj_distrib [symmetric])
qed simp

lemma byte_index_bound: "unat ((a :: u32) AND 3) < 4"
  unfolding three_mask using and_mask_less' [of 2 a] by (simp add: word_less_nat_alt)

lemma bit_mem_byte: "bit (mem_byte m a) n \<longleftrightarrow> n < 8 \<and> bit (m (a AND NOT 3)) (n + 8 * unat (a AND 3))"
  by (auto simp: mem_byte_def bit_simps add.commute dest: bit_imp_le_length)

lemma bit_byte_ones: "bit (0xFF :: int) k \<longleftrightarrow> k < 8"
proof -
  have "(0xFF :: int) = mask 8" by (simp add: mask_eq_exp_minus_1)
  then show ?thesis by (simp only: bit_mask_iff) simp
qed

lemma mem_byte_put: "mem_byte (mem_put a b m) a' = (if a' = a then b else mem_byte m a')"
proof (cases "a' AND NOT 3 = a AND NOT 3")
  case True
  have bytes: "n + 8 * unat (a' AND 3) < 32" if "n < 8" for n
    using byte_index_bound [of a'] that by simp
  show ?thesis
  proof (cases "a' = a")
    case same: True
    show ?thesis
      unfolding same if_P [OF refl]
    proof (rule bit_word_eqI)
      fix n assume "n < LENGTH(8)"
      then show "bit (mem_byte (mem_put a b m) a) n = bit b n"
        using bytes [of n] same
        by (simp add: bit_mem_byte mem_put_def Let_def bit_simps bit_byte_ones)
    qed
  next
    case False
    then have "unat (a' AND 3) \<noteq> unat (a AND 3)"
      using True byte_address_eq_iff [of a' a] by (simp add: word_unat_eq_iff)
    then have other: "\<not> (8 * unat (a AND 3) \<le> n + 8 * unat (a' AND 3) \<and> n + 8 * unat (a' AND 3) - 8 * unat (a AND 3) < 8)"
      if "n < 8" for n using that by arith
    have "mem_byte (mem_put a b m) a' = mem_byte m a'"
    proof (rule bit_word_eqI)
      fix n assume "n < LENGTH(8)"
      then show "bit (mem_byte (mem_put a b m) a') n = bit (mem_byte m a') n"
        using bytes [of n] other [of n] True
        by (auto simp: bit_mem_byte mem_put_def Let_def bit_simps bit_byte_ones dest: bit_imp_le_length)
    qed
    with False show ?thesis by simp
  qed
next
  case False
  then have "mem_byte (mem_put a b m) a' = mem_byte m a'" by (simp add: mem_byte_def mem_put_def Let_def)
  with False show ?thesis by auto
qed

lemma word_page: "unat (a AND NOT 3) div 4096 = unat (a :: u32) div 4096"
proof -
  have "frame_bits (a AND NOT 3) = frame_bits a"
    unfolding frame_bits_def low_mask12 three_mask by (rule bit_word_eqI) (auto simp: bit_simps)
  then show ?thesis by (simp add: frame_bits_eq_iff)
qed

lemma mem_put_other_page: "unat w div 4096 \<noteq> unat a div 4096 \<Longrightarrow> mem_put a b m w = m w"
  using word_page [of a] by (auto simp: mem_put_def Let_def)

lemma page_offset:
  assumes "unat p mod 4096 = 0" and "i < 4096"
  shows "unat (p + of_nat i :: u32) = unat p + i" and "unat (p + of_nat i) div 4096 = unat p div 4096"
proof -
  have "unat p + 4096 \<le> 4294967296"
    using assms(1) unat_below [of p] by (auto simp: mod_eq_0_iff_dvd elim!: dvdE)
  then show "unat (p + of_nat i :: u32) = unat p + i"
    using assms(2) by (subst unat_plus_small) (simp_all add: unat_of_nat)
  then show "unat (p + of_nat i) div 4096 = unat p div 4096"
    using assms by (auto simp: mod_eq_0_iff_dvd elim!: dvdE)
qed

definition put_page :: "u32 \<Rightarrow> (nat \<Rightarrow> u8) \<Rightarrow> word_mem \<Rightarrow> word_mem" where
  "put_page p f m = for_range 0 4096 (\<lambda>i m. mem_put (p + of_nat i) (f i) m) m"

lemma put_page_byte:
  assumes "unat p mod 4096 = 0" and "j < 4096"
  shows "mem_byte (put_page p f m) (p + of_nat j) = f j"
proof -
  have same: "(p + of_nat i = p + of_nat k) \<longleftrightarrow> i = k" if "i < 4096" "k < 4096" for i k
    using page_offset(1) [OF assms(1)] that by (auto simp: word_unat_eq_iff)
  have "mem_byte (for_range 0 n (\<lambda>i m. mem_put (p + of_nat i) (f i) m) m) (p + of_nat j) = f j"
    if "j < n" "n \<le> 4096" for n
    using that
  proof (induction n)
    case (Suc n)
    then show ?case using same [of j n] by (auto simp: for_range_Suc mem_byte_put less_Suc_eq)
  qed simp
  then show ?thesis using assms(2) by (simp add: put_page_def)
qed

lemma put_page_other:
  assumes "unat p mod 4096 = 0" and "unat w div 4096 \<noteq> unat p div 4096"
  shows "put_page p f m w = m w"
  unfolding put_page_def
  by (rule for_range_rule [where I = "\<lambda>_ m'. m' w = m w"])
    (use assms page_offset(2) [OF assms(1)] in \<open>auto simp: mem_put_other_page\<close>)

lemma mem_byte_cong: "(\<And>w. unat w div 4096 = unat a div 4096 \<Longrightarrow> m w = m' w) \<Longrightarrow> mem_byte m a = mem_byte m' a"
  using word_page [of a] by (simp add: mem_byte_def)

lemma get_physical_frames [simp]: "vmm_get_physical va (s\<lparr>vm_frames := f\<rparr>) = vmm_get_physical va s"
  by (simp add: vmm_get_physical_def Let_def)

text \<open>Writing to a frame that holds data leaves the page tables as they are.\<close>

lemma data_write:
  fixes s :: vmm
  assumes inv: "vmm_inv s" and f: "data_frame s f" and agree: "\<forall>w. unat w div 4096 \<noteq> f \<longrightarrow> m w = vm_words s w"
  defines "s' \<equiv> s\<lparr>vm_words := m\<rparr>"
  shows "vm_present s' i \<longleftrightarrow> vm_present s i" and "vmm_inv s'" and "vmm_get_physical va s' = vmm_get_physical va s"
    and "data_frame s' g \<longleftrightarrow> data_frame s g"
proof -
  note m = agree [rule_format]
  have pde: "vm_pde s' i = vm_pde s i" if "i < 1024" for i
    using m [of "entry_addr KERNEL_DIRECTORY i"] f entry_addr_page [of KERNEL_DIRECTORY i] that
    by (auto simp: vm_pde_def s'_def data_frame_def)
  then show pres: "vm_present s' i \<longleftrightarrow> vm_present s i" for i by (auto simp: vm_present_def)
  have tab: "vm_table s' i = vm_table s i" if "vm_present s i" for i
    using pde that by (simp add: vm_table_def vm_present_def)
  then show "vmm_inv s'" "data_frame s' g \<longleftrightarrow> data_frame s g"
    using inv pres by (auto simp: vmm_inv_def data_frame_def s'_def inj_on_def)
  have "vm_pte s' i j = vm_pte s i j" if "vm_present s i" "j < 1024" for i j
  proof -
    have "unat (entry_addr (frame_bits (vm_pde s i)) j) div 4096 = vm_table s i"
      using that(2) by (simp add: entry_addr_page unat_frame_bits vm_table_def)
    then have "m (entry_addr (frame_bits (vm_pde s i)) j) = vm_words s (entry_addr (frame_bits (vm_pde s i)) j)"
      using f that(1) by (intro m) (auto simp: data_frame_def)
    then show ?thesis using pde [of i] that(1) by (simp add: vm_pte_def s'_def vm_present_def)
  qed
  then show "vmm_get_physical va s' = vmm_get_physical va s"
    using pres index_bounds(2) [of va] by (auto simp: vmm_get_physical_pte)
qed

lemma map_page_entry:
  assumes "vmm_inv v" and "vm_present v (dir_index va) \<or> pmm_used (vm_frames v) \<noteq> {..<TOTAL_PAGES}"
  shows "vm_present (vmm_map_page va pa fl v) (dir_index va)
    \<and> vm_pte (vmm_map_page va pa fl v) (dir_index va) (table_index va) = pa OR PAGE_PRESENT OR fl"
proof (rule ensure_table [OF assms, of pa fl])
  fix v1
  assume v1: "vmm_inv v1" "vm_present v1 (dir_index va)"
    and map: "vmm_map_page va pa fl v =
      v1\<lparr>vm_words := (vm_words v1)(entry_addr (frame_bits (vm_pde v1 (dir_index va))) (table_index va)
           := pa OR PAGE_PRESENT OR fl)\<rparr>"
  note w = write_pte [OF v1 index_bounds(2) [of va], where v = "pa OR PAGE_PRESENT OR fl"]
  show ?thesis using w(2) [OF v1(2) index_bounds(2)] w(3) v1(2) by (simp add: map)
qed

lemma index_frame_bits [simp]: "dir_index (frame_bits va) = dir_index va" "table_index (frame_bits va) = table_index va"
proof -
  have "unat (frame_bits va) div 4096 = unat va div 4096" by (simp add: unat_frame_bits)
  then show "dir_index (frame_bits va) = dir_index va" "table_index (frame_bits va) = table_index va"
    using same_page_iff [of "frame_bits va" va] by auto
qed

text \<open>Taking a frame for data.\<close>

lemma take_frame:
  assumes vm: "vmm_inv v" and room: "card (pmm_used (vm_frames v)) < TOTAL_PAGES"
  obtains p fr where "pmm_alloc_page (vm_frames v) = (of_nat p * PAGE_SIZE, fr)" "of_nat p * PAGE_SIZE \<noteq> (0 :: u32)"
    "unat (of_nat p * PAGE_SIZE :: u32) = p * 4096" "frame_bits (of_nat p * PAGE_SIZE) = of_nat p * PAGE_SIZE"
    "p \<notin> pmm_used (vm_frames v)" "pmm_used fr = insert p (pmm_used (vm_frames v))"
    "card (pmm_used fr) = Suc (card (pmm_used (vm_frames v)))"
    "vmm_inv (v\<lparr>vm_frames := fr\<rparr>)" "data_frame (v\<lparr>vm_frames := fr\<rparr>) p"
proof -
  have fr: "pmm_inv (vm_frames v)" using vm by (simp add: vmm_inv_def)
  then show ?thesis
  proof (cases rule: pmm_alloc_page_cases)
    case full
    with room show ?thesis by simp
  next
    case (page p fr)
    let ?p = "of_nat p * PAGE_SIZE :: u32"
    have p: "unat ?p = p * 4096" by (rule page_of_address [OF page(1)])
    have "p \<ge> 512" by (rule vmm_inv_low [OF vm page(2)])
    then have p0: "?p \<noteq> 0" using p by (metis mult_eq_0_iff not_numeral_le_zero unat_0 zero_neq_numeral)
    have fp: "frame_bits ?p = ?p" using p unat_frame_bits [of ?p] by (simp add: word_unat_eq_iff)
    have "card (pmm_used fr) = Suc (card (pmm_used (vm_frames v)))"
      using page(2,6) pmm_slots.finite_used by (simp add: pmm_used_def)
    from that [OF page(4) p0 p fp page(2,6) this alloc_data_frame [OF vm page(4,1,2,5,6)]] show ?thesis .
  qed
qed

text \<open>
  The pattern of every page that is brought in: take a frame, give it a content, map it. With two frames left
  (one may become a page table) the page translates to the new frame, which has that content, and nothing
  else changes.
\<close>

definition install_page :: "u32 \<Rightarrow> nat \<Rightarrow> u32 \<Rightarrow> pmm \<Rightarrow> word_mem \<Rightarrow> vmm \<Rightarrow> vmm" where
  "install_page va p fl fr m v = vmm_map_page (frame_bits va) (of_nat p * PAGE_SIZE) fl (v\<lparr>vm_frames := fr, vm_words := m\<rparr>)"

definition agrees :: "vmm \<Rightarrow> nat \<Rightarrow> word_mem \<Rightarrow> bool" where
  "agrees v p m \<longleftrightarrow> (\<forall>w. unat w div 4096 \<noteq> p \<longrightarrow> m w = vm_words v w)"

definition fresh_frame :: "vmm \<Rightarrow> u32 \<Rightarrow> nat \<Rightarrow> pmm \<Rightarrow> bool" where
  "fresh_frame v fl p fr \<longleftrightarrow>
     pmm_alloc_page (vm_frames v) = (of_nat p * PAGE_SIZE, fr) \<and> of_nat p * PAGE_SIZE \<noteq> (0 :: u32)
     \<and> unat (of_nat p * PAGE_SIZE :: u32) = p * 4096 \<and> p \<notin> pmm_used (vm_frames v)
     \<and> (\<forall>m va. agrees v p m \<longrightarrow> vmm_inv (install_page va p fl fr m v)
         \<and> vm_present (install_page va p fl fr m v) (dir_index va)
         \<and> vm_pte (install_page va p fl fr m v) (dir_index va) (table_index va) = of_nat p * PAGE_SIZE OR PAGE_PRESENT OR fl
         \<and> (\<forall>vb. vmm_get_physical vb (install_page va p fl fr m v) =
              (if unat vb div 4096 = unat va div 4096 then of_nat p * PAGE_SIZE else vmm_get_physical vb v))
         \<and> (\<forall>a. unat a div 4096 = p \<longrightarrow> vm_words (install_page va p fl fr m v) a = m a)
         \<and> (\<forall>f. data_frame v f \<or> f = p \<longrightarrow> data_frame (install_page va p fl fr m v) f)
         \<and> (\<forall>a. data_frame v (unat a div 4096) \<longrightarrow> vm_words (install_page va p fl fr m v) a = vm_words v a))"

lemma fresh_frameD:
  assumes "fresh_frame v fl p fr"
  shows "pmm_alloc_page (vm_frames v) = (of_nat p * PAGE_SIZE, fr)" "of_nat p * PAGE_SIZE \<noteq> (0 :: u32)"
    "unat (of_nat p * PAGE_SIZE :: u32) = p * 4096" "p \<notin> pmm_used (vm_frames v)"
    "agrees v p m \<Longrightarrow> vmm_inv (install_page va p fl fr m v)"
    "agrees v p m \<Longrightarrow> vmm_get_physical vb (install_page va p fl fr m v) =
         (if unat vb div 4096 = unat va div 4096 then of_nat p * PAGE_SIZE else vmm_get_physical vb v)"
    "agrees v p m \<Longrightarrow> unat a div 4096 = p \<Longrightarrow> vm_words (install_page va p fl fr m v) a = m a"
    "agrees v p m \<Longrightarrow> data_frame v (unat a div 4096) \<Longrightarrow> vm_words (install_page va p fl fr m v) a = vm_words v a"
    "agrees v p m \<Longrightarrow> vm_present (install_page va p fl fr m v) (dir_index va)"
    "agrees v p m \<Longrightarrow> vm_pte (install_page va p fl fr m v) (dir_index va) (table_index va) = of_nat p * PAGE_SIZE OR PAGE_PRESENT OR fl"
    "agrees v p m \<Longrightarrow> data_frame v f \<or> f = p \<Longrightarrow> data_frame (install_page va p fl fr m v) f"
  using assms by (auto simp: fresh_frame_def)

lemma fresh_page:
  assumes vm: "vmm_inv v" and room: "card (pmm_used (vm_frames v)) + 2 \<le> TOTAL_PAGES" and fl: "unat fl < 4096"
  obtains p fr where "fresh_frame v fl p fr"
proof -
  have "card (pmm_used (vm_frames v)) < TOTAL_PAGES" using room by simp
  from take_frame [OF vm this] obtain p fr where page: "pmm_alloc_page (vm_frames v) = (of_nat p * PAGE_SIZE, fr)"
      "of_nat p * PAGE_SIZE \<noteq> (0 :: u32)" "unat (of_nat p * PAGE_SIZE :: u32) = p * 4096"
      "frame_bits (of_nat p * PAGE_SIZE) = of_nat p * PAGE_SIZE" "p \<notin> pmm_used (vm_frames v)"
      "pmm_used fr = insert p (pmm_used (vm_frames v))" "card (pmm_used fr) = Suc (card (pmm_used (vm_frames v)))"
    and v1: "vmm_inv (v\<lparr>vm_frames := fr\<rparr>)" "data_frame (v\<lparr>vm_frames := fr\<rparr>) p" .
  let ?p = "of_nat p * PAGE_SIZE :: u32" and ?v1 = "v\<lparr>vm_frames := fr\<rparr>"
  have "card (pmm_used fr) \<noteq> card {..<TOTAL_PAGES}" using room page(7) by simp
  then have room2: "pmm_used fr \<noteq> {..<TOTAL_PAGES}" by metis
  have grow: "data_frame v f \<Longrightarrow> data_frame ?v1 f" for f
    using page(6) by (auto simp: data_frame_def vm_present_def vm_table_def vm_pde_def)
  have "vmm_inv (install_page va p fl fr m v)
      \<and> vm_present (install_page va p fl fr m v) (dir_index va)
      \<and> vm_pte (install_page va p fl fr m v) (dir_index va) (table_index va) = ?p OR PAGE_PRESENT OR fl
      \<and> (\<forall>vb. vmm_get_physical vb (install_page va p fl fr m v) =
           (if unat vb div 4096 = unat va div 4096 then ?p else vmm_get_physical vb v))
      \<and> (\<forall>a. unat a div 4096 = p \<longrightarrow> vm_words (install_page va p fl fr m v) a = m a)
      \<and> (\<forall>f. data_frame v f \<or> f = p \<longrightarrow> data_frame (install_page va p fl fr m v) f)
      \<and> (\<forall>a. data_frame v (unat a div 4096) \<longrightarrow> vm_words (install_page va p fl fr m v) a = vm_words v a)"
    if m: "\<forall>w. unat w div 4096 \<noteq> p \<longrightarrow> m w = vm_words v w" for m va
  proof (intro conjI allI impI)
    from m have "\<forall>w. unat w div 4096 \<noteq> p \<longrightarrow> m w = vm_words ?v1 w" by simp
    note v2 = data_write [OF v1 this]
    have room3: "vm_present (?v1\<lparr>vm_words := m\<rparr>) (dir_index (frame_bits va))
        \<or> pmm_used (vm_frames (?v1\<lparr>vm_words := m\<rparr>)) \<noteq> {..<TOTAL_PAGES}" using room2 by simp
    have va: "unat (frame_bits va) div 4096 = unat va div 4096" by (simp add: unat_frame_bits)
    note map = map_page_effect [OF v2(2) fl room3, where pa = ?p]
    show "vmm_inv (install_page va p fl fr m v)" using map by (simp add: install_page_def)
    show "vm_present (install_page va p fl fr m v) (dir_index va)"
      "vm_pte (install_page va p fl fr m v) (dir_index va) (table_index va) = ?p OR PAGE_PRESENT OR fl"
      using map_page_entry [OF v2(2) room3, where pa = ?p and fl = fl] by (simp_all add: install_page_def)
    show "vmm_get_physical vb (install_page va p fl fr m v) =
        (if unat vb div 4096 = unat va div 4096 then ?p else vmm_get_physical vb v)" for vb
      using map [of vb] v2(3) by (simp add: install_page_def va page(4))
    show "data_frame (install_page va p fl fr m v) f" if "data_frame v f \<or> f = p" for f
      unfolding install_page_def using map_page_data [OF v2(2) room3] v2(4) v1(2) grow that by auto
    note same = map_page_memory [OF v2(2) room3]
    show "vm_words (install_page va p fl fr m v) a = m a" if "unat a div 4096 = p" for a
      using same [of a] v1(2) v2(4) that by (simp add: install_page_def)
    show "vm_words (install_page va p fl fr m v) a = vm_words v a" if "data_frame v (unat a div 4096)" for a
    proof -
      have "unat a div 4096 \<noteq> p" using that page(5) by (auto simp: data_frame_def)
      then show ?thesis using same [of a] grow [OF that] v2(4) m by (simp add: install_page_def)
    qed
  qed
  with page(1-3,5) have "fresh_frame v fl p fr" unfolding fresh_frame_def agrees_def by blast
  then show ?thesis by (rule that)
qed

subsection \<open>Slots\<close>

interpretation sw: slot_bitmap "bm_test :: u32 list \<Rightarrow> nat \<Rightarrow> bool" bm_set bm_clear "bm_used cap" "\<lambda>b. cap \<le> length b * 32" cap
  for cap
  by unfold_locales (auto simp: bm_test_set bm_test_clear bm_used_def)

text \<open>
  Every area has a bitmap large enough for its pages, slot numbers that fit in the 24 bits of the encoding, and
  a free count that is the number of clear bits; the first area is the simulated one.
\<close>

definition area_used :: "swap_area \<Rightarrow> nat set" where
  "area_used a = bm_used (unat (sa_total_pages a)) (sa_bitmap a)"

definition area_ok :: "swap_area \<Rightarrow> bool" where
  "area_ok a \<longleftrightarrow> unat (sa_total_pages a) \<le> length (sa_bitmap a) * 32 \<and> unat (sa_total_pages a) \<le> 2 ^ 24
     \<and> unat (sa_free_pages a) + card (area_used a) = unat (sa_total_pages a)"

definition swap_inv :: "swap \<Rightarrow> bool" where
  "swap_inv s \<longleftrightarrow> swap_initialized s \<and> 0 < num_swap_areas s \<and> num_swap_areas s \<le> MAX_SWAP_AREAS
     \<and> (\<forall>i < num_swap_areas s. area_ok (swap_areas s i))
     \<and> sa_device (swap_areas s 0) = - 1 \<and> sa_total_pages (swap_areas s 0) = 256"

definition slots_used :: "swap \<Rightarrow> (nat \<times> nat) set" where
  "slots_used s = {(i, k). i < num_swap_areas s \<and> k \<in> area_used (swap_areas s i)}"

definition slots_all :: "swap \<Rightarrow> (nat \<times> nat) set" where
  "slots_all s = {(i, k). i < num_swap_areas s \<and> k < unat (sa_total_pages (swap_areas s i))}"

definition slot_code :: "nat \<Rightarrow> nat \<Rightarrow> u32" where
  "slot_code i k = push_bit 24 (of_nat i) OR of_nat k"

lemma bitmap_find_free_first:
  "n \<le> length bm * 32 \<Longrightarrow> bitmap_find_free bm n i = Some (first_from (\<lambda>i. \<not> bm_test bm i) i n)"
proof (induction bm n i rule: bitmap_find_free.induct)
  case (1 bm n i)
  then show ?case
    by (subst bitmap_find_free.simps, subst first_from.simps) (simp add: less_mult_imp_div_less)
qed

lemma slot_code_add:
  assumes "i < 4" and "k < 2 ^ 24"
  shows "unat (slot_code i k) = i * 2 ^ 24 + k"
proof -
  have low: "(of_nat k :: u32) = take_bit 24 (of_nat k)"
    using assms(2) by (metis take_bit_nat_eq_self take_bit_of_nat)
  have "push_bit 24 (of_nat i) + (of_nat k :: u32) = slot_code i k"
    unfolding slot_code_def by (rule disjunctive_add) (subst low, auto simp: bit_simps)
  moreover have "push_bit 24 (of_nat i) + (of_nat k :: u32) = of_nat (i * 2 ^ 24 + k)"
    by (simp add: push_bit_eq_mult)
  moreover have "i * 2 ^ 24 + k < 4 * 2 ^ 24" using assms by simp
  ultimately show ?thesis using unat_of_nat_small [of "i * 2 ^ 24 + k", where 'a = 32] by simp
qed

lemma slot_code_fields:
  assumes "i < 4" and "k < 2 ^ 24"
  shows "slot_area (slot_code i k) = i" and "slot_page (slot_code i k) = k" and "slot_code i k \<noteq> NO_SLOT"
proof -
  have masks: "(0xFF :: u32) = mask 8" "(0x00FFFFFF :: u32) = mask 24" by (simp_all add: mask_eq_exp_minus_1)
  have code: "unat (slot_code i k) = i * 2 ^ 24 + k" by (rule slot_code_add [OF assms])
  show "slot_area (slot_code i k) = i"
    using assms code by (simp add: slot_area_def masks flip: take_bit_eq_mask)
      (simp add: take_bit_eq_mod drop_bit_eq_div unat_mod unat_div)
  show "slot_page (slot_code i k) = k"
    using assms code by (simp add: slot_page_def masks flip: take_bit_eq_mask) (simp add: take_bit_eq_mod unat_mod)
  show "slot_code i k \<noteq> NO_SLOT" using assms code by auto
qed

definition take_slot :: "nat \<Rightarrow> nat \<Rightarrow> swap \<Rightarrow> swap" where
  "take_slot i k = upd_area (\<lambda>a. a\<lparr>sa_bitmap := bm_set (sa_bitmap a) k, sa_free_pages := sa_free_pages a - 1\<rparr>) i"

definition give_slot :: "nat \<Rightarrow> nat \<Rightarrow> swap \<Rightarrow> swap" where
  "give_slot i k = upd_area (\<lambda>a. a\<lparr>sa_bitmap := bm_clear (sa_bitmap a) k, sa_free_pages := sa_free_pages a + 1\<rparr>) i"

lemma area_okD:
  assumes "area_ok a"
  shows "unat (sa_total_pages a) \<le> length (sa_bitmap a) * 32" and "unat (sa_total_pages a) \<le> 2 ^ 24"
    and "unat (sa_free_pages a) + card (area_used a) = unat (sa_total_pages a)"
    and "area_used a \<subseteq> {..<unat (sa_total_pages a)}" and "finite (area_used a)"
    and "sa_free_pages a = 0 \<longleftrightarrow> area_used a = {..<unat (sa_total_pages a)}"
proof -
  show *: "unat (sa_total_pages a) \<le> length (sa_bitmap a) * 32" "unat (sa_total_pages a) \<le> 2 ^ 24"
    "unat (sa_free_pages a) + card (area_used a) = unat (sa_total_pages a)"
    using assms by (auto simp: area_ok_def)
  show sub: "area_used a \<subseteq> {..<unat (sa_total_pages a)}" unfolding area_used_def by (rule sw.used_subset)
  show "finite (area_used a)" unfolding area_used_def by (rule sw.finite_used)
  have "sa_free_pages a = 0 \<longleftrightarrow> card (area_used a) = card {..<unat (sa_total_pages a)}"
    using *(3) by (simp add: word_unat_eq_iff) arith
  then show "sa_free_pages a = 0 \<longleftrightarrow> area_used a = {..<unat (sa_total_pages a)}"
    by (metis card_subset_eq finite_lessThan sub)
qed

lemma swap_invD:
  assumes "swap_inv s"
  shows "swap_initialized s" and "i < num_swap_areas s \<Longrightarrow> area_ok (swap_areas s i)" and "num_swap_areas s \<le> 4"
    and "0 < num_swap_areas s" and "sa_device (swap_areas s 0) = - 1" and "sa_total_pages (swap_areas s 0) = 256"
  using assms by (auto simp: swap_inv_def)

lemma area_take:
  assumes "area_ok a" and "k < unat (sa_total_pages a)" and "k \<notin> area_used a"
  defines "a' \<equiv> a\<lparr>sa_bitmap := bm_set (sa_bitmap a) k, sa_free_pages := sa_free_pages a - 1\<rparr>"
  shows "area_ok a'" and "area_used a' = insert k (area_used a)"
proof -
  note ok = area_okD [OF assms(1)]
  show used: "area_used a' = insert k (area_used a)"
    unfolding area_used_def a'_def using sw.used_mark [OF ok(1) assms(2)] by simp
  have "sa_free_pages a \<noteq> 0" using assms(2,3) ok(6) by auto
  then have "unat (sa_free_pages a - 1) = unat (sa_free_pages a) - 1" "0 < unat (sa_free_pages a)"
    by (simp_all add: unat_dec_small unat_gt_0)
  then show "area_ok a'"
    using ok(1-3,5) assms(3) unfolding area_ok_def used by (simp add: a'_def)
qed

lemma area_give:
  assumes "area_ok a" and "k \<in> area_used a"
  defines "a' \<equiv> a\<lparr>sa_bitmap := bm_clear (sa_bitmap a) k, sa_free_pages := sa_free_pages a + 1\<rparr>"
  shows "area_ok a'" and "area_used a' = area_used a - {k}"
proof -
  note ok = area_okD [OF assms(1)]
  have k: "k < unat (sa_total_pages a)" using ok(4) assms(2) by auto
  show used: "area_used a' = area_used a - {k}"
    unfolding area_used_def a'_def using sw.used_release [OF ok(1) k] by simp
  have "0 < card (area_used a)" using ok(5) assms(2) by (auto simp: card_gt_0_iff)
  then have "unat (sa_free_pages a + 1) = unat (sa_free_pages a) + 1"
    using ok(2,3) by (subst unat_plus_small) simp_all
  then show "area_ok a'"
    using ok(1-3,5) assms(2) \<open>0 < card (area_used a)\<close> unfolding area_ok_def used by (simp add: a'_def)
qed

lemma take_slot_spec:
  assumes "swap_inv s" and "i < num_swap_areas s" and "k < unat (sa_total_pages (swap_areas s i))"
    and "k \<notin> area_used (swap_areas s i)"
  shows "swap_inv (take_slot i k s)" and "slots_used (take_slot i k s) = insert (i, k) (slots_used s)"
  using assms area_take [OF swap_invD(2) [OF assms(1,2)] assms(3,4)]
  by (auto simp: swap_inv_def slots_used_def take_slot_def upd_area_def split: if_splits)

lemma give_slot_spec:
  assumes "swap_inv s" and "(i, k) \<in> slots_used s"
  shows "swap_inv (give_slot i k s)" and "slots_used (give_slot i k s) = slots_used s - {(i, k)}"
proof -
  have i: "i < num_swap_areas s" "k \<in> area_used (swap_areas s i)" using assms(2) by (auto simp: slots_used_def)
  show "swap_inv (give_slot i k s)" "slots_used (give_slot i k s) = slots_used s - {(i, k)}"
    using assms i area_give [OF swap_invD(2) [OF assms(1) i(1)] i(2)]
    by (auto simp: swap_inv_def slots_used_def give_slot_def upd_area_def split: if_splits)
qed

definition area_full :: "swap \<Rightarrow> nat \<Rightarrow> bool" where
  "area_full s i \<longleftrightarrow> area_used (swap_areas s i) = {..<unat (sa_total_pages (swap_areas s i))}"

lemma all_from_Suc: "P i \<Longrightarrow> (\<forall>j. Suc i \<le> j \<and> j < n \<longrightarrow> P j) \<Longrightarrow> \<forall>j. i \<le> j \<and> j < n \<longrightarrow> P j"
  by (metis Suc_leI le_neq_implies_less)

lemma alloc_slot_from_cases:
  assumes inv: "swap_inv s"
  shows "(alloc_slot_from i s = Some (NO_SLOT, s)
        \<and> (\<forall>j. i \<le> j \<and> j < num_swap_areas s \<longrightarrow> area_full s j))
    \<or> (\<exists>j k. i \<le> j \<and> j < num_swap_areas s \<and> k < unat (sa_total_pages (swap_areas s j)) \<and> k \<notin> area_used (swap_areas s j)
        \<and> (\<forall>j'. i \<le> j' \<and> j' < j \<longrightarrow> area_full s j')
        \<and> alloc_slot_from i s = Some (slot_code j k, take_slot j k s))"
  using inv
proof (induction i s rule: alloc_slot_from.induct)
  case (1 i s)
  let ?a = "swap_areas s i" and ?n = "unat (sa_total_pages (swap_areas s i))"
  show ?case
  proof (cases "i < num_swap_areas s")
    case False
    then show ?thesis by (intro disjI1) (auto simp: alloc_slot_from.simps [of i s])
  next
    case True
    note ok = area_okD [OF swap_invD(2) [OF "1.prems" True]]
    have find: "bitmap_find_free (sa_bitmap ?a) ?n 0 = Some (first_from (\<lambda>i. \<not> bm_test (sa_bitmap ?a) i) 0 ?n)"
      using ok(1) by (rule bitmap_find_free_first)
    show ?thesis
    proof (cases "area_full s i")
      case full: True
      then have "alloc_slot_from i s = alloc_slot_from (Suc i) s"
        using True ok(6) by (simp add: area_full_def alloc_slot_from.simps [of i s])
      moreover have "sa_free_pages ?a = 0" using full ok(6) by (simp add: area_full_def)
      note "1.IH"(1) [OF True refl this "1.prems"]
      ultimately consider
          "alloc_slot_from i s = Some (NO_SLOT, s)" "\<forall>j. Suc i \<le> j \<and> j < num_swap_areas s \<longrightarrow> area_full s j"
        | j k where "Suc i \<le> j" "j < num_swap_areas s" "k < unat (sa_total_pages (swap_areas s j))"
            "k \<notin> area_used (swap_areas s j)" "\<forall>j'. Suc i \<le> j' \<and> j' < j \<longrightarrow> area_full s j'"
            "alloc_slot_from i s = Some (slot_code j k, take_slot j k s)"
        by (elim disjE exE conjE) metis+
      then show ?thesis
        by cases (use all_from_Suc [where P = "area_full s", OF full] in \<open>blast dest: Suc_leD\<close>)+
    next
      case False
      then obtain k where k: "first_from (\<lambda>i. \<not> bm_test (sa_bitmap ?a) i) 0 ?n = Some k"
        using sw.first_free_None [of "sa_bitmap ?a" ?n] by (auto simp: area_used_def area_full_def)
      then have "k < ?n" "k \<notin> area_used ?a"
        using sw.first_free_Some [of "sa_bitmap ?a" ?n k] by (auto simp: area_used_def)
      moreover have "alloc_slot_from i s = Some (slot_code i k, take_slot i k s)"
        using True False ok(6) find k by (simp add: area_full_def alloc_slot_from.simps [of i s] Let_def slot_code_def take_slot_def)
      ultimately show ?thesis using True by (intro disjI2) (rule exI [of _ i], rule exI [of _ k], auto)
    qed
  qed
qed

lemma swap_alloc_slot_cases:
  assumes "swap_inv s"
  obtains (full) "swap_alloc_slot s = Some (NO_SLOT, s)" "slots_used s = slots_all s"
  | (slot) i k where "i < num_swap_areas s" "k < unat (sa_total_pages (swap_areas s i))" "(i, k) \<notin> slots_used s"
      "\<forall>j < i. area_full s j" "swap_alloc_slot s = Some (slot_code i k, take_slot i k s)"
      "swap_inv (take_slot i k s)" "slots_used (take_slot i k s) = insert (i, k) (slots_used s)"
proof -
  have *: "swap_alloc_slot s = alloc_slot_from 0 s" using swap_invD(1) [OF assms] by (simp add: swap_alloc_slot_def)
  from alloc_slot_from_cases [OF assms, of 0] show ?thesis
  proof (elim disjE exE conjE)
    assume "alloc_slot_from 0 s = Some (NO_SLOT, s)" "\<forall>j. 0 \<le> j \<and> j < num_swap_areas s \<longrightarrow> area_full s j"
    then show ?thesis using * by (intro full) (auto simp: slots_used_def slots_all_def area_full_def)
  next
    fix i k
    assume "i < num_swap_areas s" "k < unat (sa_total_pages (swap_areas s i))" "k \<notin> area_used (swap_areas s i)"
      "\<forall>j. 0 \<le> j \<and> j < i \<longrightarrow> area_full s j" "alloc_slot_from 0 s = Some (slot_code i k, take_slot i k s)"
    then show ?thesis
      using * take_slot_spec [OF assms, of i k] by (intro slot [of i k]) (auto simp: slots_used_def)
  qed
qed

lemma swap_free_slot_in:
  assumes "swap_inv s" and "i < num_swap_areas s" and "k < unat (sa_total_pages (swap_areas s i))"
  shows "swap_free_slot (slot_code i k) s = Some (give_slot i k s)"
proof -
  note ok = area_okD [OF swap_invD(2) [OF assms(1,2)]]
  have "k < 2 ^ 24" "k div 32 < length (sa_bitmap (swap_areas s i))"
    using assms(3) ok(1,2) by (auto simp: less_mult_imp_div_less)
  then show ?thesis
    using assms(2,3) swap_invD(3) [OF assms(1)] slot_code_fields [of i k] by (simp add: swap_free_slot_def give_slot_def Let_def)
qed

lemma swap_free_slot_used:
  assumes "swap_inv s" and "(i, k) \<in> slots_used s"
  shows "swap_free_slot (slot_code i k) s = Some (give_slot i k s)"
  using assms area_okD(4) [OF swap_invD(2) [OF assms(1)]] by (intro swap_free_slot_in) (auto simp: slots_used_def)

subsection \<open>Transfer\<close>

lemma storage_offset:
  assumes "k < 256"
  shows "unat (of_nat k * PAGE_SIZE :: u32) = k * 4096"
    and "of_nat k * PAGE_SIZE + PAGE_SIZE \<le> SWAP_STORAGE_SIZE"
proof -
  show *: "unat (of_nat k * PAGE_SIZE :: u32) = k * 4096" by (rule page_of_address) (use assms in simp)
  have "unat (of_nat k * PAGE_SIZE + PAGE_SIZE :: u32) = k * 4096 + 4096"
    using * assms by (subst unat_plus_small) simp_all
  then show "of_nat k * PAGE_SIZE + PAGE_SIZE \<le> SWAP_STORAGE_SIZE"
    using assms by (simp add: word_le_nat_alt)
qed

definition store_page :: "nat \<Rightarrow> u32 \<Rightarrow> swap \<Rightarrow> swap" where
  "store_page k phys s = s\<lparr>swap_storage := for_range 0 4096
     (\<lambda>i st. st(k * 4096 + i := mem_byte (vm_words (sw_vmm s)) (phys + of_nat i))) (swap_storage s)\<rparr>"

lemma store_page_byte:
  "swap_storage (store_page k phys s) j =
     (if k * 4096 \<le> j \<and> j < k * 4096 + 4096 then mem_byte (vm_words (sw_vmm s)) (phys + of_nat (j - k * 4096))
      else swap_storage s j)"
proof -
  have "for_range 0 n (\<lambda>i st. st(k * 4096 + i := f i)) st j =
      (if k * 4096 \<le> j \<and> j < k * 4096 + n then f (j - k * 4096) else st j)" for n f and st :: "nat \<Rightarrow> u8"
    by (induction n) (auto simp: for_range_skip for_range_Suc)
  then show ?thesis by (simp add: store_page_def)
qed

lemma swap_write_page_embedded:
  assumes "swap_inv s" and "k < 256"
  shows "swap_write_page (slot_code 0 k) phys s = (0, store_page k phys s)"
  using assms swap_invD(4,5) [OF assms(1)] slot_code_fields [of 0 k] storage_offset [OF assms(2)]
  by (simp add: swap_write_page_def Let_def store_page_def)

lemma swap_read_page_embedded:
  assumes "swap_inv s" and "k < 256"
  shows "swap_read_page (slot_code 0 k) phys s =
    (0, s\<lparr>sw_vmm := (sw_vmm s)\<lparr>vm_words := put_page phys (\<lambda>i. swap_storage s (k * 4096 + i)) (vm_words (sw_vmm s))\<rparr>\<rparr>)"
  using assms swap_invD(4,5) [OF assms(1)] slot_code_fields [of 0 k] storage_offset [OF assms(2)]
  by (simp add: swap_read_page_def Let_def put_page_def)

definition swap_pte :: "u32 \<Rightarrow> u32" where
  "swap_pte slot = push_bit 12 slot OR PTE_SWAPPED"

lemma swap_pte_slot: "drop_bit 12 (swap_pte w) = take_bit 20 w"
  and swap_pte_flags: "swap_pte w AND PTE_SWAPPED \<noteq> 0" "swap_pte w AND PAGE_PRESENT = 0"
proof -
  have flag: "PTE_SWAPPED = 2 ^ 9" by simp
  have nine: "bit PTE_SWAPPED n \<longleftrightarrow> n = 9" for n
    unfolding flag by (simp only: bit_exp_iff) auto
  have bits: "bit (swap_pte w) n \<longleftrightarrow> 12 \<le> n \<and> n < 32 \<and> bit w (n - 12) \<or> n = 9" for n
    unfolding swap_pte_def by (simp only: bit_or_iff bit_push_bit_iff nine) auto
  show "drop_bit 12 (swap_pte w) = take_bit 20 w"
    by (rule bit_word_eqI) (auto simp: bit_drop_bit_eq bit_take_bit_iff bits)
  have "bit (swap_pte w AND PTE_SWAPPED) 9" by (simp only: bit_and_iff bits nine simp_thms)
  then show "swap_pte w AND PTE_SWAPPED \<noteq> 0" by auto
  have "\<not> bit (swap_pte w) 0" by (simp only: bits) simp
  then show "swap_pte w AND PAGE_PRESENT = 0"
    using and_mask_bit_iff [of 0 "swap_pte w"] by simp
qed

lemma slot_code_low:
  assumes "k < 256"
  shows "take_bit 20 (slot_code 0 k) = slot_code 0 k"
  using assms slot_code_add [of 0 k] by (simp add: word_unat_eq_iff take_bit_eq_mod unat_mod)

lemma swap_inv_vmm [simp]: "swap_inv (s\<lparr>sw_vmm := v\<rparr>) = swap_inv s" "slots_used (s\<lparr>sw_vmm := v\<rparr>) = slots_used s"
  by (simp_all add: swap_inv_def slots_used_def)

lemma swap_inv_counts [simp]:
  "swap_inv (s\<lparr>pages_swapped_out := n\<rparr>) = swap_inv s" "slots_used (s\<lparr>pages_swapped_out := n\<rparr>) = slots_used s"
  "swap_inv (s\<lparr>pages_swapped_in := n\<rparr>) = swap_inv s" "slots_used (s\<lparr>pages_swapped_in := n\<rparr>) = slots_used s"
  by (simp_all add: swap_inv_def slots_used_def)

lemma swap_inv_store [simp]:
  "swap_inv (store_page k phys s) = swap_inv s" "slots_used (store_page k phys s) = slots_used s"
  "sw_vmm (store_page k phys s) = sw_vmm s"
  by (simp_all add: swap_inv_def slots_used_def store_page_def)

lemma slot_frame [simp]:
  "sw_vmm (take_slot i k s) = sw_vmm s" "swap_storage (take_slot i k s) = swap_storage s"
  "sw_vmm (give_slot i k s) = sw_vmm s" "swap_storage (give_slot i k s) = swap_storage s"
  by (simp_all add: take_slot_def give_slot_def upd_area_def)

lemma swap_out_page_effect:
  assumes inv: "swap_inv s" and frames: "pmm_inv (vm_frames (sw_vmm s))" and space: "\<not> area_full s 0"
    and e: "e = vm_words (sw_vmm s) p" "e AND PAGE_PRESENT \<noteq> 0" "unat e < 134217728"
  obtains k s' where "k < 256" "(0, k) \<notin> slots_used s" "swap_out_page va (Some p) s = Some (0, s')" "swap_inv s'"
    "slots_used s' = insert (0, k) (slots_used s)"
    "vm_words (sw_vmm s') = (vm_words (sw_vmm s))(p := swap_pte (slot_code 0 k))"
    "pmm_inv (vm_frames (sw_vmm s'))" "pmm_used (vm_frames (sw_vmm s')) = pmm_used (vm_frames (sw_vmm s)) - {unat e div 4096}"
    "\<forall>i < 4096. swap_storage s' (k * 4096 + i) = mem_byte (vm_words (sw_vmm s)) (frame_bits e + of_nat i)"
proof (cases rule: swap_alloc_slot_cases [OF inv])
  case 1
  with space swap_invD(4) [OF inv] show ?thesis
    by (auto simp: slots_used_def slots_all_def area_full_def set_eq_iff)
next
  case (2 i k)
  have i: "i = 0" using 2(4) space by auto
  have k: "k < 256" using 2(2) swap_invD(6) [OF inv] by (simp add: i)
  let ?s1 = "store_page k (frame_bits e) (take_slot 0 k s)"
  let ?s2 = "?s1\<lparr>sw_vmm := (sw_vmm s)\<lparr>vm_words := (vm_words (sw_vmm s))(p := swap_pte (slot_code 0 k))\<rparr>\<rparr>"
  have page: "unat (frame_bits e) div 4096 = unat e div 4096" by (simp add: unat_frame_bits)
  have "unat (frame_bits e) < 134217728" using e(3) by (simp add: unat_frame_bits)
  then obtain f where f: "pmm_free_page (frame_bits e) (vm_frames (sw_vmm s)) = Some f" "pmm_inv f"
      "pmm_used f = pmm_used (vm_frames (sw_vmm s)) - {unat e div 4096}"
    using pmm_free_page_spec [OF frames, of "frame_bits e"] by (auto simp: page)
  have "swap_write_page (slot_code 0 k) (frame_bits e) (take_slot 0 k s) = (0, ?s1)"
    using 2(6) k unfolding i by (rule swap_write_page_embedded)
  moreover have "sw_free_frame (frame_bits e) ?s2 = Some (?s2\<lparr>sw_vmm := (sw_vmm ?s2)\<lparr>vm_frames := f\<rparr>\<rparr>)"
    using f(1) by (simp add: sw_free_frame_def)
  ultimately have "swap_out_page va (Some p) s =
      Some (0, ?s2\<lparr>sw_vmm := (sw_vmm ?s2)\<lparr>vm_frames := f\<rparr>, pages_swapped_out := pages_swapped_out ?s2 + 1\<rparr>)"
    using e swap_invD(1) [OF inv] 2(5) k slot_code_fields(3) [of 0 k]
    by (simp add: swap_out_page_def i Let_def swap_pte_def)
  note out = this
  show ?thesis
    by (rule that [OF k _ out]) (use 2(3,6,7) k f in \<open>simp_all add: i store_page_byte\<close>)
qed

lemma swap_in_page_effect:
  assumes inv: "swap_inv s" and k: "k < 256" "(0, k) \<in> slots_used s"
    and vm: "vmm_inv (sw_vmm s)" and room: "card (pmm_used (vm_frames (sw_vmm s))) + 2 \<le> TOTAL_PAGES"
  obtains s' where "swap_in_page va (swap_pte (slot_code 0 k)) s = Some (0, s')" "swap_inv s'"
    "slots_used s' = slots_used s - {(0, k)}" "vmm_inv (sw_vmm s')"
    "\<forall>vb. unat vb div 4096 \<noteq> unat va div 4096 \<longrightarrow> vmm_get_physical vb (sw_vmm s') = vmm_get_physical vb (sw_vmm s)"
    "\<forall>i < 4096. mem_byte (vm_words (sw_vmm s')) (vmm_get_physical va (sw_vmm s') + of_nat i) = swap_storage s (k * 4096 + i)"
    "\<forall>a. data_frame (sw_vmm s) (unat a div 4096) \<longrightarrow> vm_words (sw_vmm s') a = vm_words (sw_vmm s) a"
    "\<forall>f. data_frame (sw_vmm s) f \<longrightarrow> data_frame (sw_vmm s') f" "vm_present (sw_vmm s') (dir_index va)"
    "swap_areas s' = swap_areas (give_slot 0 k s)"
proof -
  let ?v = "sw_vmm s" and ?fl = "PAGE_PRESENT OR PAGE_WRITE OR PAGE_USER" and ?st = "\<lambda>i. swap_storage s (k * 4096 + i)"
  have "unat ?fl < 4096" by simp
  from fresh_page [OF vm room this] obtain p fr where fresh: "fresh_frame ?v ?fl p fr" .
  note p = fresh_frameD(1-4) [OF fresh] and inst = fresh_frameD(5-11) [OF fresh]
  let ?p = "of_nat p * PAGE_SIZE :: u32"
  define m where "m = put_page ?p ?st (vm_words ?v)"
  have keep: "agrees ?v p m" using p(3) by (simp add: agrees_def m_def put_page_other)
  define v3 where "v3 = install_page va p ?fl fr m ?v"
  have v3: "vmm_inv v3" "vmm_get_physical va v3 = ?p"
    "unat vb div 4096 \<noteq> unat va div 4096 \<Longrightarrow> vmm_get_physical vb v3 = vmm_get_physical vb ?v" for vb
    using inst(1,2) [OF keep] by (simp_all add: v3_def)
  have bytes: "mem_byte (vm_words v3) (?p + of_nat i) = ?st i" if "i < 4096" for i
  proof -
    have "mem_byte (vm_words v3) (?p + of_nat i) = mem_byte m (?p + of_nat i)"
      by (rule mem_byte_cong) (use that p(3) page_offset(2) [of ?p i] inst(3) [OF keep] in \<open>simp add: v3_def\<close>)
    then show ?thesis unfolding m_def using that p(3) by (simp add: put_page_byte)
  qed
  let ?s1 = "s\<lparr>sw_vmm := ?v\<lparr>vm_frames := fr, vm_words := m\<rparr>\<rparr>"
  have "swap_read_page (slot_code 0 k) ?p (s\<lparr>sw_vmm := ?v\<lparr>vm_frames := fr\<rparr>\<rparr>) = (0, ?s1)"
    using swap_read_page_embedded [of "s\<lparr>sw_vmm := ?v\<lparr>vm_frames := fr\<rparr>\<rparr>" k ?p] inv k(1) by (simp add: m_def)
  moreover have "swap_free_slot (slot_code 0 k) ?s1 = Some (give_slot 0 k ?s1)"
    using inv k(2) by (intro swap_free_slot_used) simp_all
  ultimately have out: "swap_in_page va (swap_pte (slot_code 0 k)) s =
      Some (0, (give_slot 0 k ?s1)\<lparr>sw_vmm := v3, pages_swapped_in := pages_swapped_in (give_slot 0 k ?s1) + 1\<rparr>)"
    using swap_invD(1) [OF inv] p(1,2) swap_pte_flags(1) [of "slot_code 0 k"]
    by (simp add: swap_in_page_def sw_alloc_frame_def Let_def swap_pte_slot slot_code_low k(1) v3_def install_page_def)
  have ar: "swap_areas (give_slot 0 k ?s1) = swap_areas (give_slot 0 k s)" by (simp add: give_slot_def upd_area_def)
  show ?thesis
    by (rule that [OF out])
      (use give_slot_spec [of ?s1 0 k] inv k(2) v3 bytes ar inst(4,5,7) [OF keep, where va = va, folded v3_def] in simp_all)
qed

subsection \<open>Starting up and adding areas\<close>

lemma area_used_zero: "unat (sa_total_pages a) \<le> n * 32 \<Longrightarrow> sa_bitmap a = replicate n 0 \<Longrightarrow> area_used a = {}"
  using bm_test_zero [of _ n, where 'a = 32] by (auto simp: area_used_def bm_used_def)

lemma swap_init_inv:
  assumes "\<not> swap_initialized s"
  shows "swap_inv (swap_init s)" and "slots_used (swap_init s) = {}" and "sw_vmm (swap_init s) = sw_vmm s"
proof -
  let ?s1 = "for_range 0 MAX_SWAP_AREAS (\<lambda>i. upd_area (\<lambda>_. \<lparr>sa_start_block = 0, sa_total_pages = 0, sa_free_pages = 0,
      sa_bitmap = [], sa_device = 0, sa_flags = 0\<rparr>) i) s"
  have s1: "sw_vmm ?s1 = sw_vmm s"
    by (rule for_range_rule [where I = "\<lambda>_ s'. sw_vmm s' = sw_vmm s"]) (simp_all add: upd_area_def)
  then show "sw_vmm (swap_init s) = sw_vmm s" using assms by (simp add: swap_init_def Let_def upd_area_def)
  have used: "area_used (swap_areas (swap_init s) 0) = {}"
    using assms by (intro area_used_zero [of _ 128]) (simp_all add: swap_init_def Let_def upd_area_def)
  then show "slots_used (swap_init s) = {}" using assms by (auto simp: slots_used_def swap_init_def Let_def upd_area_def)
  have "area_ok (swap_areas (swap_init s) 0)"
    unfolding area_ok_def used using assms by (simp add: swap_init_def Let_def upd_area_def)
  then show "swap_inv (swap_init s)" using assms by (simp add: swap_inv_def swap_init_def Let_def upd_area_def)
qed

lemma swap_add_area_inv:
  assumes "swap_inv s"
  shows "swap_inv (snd (swap_add_area ok dev start sz s)) \<and> slots_used (snd (swap_add_area ok dev start sz s)) = slots_used s"
proof (cases "fst (swap_add_area ok dev start sz s) = 0")
  case False
  then show ?thesis using assms by (auto simp: swap_add_area_def Let_def split: if_splits)
next
  case True
  define pages where "pages = (if sz div PAGE_SIZE > SWAP_MAX_PAGES then SWAP_MAX_PAGES else sz div PAGE_SIZE)"
  define a where "a = \<lparr>sa_start_block = start, sa_total_pages = pages, sa_free_pages = pages,
      sa_bitmap = replicate (unat ((pages + 31) div 32)) 0, sa_device = dev, sa_flags = 0\<rparr>"
  have out: "snd (swap_add_area ok dev start sz s) =
      (upd_area (\<lambda>_. a) (num_swap_areas s) s)\<lparr>num_swap_areas := Suc (num_swap_areas s)\<rparr>" "num_swap_areas s < 4"
    using True unfolding swap_add_area_def a_def pages_def Let_def by (auto split: if_splits)
  have pages: "unat pages \<le> 16384" unfolding pages_def by (auto simp: word_less_nat_alt)
  then have "unat (pages + 31) = unat pages + 31" by (subst unat_plus_small) simp_all
  then have len: "unat pages \<le> unat ((pages + 31) div 32) * 32" by (simp add: unat_div)
  have used: "area_used a = {}"
    using len by (intro area_used_zero [of _ "unat ((pages + 31) div 32)"]) (simp_all add: a_def)
  moreover have "area_ok a" unfolding area_ok_def used using len pages by (simp add: a_def)
  ultimately show ?thesis
    using assms out(2) unfolding out(1)
    by (auto simp: swap_inv_def slots_used_def upd_area_def less_Suc_eq split: if_splits)
qed

subsection \<open>Properties\<close>

text \<open>
  C14. A page that is swapped out and swapped in again has its content back. \<open>swap_out_page\<close> succeeds as long as
  the simulated area has a free slot, takes such a slot and gives the frame back to the frame allocator;
  whatever happens to memory, page tables and frames in between, \<open>swap_in_page\<close> on the entry it left
  succeeds with two free frames, maps the page to a frame that holds byte for byte what the page held, leaves
  the translation of every other page alone and frees the slot.
\<close>

theorem swap_roundtrip:
  assumes "swap_inv s" and "pmm_inv (vm_frames (sw_vmm s))" and "\<not> area_full s 0"
    and "vm_words (sw_vmm s) p AND PAGE_PRESENT \<noteq> 0" and "unat (vm_words (sw_vmm s) p) < 134217728"
  shows "\<exists>s1. swap_out_page va (Some p) s = Some (0, s1) \<and> swap_inv s1
    \<and> pmm_used (vm_frames (sw_vmm s1)) = pmm_used (vm_frames (sw_vmm s)) - {unat (vm_words (sw_vmm s) p) div 4096}
    \<and> (\<forall>v. vmm_inv v \<and> card (pmm_used (vm_frames v)) + 2 \<le> TOTAL_PAGES \<longrightarrow>
         (\<exists>s2. swap_in_page va (vm_words (sw_vmm s1) p) (s1\<lparr>sw_vmm := v\<rparr>) = Some (0, s2)
            \<and> swap_inv s2 \<and> slots_used s2 = slots_used s \<and> vmm_inv (sw_vmm s2)
            \<and> (\<forall>i < 4096. mem_byte (vm_words (sw_vmm s2)) (vmm_get_physical va (sw_vmm s2) + of_nat i) =
                 mem_byte (vm_words (sw_vmm s)) (frame_bits (vm_words (sw_vmm s) p) + of_nat i))
            \<and> (\<forall>vb. unat vb div 4096 \<noteq> unat va div 4096 \<longrightarrow>
                 vmm_get_physical vb (sw_vmm s2) = vmm_get_physical vb v)))"
proof (rule swap_out_page_effect [OF assms(1-3) refl assms(4,5), of va])
  fix k s1
  assume k: "k < 256" "(0, k) \<notin> slots_used s" and out: "swap_out_page va (Some p) s = Some (0, s1)"
    and s1: "swap_inv s1" "slots_used s1 = insert (0, k) (slots_used s)"
      "vm_words (sw_vmm s1) = (vm_words (sw_vmm s))(p := swap_pte (slot_code 0 k))"
      "pmm_used (vm_frames (sw_vmm s1)) = pmm_used (vm_frames (sw_vmm s)) - {unat (vm_words (sw_vmm s) p) div 4096}"
      "\<forall>i < 4096. swap_storage s1 (k * 4096 + i) =
         mem_byte (vm_words (sw_vmm s)) (frame_bits (vm_words (sw_vmm s) p) + of_nat i)"
  have "\<exists>s2. swap_in_page va (vm_words (sw_vmm s1) p) (s1\<lparr>sw_vmm := v\<rparr>) = Some (0, s2)
      \<and> swap_inv s2 \<and> slots_used s2 = slots_used s \<and> vmm_inv (sw_vmm s2)
      \<and> (\<forall>i < 4096. mem_byte (vm_words (sw_vmm s2)) (vmm_get_physical va (sw_vmm s2) + of_nat i) =
           mem_byte (vm_words (sw_vmm s)) (frame_bits (vm_words (sw_vmm s) p) + of_nat i))
      \<and> (\<forall>vb. unat vb div 4096 \<noteq> unat va div 4096 \<longrightarrow> vmm_get_physical vb (sw_vmm s2) = vmm_get_physical vb v)"
    if v: "vmm_inv v" "card (pmm_used (vm_frames v)) + 2 \<le> TOTAL_PAGES" for v
    by (rule swap_in_page_effect [of "s1\<lparr>sw_vmm := v\<rparr>" k va]) (use v k s1 in auto)
  with out s1(1,4) show ?thesis by blast
qed

text \<open>A machine that has just started paging, with the frame of page \<open>0x300000\<close> mapped at its own address.\<close>

definition demo_swap :: swap where
  "demo_swap = swap_init \<lparr>swap_areas = (\<lambda>_. undefined), num_swap_areas = 0, swap_storage = (\<lambda>_. 0),
     pages_swapped_out = 0, pages_swapped_in = 0, swap_initialized = False, sw_vmm = booted_vmm\<rparr>"

lemma demo_swap_state:
  "swap_inv demo_swap" "slots_used demo_swap = {}" "sw_vmm demo_swap = booted_vmm" "\<not> area_full demo_swap 0"
proof -
  show *: "swap_inv demo_swap" "slots_used demo_swap = {}" "sw_vmm demo_swap = booted_vmm"
    unfolding demo_swap_def by (simp_all add: swap_init_inv)
  have "area_used (swap_areas demo_swap 0) = {}"
    using *(2) swap_invD(4) [OF *(1)] by (auto simp: slots_used_def)
  then show "\<not> area_full demo_swap 0" using swap_invD(6) [OF *(1)] by (simp add: area_full_def lessThan_empty_iff eq_commute [of "{}"])
qed

theorem swap_roundtrip_witness:
  "\<exists>s1 s2. swap_out_page 0x300000 (Some (entry_addr FIRST_TABLE 0x300)) demo_swap = Some (0, s1)
     \<and> swap_in_page 0x300000 (vm_words (sw_vmm s1) (entry_addr FIRST_TABLE 0x300)) (s1\<lparr>sw_vmm := booted_vmm\<rparr>) = Some (0, s2)
     \<and> mem_byte (vm_words (sw_vmm s2)) (vmm_get_physical 0x300000 (sw_vmm s2) + of_nat 5) =
         mem_byte (vm_words booted_vmm) (0x300000 + of_nat 5)"
proof -
  have "frame_bits (vm_pde booted_vmm 0) = FIRST_TABLE" by (simp add: booted_vmm_def vmm_init_pde frame_bits_def)
  then have e: "vm_words booted_vmm (entry_addr FIRST_TABLE 0x300) = 0x300003"
    using vmm_init_pte [of "0x300" "\<lparr>vm_words = (\<lambda>a. 0), current_directory = 0, vm_frames = the pmm_init\<rparr>"]
    by (simp add: vm_pte_def flip: booted_vmm_def)
  have room: "card (pmm_used (vm_frames booted_vmm)) + 2 \<le> TOTAL_PAGES"
    unfolding booted_frames [THEN conjunct2] by simp
  let ?p = "entry_addr FIRST_TABLE 0x300"
  have present: "(0x300003 :: u32) AND PAGE_PRESENT \<noteq> 0" "unat (0x300003 :: u32) < 134217728" by simp_all
  note rt = swap_roundtrip [of demo_swap ?p "0x300000", unfolded demo_swap_state(3) e,
      OF demo_swap_state(1) booted_frames [THEN conjunct1] demo_swap_state(4) present]
  then obtain s1 where s1: "swap_out_page 0x300000 (Some ?p) demo_swap = Some (0, s1)"
    and "\<exists>s2. swap_in_page 0x300000 (vm_words (sw_vmm s1) ?p) (s1\<lparr>sw_vmm := booted_vmm\<rparr>) = Some (0, s2)
        \<and> (\<forall>i < 4096. mem_byte (vm_words (sw_vmm s2)) (vmm_get_physical 0x300000 (sw_vmm s2) + of_nat i) =
             mem_byte (vm_words booted_vmm) (frame_bits 0x300003 + of_nat i))"
    using booted_inv room by metis
  moreover have "frame_bits 0x300003 = 0x300000" by (simp add: frame_bits_def)
  moreover have "(5 :: nat) < 4096" by simp
  ultimately show ?thesis by metis
qed

text \<open>
  The page table entry of a swapped page keeps 20 bits of the slot number and so loses the area, which is
  in bits 24 and up: for a page that went to an area other than the first, \<open>swap_in_page\<close> does exactly
  what it would do for the page in the same slot of the first area, and so reads another page's content and
  frees another page's slot.
\<close>

lemma swap_in_wrong_area:
  assumes "i < MAX_SWAP_AREAS" and "k < 16384"
  shows "slot_area (slot_code i k) = i
    \<and> swap_in_page va (swap_pte (slot_code i k)) s = swap_in_page va (swap_pte (slot_code 0 k)) s"
proof -
  have "(i * 16777216 + k) mod 1048576 = k"
    using assms(2) mod_mult_self1 [of k "i * 16" 1048576] by (simp add: ac_simps)
  then have "take_bit 20 (slot_code i k) = slot_code 0 k"
    using assms slot_code_add [of i k] slot_code_add [of 0 k]
    by (simp add: word_unat_eq_iff take_bit_eq_mod unat_mod)
  moreover have "take_bit 20 (slot_code 0 k) = slot_code 0 k"
    using assms slot_code_add [of 0 k] by (simp add: word_unat_eq_iff take_bit_eq_mod unat_mod)
  ultimately show ?thesis
    using slot_code_fields [of i k] assms swap_pte_flags(1) by (simp add: swap_in_page_def swap_pte_slot)
qed

end
