(* ===== verification/VmaProps.thy ===== *)
theory VmaProps
  imports Vma
begin

unbundle bit_operations_syntax

text \<open>
  The area lists of theory \<open>Vma\<close> are correct. \<open>areas_rep\<close> relates the pools to what they stand for:
  the free slots, the free descriptors and, for every descriptor in use, its list of areas, which are
  page aligned, sorted and disjoint. Every operation is described by what it does to these lists.
\<close>

lemma area_upd_simps [simp]:
  "vma_free_list (upd_vma f i s) = vma_free_list s" "vma_initialized (upd_vma f i s) = vma_initialized s"
  "mm_pool (upd_vma f i s) = mm_pool s" "mm_free_list (upd_vma f i s) = mm_free_list s"
  "vma_pool (upd_vma f i s) = (vma_pool s)(i := f (vma_pool s i))"
  "vma_free_list (upd_mm g m s) = vma_free_list s" "vma_initialized (upd_mm g m s) = vma_initialized s"
  "vma_pool (upd_mm g m s) = vma_pool s" "mm_free_list (upd_mm g m s) = mm_free_list s"
  "mm_pool (upd_mm g m s) = (mm_pool s)(m := g (mm_pool s m))"
  by (simp_all add: upd_vma_def upd_mm_def)

lemmas area_maps = area_next_def area_prev_def mm_link_def

lemma area_maps_cong:
  "vma_pool t = vma_pool s \<Longrightarrow> area_next t = area_next s" "vma_pool t = vma_pool s \<Longrightarrow> area_prev t = area_prev s"
  "mm_pool t = mm_pool s \<Longrightarrow> mm_link t = mm_link s"
  by (auto simp: area_maps fun_eq_iff)

lemma init_done [simp]: "vma_initialized s \<Longrightarrow> vma_allocator_init s = s"
  by (simp add: vma_allocator_init_def)

subsection \<open>The pools as free pools\<close>

interpretation vp: free_pool area_next vma_free_list vma_alloc "\<lambda>v. vma_free (Some v)" vma_initialized
  by unfold_locales (auto simp: vma_alloc_def vma_free_def area_next_def Let_def fun_eq_iff)

interpretation mp: free_pool mm_link mm_free_list mm_alloc "\<lambda>m. mm_free_struct (Some m)" vma_initialized
  by unfold_locales (auto simp: mm_alloc_def mm_free_struct_def mm_link_def Let_def fun_eq_iff)

lemma init_pools:
  assumes "\<not> vma_initialized s"
  defines "t \<equiv> vma_allocator_init s"
  shows "vp.free_slots t [0..<256]" and "mp.free_slots t [0..<64]"
proof -
  let ?f = "\<lambda>i. upd_vma (vm_next_update (\<lambda>_. Some (Suc i))) i" and ?g = "\<lambda>i. upd_mm (mm_vmas_update (\<lambda>_. Some (Suc i))) i"
  have f: "mm_pool (for_range 0 255 ?f s) = mm_pool s \<and> (\<forall>i < 255. area_next (for_range 0 255 ?f s) i = Some (Suc i))"
    by (rule for_range_rule [where I = "\<lambda>k t. mm_pool t = mm_pool s \<and> (\<forall>i < k. area_next t i = Some (Suc i))"])
      (auto simp: area_next_def less_Suc_eq)
  have g: "vma_pool (for_range 0 63 ?g u) = vma_pool u \<and> vma_free_list (for_range 0 63 ?g u) = vma_free_list u
      \<and> (\<forall>i < 63. mm_link (for_range 0 63 ?g u) i = Some (Suc i))" for u
    by (rule for_range_rule [where I = "\<lambda>k t. vma_pool t = vma_pool u \<and> vma_free_list t = vma_free_list u
          \<and> (\<forall>i < k. mm_link t i = Some (Suc i))"]) (auto simp: mm_link_def less_Suc_eq)
  have t: "vma_initialized t" "vma_free_list t = Some 0" "mm_free_list t = Some 0"
    using assms g by (simp_all add: vma_allocator_init_def Let_def)
  have "area_next t i = (if Suc i < 256 then Some (Suc i) else None)" if "i < 256" for i
    using assms that f g by (simp add: vma_allocator_init_def Let_def area_next_def less_Suc_eq)
  from chain_upto [OF this, of 0] show "vp.free_slots t [0..<256]"
    using t by (simp add: vp.free_slots_def)
  have "mm_link t i = (if Suc i < 64 then Some (Suc i) else None)" if "i < 64" for i
    using assms that g by (simp add: vma_allocator_init_def Let_def mm_link_def less_Suc_eq)
  from chain_upto [OF this, of 0] show "mp.free_slots t [0..<64]"
    using t by (simp add: mp.free_slots_def)
qed

subsection \<open>Well-formed area lists\<close>

definition page_aligned :: "u32 \<Rightarrow> bool" where
  "page_aligned a \<longleftrightarrow> a AND 0xFFF = 0"

definition laid_out :: "vma list \<Rightarrow> bool" where
  "laid_out vs \<longleftrightarrow> sorted_wrt (\<lambda>a b. vm_end a \<le> vm_start b) vs
     \<and> (\<forall>a \<in> set vs. vm_start a < vm_end a \<and> page_aligned (vm_start a) \<and> page_aligned (vm_end a))"

definition area_data :: "vma \<Rightarrow> vma" where
  "area_data a = a\<lparr>vm_next := None, vm_prev := None\<rparr>"

lemma area_data_simps [simp]:
  "vm_start (area_data a) = vm_start a" "vm_end (area_data a) = vm_end a" "vm_flags (area_data a) = vm_flags a"
  "vm_ref_count (area_data a) = vm_ref_count a" "vm_fd (area_data a) = vm_fd a"
  "vm_file_inode (area_data a) = vm_file_inode a" "vm_file_offset (area_data a) = vm_file_offset a"
  "area_data (a\<lparr>vm_next := n\<rparr>) = area_data a" "area_data (a\<lparr>vm_prev := n\<rparr>) = area_data a"
  "area_data (area_data a) = area_data a"
  by (simp_all add: area_data_def)

lemma area_data_fields:
  "area_data a = area_data b \<Longrightarrow> vm_start a = vm_start b" "area_data a = area_data b \<Longrightarrow> vm_end a = vm_end b"
  "area_data a = area_data b \<Longrightarrow> vm_flags a = vm_flags b" "area_data a = area_data b \<Longrightarrow> vm_ref_count a = vm_ref_count b"
  by (metis area_data_simps)+

definition area_view :: "areas \<Rightarrow> nat list \<Rightarrow> vma list" where
  "area_view s vs = map (\<lambda>v. area_data (vma_pool s v)) vs"

definition areas_rep :: "areas \<Rightarrow> nat list \<Rightarrow> nat list \<Rightarrow> (nat \<Rightarrow> nat list) \<Rightarrow> bool" where
  "areas_rep s F M L \<longleftrightarrow>
     vp.free_slots s F \<and> set F \<subseteq> {..<VMA_POOL_SIZE} \<and> mp.free_slots s M \<and> set M \<subseteq> {..<MM_POOL_SIZE}
     \<and> lists_ok (area_next s) (area_prev s) (\<lambda>q. if q \<in> set M then None else mm_link s q)
         MM_POOL_SIZE VMA_POOL_SIZE L
     \<and> (\<forall>q < MM_POOL_SIZE. set (L q) \<inter> set F = {} \<and> laid_out (area_view s (L q))
         \<and> (\<forall>v \<in> set (L q). vm_ref_count (vma_pool s v) = 1)
         \<and> (q \<notin> set M \<longrightarrow> mm_vma_count (mm_pool s q) = of_nat (length (L q))))"

definition detached :: "nat \<Rightarrow> nat list \<Rightarrow> (nat \<Rightarrow> nat list) \<Rightarrow> bool" where
  "detached v F L \<longleftrightarrow> v < VMA_POOL_SIZE \<and> v \<notin> set F \<and> (\<forall>q < MM_POOL_SIZE. v \<notin> set (L q))"

lemma areas_repD:
  assumes "areas_rep s F M L"
  shows "vp.free_slots s F" "set F \<subseteq> {..<256}" "mp.free_slots s M" "set M \<subseteq> {..<64}"
    "lists_ok (area_next s) (area_prev s) (\<lambda>q. if q \<in> set M then None else mm_link s q) 64 256 L"
    "q < 64 \<Longrightarrow> set (L q) \<inter> set F = {}" "q < 64 \<Longrightarrow> laid_out (area_view s (L q))"
    "q < 64 \<Longrightarrow> v \<in> set (L q) \<Longrightarrow> vm_ref_count (vma_pool s v) = 1"
    "q < 64 \<Longrightarrow> q \<notin> set M \<Longrightarrow> mm_vma_count (mm_pool s q) = of_nat (length (L q))"
    "vma_initialized s"
  using assms unfolding areas_rep_def vp.free_slots_def by auto

lemma areas_rep_init:
  assumes "\<not> vma_initialized s"
  shows "areas_rep (vma_allocator_init s) [0..<256] [0..<64] (\<lambda>q. [])"
  using init_pools [OF assms]
  by (auto simp: areas_rep_def lists_ok_def laid_out_def area_view_def simp del: upt_rec_numeral)

lemma areas_rep_chain:
  assumes "areas_rep s F M L" and "m < 64" and "m \<notin> set M"
  shows "chain (area_next s) (mm_vmas (mm_pool s m)) (L m)"
    and "dll (area_next s) (area_prev s) (mm_vmas (mm_pool s m)) (L m)"
proof -
  show "dll (area_next s) (area_prev s) (mm_vmas (mm_pool s m)) (L m)"
    using lists_okD(1) [OF areas_repD(5) [OF assms(1)] assms(2)] assms(3) by (simp add: mm_link_def)
  then show "chain (area_next s) (mm_vmas (mm_pool s m)) (L m)" by (rule dll_chain)
qed

lemma areas_rep_dead:
  assumes "areas_rep s F M L" and "m < 64" and "m \<in> set M"
  shows "L m = []"
  using lists_okD(1) [OF areas_repD(5) [OF assms(1)] assms(2)] assms(3) by simp

lemma areas_rep_frame:
  assumes "areas_rep s F M L" and "vma_free_list t = vma_free_list s" and "vma_initialized t = vma_initialized s"
    and "mm_free_list t = mm_free_list s" and "area_next t = area_next s" and "area_prev t = area_prev s"
    and "mm_link t = mm_link s"
    and "\<And>q. q < 64 \<Longrightarrow> q \<notin> set M \<Longrightarrow> mm_vma_count (mm_pool t q) = mm_vma_count (mm_pool s q)"
    and "\<And>q. q < 64 \<Longrightarrow> laid_out (area_view t (L q))"
    and "\<And>q v. q < 64 \<Longrightarrow> v \<in> set (L q) \<Longrightarrow> vm_ref_count (vma_pool t v) = vm_ref_count (vma_pool s v)"
  shows "areas_rep t F M L"
  using assms(1,8-10) unfolding areas_rep_def vp.free_slots_def mp.free_slots_def assms(2-7) by simp

lemma lists_ok_frame:
  assumes "\<And>q x. q < Q \<Longrightarrow> x \<in> set (L q) \<Longrightarrow> nx' x = nx x \<and> pv' x = pv x" and "\<And>q. q < Q \<Longrightarrow> h' q = h q"
  shows "lists_ok nx' pv' h' Q N L = lists_ok nx pv h Q N L"
proof -
  have "dll nx' pv' (h' q) (L q) = dll nx pv (h q) (L q)" if "q < Q" for q
    using dll_cong [of "L q" nx' nx pv' pv "h' q"] assms that by simp
  then show ?thesis unfolding lists_ok_def by simp
qed

lemma detached_upd:
  assumes rep: "areas_rep s F M L" and v: "detached v F L"
  shows "areas_rep (upd_vma f v s) F M L"
proof -
  have out: "v \<notin> set F" "\<And>q. q < 64 \<Longrightarrow> v \<notin> set (L q)" using v by (auto simp: detached_def)
  have "vp.free_slots (upd_vma f v s) F = vp.free_slots s F"
    using out by (intro vp.free_slots_cong) (auto simp: area_next_def)
  moreover have "mp.free_slots (upd_vma f v s) M = mp.free_slots s M"
    by (intro mp.free_slots_cong) (auto simp: mm_link_def)
  moreover have "lists_ok (area_next (upd_vma f v s)) (area_prev (upd_vma f v s))
      (\<lambda>q. if q \<in> set M then None else mm_link (upd_vma f v s) q) 64 256 L
    = lists_ok (area_next s) (area_prev s) (\<lambda>q. if q \<in> set M then None else mm_link s q) 64 256 L"
    using out by (intro lists_ok_frame) (auto simp: area_maps)
  moreover have "area_view (upd_vma f v s) (L q) = area_view s (L q)" if "q < 64" for q
    using out(2) [OF that] by (auto simp: area_view_def)
  moreover have "vm_ref_count (vma_pool (upd_vma f v s) w) = vm_ref_count (vma_pool s w)"
    if "q < 64" "w \<in> set (L q)" for q w using out(2) [OF that(1)] that(2) by auto
  ultimately show ?thesis using rep unfolding areas_rep_def by simp
qed

lemma areas_rep_slots:
  assumes rep: "areas_rep s F M L" and F': "vp.free_slots t F'" "set F' \<subseteq> {..<256}"
    and fr: "\<And>q. q < 64 \<Longrightarrow> set (L q) \<inter> set F' = {}" and mm: "mm_pool t = mm_pool s" "mm_free_list t = mm_free_list s"
    and pool: "\<And>q w. q < 64 \<Longrightarrow> w \<in> set (L q) \<Longrightarrow> vma_pool t w = vma_pool s w"
  shows "areas_rep t F' M L"
proof -
  have "mp.free_slots t M = mp.free_slots s M"
    using mm F'(1) areas_repD(10) [OF rep] by (intro mp.free_slots_cong) (auto simp: mm_link_def vp.free_slots_def)
  moreover have "lists_ok (area_next t) (area_prev t) (\<lambda>q. if q \<in> set M then None else mm_link t q) 64 256 L
    = lists_ok (area_next s) (area_prev s) (\<lambda>q. if q \<in> set M then None else mm_link s q) 64 256 L"
    using mm pool by (intro lists_ok_frame) (auto simp: area_maps)
  moreover have "area_view t (L q) = area_view s (L q)" if "q < 64" for q
    using pool [OF that] by (auto simp: area_view_def)
  ultimately show ?thesis using rep F' fr mm pool unfolding areas_rep_def by simp
qed

subsection \<open>Creating and destroying areas\<close>

lemma vma_alloc_rep:
  assumes rep: "areas_rep s F M L"
  shows "F = [] \<Longrightarrow> vma_alloc s = (None, s)"
    and "F = v # F' \<Longrightarrow> fst (vma_alloc s) = Some v \<and> areas_rep (snd (vma_alloc s)) F' M L \<and> detached v F' L"
proof -
  have F: "vp.free_slots s F" "set F \<subseteq> {..<256}" "vma_initialized s" using areas_repD [OF rep] by auto
  show "vma_alloc s = (None, s)" if "F = []"
    using F that by (simp add: vp.free_slots_def vma_alloc_def)
  assume Fv: "F = v # F'"
  have out: "v \<notin> set F'" "\<And>q. q < 64 \<Longrightarrow> v \<notin> set (L q)"
    using vp.free_slots_distinct [OF F(1)] areas_repD(6) [OF rep] Fv by auto
  have "vma_free_list s = Some v" using F Fv by (simp add: vp.free_slots_def)
  then have pool: "vma_pool (snd (vma_alloc s)) w = vma_pool s w" if "w \<noteq> v" for w
    using F(3) that by (simp add: vma_alloc_def Let_def)
  have "areas_rep (snd (vma_alloc s)) F' M L"
  proof (rule areas_rep_slots [OF rep])
    show "vp.free_slots (snd (vma_alloc s)) F'" using vp.pop_free_slots(2) [OF F(1)] Fv by simp
    show "mm_pool (snd (vma_alloc s)) = mm_pool s" "mm_free_list (snd (vma_alloc s)) = mm_free_list s"
      using F(3) by (simp_all add: vma_alloc_def Let_def split: option.split)
    show "set (L q) \<inter> set F' = {}" if "q < 64" for q using areas_repD(6) [OF rep that] Fv by auto
    show "vma_pool (snd (vma_alloc s)) w = vma_pool s w" if "q < 64" "w \<in> set (L q)" for q w
      using out(2) [OF that(1)] that(2) by (intro pool) auto
  qed (use F Fv in auto)
  moreover have "fst (vma_alloc s) = Some v" using vp.pop_free_slots(1) [OF F(1)] Fv by simp
  ultimately show "fst (vma_alloc s) = Some v \<and> areas_rep (snd (vma_alloc s)) F' M L \<and> detached v F' L"
    using out F Fv by (simp add: detached_def)
qed

lemma vma_free_rep:
  assumes rep: "areas_rep s F M L" and v: "detached v F L"
  shows "areas_rep (vma_free (Some v) s) (v # F) M L"
proof (rule areas_rep_slots [OF rep])
  show "vp.free_slots (vma_free (Some v) s) (v # F)"
    using vp.put_free_slots [OF areas_repD(1) [OF rep]] v by (simp add: detached_def)
  show "set (L q) \<inter> set (v # F) = {}" if "q < 64" for q
    using areas_repD(6) [OF rep that] v that by (auto simp: detached_def)
  show "vma_pool (vma_free (Some v) s) w = vma_pool s w" if "q < 64" "w \<in> set (L q)" for q w
    using v that by (auto simp: detached_def vma_free_def)
qed (use areas_repD(2) [OF rep] v in \<open>auto simp: detached_def vma_free_def\<close>)

definition new_area :: "u32 \<Rightarrow> u32 \<Rightarrow> u32 \<Rightarrow> vma" where
  "new_area start end_addr flags = \<lparr>vm_start = start, vm_end = end_addr, vm_flags = flags, vm_file_inode = 0,
     vm_file_offset = 0, vm_fd = - 1, vm_swap_count = 0, vm_ref_count = 1, vm_next = None, vm_prev = None\<rparr>"

definition good_range :: "u32 \<Rightarrow> u32 \<Rightarrow> bool" where
  "good_range a b \<longleftrightarrow> a < b \<and> page_aligned a \<and> page_aligned b"

lemma vma_create_rep:
  assumes rep: "areas_rep s F M L"
  shows "\<not> good_range a b \<Longrightarrow> vma_create a b fl s = (None, s)"
    and "F = [] \<Longrightarrow> vma_create a b fl s = (None, s)"
    and "good_range a b \<Longrightarrow> F = v # F' \<Longrightarrow> \<exists>t. vma_create a b fl s = (Some v, t) \<and> areas_rep t F' M L \<and> detached v F' L
           \<and> vma_pool t = (vma_pool s)(v := new_area a b fl) \<and> mm_pool t = mm_pool s"
proof -
  show "\<not> good_range a b \<Longrightarrow> vma_create a b fl s = (None, s)"
    by (auto simp: vma_create_def good_range_def page_aligned_def)
  show "F = [] \<Longrightarrow> vma_create a b fl s = (None, s)"
    using vma_alloc_rep(1) [OF rep] by (simp add: vma_create_def)
  assume ok: "good_range a b" and F: "F = v # F'"
  let ?f = "\<lambda>k. k\<lparr>vm_start := a, vm_end := b, vm_flags := fl, vm_ref_count := 1\<rparr>"
  let ?t = "upd_vma ?f v (snd (vma_alloc s))"
  note al = vma_alloc_rep(2) [OF rep F]
  have "vma_create a b fl s = (Some v, ?t)"
    using ok al by (auto simp: vma_create_def good_range_def page_aligned_def split: prod.split option.split)
  moreover have "areas_rep ?t F' M L" using detached_upd al by blast
  moreover have "vma_free_list s = Some v" using areas_repD(1) [OF rep] F by (simp add: vp.free_slots_def)
  then have "vma_pool ?t = (vma_pool s)(v := new_area a b fl) \<and> mm_pool ?t = mm_pool s"
    using areas_repD(10) [OF rep] by (cases "vma_pool s v") (simp add: vma_alloc_def Let_def new_area_def)
  ultimately show "\<exists>t. vma_create a b fl s = (Some v, t) \<and> areas_rep t F' M L \<and> detached v F' L
      \<and> vma_pool t = (vma_pool s)(v := new_area a b fl) \<and> mm_pool t = mm_pool s" using al by blast
qed

lemma vma_destroy_rep:
  assumes rep: "areas_rep s F M L" and v: "detached v F L" and r: "vm_ref_count (vma_pool s v) = 1"
  shows "areas_rep (vma_destroy (Some v) s) (v # F) M L" and "mm_pool (vma_destroy (Some v) s) = mm_pool s"
    and "w \<noteq> v \<Longrightarrow> vma_pool (vma_destroy (Some v) s) w = vma_pool s w"
  using vma_free_rep [OF detached_upd [OF rep v] v] r by (simp_all add: vma_destroy_def vma_free_def)

subsection \<open>Inserting an area\<close>

definition overlaps :: "vma \<Rightarrow> vma \<Rightarrow> bool" where
  "overlaps a b \<longleftrightarrow> vm_start a < vm_end b \<and> vm_start b < vm_end a"

lemma laid_out_append:
  "laid_out (xs @ ys) \<longleftrightarrow> laid_out xs \<and> laid_out ys \<and> (\<forall>a \<in> set xs. \<forall>b \<in> set ys. vm_end a \<le> vm_start b)"
  by (auto simp: laid_out_def sorted_wrt_append)

lemma laid_out_Cons:
  "laid_out (a # ys) \<longleftrightarrow> good_range (vm_start a) (vm_end a) \<and> laid_out ys \<and> (\<forall>b \<in> set ys. vm_end a \<le> vm_start b)"
  by (auto simp: laid_out_def good_range_def)

lemma laid_out_Nil [simp]: "laid_out []"
  by (simp add: laid_out_def)

lemma laid_out_mem: "laid_out vs \<Longrightarrow> a \<in> set vs \<Longrightarrow> good_range (vm_start a) (vm_end a)"
  by (simp add: laid_out_def good_range_def)

lemma laid_out_split:
  fixes vs :: "vma list" and x :: u32
  assumes "laid_out vs"
  defines "ys \<equiv> takeWhile (\<lambda>a. vm_start a < x) vs" and "zs \<equiv> dropWhile (\<lambda>a. vm_start a < x) vs"
  shows "a \<in> set ys \<Longrightarrow> vm_start a < x" and "b \<in> set zs \<Longrightarrow> x \<le> vm_start b"
proof -
  show "a \<in> set ys \<Longrightarrow> vm_start a < x" unfolding ys_def by (auto dest: set_takeWhileD)
  assume b: "b \<in> set zs"
  show "x \<le> vm_start b"
  proof (cases zs)
    case (Cons c ws)
    have c: "\<not> vm_start c < x" using Cons unfolding zs_def by (simp add: dropWhile_eq_Cons_conv)
    have "vs = ys @ zs" by (simp add: ys_def zs_def)
    then have "laid_out (c # ws)" using assms(1) Cons by (auto simp: laid_out_append)
    with b Cons have "b = c \<or> vm_start c < vm_end c \<and> vm_end c \<le> vm_start b"
      by (auto simp: laid_out_Cons good_range_def)
    with c show ?thesis by auto
  qed (use b in simp)
qed

definition blocked :: "vma \<Rightarrow> vma list \<Rightarrow> vma list \<Rightarrow> bool" where
  "blocked v ys zs \<longleftrightarrow> (case last_opt ys of Some p \<Rightarrow> vm_end p > vm_start v | None \<Rightarrow> False)
     \<or> (case head_opt zs of Some c \<Rightarrow> vm_end v > vm_start c | None \<Rightarrow> False)"

lemma laid_out_insert:
  assumes out: "laid_out (ys @ zs)" and v: "good_range (vm_start v) (vm_end v)"
    and ys: "\<And>a. a \<in> set ys \<Longrightarrow> vm_start a < vm_start v" and zs: "\<And>a. a \<in> set zs \<Longrightarrow> vm_start v \<le> vm_start a"
  shows "blocked v ys zs \<longleftrightarrow> (\<exists>w \<in> set (ys @ zs). overlaps v w)"
    and "\<not> blocked v ys zs \<Longrightarrow> laid_out (ys @ v # zs)"
proof -
  have sy: "laid_out ys" and sz: "laid_out zs" using out by (auto simp: laid_out_append)
  have ystop: "vm_end a \<le> vm_start v" if "a \<in> set ys" "\<not> blocked v ys zs" for a
  proof (cases ys rule: rev_cases)
    case (snoc us p)
    with that have "a = p \<or> vm_end a \<le> vm_start p" using sy by (auto simp: laid_out_append)
    moreover have "vm_end p \<le> vm_start v" using that(2) snoc by (auto simp: blocked_def not_less)
    moreover have "vm_start p < vm_start v" using ys snoc by simp
    ultimately show ?thesis by force
  qed (use that in simp)
  have zstop: "vm_end v \<le> vm_start a" if "a \<in> set zs" "\<not> blocked v ys zs" for a
  proof (cases zs)
    case (Cons c us)
    with that have "a = c \<or> vm_end c \<le> vm_start a" using sz by (auto simp: laid_out_Cons)
    moreover have "vm_end v \<le> vm_start c" using that(2) Cons by (auto simp: blocked_def not_less)
    moreover have "vm_start c < vm_end c" using sz Cons by (simp add: laid_out_Cons good_range_def)
    ultimately show ?thesis by force
  qed (use that in simp)
  show "laid_out (ys @ v # zs)" if "\<not> blocked v ys zs"
    using out v ystop zstop that by (auto simp: laid_out_append laid_out_Cons)
  show "blocked v ys zs \<longleftrightarrow> (\<exists>w \<in> set (ys @ zs). overlaps v w)"
  proof
    assume "blocked v ys zs"
    then consider p where "p \<in> set ys" "vm_end p > vm_start v" | c where "c \<in> set zs" "vm_end v > vm_start c"
      unfolding blocked_def by (cases ys rule: rev_cases; cases zs; fastforce)
    then show "\<exists>w \<in> set (ys @ zs). overlaps v w"
    proof cases
      case 1
      then have "overlaps v p" using ys [OF 1(1)] v by (auto simp: overlaps_def good_range_def)
      with 1 show ?thesis by auto
    next
      case 2
      then have "overlaps v c" using zs [OF 2(1)] laid_out_mem [OF sz 2(1)]
        by (auto simp: overlaps_def good_range_def)
      with 2 show ?thesis by auto
    qed
  next
    assume "\<exists>w \<in> set (ys @ zs). overlaps v w"
    then show "blocked v ys zs" using ystop zstop by (force simp: overlaps_def)
  qed
qed

lemma insert_point_chain:
  fixes s :: areas and start :: u32
  assumes "chain (area_next s) p xs"
  defines "P \<equiv> \<lambda>c. vm_start (vma_pool s c) < start"
  shows "insert_point s start prev p =
    Some (case last_opt (takeWhile P xs) of None \<Rightarrow> prev | Some x \<Rightarrow> Some x, head_opt (dropWhile P xs))"
  using assms(1)
proof (induction xs arbitrary: p prev)
  case Nil
  then show ?case by (simp add: insert_point.simps)
next
  case (Cons x xs)
  show ?case
  proof (cases "P x")
    case True
    have "insert_point s start prev p = insert_point s start (Some x) (area_next s x)"
      using Cons.prems True by (simp add: insert_point.simps [of s start prev] P_def area_next_def)
    also have "\<dots> = Some (case last_opt (takeWhile P xs) of None \<Rightarrow> Some x | Some y \<Rightarrow> Some y, head_opt (dropWhile P xs))"
      using Cons by simp
    also have "(case last_opt (takeWhile P xs) of None \<Rightarrow> Some x | Some y \<Rightarrow> Some y) = last_opt (x # takeWhile P xs)"
      by (cases "takeWhile P xs" rule: rev_cases) auto
    finally show ?thesis using True by simp
  next
    case False
    then show ?thesis using Cons.prems by (simp add: insert_point.simps [of s start prev] P_def)
  qed
qed

definition same_areas :: "areas \<Rightarrow> areas \<Rightarrow> bool" where
  "same_areas s t \<longleftrightarrow> (\<forall>i. area_data (vma_pool t i) = area_data (vma_pool s i))
     \<and> vma_free_list t = vma_free_list s \<and> vma_initialized t = vma_initialized s \<and> mm_free_list t = mm_free_list s"

lemma same_areasD:
  assumes "same_areas s t"
  shows "area_view t vs = area_view s vs" "vm_ref_count (vma_pool t i) = vm_ref_count (vma_pool s i)"
    "vma_free_list t = vma_free_list s" "vma_initialized t = vma_initialized s" "mm_free_list t = mm_free_list s"
  using assms area_data_fields(4) [of "vma_pool t i" "vma_pool s i"] by (auto simp: same_areas_def area_view_def)

lemma link_area_maps:
  assumes "prev \<noteq> Some v" and "cur \<noteq> Some v"
  shows "area_next (link_area m v prev cur s) = (relink prev (Some v) (area_next s))(v := cur)"
    and "area_prev (link_area m v prev cur s) = (relink cur (Some v) (area_prev s))(v := prev)"
    and "mm_pool (link_area m v prev cur s) = (case prev of
           None \<Rightarrow> (mm_pool s)(m := (mm_pool s m)\<lparr>mm_vmas := Some v\<rparr>) | Some p \<Rightarrow> mm_pool s)"
    and "same_areas s (link_area m v prev cur s)"
  using assms unfolding link_area_def Let_def
  by (cases prev; cases cur; simp add: area_maps relink_def fun_eq_iff same_areas_def area_data_def)+

definition placed :: "areas \<Rightarrow> nat \<Rightarrow> nat list \<Rightarrow> nat list" where
  "placed s v vs = takeWhile (\<lambda>c. vm_start (vma_pool s c) < vm_start (vma_pool s v)) vs @
     v # dropWhile (\<lambda>c. vm_start (vma_pool s c) < vm_start (vma_pool s v)) vs"

lemma set_placed [simp]: "set (placed s v vs) = insert v (set vs)"
  by (metis Un_insert_right list.simps(15) placed_def set_append takeWhile_dropWhile_id)

lemma length_placed [simp]: "length (placed s v vs) = Suc (length vs)"
  by (metis add_Suc_right length_Cons length_append placed_def takeWhile_dropWhile_id)

lemma linked_rep:
  assumes rep: "areas_rep s F M L" and m: "m < 64" "m \<notin> set M" and v: "detached v F L"
    and r: "vm_ref_count (vma_pool s v) = 1" and out: "laid_out (area_view s (ys @ v # zs))" and L: "L m = ys @ zs"
    and data: "same_areas s t"
    and nx: "area_next t = (relink (last_opt ys) (Some v) (area_next s))(v := head_opt zs)"
    and pv: "area_prev t = (relink (head_opt zs) (Some v) (area_prev s))(v := last_opt ys)"
    and mm: "mm_link t = (mm_link s)(m := (case last_opt ys of None \<Rightarrow> Some v | Some b \<Rightarrow> mm_link s m))"
    and cnt: "\<And>q. q < 64 \<Longrightarrow> mm_vma_count (mm_pool t q) = mm_vma_count (mm_pool s q) + (if q = m then 1 else 0)"
  shows "areas_rep t F M (L(m := ys @ v # zs))"
proof -
  note d = same_areasD [OF data]
  have lm: "set (L m) \<inter> set F = {}" using areas_repD(6) [OF rep m(1)] .
  have "vp.free_slots t F = vp.free_slots s F"
  proof (rule vp.free_slots_cong)
    fix x assume x: "x \<in> set F"
    then have "x \<noteq> v" "x \<notin> set ys" using v lm L by (auto simp: detached_def)
    then show "area_next t x = area_next s x" unfolding nx by (auto simp: relink_def last_opt_Some split: option.splits)
  qed (use d in auto)
  moreover have "mp.free_slots t M = mp.free_slots s M"
    using d m(2) by (intro mp.free_slots_cong) (auto simp: mm)
  moreover have "lists_ok (area_next t) (area_prev t) (\<lambda>q. if q \<in> set M then None else mm_link t q) 64 256 (L(m := ys @ v # zs))"
  proof -
    have "(\<lambda>q. if q \<in> set M then None else mm_link t q) = (\<lambda>q. if q \<in> set M then None else mm_link s q)
        (m := (case last_opt ys of None \<Rightarrow> Some v | Some b \<Rightarrow> if m \<in> set M then None else mm_link s m))"
      using m(2) by (auto simp: mm fun_eq_iff split: option.split)
    then show ?thesis
      unfolding nx pv using lists_ok_insert [OF areas_repD(5) [OF rep] m(1) L] v by (simp add: detached_def)
  qed
  moreover have "set ((L(m := ys @ v # zs)) q) \<inter> set F = {}" if "q < 64" for q
    using areas_repD(6) [OF rep that] lm L v by (auto simp: detached_def)
  moreover have "laid_out (area_view t ((L(m := ys @ v # zs)) q))" if "q < 64" for q
    using areas_repD(7) [OF rep that] out d by simp
  moreover have "vm_ref_count (vma_pool t w) = 1" if "q < 64" "w \<in> set ((L(m := ys @ v # zs)) q)" for q w
    using areas_repD(8) [OF rep that(1)] areas_repD(8) [OF rep m(1)] r d that(2) L by (auto split: if_splits)
  moreover have "mm_vma_count (mm_pool t q) = of_nat (length ((L(m := ys @ v # zs)) q))" if "q < 64" "q \<notin> set M" for q
    using areas_repD(9) [OF rep that] cnt [OF that(1)] L by simp
  ultimately show ?thesis using areas_repD(1-4) [OF rep] unfolding areas_rep_def by auto
qed

definition mm_data :: "mm_struct \<Rightarrow> mm_struct" where
  "mm_data k = k\<lparr>mm_vmas := None, mm_vma_count := 0, mm_total_vm := 0\<rparr>"

definition same_mm :: "nat \<Rightarrow> areas \<Rightarrow> areas \<Rightarrow> bool" where
  "same_mm m s t \<longleftrightarrow> mm_data (mm_pool t m) = mm_data (mm_pool s m) \<and> (\<forall>q. q \<noteq> m \<longrightarrow> mm_pool t q = mm_pool s q)"

text \<open>The search of \<open>vma_insert\<close>: the place it finds, and when it reports an overlap.\<close>

lemma insert_search:
  assumes rep: "areas_rep s F M L" and m: "m < 64" "m \<notin> set M"
    and g: "good_range (vm_start (vma_pool s v)) (vm_end (vma_pool s v))"
  shows "\<exists>ys zs. L m = ys @ zs \<and> placed s v (L m) = ys @ v # zs
    \<and> insert_point s (vm_start (vma_pool s v)) None (mm_vmas (mm_pool s m)) = Some (last_opt ys, head_opt zs)
    \<and> ((\<exists>w \<in> set (L m). overlaps (vma_pool s v) (vma_pool s w)) \<longleftrightarrow>
        (case last_opt ys of Some p \<Rightarrow> vm_end (vma_pool s p) > vm_start (vma_pool s v) | None \<Rightarrow> False)
        \<or> (case head_opt zs of Some c \<Rightarrow> vm_end (vma_pool s v) > vm_start (vma_pool s c) | None \<Rightarrow> False))
    \<and> (\<not> (\<exists>w \<in> set (L m). overlaps (vma_pool s v) (vma_pool s w)) \<longrightarrow> laid_out (area_view s (ys @ v # zs)))"
proof -
  define P where "P = (\<lambda>c. vm_start (vma_pool s c) < vm_start (vma_pool s v))"
  define ys zs where "ys = takeWhile P (L m)" and "zs = dropWhile P (L m)"
  have L: "L m = ys @ zs" and pl: "placed s v (L m) = ys @ v # zs" by (simp_all add: ys_def zs_def P_def placed_def)
  let ?w = "area_view s" and ?v = "area_data (vma_pool s v)"
  have lo: "laid_out (?w (L m))" using areas_repD(7) [OF rep m(1)] .
  have views: "?w ys = takeWhile (\<lambda>a. vm_start a < vm_start ?v) (?w (L m))"
    "?w zs = dropWhile (\<lambda>a. vm_start a < vm_start ?v) (?w (L m))"
    by (simp_all add: area_view_def ys_def zs_def P_def takeWhile_map dropWhile_map comp_def)
  have app: "?w (L m) = ?w ys @ ?w zs" by (simp add: L area_view_def)
  note sp = laid_out_split [OF lo, of _ "vm_start ?v", folded views]
  have "blocked ?v (?w ys) (?w zs) \<longleftrightarrow> (\<exists>w \<in> set (?w ys @ ?w zs). overlaps ?v w)"
    using lo sp g unfolding app by (intro laid_out_insert(1)) auto
  also have "\<dots> \<longleftrightarrow> (\<exists>w \<in> set (L m). overlaps (vma_pool s v) (vma_pool s w))"
    unfolding app [symmetric] by (simp add: area_view_def overlaps_def)
  finally have blk: "blocked ?v (?w ys) (?w zs) \<longleftrightarrow> (\<exists>w \<in> set (L m). overlaps (vma_pool s v) (vma_pool s w))" .
  have "blocked ?v (?w ys) (?w zs) \<longleftrightarrow>
      (case last_opt ys of Some p \<Rightarrow> vm_end (vma_pool s p) > vm_start (vma_pool s v) | None \<Rightarrow> False)
      \<or> (case head_opt zs of Some c \<Rightarrow> vm_end (vma_pool s v) > vm_start (vma_pool s c) | None \<Rightarrow> False)"
    by (cases ys rule: rev_cases; cases zs) (auto simp: blocked_def area_view_def)
  moreover have "laid_out (?w ys @ ?v # ?w zs)" if "\<not> blocked ?v (?w ys) (?w zs)"
    using lo sp g that unfolding app by (intro laid_out_insert(2)) auto
  then have "laid_out (?w (ys @ v # zs))" if "\<not> blocked ?v (?w ys) (?w zs)"
    using that by (simp add: area_view_def)
  moreover have "insert_point s (vm_start (vma_pool s v)) None (mm_vmas (mm_pool s m)) = Some (last_opt ys, head_opt zs)"
    using insert_point_chain [OF areas_rep_chain(1) [OF rep m], of "vm_start (vma_pool s v)" None]
    by (simp add: ys_def zs_def P_def split: option.split)
  ultimately show ?thesis using L pl blk by blast
qed

lemma vma_insert_rep:
  assumes rep: "areas_rep s F M L" and m: "m < 64" "m \<notin> set M" and v: "detached v F L"
    and r: "vm_ref_count (vma_pool s v) = 1" and g: "good_range (vm_start (vma_pool s v)) (vm_end (vma_pool s v))"
  shows "\<exists>w \<in> set (L m). overlaps (vma_pool s v) (vma_pool s w) \<Longrightarrow> vma_insert (Some m) (Some v) s = Some (- 1, s)"
    and "\<not> (\<exists>w \<in> set (L m). overlaps (vma_pool s v) (vma_pool s w)) \<Longrightarrow>
      \<exists>t. vma_insert (Some m) (Some v) s = Some (0, t) \<and> areas_rep t F M (L(m := placed s v (L m)))
        \<and> same_areas s t \<and> same_mm m s t"
proof -
  obtain ys zs where L: "L m = ys @ zs" and pl: "placed s v (L m) = ys @ v # zs"
    and ip: "insert_point s (vm_start (vma_pool s v)) None (mm_vmas (mm_pool s m)) = Some (last_opt ys, head_opt zs)"
    and blk: "(\<exists>w \<in> set (L m). overlaps (vma_pool s v) (vma_pool s w)) \<longleftrightarrow>
        (case last_opt ys of Some p \<Rightarrow> vm_end (vma_pool s p) > vm_start (vma_pool s v) | None \<Rightarrow> False)
        \<or> (case head_opt zs of Some c \<Rightarrow> vm_end (vma_pool s v) > vm_start (vma_pool s c) | None \<Rightarrow> False)"
    and out: "\<not> (\<exists>w \<in> set (L m). overlaps (vma_pool s v) (vma_pool s w)) \<longrightarrow> laid_out (area_view s (ys @ v # zs))"
    using insert_search [OF rep m g] by blast
  have empty: "mm_vmas (mm_pool s m) = None \<longleftrightarrow> L m = []"
    using areas_rep_chain(1) [OF rep m] by (cases "L m") auto
  have nv: "last_opt ys \<noteq> Some v" "head_opt zs \<noteq> Some v"
    using v m(1) L by (force simp: detached_def last_opt_Some head_opt_Some)+
  note lk = link_area_maps [OF nv, where m = m and s = s]
  show "vma_insert (Some m) (Some v) s = Some (- 1, s)" if "\<exists>w \<in> set (L m). overlaps (vma_pool s v) (vma_pool s w)"
    using that empty ip blk by (auto simp: vma_insert_def)
  assume nov: "\<not> (\<exists>w \<in> set (L m). overlaps (vma_pool s v) (vma_pool s w))"
  obtain t where t: "vma_insert (Some m) (Some v) s = Some (0, t)" "same_areas s t" "same_mm m s t"
    and maps: "area_next t = area_next (link_area m v (last_opt ys) (head_opt zs) s)"
      "area_prev t = area_prev (link_area m v (last_opt ys) (head_opt zs) s)"
      "mm_link t = mm_link (link_area m v (last_opt ys) (head_opt zs) s)"
    and cnt: "\<And>q. q < 64 \<Longrightarrow> mm_vma_count (mm_pool t q) = mm_vma_count (mm_pool s q) + (if q = m then 1 else 0)"
  proof (cases "L m = []")
    case True
    then have "ys = []" "zs = []" using L by auto
    moreover have "mm_vma_count (mm_pool s m) = 0" using areas_repD(9) [OF rep m] True by simp
    ultimately show ?thesis using True empty
      by (intro that [of "upd_mm (mm_vma_count_update (\<lambda>_. 1)) m
          (upd_vma (\<lambda>a. a\<lparr>vm_next := None, vm_prev := None\<rparr>) v (upd_mm (mm_vmas_update (\<lambda>_. Some v)) m s))"])
        (auto simp: vma_insert_def same_areas_def same_mm_def mm_data_def area_data_def area_maps fun_eq_iff link_area_def)
  next
    case False
    let ?t = "upd_mm (\<lambda>a. a\<lparr>mm_vma_count := mm_vma_count a + 1,
         mm_total_vm := mm_total_vm a + (vm_end (vma_pool s v) - vm_start (vma_pool s v))\<rparr>) m
         (link_area m v (last_opt ys) (head_opt zs) s)"
    show ?thesis
    proof (rule that [of ?t])
      show "vma_insert (Some m) (Some v) s = Some (0, ?t)"
        using False empty ip nov blk by (auto simp: vma_insert_def)
      show "same_areas s ?t" using lk(4) by (simp add: same_areas_def)
      show "same_mm m s ?t" using lk(3) by (cases "last_opt ys") (auto simp: same_mm_def mm_data_def)
      show "mm_vma_count (mm_pool ?t q) = mm_vma_count (mm_pool s q) + (if q = m then 1 else 0)" for q
        using lk(3) by (cases "last_opt ys") auto
    qed (auto simp: area_maps fun_eq_iff)
  qed
  have "mm_link t = (mm_link s)(m := (case last_opt ys of None \<Rightarrow> Some v | Some b \<Rightarrow> mm_link s m))"
    unfolding maps using lk(3) by (cases "last_opt ys") (auto simp: mm_link_def fun_eq_iff)
  then have "areas_rep t F M (L(m := ys @ v # zs))"
    using lk out nov t(2) maps cnt by (intro linked_rep [OF rep m v r _ L]) auto
  with t show "\<exists>t. vma_insert (Some m) (Some v) s = Some (0, t) \<and> areas_rep t F M (L(m := placed s v (L m)))
        \<and> same_areas s t \<and> same_mm m s t" unfolding pl by blast
qed

subsection \<open>Removing and merging\<close>

lemma vma_remove_maps:
  fixes s :: areas and m v :: nat
  assumes "vm_prev (vma_pool s v) \<noteq> Some v" and "vm_next (vma_pool s v) \<noteq> Some v"
  defines "t \<equiv> snd (vma_remove (Some m) (Some v) s)"
  shows "fst (vma_remove (Some m) (Some v) s) = 0"
    and "area_next t = (relink (area_prev s v) (area_next s v) (area_next s))(v := None)"
    and "area_prev t = (relink (area_next s v) (area_prev s v) (area_prev s))(v := None)"
    and "mm_link t = (mm_link s)(m := (case area_prev s v of None \<Rightarrow> area_next s v | Some b \<Rightarrow> mm_link s m))"
    and "same_areas s t" and "same_mm m s t"
    and "mm_vma_count (mm_pool t q) = mm_vma_count (mm_pool s q) - (if q = m then 1 else 0)"
  using assms(1,2) unfolding t_def vma_remove_def Let_def
  by (cases "vm_prev (vma_pool s v)"; cases "vm_next (vma_pool s v)";
      simp add: area_maps relink_def fun_eq_iff same_areas_def same_mm_def mm_data_def area_data_def)+

lemma area_neighbours:
  assumes "areas_rep s F M L" and "m < 64" "m \<notin> set M" and "L m = ys @ v # zs"
  shows "area_prev s v = last_opt ys" and "area_next s v = head_opt zs"
    and "area_prev s v \<noteq> Some v" and "area_next s v \<noteq> Some v"
proof -
  obtain e where "dseg (area_next s) (area_prev s) None (mm_vmas (mm_pool s m)) (L m) e None"
    using areas_rep_chain(2) [OF assms(1-3)] by (auto simp: dll_def)
  then show near: "area_prev s v = last_opt ys" "area_next s v = head_opt zs"
    unfolding assms(4) dseg_append by (auto dest!: dseg_ends split: option.splits)
  have "distinct (L m)" using lists_okD(3) [OF areas_repD(5) [OF assms(1)] assms(2)] .
  then show "area_prev s v \<noteq> Some v" "area_next s v \<noteq> Some v"
    using near assms(4) by (auto simp: last_opt_Some head_opt_Some)
qed

lemma unlinked_rep:
  assumes rep: "areas_rep s F M L" and m: "m < 64" "m \<notin> set M" and v: "v \<in> set (L m)"
    and nx: "\<And>x. x \<noteq> v \<Longrightarrow> area_next t x = relink (area_prev s v) (area_next s v) (area_next s) x"
    and pv: "\<And>x. x \<noteq> v \<Longrightarrow> area_prev t x = relink (area_next s v) (area_prev s v) (area_prev s) x"
    and mm: "mm_link t = (mm_link s)(m := (case area_prev s v of None \<Rightarrow> area_next s v | Some b \<Rightarrow> mm_link s m))"
    and cnt: "\<And>q. mm_vma_count (mm_pool t q) = mm_vma_count (mm_pool s q) - (if q = m then 1 else 0)"
    and free: "vma_free_list t = vma_free_list s" "vma_initialized t = vma_initialized s" "mm_free_list t = mm_free_list s"
    and out: "\<And>q. q < 64 \<Longrightarrow> laid_out (area_view t ((L(m := remove1 v (L m))) q))"
    and ref: "\<And>w. vm_ref_count (vma_pool t w) = vm_ref_count (vma_pool s w)"
  shows "areas_rep t F M (L(m := remove1 v (L m))) \<and> detached v F (L(m := remove1 v (L m)))"
proof
  note ok = areas_repD(5) [OF rep] and lm = areas_repD(6) [OF rep m(1)]
  have dist: "distinct (L m)" using lists_okD(3) [OF ok m(1)] .
  obtain ys zs where L: "L m = ys @ v # zs" using v by (meson split_list)
  note near = area_neighbours [OF rep m L]
  have sub: "set (remove1 v (L m)) = set (L m) - {v}" using dist by simp
  show "detached v F (L(m := remove1 v (L m)))"
    using lists_okD(2,4) [OF ok m(1)] v lm sub by (auto simp: detached_def)
  have "vp.free_slots t F = vp.free_slots s F"
  proof (rule vp.free_slots_cong)
    fix x assume "x \<in> set F"
    then have "x \<notin> set (L m)" using lm by auto
    then show "area_next t x = area_next s x"
      using nx [of x] near L by (auto simp: relink_def last_opt_Some split: option.splits)
  qed (use free in auto)
  moreover have "mp.free_slots t M = mp.free_slots s M"
    using free m(2) by (intro mp.free_slots_cong) (auto simp: mm)
  moreover have "lists_ok (area_next t) (area_prev t) (\<lambda>q. if q \<in> set M then None else mm_link t q) 64 256
      (L(m := remove1 v (L m)))"
  proof -
    have "x \<noteq> v" if "q < 64" "x \<in> set ((L(m := remove1 v (L m))) q)" for q x
      using lists_okD(4) [OF ok m(1) that(1)] that(2) v sub by (auto split: if_splits)
    then have "lists_ok (area_next t) (area_prev t) (\<lambda>q. if q \<in> set M then None else mm_link t q) 64 256
        (L(m := remove1 v (L m))) = lists_ok ((relink (area_prev s v) (area_next s v) (area_next s))(v := None))
        ((relink (area_next s v) (area_prev s v) (area_prev s))(v := None))
        ((\<lambda>q. if q \<in> set M then None else mm_link s q)
        (m := (case area_prev s v of None \<Rightarrow> area_next s v | Some b \<Rightarrow> if m \<in> set M then None else mm_link s m)))
        64 256 (L(m := remove1 v (L m)))"
      using nx pv m(2) by (intro lists_ok_frame) (auto simp: mm split: option.split)
    then show ?thesis using lists_ok_unlink [OF ok m(1) v] by simp
  qed
  moreover have "vm_ref_count (vma_pool t w) = 1" if "q < 64" "w \<in> set ((L(m := remove1 v (L m))) q)" for q w
    using areas_repD(8) [OF rep that(1)] ref that(2) sub by (auto split: if_splits)
  moreover have "mm_vma_count (mm_pool t q) = of_nat (length ((L(m := remove1 v (L m))) q))" if "q < 64" "q \<notin> set M" for q
    using areas_repD(9) [OF rep that] cnt [of q] L v by (auto simp: length_remove1)
  ultimately show "areas_rep t F M (L(m := remove1 v (L m)))"
    using areas_repD(1-4,6) [OF rep] lm sub out unfolding areas_rep_def by auto
qed

lemma vma_remove_rep:
  assumes rep: "areas_rep s F M L" and m: "m < 64" "m \<notin> set M" and v: "v \<in> set (L m)"
  defines "t \<equiv> snd (vma_remove (Some m) (Some v) s)"
  shows "fst (vma_remove (Some m) (Some v) s) = 0" and "areas_rep t F M (L(m := remove1 v (L m)))"
    and "detached v F (L(m := remove1 v (L m)))" and "same_areas s t" and "same_mm m s t"
proof -
  obtain ys zs where L: "L m = ys @ v # zs" using v by (meson split_list)
  have dist: "distinct (L m)" using lists_okD(3) [OF areas_repD(5) [OF rep] m(1)] .
  have self: "vm_prev (vma_pool s v) \<noteq> Some v" "vm_next (vma_pool s v) \<noteq> Some v"
    using area_neighbours(3,4) [OF rep m L] by (simp_all add: area_maps)
  note rm = vma_remove_maps [OF self, of m, folded t_def]
  note d = same_areasD [OF rm(5)]
  show "fst (vma_remove (Some m) (Some v) s) = 0" "same_areas s t" "same_mm m s t" using rm by auto
  have out: "laid_out (area_view t ((L(m := remove1 v (L m))) q))" if "q < 64" for q
  proof -
    have "remove1 v (L m) = ys @ zs" using L dist by (simp add: remove1_append)
    then show ?thesis using areas_repD(7) [OF rep that] L unfolding d(1)
      by (auto simp: area_view_def laid_out_append laid_out_Cons)
  qed
  have "areas_rep t F M (L(m := remove1 v (L m))) \<and> detached v F (L(m := remove1 v (L m)))"
    using out by (intro unlinked_rep [OF rep m v]) (simp_all add: rm d)
  then show "areas_rep t F M (L(m := remove1 v (L m)))" "detached v F (L(m := remove1 v (L m)))" by simp_all
qed

lemma absorb_rep:
  assumes rep: "areas_rep s F M L" and m: "m < 64" "m \<notin> set M" and L: "L m = ys @ a # b # zs" and g: "mergeable a b s"
  defines "t \<equiv> absorb m a b s"
  shows "areas_rep t (b # F) M (L(m := ys @ a # zs))"
    and "area_view t (ys @ a # zs) = area_view s ys @ (area_data (vma_pool s a))\<lparr>vm_end := vm_end (vma_pool s b)\<rparr> # area_view s zs"
proof -
  have dist: "distinct (L m)" using lists_okD(3) [OF areas_repD(5) [OF rep] m(1)] .
  have b: "b \<in> set (L m)" and rm: "remove1 b (L m) = ys @ a # zs" using L dist by (auto simp: remove1_append)
  have near: "area_prev s b = Some a" "area_next s b = head_opt zs" "area_next s b \<noteq> Some b"
    using area_neighbours [OF rep m, of "ys @ [a]" b zs] L by simp_all
  define u where "u = (let s1 = upd_vma (\<lambda>v. v\<lparr>vm_end := vm_end (vma_pool s b), vm_next := vm_next (vma_pool s b)\<rparr>) a s;
          s2 = (case vm_next (vma_pool s1 b) of
                  Some n \<Rightarrow> upd_vma (vm_prev_update (\<lambda>_. Some a)) n s1 | None \<Rightarrow> s1)
      in upd_mm (\<lambda>k. k\<lparr>mm_vma_count := mm_vma_count k - 1\<rparr>) m s2)"
  have t: "t = vma_free (Some b) u" by (simp add: t_def absorb_def u_def Let_def)
  have ab: "a \<noteq> b" "a \<notin> set zs" "a \<notin> set ys" "b \<notin> set ys" "b \<notin> set zs" using dist L by auto
  have pool: "area_data (vma_pool u w) = (if w = a then (area_data (vma_pool s a))\<lparr>vm_end := vm_end (vma_pool s b)\<rparr>
      else area_data (vma_pool s w))" for w
    using ab by (auto simp: u_def Let_def area_data_def split: option.split)
  then have "map (\<lambda>v. area_data (vma_pool u v)) xs = map (\<lambda>v. area_data (vma_pool s v)) xs" if "a \<notin> set xs" for xs
    using that by auto
  then have view: "area_view u (ys @ a # zs) =
      area_view s ys @ (area_data (vma_pool s a))\<lparr>vm_end := vm_end (vma_pool s b)\<rparr> # area_view s zs"
    using pool ab by (simp add: area_view_def)
  have "area_view t (ys @ a # zs) = area_view u (ys @ a # zs)"
    unfolding t area_view_def vma_free_def using ab by auto
  with view show "area_view t (ys @ a # zs) =
      area_view s ys @ (area_data (vma_pool s a))\<lparr>vm_end := vm_end (vma_pool s b)\<rparr> # area_view s zs" by simp
  have "areas_rep u F M (L(m := remove1 b (L m))) \<and> detached b F (L(m := remove1 b (L m)))"
  proof (rule unlinked_rep [OF rep m b])
    show "laid_out (area_view u ((L(m := remove1 b (L m))) q))" if q: "q < 64" for q
    proof (cases "q = m")
      case True
      have "laid_out (area_view s (ys @ a # b # zs))" using areas_repD(7) [OF rep m(1)] L by simp
      moreover have "vm_end (vma_pool s a) = vm_start (vma_pool s b)" using g by (simp add: mergeable_def)
      ultimately have "laid_out (area_view u (ys @ a # zs))"
        unfolding view by (auto simp: laid_out_append laid_out_Cons area_view_def good_range_def)
      then show ?thesis using True rm by simp
    next
      case False
      then have "a \<notin> set (L q)" using lists_okD(4) [OF areas_repD(5) [OF rep] m(1) q] L by auto
      then have "area_view u (L q) = area_view s (L q)" using pool by (auto simp: area_view_def)
      then show ?thesis using False areas_repD(7) [OF rep q] by simp
    qed
    show "vm_ref_count (vma_pool u w) = vm_ref_count (vma_pool s w)" for w
      using ab by (auto simp: u_def Let_def split: option.split)
  qed (use near ab in \<open>auto simp: u_def Let_def area_maps relink_def fun_eq_iff split: option.splits\<close>)
  then show "areas_rep t (b # F) M (L(m := ys @ a # zs))" unfolding t rm using vma_free_rep by blast
qed

subsection \<open>Finding areas and gaps\<close>

lemma area_unique:
  assumes rep: "areas_rep s F M L" and m: "m < 64" and v: "v \<in> set (L m)" "w \<in> set (L m)"
    and x: "area_has s x v" "area_has s x w"
  shows "v = w"
proof (rule ccontr)
  assume ne: "v \<noteq> w"
  have lo: "laid_out (area_view s (L m))" using areas_repD(7) [OF rep m] .
  obtain xs ys zs where "L m = xs @ v # ys @ w # zs \<or> L m = xs @ w # ys @ v # zs"
    using v ne by (metis in_set_conv_decomp insert_iff list.set(2) append_Cons append_assoc set_append Un_iff)
  then have "vm_end (vma_pool s v) \<le> vm_start (vma_pool s w) \<or> vm_end (vma_pool s w) \<le> vm_start (vma_pool s v)"
    using lo by (auto simp: area_view_def laid_out_append laid_out_Cons)
  with x show False by (auto simp: area_has_def)
qed

lemma vma_find_rep:
  assumes "areas_rep s F M L" and "m < 64" "m \<notin> set M"
  shows "vma_find (Some m) addr s = Some (List.find (area_has s addr) (L m))"
  using chain_find_chain [OF areas_rep_chain(1) [OF assms]] by (simp add: vma_find_def)

lemma nearer_done:
  assumes "\<forall>v \<in> set vs. vm_start (vma_pool s n) \<le> vm_start (vma_pool s v)"
  shows "fold (nearer s addr) vs (Some n) = Some n"
  using assms by (induction vs) (auto simp: nearer_def)

lemma nearest_rep:
  assumes "areas_rep s F M L" and "m < 64" "m \<notin> set M"
  shows "vma_find_nearest (Some m) addr s = Some (List.find (\<lambda>v. addr < vm_end (vma_pool s v)) (L m))"
proof -
  have "fold (nearer s addr) vs None = List.find (\<lambda>v. addr < vm_end (vma_pool s v)) vs"
    if "laid_out (area_view s vs)" for vs
    using that
  proof (induction vs)
    case (Cons v vs)
    have "vm_start (vma_pool s v) \<le> vm_start (vma_pool s w)" if "w \<in> set vs" for w
      using Cons.prems that by (auto simp: area_view_def laid_out_Cons good_range_def intro: less_imp_le order_trans)
    then have "fold (nearer s addr) vs (Some v) = Some v" by (intro nearer_done) blast
    moreover have "nearer s addr v None = (if addr < vm_end (vma_pool s v) then Some v else None)"
      by (simp add: nearer_def)
    ultimately show ?case using Cons by (simp add: area_view_def laid_out_Cons)
  qed simp
  then show ?thesis
    using chain_fold_chain [OF areas_rep_chain(1) [OF assms], of "nearer s addr" None] areas_repD(7) [OF assms(1,2)]
    by (simp add: vma_find_nearest_def)
qed

lemma free_region_chain:
  assumes "chain (area_next s) p vs" and "laid_out (area_view s vs)"
  shows "\<exists>r. free_region s sz p addr = Some r
    \<and> (r \<noteq> 0 \<longrightarrow> unat r + unat sz < 2 ^ 32 \<longrightarrow> addr \<le> r
       \<and> (\<forall>v \<in> set vs. vm_end (vma_pool s v) \<le> r \<or> r + sz \<le> vm_start (vma_pool s v)))"
  using assms
proof (induction vs arbitrary: p addr)
  case Nil
  then show ?case by (simp add: free_region.simps)
next
  case (Cons v vs)
  let ?a = "if vm_end (vma_pool s v) > addr then vm_end (vma_pool s v) else addr"
  have later: "vm_start (vma_pool s v) \<le> vm_start (vma_pool s w)" if "w \<in> set vs" for w
    using Cons.prems that by (auto simp: area_view_def laid_out_Cons good_range_def intro: less_imp_le order_trans)
  show ?case
  proof (cases "addr + sz \<le> vm_start (vma_pool s v)")
    case True
    have "addr + sz \<le> vm_start (vma_pool s w)" if "w \<in> set (v # vs)" for w
      using True later that by (auto intro: order_trans)
    moreover have "free_region s sz p addr = Some addr"
      using True Cons.prems by (simp add: free_region.simps [of s sz "Some v"])
    ultimately show ?thesis by auto
  next
    case False
    have "free_region s sz p addr = free_region s sz (area_next s v) ?a"
      using Cons.prems False by (simp add: free_region.simps [of s sz "Some v"] area_next_def)
    moreover have "chain (area_next s) (area_next s v) vs" "laid_out (area_view s vs)"
      using Cons.prems by (auto simp: area_view_def laid_out_Cons)
    from Cons.IH [OF this, of ?a] obtain r where "free_region s sz (area_next s v) ?a = Some r"
      and r: "r \<noteq> 0 \<longrightarrow> unat r + unat sz < 2 ^ 32 \<longrightarrow> ?a \<le> r
         \<and> (\<forall>v \<in> set vs. vm_end (vma_pool s v) \<le> r \<or> r + sz \<le> vm_start (vma_pool s v))" by blast
    moreover have "addr \<le> ?a" "vm_end (vma_pool s v) \<le> ?a" by auto
    ultimately show ?thesis by (intro exI [of _ r]) (auto split: if_splits intro: order_trans)
  qed
qed

lemma find_free_region_rep:
  assumes "areas_rep s F M L" and "m < 64" "m \<notin> set M"
  shows "\<exists>r. find_free_region (Some m) sz s = Some r
    \<and> (r \<noteq> 0 \<longrightarrow> unat r + unat sz < 2 ^ 32 \<longrightarrow> mm_mmap_base (mm_pool s m) \<le> r
       \<and> (\<forall>v \<in> set (L m). vm_end (vma_pool s v) \<le> r \<or> r + sz \<le> vm_start (vma_pool s v)))"
  using free_region_chain [OF areas_rep_chain(1) [OF assms] areas_repD(7) [OF assms(1,2)]]
  by (simp add: find_free_region_def)

subsection \<open>What merging keeps\<close>

definition area_at :: "vma list \<Rightarrow> u32 \<Rightarrow> vma option" where
  "area_at vs addr = List.find (\<lambda>a. vm_start a \<le> addr \<and> addr < vm_end a) vs"

definition rights_at :: "vma list \<Rightarrow> u32 \<Rightarrow> (u32 \<times> int) option" where
  "rights_at vs addr = map_option (\<lambda>a. (vm_flags a, vm_fd a)) (area_at vs addr)"

lemma find_append: "List.find P (xs @ ys) = (case List.find P xs of None \<Rightarrow> List.find P ys | Some x \<Rightarrow> Some x)"
  by (induction xs) auto

lemma area_at_view: "area_at (area_view s vs) addr = map_option (\<lambda>v. area_data (vma_pool s v)) (List.find (area_has s addr) vs)"
  by (induction vs) (auto simp: area_at_def area_view_def area_has_def)

lemma rights_merge:
  assumes "vm_end a = vm_start b" "vm_flags a = vm_flags b" "vm_fd a = vm_fd b" and "laid_out (ys @ a # b # zs)"
  shows "rights_at (ys @ a\<lparr>vm_end := vm_end b\<rparr> # zs) = rights_at (ys @ a # b # zs)"
proof
  fix x
  have "vm_start a < vm_end a" "vm_start b < vm_end b" using assms(4) by (auto simp: laid_out_append laid_out_Cons good_range_def)
  then have "vm_start a \<le> x \<and> x < vm_end b \<longleftrightarrow> vm_start a \<le> x \<and> x < vm_end a \<or> vm_start b \<le> x \<and> x < vm_end b"
    using assms(1) by auto
  then show "rights_at (ys @ a\<lparr>vm_end := vm_end b\<rparr> # zs) x = rights_at (ys @ a # b # zs) x"
    using assms(2,3) by (auto simp: rights_at_def area_at_def find_append split: option.split)
qed

lemma absorb_rights:
  assumes rep: "areas_rep s F M L" and m: "m < 64" "m \<notin> set M" and L: "L m = ys @ a # b # zs" and g: "mergeable a b s"
  shows "rights_at (area_view (absorb m a b s) (ys @ a # zs)) = rights_at (area_view s (L m))"
proof -
  have "laid_out (area_view s ys @ area_data (vma_pool s a) # area_data (vma_pool s b) # area_view s zs)"
    using areas_repD(7) [OF rep m(1)] L by (simp add: area_view_def)
  then have "rights_at (area_view s ys @ (area_data (vma_pool s a))\<lparr>vm_end := vm_end (area_data (vma_pool s b))\<rparr> # area_view s zs)
      = rights_at (area_view s ys @ area_data (vma_pool s a) # area_data (vma_pool s b) # area_view s zs)"
    using g by (intro rights_merge) (auto simp: mergeable_def)
  then show ?thesis unfolding absorb_rep(2) [OF assms] using L by (simp add: area_view_def)
qed

definition merges :: "nat \<Rightarrow> nat list \<Rightarrow> (nat \<Rightarrow> nat list) \<Rightarrow> areas \<Rightarrow> int \<Rightarrow> areas \<Rightarrow> bool" where
  "merges m M L s n t \<longleftrightarrow> (\<exists>F' ws. areas_rep t F' M (L(m := ws)) \<and> int (length ws) + n = int (length (L m))
     \<and> rights_at (area_view t ws) = rights_at (area_view s (L m)))"

lemma merge_next:
  assumes rep: "areas_rep s F M L" and m: "m < 64" "m \<notin> set M" and L: "L m = ys @ v # zs"
  shows "case vm_next (vma_pool s v) of
       Some n \<Rightarrow> mergeable v n s \<longrightarrow> merges m M L s 1 (absorb m v n s) | None \<Rightarrow> True"
proof (cases zs)
  case Nil
  then show ?thesis using area_neighbours(2) [OF rep m L] by (simp add: area_next_def)
next
  case (Cons b ws)
  then have "vm_next (vma_pool s v) = Some b" using area_neighbours(2) [OF rep m L] by (simp add: area_next_def)
  moreover have "merges m M L s 1 (absorb m v b s)" if "mergeable v b s"
    unfolding merges_def using absorb_rep(1) [OF rep m _ that] absorb_rights [OF rep m _ that] L Cons
    by - (rule exI, rule exI [of _ "ys @ v # ws"], auto)
  ultimately show ?thesis by simp
qed

lemma merges_step:
  assumes "int (length ws) + n = int (length (L m))" "rights_at (area_view t ws) = rights_at (area_view s (L m))"
    and "merges m M (L(m := ws)) t k u"
  shows "merges m M L s (n + k) u"
proof -
  obtain F' vs where "areas_rep u F' M (L(m := vs))" "int (length vs) + k = int (length ws)"
    "rights_at (area_view u vs) = rights_at (area_view t ws)"
    using assms(3) by (auto simp: merges_def)
  then show ?thesis unfolding merges_def using assms(1,2) by (intro exI [of _ F'] exI [of _ vs]) simp
qed

text \<open>
  \<open>vma_merge\<close> joins an area with its neighbours without changing what any address may do: the
  address space stays well formed, as many areas disappear as the returned count says, and every
  address is covered by an area with the same flags and file descriptor as before, or by none.
\<close>

lemma vma_merge_keeps_rights:
  assumes rep: "areas_rep s F M L" and m: "m < 64" "m \<notin> set M" and v: "v \<in> set (L m)"
  shows "\<exists>F' ws. areas_rep (snd (vma_merge (Some m) (Some v) s)) F' M (L(m := ws))
     \<and> int (length ws) + fst (vma_merge (Some m) (Some v) s) = int (length (L m))
     \<and> rights_at (area_view (snd (vma_merge (Some m) (Some v) s)) ws) = rights_at (area_view s (L m))"
proof -
  obtain ys zs where L: "L m = ys @ v # zs" using v by (meson split_list)
  have stay: "merges m M L s 0 s" unfolding merges_def using rep by (metis add.right_neutral fun_upd_triv)
  have "merges m M L s (fst (vma_merge (Some m) (Some v) s)) (snd (vma_merge (Some m) (Some v) s))"
  proof (cases "\<exists>p. vm_prev (vma_pool s v) = Some p \<and> mergeable p v s")
    case True
    then obtain p where p: "vm_prev (vma_pool s v) = Some p" and g: "mergeable p v s" by blast
    then have "last_opt ys = Some p" using area_neighbours(1) [OF rep m L] by (simp add: area_maps)
    then obtain us where "ys = us @ [p]" by (auto simp: last_opt_Some)
    then have L': "L m = us @ p # v # zs" using L by simp
    let ?t = "absorb m p v s" and ?L = "L(m := us @ p # zs)"
    note rep1 = absorb_rep(1) [OF rep m L' g] and r1 = absorb_rights [OF rep m L' g]
    have "merges m M ?L ?t 0 ?t" unfolding merges_def using rep1 by (metis add.right_neutral fun_upd_triv)
    moreover have "case vm_next (vma_pool ?t p) of
       Some n \<Rightarrow> mergeable p n ?t \<longrightarrow> merges m M ?L ?t 1 (absorb m p n ?t) | None \<Rightarrow> True"
      using merge_next [OF rep1 m, of us p zs] by simp
    moreover have "merges m M L s (1 + k) u" if "merges m M ?L ?t k u" for k u
      using L' r1 that by (intro merges_step [of "us @ p # zs" 1 L m ?t]) auto
    ultimately have "merges m M L s 1 ?t" "\<And>n. vm_next (vma_pool ?t p) = Some n \<Longrightarrow> mergeable p n ?t \<Longrightarrow>
        merges m M L s 2 (absorb m p n ?t)" by fastforce+
    with p g show ?thesis by (simp add: vma_merge_def split: option.split)
  next
    case False
    with stay merge_next [OF rep m L] show ?thesis by (auto simp: vma_merge_def split: option.splits)
  qed
  then show ?thesis unfolding merges_def by blast
qed

definition demo_areas :: areas where
  "demo_areas = \<lparr>vma_pool = (\<lambda>i. (new_area (if i = 0 then 0x1000 else 0x2000) (if i = 0 then 0x2000 else 0x3000) VM_READ)
       \<lparr>vm_next := if i = 0 then Some 1 else None, vm_prev := if i = 0 then None else Some 0\<rparr>),
     vma_free_list = None, vma_initialized = True,
     mm_pool = (\<lambda>q. \<lparr>mm_vmas = (if q = 0 then Some 0 else None), mm_vma_count = (if q = 0 then 2 else 0),
       mm_page_directory = 0, mm_code_start = 0, mm_code_end = 0, mm_data_start = 0, mm_data_end = 0,
       mm_heap_start = 0, mm_heap_end = 0, mm_stack_start = 0xC0000000, mm_stack_end = 0xC0000000,
       mm_mmap_base = 0x40000000, mm_total_vm = 0, mm_rss = 0, mm_shared = 0, mm_locked = 0, mm_ref_count = 1\<rparr>),
     mm_free_list = None\<rparr>"

lemma demo_areas_rep: "areas_rep demo_areas [] [] (\<lambda>q. if q = 0 then [0, 1] else [])"
  by (auto simp: areas_rep_def demo_areas_def vp.free_slots_def mp.free_slots_def lists_ok_def dll_def area_maps
      laid_out_def area_view_def area_data_def new_area_def page_aligned_def)

subsection \<open>Address space descriptors\<close>

lemma mm_alloc_rep:
  assumes rep: "areas_rep s F M L"
  shows "M = [] \<Longrightarrow> mm_alloc s = (None, s)"
    and "M = m # M' \<Longrightarrow> fst (mm_alloc s) = Some m \<and> areas_rep (snd (mm_alloc s)) F M' L \<and> m < 64 \<and> m \<notin> set M'
           \<and> L m = [] \<and> vma_pool (snd (mm_alloc s)) = vma_pool s"
proof -
  have M: "mp.free_slots s M" "set M \<subseteq> {..<64}" "vma_initialized s" using areas_repD [OF rep] by auto
  show "mm_alloc s = (None, s)" if "M = []" using M that by (simp add: mp.free_slots_def mm_alloc_def)
  assume Mm: "M = m # M'"
  let ?t = "snd (mm_alloc s)"
  have hd: "mm_free_list s = Some m" using M Mm by (simp add: mp.free_slots_def)
  have m: "m < 64" "m \<notin> set M'" using M mp.free_slots_distinct [OF M(1)] Mm by auto
  have Lm: "L m = []" using areas_rep_dead [OF rep m(1)] Mm by simp
  have pool: "vma_pool ?t = vma_pool s" "vma_free_list ?t = vma_free_list s" "vma_initialized ?t"
    "\<And>q. q \<noteq> m \<Longrightarrow> mm_pool ?t q = mm_pool s q" "mm_link ?t m = None" "mm_vma_count (mm_pool ?t m) = 0"
    using hd M(3) by (simp_all add: mm_alloc_def Let_def mm_link_def)
  have "mp.free_slots ?t M'" using mp.pop_free_slots(2) [OF M(1)] Mm by simp
  moreover have "vp.free_slots ?t F = vp.free_slots s F"
    using pool M(3) by (intro vp.free_slots_cong) (auto simp: area_next_def)
  moreover have "lists_ok (area_next ?t) (area_prev ?t) (\<lambda>q. if q \<in> set M' then None else mm_link ?t q) 64 256 L
      = lists_ok (area_next s) (area_prev s) (\<lambda>q. if q \<in> set M then None else mm_link s q) 64 256 L"
    using pool Mm by (intro lists_ok_frame) (auto simp: area_maps)
  moreover have "mm_vma_count (mm_pool ?t q) = of_nat (length (L q))" if "q < 64" "q \<notin> set M'" for q
    using areas_repD(9) [OF rep that(1)] that(2) pool Lm Mm by (cases "q = m") auto
  moreover have "area_view ?t vs = area_view s vs" for vs using pool by (simp add: area_view_def)
  ultimately have "areas_rep ?t F M' L" using rep pool M(2) Mm unfolding areas_rep_def by auto
  moreover have "fst (mm_alloc s) = Some m" using mp.pop_free_slots(1) [OF M(1)] Mm by simp
  ultimately show "fst (mm_alloc s) = Some m \<and> areas_rep ?t F M' L \<and> m < 64 \<and> m \<notin> set M' \<and> L m = []
      \<and> vma_pool ?t = vma_pool s" using m Lm pool by simp
qed

text \<open>
  \<open>mm_destroy\<close> gives the areas of a descriptor back one by one without unlinking them. \<open>hide m\<close> is the
  state in which descriptor \<open>m\<close> no longer counts as their owner.
\<close>

definition hide :: "nat \<Rightarrow> areas \<Rightarrow> areas" where
  "hide m s = upd_mm (\<lambda>k. k\<lparr>mm_vmas := None, mm_vma_count := 0\<rparr>) m s"

lemma hide_rep:
  assumes rep: "areas_rep s F M L" and m: "m < 64" "m \<notin> set M"
  shows "areas_rep (hide m s) F M (L(m := []))" and "v \<in> set (L m) \<Longrightarrow> detached v F (L(m := []))"
proof -
  note ok = areas_repD(5) [OF rep]
  show "v \<in> set (L m) \<Longrightarrow> detached v F (L(m := []))"
    using lists_okD(2,4) [OF ok m(1)] areas_repD(6) [OF rep m(1)] by (auto simp: detached_def)
  have "lists_ok (area_next s) (area_prev s) (\<lambda>q. if q \<in> set M then None else mm_link (hide m s) q) 64 256 (L(m := []))"
    using ok m unfolding lists_ok_def by (auto simp: hide_def mm_link_def)
  moreover have "mp.free_slots (hide m s) M = mp.free_slots s M"
    using m(2) by (intro mp.free_slots_cong) (auto simp: hide_def mm_link_def)
  moreover have "area_next (hide m s) = area_next s" "area_prev (hide m s) = area_prev s" "vma_pool (hide m s) = vma_pool s"
    by (auto simp: hide_def area_maps fun_eq_iff)
  moreover have "vp.free_slots (hide m s) F = vp.free_slots s F"
    by (intro vp.free_slots_cong) (auto simp: hide_def area_next_def)
  moreover have "area_view (hide m s) vs = area_view s vs" for vs by (simp add: area_view_def hide_def)
  ultimately show "areas_rep (hide m s) F M (L(m := []))"
    using rep m unfolding areas_rep_def by (auto simp: hide_def area_view_def)
qed

lemma mm_free_struct_rep:
  assumes rep: "areas_rep (hide m s) F M L" and m: "m < 64" "m \<notin> set M" and L: "L m = []"
  shows "areas_rep (mm_free_struct (Some m) s) F (m # M) L"
proof -
  let ?t = "mm_free_struct (Some m) s"
  have t: "vma_pool ?t = vma_pool (hide m s)" "vma_free_list ?t = vma_free_list (hide m s)"
    "vma_initialized ?t = vma_initialized (hide m s)" "\<And>q. q \<noteq> m \<Longrightarrow> mm_pool ?t q = mm_pool (hide m s) q"
    by (auto simp: hide_def mm_free_struct_def)
  have "mp.free_slots s M = mp.free_slots (hide m s) M"
    using m(2) by (intro mp.free_slots_cong) (auto simp: hide_def mm_link_def)
  then have "mp.free_slots ?t (m # M)" using mp.put_free_slots m(2) areas_repD(3) [OF rep] by simp
  moreover have "vp.free_slots ?t F = vp.free_slots (hide m s) F"
    using t by (intro vp.free_slots_cong) (auto simp: area_next_def)
  moreover have "lists_ok (area_next ?t) (area_prev ?t) (\<lambda>q. if q \<in> set (m # M) then None else mm_link ?t q) 64 256 L
      = lists_ok (area_next (hide m s)) (area_prev (hide m s)) (\<lambda>q. if q \<in> set M then None else mm_link (hide m s) q) 64 256 L"
    using t L by (intro lists_ok_frame) (auto simp: area_maps hide_def)
  moreover have "area_view ?t vs = area_view (hide m s) vs" for vs using t by (simp add: area_view_def)
  ultimately show ?thesis using rep t m unfolding areas_rep_def by auto
qed

end
