(* ===== verification/PageCacheProps.thy ===== *)
theory PageCacheProps
  imports PageCache
begin

unbundle bit_operations_syntax

text \<open>
  The page cache of theory \<open>PageCache\<close> is consistent: \<open>pc_rep\<close> says that the free list, the hash chains
  and the list in order of use share the pool without overlap, that every cached entry is in the chain
  of its own hash and in the list in order of use, and that no page is cached twice. The lemmas
  say what every operation does to these lists.
\<close>

lemma upd_entry_simps [simp]:
  "pc_free_list (upd_entry f e s) = pc_free_list s" "pc_hash (upd_entry f e s) = pc_hash s"
  "lru_head (upd_entry f e s) = lru_head s" "lru_tail (upd_entry f e s) = lru_tail s"
  "cache_stats (upd_entry f e s) = cache_stats s" "cache_clock (upd_entry f e s) = cache_clock s"
  "pc_initialized (upd_entry f e s) = pc_initialized s" "pc_frames (upd_entry f e s) = pc_frames s"
  "pc_pool (upd_entry f e s) = (pc_pool s)(e := f (pc_pool s e))"
  by (simp_all add: upd_entry_def)

lemma upd_stats_simps [simp]:
  "pc_free_list (upd_stats g s) = pc_free_list s" "pc_hash (upd_stats g s) = pc_hash s"
  "lru_head (upd_stats g s) = lru_head s" "lru_tail (upd_stats g s) = lru_tail s"
  "cache_stats (upd_stats g s) = g (cache_stats s)" "cache_clock (upd_stats g s) = cache_clock s"
  "pc_initialized (upd_stats g s) = pc_initialized s" "pc_frames (upd_stats g s) = pc_frames s"
  "pc_pool (upd_stats g s) = pc_pool s"
  by (simp_all add: upd_stats_def)

lemmas entry_maps = entry_next_def older_def newer_def

lemma cache_init_done [simp]: "pc_initialized s \<Longrightarrow> vmm_page_cache_init s = s"
  by (simp add: vmm_page_cache_init_def)

lemma hash_bound [simp]: "page_cache_hash_fn i k < 256"
proof -
  have "unat (w AND 255) < 2 ^ 8" for w :: u32
  proof -
    have m: "(255 :: u32) = mask 8" by (simp add: mask_eq_exp_minus_1)
    have "unat (w AND 255) = take_bit 8 (unat w)"
      unfolding m by (simp add: take_bit_eq_mask [symmetric] unsigned_take_bit_eq)
    then show ?thesis using take_bit_nat_less_exp [of 8 "unat w"] by simp
  qed
  then show ?thesis by (simp add: page_cache_hash_fn_def)
qed

subsection \<open>The entry pool and the list in order of use\<close>

interpretation pp: free_pool entry_next pc_free_list take_entry cache_entry_free pc_initialized
  by unfold_locales (auto simp: take_entry_def cache_entry_free_def entry_next_def Let_def fun_eq_iff)

definition lru_heads :: "pcache \<Rightarrow> nat \<Rightarrow> nat option" where
  "lru_heads s q = (if q = 0 then lru_head s else None)"

lemma lru_add_maps:
  "older (lru_add e s) = (older s)(e := lru_head s)"
  "newer (lru_add e s) = relink (lru_head s) (Some e) ((newer s)(e := None))"
  "lru_head (lru_add e s) = Some e"
  "lru_tail (lru_add e s) = (if lru_tail s = None then Some e else lru_tail s)"
  by (cases "lru_head s"; simp add: lru_add_def Let_def entry_maps relink_def fun_eq_iff)+

lemma lru_remove_maps:
  "older (lru_remove e s) = (relink (newer s e) (older s e) (older s))(e := None)"
  "newer (lru_remove e s) = (relink (older s e) (newer s e) (newer s))(e := None)"
  "lru_head (lru_remove e s) = (case newer s e of None \<Rightarrow> older s e | Some p \<Rightarrow> lru_head s)"
  "lru_tail (lru_remove e s) = (case older s e of None \<Rightarrow> newer s e | Some p \<Rightarrow> lru_tail s)"
  by (cases "pe_lru_prev (pc_pool s e)"; cases "pe_lru_next (pc_pool s e)";
      auto simp: lru_remove_def Let_def entry_maps relink_def fun_eq_iff)+

interpretation lru: intrusive_lists older newer lru_heads "\<lambda>e q. lru_add e" "\<lambda>e q. lru_remove e" "Suc 0" 512
  by unfold_locales (auto simp: lru_add_maps lru_remove_maps lru_heads_def fun_eq_iff split: option.split)

definition lru_order :: "pcache \<Rightarrow> nat list" where
  "lru_order s = walk 512 (older s) (lru_head s)"

lemma lru_list [simp]: "lru.list_of s 0 = lru_order s"
  by (simp add: lru.list_of_def lru_order_def lru_heads_def)

text \<open>What the list operations leave alone.\<close>

definition same_entries :: "pcache \<Rightarrow> pcache \<Rightarrow> bool" where
  "same_entries s t \<longleftrightarrow> (\<forall>e. (pc_pool t e)\<lparr>pe_lru_next := None, pe_lru_prev := None, pe_access_time := 0\<rparr>
        = (pc_pool s e)\<lparr>pe_lru_next := None, pe_lru_prev := None, pe_access_time := 0\<rparr>)
     \<and> pc_free_list t = pc_free_list s \<and> pc_hash t = pc_hash s \<and> pc_initialized t = pc_initialized s
     \<and> pc_frames t = pc_frames s \<and> cache_stats t = cache_stats s"

lemma same_entriesD:
  assumes "same_entries s t"
  shows "pe_inode (pc_pool t e) = pe_inode (pc_pool s e)" "pe_offset (pc_pool t e) = pe_offset (pc_pool s e)"
    "pe_phys_addr (pc_pool t e) = pe_phys_addr (pc_pool s e)" "pe_ref_count (pc_pool t e) = pe_ref_count (pc_pool s e)"
    "pe_locked (pc_pool t e) = pe_locked (pc_pool s e)" "pe_dirty (pc_pool t e) = pe_dirty (pc_pool s e)"
    "entry_next t = entry_next s"
    "pc_free_list t = pc_free_list s" "pc_hash t = pc_hash s" "pc_initialized t = pc_initialized s"
    "pc_frames t = pc_frames s" "cache_stats t = cache_stats s"
proof -
  have eq: "(pc_pool t e)\<lparr>pe_lru_next := None, pe_lru_prev := None, pe_access_time := 0\<rparr>
      = (pc_pool s e)\<lparr>pe_lru_next := None, pe_lru_prev := None, pe_access_time := 0\<rparr>" for e
    using assms by (simp add: same_entries_def)
  show "pe_inode (pc_pool t e) = pe_inode (pc_pool s e)" "pe_offset (pc_pool t e) = pe_offset (pc_pool s e)"
    "pe_phys_addr (pc_pool t e) = pe_phys_addr (pc_pool s e)" "pe_ref_count (pc_pool t e) = pe_ref_count (pc_pool s e)"
    "pe_locked (pc_pool t e) = pe_locked (pc_pool s e)" "pe_dirty (pc_pool t e) = pe_dirty (pc_pool s e)"
    using arg_cong [OF eq [of e], of pe_inode] arg_cong [OF eq [of e], of pe_offset]
      arg_cong [OF eq [of e], of pe_phys_addr] arg_cong [OF eq [of e], of pe_ref_count]
      arg_cong [OF eq [of e], of pe_locked] arg_cong [OF eq [of e], of pe_dirty] by simp_all
  show "entry_next t = entry_next s"
    using arg_cong [OF eq, of pe_hash_next] by (simp add: entry_next_def fun_eq_iff)
qed (use assms in \<open>simp_all add: same_entries_def\<close>)

lemma same_entries_trans: "same_entries s t \<Longrightarrow> same_entries t u \<Longrightarrow> same_entries s u"
  by (simp add: same_entries_def)

lemma lru_same_entries: "same_entries s (lru_add e s)" "same_entries s (lru_remove e s)"
proof -
  show "same_entries s (lru_add e s)"
    by (cases "lru_head s"; cases "lru_tail s") (simp_all add: same_entries_def lru_add_def Let_def)
  show "same_entries s (lru_remove e s)"
    by (cases "pe_lru_prev (pc_pool s e)"; cases "pe_lru_next (pc_pool s e)")
      (simp_all add: same_entries_def lru_remove_def Let_def)
qed

lemma dseg_rev:
  "dseg nx pv b p xs e None \<Longrightarrow> chain pv e (rev xs @ ys) \<longleftrightarrow> chain pv b ys"
proof (induction xs arbitrary: b p ys)
  case (Cons x xs)
  then show ?case using Cons.IH [of "Some x" "nx x" "x # ys"] by simp
qed simp

lemma dll_rev: "dll nx pv p xs \<Longrightarrow> chain pv (last_opt xs) (rev xs)"
proof -
  assume "dll nx pv p xs"
  then obtain e where e: "dseg nx pv None p xs e None" by (auto simp: dll_def)
  then have "e = last_opt xs" by (auto dest: dseg_ends split: option.splits)
  with dseg_rev [OF e, of "[]"] show ?thesis by simp
qed

subsection \<open>The representation\<close>

definition entry_hash :: "pcache \<Rightarrow> nat \<Rightarrow> nat" where
  "entry_hash s e = page_cache_hash_fn (pe_inode (pc_pool s e)) (pe_offset (pc_pool s e))"

definition in_window :: "pmm \<Rightarrow> u32 \<Rightarrow> bool" where
  "in_window f a \<longleftrightarrow> unat (a div PAGE_SIZE) div 8 < length (memory_bitmap f)"

definition pc_rep :: "pcache \<Rightarrow> nat list \<Rightarrow> (nat \<Rightarrow> nat list) \<Rightarrow> bool" where
  "pc_rep s F H \<longleftrightarrow>
     pp.free_slots s F \<and> set F \<subseteq> {..<512}
     \<and> (\<forall>h < 256. chain (entry_next s) (pc_hash s h) (H h) \<and> set (H h) \<inter> set F = {}
          \<and> (\<forall>e \<in> set (H h). entry_hash s e = h))
     \<and> lru.well_linked s \<and> lru_tail s = last_opt (lru_order s)
     \<and> set (lru_order s) = (\<Union>h < 256. set (H h))
     \<and> (\<forall>e \<in> set (lru_order s). \<forall>e' \<in> set (lru_order s).
          pe_inode (pc_pool s e) = pe_inode (pc_pool s e') \<longrightarrow> pe_offset (pc_pool s e) = pe_offset (pc_pool s e') \<longrightarrow> e = e')
     \<and> (\<forall>e \<in> set (lru_order s). in_window (pc_frames s) (pe_phys_addr (pc_pool s e)))
     \<and> pc_total_pages (cache_stats s) = of_nat (length (lru_order s))"

lemma pc_repD:
  assumes "pc_rep s F H"
  shows "pp.free_slots s F" "set F \<subseteq> {..<512}" "pc_initialized s"
    "h < 256 \<Longrightarrow> chain (entry_next s) (pc_hash s h) (H h)" "h < 256 \<Longrightarrow> set (H h) \<inter> set F = {}"
    "h < 256 \<Longrightarrow> e \<in> set (H h) \<Longrightarrow> entry_hash s e = h"
    "lru.well_linked s" "lru_tail s = last_opt (lru_order s)" "set (lru_order s) = (\<Union>h < 256. set (H h))"
    "e \<in> set (lru_order s) \<Longrightarrow> e' \<in> set (lru_order s) \<Longrightarrow> pe_inode (pc_pool s e) = pe_inode (pc_pool s e') \<Longrightarrow>
       pe_offset (pc_pool s e) = pe_offset (pc_pool s e') \<Longrightarrow> e = e'"
    "e \<in> set (lru_order s) \<Longrightarrow> in_window (pc_frames s) (pe_phys_addr (pc_pool s e))"
    "pc_total_pages (cache_stats s) = of_nat (length (lru_order s))"
  using assms unfolding pc_rep_def pp.free_slots_def by auto

lemma lru_dll:
  assumes "lru.well_linked s"
  shows "dll (older s) (newer s) (lru_head s) (lru_order s)" "set (lru_order s) \<subseteq> {..<512}" "distinct (lru_order s)"
proof -
  have "lists_ok (older s) (newer s) (lru_heads s) (Suc 0) 512 (lru.list_of s)"
    using assms by (simp add: lru.well_linked_def)
  from lists_okD(1-3) [OF this, of 0] show "dll (older s) (newer s) (lru_head s) (lru_order s)"
    "set (lru_order s) \<subseteq> {..<512}" "distinct (lru_order s)" by (simp_all add: lru_heads_def)
qed

lemma cached_in_chain:
  assumes "pc_rep s F H" and "e \<in> set (lru_order s)"
  shows "e \<in> set (H (entry_hash s e))" and "entry_hash s e < 256" and "e \<notin> set F" and "e < 512"
proof -
  obtain h where h: "h < 256" "e \<in> set (H h)" using assms pc_repD(9) [OF assms(1)] by auto
  then show "e \<in> set (H (entry_hash s e))" using pc_repD(6) [OF assms(1) h] by simp
  show "entry_hash s e < 256" by (simp add: entry_hash_def)
  show "e \<notin> set F" using pc_repD(5) [OF assms(1) h(1)] h(2) by auto
  show "e < 512" using lru_dll(2) [OF pc_repD(7) [OF assms(1)]] assms(2) by auto
qed

text \<open>A change of the statistics, or of entry fields that the representation does not mention.\<close>

lemma pc_rep_frame:
  assumes rep: "pc_rep s F H" and "entry_next t = entry_next s" "older t = older s" "newer t = newer s"
    and "\<And>e. entry_hash t e = entry_hash s e" "\<And>e. pe_inode (pc_pool t e) = pe_inode (pc_pool s e)"
    and "\<And>e. pe_offset (pc_pool t e) = pe_offset (pc_pool s e)" "\<And>e. pe_phys_addr (pc_pool t e) = pe_phys_addr (pc_pool s e)"
    and "pc_free_list t = pc_free_list s" "pc_hash t = pc_hash s" "lru_head t = lru_head s" "lru_tail t = lru_tail s"
    and "pc_initialized t = pc_initialized s" "pc_frames t = pc_frames s"
    and "pc_total_pages (cache_stats t) = pc_total_pages (cache_stats s)"
  shows "pc_rep t F H" and "lru_order t = lru_order s"
proof -
  have hd: "lru_heads t = lru_heads s" using assms(11) by (simp add: lru_heads_def fun_eq_iff)
  show ord: "lru_order t = lru_order s" using assms by (simp add: lru_order_def)
  have wl: "lru.well_linked t = lru.well_linked s" using lru.frame_well_linked(1) assms hd by blast
  show "pc_rep t F H"
    using rep unfolding pc_rep_def pp.free_slots_def ord wl assms(2-15) .
qed

lemma pc_rep_stats:
  assumes "pc_rep s F H" and "\<And>t. pc_total_pages (g t) = pc_total_pages t"
  shows "pc_rep (upd_stats g s) F H" and "lru_order (upd_stats g s) = lru_order s"
proof -
  show "pc_rep (upd_stats g s) F H"
    by (rule pc_rep_frame(1) [OF assms(1)]) (auto simp: entry_maps entry_hash_def fun_eq_iff assms(2))
  have "older (upd_stats g s) = older s" by (simp add: older_def fun_eq_iff)
  then show "lru_order (upd_stats g s) = lru_order s" by (simp add: lru_order_def)
qed

text \<open>The fields of an entry that the operations of the cache do not change once it is in the cache.\<close>

definition entry_kept :: "pcache \<Rightarrow> pcache \<Rightarrow> nat \<Rightarrow> bool" where
  "entry_kept s t x \<longleftrightarrow> pe_inode (pc_pool t x) = pe_inode (pc_pool s x) \<and> pe_offset (pc_pool t x) = pe_offset (pc_pool s x)
     \<and> pe_phys_addr (pc_pool t x) = pe_phys_addr (pc_pool s x) \<and> pe_ref_count (pc_pool t x) = pe_ref_count (pc_pool s x)
     \<and> pe_locked (pc_pool t x) = pe_locked (pc_pool s x) \<and> pe_dirty (pc_pool t x) = pe_dirty (pc_pool s x)"

lemma entry_keptD:
  assumes "entry_kept s t x"
  shows "pe_inode (pc_pool t x) = pe_inode (pc_pool s x)" "pe_offset (pc_pool t x) = pe_offset (pc_pool s x)"
    "pe_phys_addr (pc_pool t x) = pe_phys_addr (pc_pool s x)" "pinned t x = pinned s x"
    "pe_dirty (pc_pool t x) = pe_dirty (pc_pool s x)" "entry_hash t x = entry_hash s x" "has_key t i k x = has_key s i k x"
  using assms by (auto simp: entry_kept_def pinned_def entry_hash_def has_key_def)

lemma entry_kept_trans: "entry_kept s t x \<Longrightarrow> entry_kept t u x \<Longrightarrow> entry_kept s u x"
  by (simp add: entry_kept_def)

lemma same_entries_kept: "same_entries s t \<Longrightarrow> entry_kept s t x"
  by (simp add: entry_kept_def same_entriesD)

subsection \<open>Lookup\<close>

lemma lru_neighbours:
  assumes "lru.well_linked s" and "lru_order s = ys @ e # zs"
  shows "newer s e = last_opt ys" and "older s e = head_opt zs"
proof -
  obtain x where "dseg (older s) (newer s) None (lru_head s) (ys @ e # zs) x None"
    using lru_dll(1) [OF assms(1)] assms(2) by (auto simp: dll_def)
  then show "newer s e = last_opt ys" "older s e = head_opt zs"
    unfolding dseg_append by (auto dest!: dseg_ends split: option.splits)
qed

lemma lru_touch_eq:
  assumes wl: "lru.well_linked s" and tl: "lru_tail s = last_opt (lru_order s)" and e: "e \<in> set (lru_order s)"
    and hd: "lru_head s \<noteq> Some e"
  shows "lru_touch e s = lru_add e (lru_remove e s)"
proof -
  obtain ys zs where o: "lru_order s = ys @ e # zs" using e by (meson split_list)
  have dist: "distinct (lru_order s)" using lru_dll(3) [OF wl] .
  have "ys \<noteq> []"
  proof
    assume "ys = []"
    with o lru_dll(1) [OF wl] have "lru_head s = Some e" by (auto simp: dll_def)
    with hd show False ..
  qed
  then obtain p where p: "pe_lru_prev (pc_pool s e) = Some p" "p \<in> set ys"
    using lru_neighbours(1) [OF wl o] by (cases ys rule: rev_cases) (auto simp: newer_def)
  then have "p \<noteq> e" using dist o by auto
  obtain h where h: "lru_head s = Some h" "h \<noteq> e"
    using lru_dll(1) [OF wl] o hd by (cases "lru_head s") auto
  show ?thesis
  proof (cases zs)
    case Nil
    then have "pe_lru_next (pc_pool s e) = None" "lru_tail s = Some e"
      using lru_neighbours(2) [OF wl o] tl o by (auto simp: older_def)
    then show ?thesis using p \<open>p \<noteq> e\<close> h
      by (simp add: lru_touch_def lru_add_def lru_remove_def Let_def upd_entry_def fun_eq_iff)
  next
    case (Cons n ws)
    then have n: "pe_lru_next (pc_pool s e) = Some n" "n \<noteq> e" "n \<noteq> p"
      using lru_neighbours(2) [OF wl o] dist o p by (auto simp: older_def)
    moreover have "lru_tail s \<noteq> Some e" "lru_tail s \<noteq> None" using tl o Cons dist by (auto simp: last_opt_def)
    ultimately show ?thesis using p \<open>p \<noteq> e\<close> h
      by (cases "lru_tail s") (simp_all add: lru_touch_def lru_add_def lru_remove_def Let_def upd_entry_def fun_eq_iff)
  qed
qed

lemma lru_add_rep:
  assumes "lru.well_linked s" "lru_tail s = last_opt (lru_order s)" "e < 512" "e \<notin> set (lru_order s)"
  shows "lru.well_linked (lru_add e s)" "lru_order (lru_add e s) = e # lru_order s"
    "lru_tail (lru_add e s) = last_opt (e # lru_order s)"
proof -
  show "lru.well_linked (lru_add e s)" "lru_order (lru_add e s) = e # lru_order s"
    using lru.push_well_linked(1) [of s 0 e] lru.push_well_linked(2) [of s 0 e 0] assms by simp_all
  show "lru_tail (lru_add e s) = last_opt (e # lru_order s)"
    using assms(2) by (auto simp: lru_add_maps last_opt_def)
qed

lemma lru_remove_rep:
  assumes "lru.well_linked s" "lru_tail s = last_opt (lru_order s)" "e \<in> set (lru_order s)"
  shows "lru.well_linked (lru_remove e s)" "lru_order (lru_remove e s) = remove1 e (lru_order s)"
    "lru_tail (lru_remove e s) = last_opt (remove1 e (lru_order s))"
proof -
  show "lru.well_linked (lru_remove e s)" "lru_order (lru_remove e s) = remove1 e (lru_order s)"
    using lru.unlink_well_linked(1) [of s 0 e] lru.unlink_well_linked(2) [of s 0 e 0] assms by simp_all
  obtain ys zs where o: "lru_order s = ys @ e # zs" using assms(3) by (meson split_list)
  then have "remove1 e (lru_order s) = ys @ zs" using lru_dll(3) [OF assms(1)] by (simp add: remove1_append)
  then show "lru_tail (lru_remove e s) = last_opt (remove1 e (lru_order s))"
    using lru_neighbours [OF assms(1) o] assms(2) o by (cases zs) (auto simp: lru_remove_maps last_opt_def)
qed

lemma lru_touch_rep:
  assumes rep: "pc_rep s F H" and e: "e \<in> set (lru_order s)"
  shows "pc_rep (lru_touch e s) F H" and "lru_order (lru_touch e s) = e # remove1 e (lru_order s)"
    and "same_entries s (lru_touch e s)"
proof -
  note wl = pc_repD(7) [OF rep] and tl = pc_repD(8) [OF rep]
  have "pc_rep (lru_touch e s) F H \<and> lru_order (lru_touch e s) = e # remove1 e (lru_order s) \<and> same_entries s (lru_touch e s)"
  proof (cases "lru_head s = Some e")
    case True
    then obtain zs where "lru_order s = e # zs" using lru_dll(1) [OF wl] by (auto dest: dll_SomeD)
    with True rep show ?thesis by (simp add: lru_touch_def same_entries_def)
  next
    case False
    let ?u = "lru_remove e s" and ?t = "lru_add e (lru_remove e s)"
    have t: "lru_touch e s = ?t" using lru_touch_eq [OF wl tl e False] .
    have e': "e < 512" "e \<notin> set (remove1 e (lru_order s))" using lru_dll(2,3) [OF wl] e by auto
    note rm = lru_remove_rep [OF wl tl e]
    have ad: "lru.well_linked ?t" "lru_order ?t = e # remove1 e (lru_order s)" "lru_tail ?t = last_opt (lru_order ?t)"
      using lru_add_rep [OF rm(1) _ e'(1)] rm(2,3) e'(2) by simp_all
    have se: "same_entries s ?t" using lru_same_entries same_entries_trans by blast
    note d = same_entriesD [OF se]
    have st: "set (lru_order ?t) = set (lru_order s)" "length (lru_order ?t) = length (lru_order s)"
      using ad(2) e lru_dll(3) [OF wl] length_pos_if_in_set [OF e] by (auto simp: length_remove1)
    have eh: "entry_hash ?t x = entry_hash s x" for x by (simp add: entry_hash_def d)
    have "pc_rep ?t F H"
      using rep ad(1,3) unfolding pc_rep_def pp.free_slots_def st d eh by simp
    with ad se t show ?thesis by simp
  qed
  then show "pc_rep (lru_touch e s) F H" "lru_order (lru_touch e s) = e # remove1 e (lru_order s)"
    "same_entries s (lru_touch e s)" by simp_all
qed

definition cached :: "pcache \<Rightarrow> u32 \<Rightarrow> u32 \<Rightarrow> nat option" where
  "cached s inode offset = List.find (has_key s inode offset) (lru_order s)"

lemma cached_unique:
  assumes "pc_rep s F H" and "e \<in> set (lru_order s)" and "has_key s i k e"
  shows "cached s i k = Some e"
  unfolding cached_def using assms pc_repD(10) [OF assms(1)] by (intro find_unique) (auto simp: has_key_def)

lemma lookup_rep:
  assumes rep: "pc_rep s F H"
  shows "\<exists>t. vmm_page_cache_lookup i k s = Some (cached s i k, t) \<and> pc_rep t F H
    \<and> set (lru_order t) = set (lru_order s) \<and> (\<forall>e. cached s i k = Some e \<longrightarrow> lru_order t = e # remove1 e (lru_order s))
    \<and> (cached s i k = None \<longrightarrow> lru_order t = lru_order s)
    \<and> (\<forall>x. entry_kept s t x) \<and> pc_frames t = pc_frames s"
proof -
  let ?h = "page_cache_hash_fn i k"
  have ch: "chain (entry_next s) (pc_hash s ?h) (H ?h)" using pc_repD(4) [OF rep] by simp
  have key: "e \<in> set (lru_order s) \<longleftrightarrow> e \<in> set (H ?h)" if "has_key s i k e" for e
  proof -
    have eh: "entry_hash s e = ?h" using that by (simp add: has_key_def entry_hash_def)
    then show ?thesis using cached_in_chain(1) [OF rep, of e] pc_repD(9) [OF rep] by auto
  qed
  have "List.find (has_key s i k) (H ?h) = cached s i k"
  proof (cases "cached s i k")
    case None
    then have "List.find (has_key s i k) (H ?h) = None" using key by (auto simp: cached_def find_None_iff)
    with None show ?thesis by simp
  next
    case (Some e)
    then have e: "e \<in> set (lru_order s)" "has_key s i k e" by (auto simp: cached_def dest: find_Some_mem)
    have "List.find (has_key s i k) (H ?h) = Some e"
    proof (rule find_unique)
      show "e \<in> set (H ?h)" using key e by blast
      show "y = e" if "y \<in> set (H ?h)" "has_key s i k y" for y
      proof -
        have "y \<in> set (lru_order s)" using key that by blast
        then show ?thesis using pc_repD(10) [OF rep _ e(1), of y] that(2) e(2) by (simp add: has_key_def)
      qed
    qed (rule e(2))
    with Some show ?thesis by simp
  qed
  then have find: "chain_find (entry_next s) (has_key s i k) (pc_hash s ?h) = Some (cached s i k)"
    using chain_find_chain [OF ch] by simp
  show ?thesis
  proof (cases "cached s i k")
    case None
    let ?t = "upd_stats (\<lambda>t. t\<lparr>pc_misses := pc_misses t + 1\<rparr>) s"
    have "vmm_page_cache_lookup i k s = Some (cached s i k, ?t)"
      using find None pc_repD(3) [OF rep] by (simp add: vmm_page_cache_lookup_def)
    moreover have "pc_rep ?t F H" "lru_order ?t = lru_order s" by (rule pc_rep_stats [OF rep]; simp)+
    ultimately show ?thesis using None by (auto simp: entry_kept_def)
  next
    case (Some e)
    let ?u = "upd_stats (\<lambda>t. t\<lparr>pc_hits := pc_hits t + 1\<rparr>) s"
    have u: "pc_rep ?u F H" "lru_order ?u = lru_order s" by (rule pc_rep_stats [OF rep]; simp)+
    have e: "e \<in> set (lru_order s)" using Some by (auto simp: cached_def dest: find_Some_mem)
    have "vmm_page_cache_lookup i k s = Some (Some e, lru_touch e ?u)"
      using find Some pc_repD(3) [OF rep] by (simp add: vmm_page_cache_lookup_def)
    moreover have se: "same_entries ?u (lru_touch e ?u)" using lru_touch_rep(3) [OF u(1), of e] e u(2) by simp
    have "entry_kept s (lru_touch e ?u) x" for x using same_entries_kept [OF se, of x] by (simp add: entry_kept_def)
    moreover have "pc_frames (lru_touch e ?u) = pc_frames s" using same_entriesD(11) [OF se] by simp
    moreover have "set (e # remove1 e (lru_order s)) = set (lru_order s)"
      using e lru_dll(3) [OF pc_repD(7) [OF rep]] by auto
    ultimately show ?thesis using lru_touch_rep [OF u(1), of e] u(2) e Some by auto
  qed
qed

subsection \<open>Removal\<close>

lemma unhash_chain:
  assumes "chain (entry_next s) (read_link pp s) (ys @ e # zs)"
  shows "unhash e s pp = Some (write_link (case last_opt ys of None \<Rightarrow> pp | Some y \<Rightarrow> Link y) (entry_next s e) s)"
  using assms
proof (induction ys arbitrary: pp)
  case Nil
  then show ?case by (simp add: unhash.simps entry_next_def)
next
  case (Cons y ys)
  have "y \<noteq> e" using chain_distinct [OF Cons.prems] by auto
  then have "unhash e s pp = unhash e s (Link y)" using Cons.prems by (simp add: unhash.simps [of e s pp])
  also have "\<dots> = Some (write_link (case last_opt ys of None \<Rightarrow> Link y | Some z \<Rightarrow> Link z) (entry_next s e) s)"
    using Cons by (simp add: entry_next_def)
  finally show ?case by (cases ys rule: rev_cases) simp_all
qed

lemma write_link_frame [simp]:
  "lru_head (write_link pp v s) = lru_head s" "lru_tail (write_link pp v s) = lru_tail s"
  "pc_free_list (write_link pp v s) = pc_free_list s" "pc_initialized (write_link pp v s) = pc_initialized s"
  "pc_frames (write_link pp v s) = pc_frames s" "cache_stats (write_link pp v s) = cache_stats s"
  "older (write_link pp v s) = older s" "newer (write_link pp v s) = newer s"
  "pe_inode (pc_pool (write_link pp v s) x) = pe_inode (pc_pool s x)"
  "pe_offset (pc_pool (write_link pp v s) x) = pe_offset (pc_pool s x)"
  "pe_phys_addr (pc_pool (write_link pp v s) x) = pe_phys_addr (pc_pool s x)"
  "pe_ref_count (pc_pool (write_link pp v s) x) = pe_ref_count (pc_pool s x)"
  "pe_locked (pc_pool (write_link pp v s) x) = pe_locked (pc_pool s x)"
  "pe_dirty (pc_pool (write_link pp v s) x) = pe_dirty (pc_pool s x)"
  by (cases pp; simp add: entry_maps fun_eq_iff)+

lemma free_in_window:
  assumes "in_window f a"
  shows "\<exists>g. pmm_free_page a f = Some g \<and> in_window g = in_window f"
  using assms by (auto simp: pmm_free_page_def in_window_def Let_def fun_eq_iff)

lemma remove_maps:
  assumes ch: "chain (entry_next s) (pc_hash s h) (ys @ e # zs)" and h: "h = entry_hash s e"
    and w: "in_window (pc_frames s) (pe_phys_addr (pc_pool s e))"
  shows "\<exists>t. vmm_page_cache_remove (Some e) s = Some t
    \<and> entry_next t = (relink (last_opt ys) (entry_next s e) (entry_next s))(e := pc_free_list s)
    \<and> pc_hash t = (case last_opt ys of None \<Rightarrow> (pc_hash s)(h := entry_next s e) | Some y \<Rightarrow> pc_hash s)
    \<and> older t = older (lru_remove e s) \<and> newer t = newer (lru_remove e s)
    \<and> lru_head t = lru_head (lru_remove e s) \<and> lru_tail t = lru_tail (lru_remove e s)
    \<and> pc_free_list t = Some e \<and> pc_initialized t = pc_initialized s \<and> in_window (pc_frames t) = in_window (pc_frames s)
    \<and> pc_total_pages (cache_stats t) = pc_total_pages (cache_stats s) - 1 \<and> (\<forall>x. entry_kept s t x)"
proof -
  define s1 where "s1 = (if pe_dirty (pc_pool s e) then upd_stats (\<lambda>t. t\<lparr>pc_writebacks := pc_writebacks t + 1\<rparr>) s else s)"
  have s1: "pc_pool s1 = pc_pool s" "pc_hash s1 = pc_hash s" "pc_free_list s1 = pc_free_list s" "pc_frames s1 = pc_frames s"
    "pc_initialized s1 = pc_initialized s" "lru_head s1 = lru_head s" "lru_tail s1 = lru_tail s"
    "pc_total_pages (cache_stats s1) = pc_total_pages (cache_stats s)" by (simp_all add: s1_def)
  have m1: "entry_next s1 = entry_next s" "older s1 = older s" "newer s1 = newer s"
    using s1 by (simp_all add: entry_maps fun_eq_iff)
  define s2 where "s2 = write_link (case last_opt ys of None \<Rightarrow> Bucket h | Some y \<Rightarrow> Link y) (entry_next s e) s1"
  have un: "unhash e s1 (Bucket h) = Some s2"
    using unhash_chain [of s1 "Bucket h" ys e zs] ch s1 m1 by (simp add: s2_def)
  have m2: "entry_next s2 = relink (last_opt ys) (entry_next s e) (entry_next s)"
    "pc_hash s2 = (case last_opt ys of None \<Rightarrow> (pc_hash s)(h := entry_next s e) | Some y \<Rightarrow> pc_hash s)"
    using s1 by (auto simp: s2_def relink_def entry_next_def fun_eq_iff split: option.split)
  let ?s3 = "lru_remove e s2"
  note d = same_entriesD [OF lru_same_entries(2) [of s2 e]]
  have k2: "entry_kept s s2 x" for x by (simp add: entry_kept_def s2_def s1)
  have f2: "pc_free_list s2 = pc_free_list s" "pc_initialized s2 = pc_initialized s" "pc_frames s2 = pc_frames s"
    "pc_total_pages (cache_stats s2) = pc_total_pages (cache_stats s)" by (simp_all add: s2_def s1)
  have g2: "older s2 = older s" "newer s2 = newer s" "lru_head s2 = lru_head s" "lru_tail s2 = lru_tail s"
    by (simp_all add: s2_def m1 s1)
  have k3: "entry_kept s ?s3 x" for x using entry_kept_trans [OF k2 same_entries_kept [OF lru_same_entries(2)]] .
  have m3: "older ?s3 = older (lru_remove e s)" "newer ?s3 = newer (lru_remove e s)"
    "lru_head ?s3 = lru_head (lru_remove e s)" "lru_tail ?s3 = lru_tail (lru_remove e s)"
    unfolding lru_remove_maps g2 by simp_all
  obtain f where f: "release_page e ?s3 = Some (?s3\<lparr>pc_frames := f\<rparr>)" "in_window f = in_window (pc_frames s)"
  proof (cases "pe_ref_count (pc_pool ?s3 e) \<le> 1 \<and> pe_phys_addr (pc_pool ?s3 e) \<noteq> 0")
    case True
    have "in_window (pc_frames ?s3) (pe_phys_addr (pc_pool ?s3 e))" "pc_frames ?s3 = pc_frames s"
      using w k3 [of e] d(11) f2 by (simp_all add: entry_kept_def)
    with free_in_window obtain g where
      "pmm_free_page (pe_phys_addr (pc_pool ?s3 e)) (pc_frames ?s3) = Some g" "in_window g = in_window (pc_frames s)" by metis
    with True show ?thesis by (intro that [of g]) (simp_all add: release_page_def)
  next
    case False
    then have "release_page e ?s3 = Some ?s3" unfolding release_page_def by (rule if_not_P)
    then show ?thesis using d(11) f2 by (intro that [of "pc_frames ?s3"]) simp_all
  qed
  let ?t = "cache_entry_free e (upd_stats (\<lambda>t. t\<lparr>pc_total_pages := pc_total_pages t - 1\<rparr>) (?s3\<lparr>pc_frames := f\<rparr>))"
  have "vmm_page_cache_remove (Some e) s = Some ?t"
    using un f(1) h s1 by (simp add: vmm_page_cache_remove_def Let_def s1_def [symmetric] entry_hash_def)
  moreover have "entry_next ?t = (relink (last_opt ys) (entry_next s e) (entry_next s))(e := pc_free_list s)"
    using m2(1) d(7,8) f2(1) by (auto simp: cache_entry_free_def entry_next_def fun_eq_iff)
  moreover have "older ?t = older ?s3" "newer ?t = newer ?s3" by (auto simp: cache_entry_free_def entry_maps fun_eq_iff)
  moreover have "entry_kept s ?t x" for x using k3 [of x] k3 [of e] by (auto simp: entry_kept_def cache_entry_free_def)
  ultimately show ?thesis
    using m2(2) m3 d f(2) f2 by (intro exI [of _ ?t]) (simp add: cache_entry_free_def)
qed

lemma remove_rep:
  assumes rep: "pc_rep s F H" and e: "e \<in> set (lru_order s)"
  shows "\<exists>t. vmm_page_cache_remove (Some e) s = Some t
    \<and> pc_rep t (e # F) (H(entry_hash s e := remove1 e (H (entry_hash s e))))
    \<and> lru_order t = remove1 e (lru_order s) \<and> in_window (pc_frames t) = in_window (pc_frames s) \<and> (\<forall>x. entry_kept s t x)"
proof -
  let ?h = "entry_hash s e"
  note ce = cached_in_chain [OF rep e] and wl = pc_repD(7) [OF rep] and tl = pc_repD(8) [OF rep]
  have chh: "chain (entry_next s) (pc_hash s ?h) (H ?h)" using pc_repD(4) [OF rep ce(2)] .
  obtain ys zs where ys: "H ?h = ys @ e # zs" using ce(1) by (meson split_list)
  have dist: "distinct (H ?h)" using chain_distinct [OF chh] .
  have rm: "remove1 e (H ?h) = ys @ zs" "e \<notin> set (ys @ zs)" using ys dist by (auto simp: remove1_append)
  obtain t where t: "vmm_page_cache_remove (Some e) s = Some t"
    and nx: "entry_next t = (relink (last_opt ys) (entry_next s e) (entry_next s))(e := pc_free_list s)"
    and hs: "pc_hash t = (case last_opt ys of None \<Rightarrow> (pc_hash s)(?h := entry_next s e) | Some y \<Rightarrow> pc_hash s)"
    and ln: "older t = older (lru_remove e s)" "newer t = newer (lru_remove e s)" "lru_head t = lru_head (lru_remove e s)"
      "lru_tail t = lru_tail (lru_remove e s)"
    and fl: "pc_free_list t = Some e" "pc_initialized t = pc_initialized s" "in_window (pc_frames t) = in_window (pc_frames s)"
      "pc_total_pages (cache_stats t) = pc_total_pages (cache_stats s) - 1"
    and kept: "\<And>x. entry_kept s t x"
    using remove_maps [OF chh [unfolded ys] refl pc_repD(11) [OF rep e]] by blast
  have near: "last_opt ys = Some y \<Longrightarrow> y \<in> set (H ?h)" for y using ys by (auto simp: last_opt_Some)
  have far: "entry_next t x = entry_next s x" if "x \<notin> set (H ?h)" for x
    using that near ce(1) by (auto simp: nx relink_def split: option.split)
  note lr = lru_remove_rep [OF wl tl e]
  have hd: "lru_heads t = lru_heads (lru_remove e s)" using ln by (simp add: lru_heads_def fun_eq_iff)
  have wl': "lru.well_linked t" using lru.frame_well_linked(1) [of t "lru_remove e s"] ln hd lr(1) by simp
  have ord: "lru_order t = remove1 e (lru_order s)" using ln lr(2) by (simp add: lru_order_def)
  have set_ord: "set (lru_order t) = set (lru_order s) - {e}" using lru_dll(3) [OF wl] by (simp add: ord)
  let ?H = "H(?h := remove1 e (H ?h))"
  have "pp.free_slots t (e # F)"
  proof -
    have "entry_next t x = entry_next s x" if "x \<in> set F" for x
      using far pc_repD(5) [OF rep ce(2)] that by auto
    then have "chain (entry_next t) (pc_free_list s) F"
      using pc_repD(1) [OF rep] by (simp add: pp.free_slots_def chain_cong [of F "entry_next t" "entry_next s"])
    then show ?thesis using fl pc_repD(1) [OF rep] by (simp add: pp.free_slots_def nx)
  qed
  moreover have "chain (entry_next t) (pc_hash t h) (?H h)" if h: "h < 256" for h
  proof (cases "h = ?h")
    case True
    have "chain (entry_next t) (case last_opt ys of None \<Rightarrow> entry_next s e | Some y \<Rightarrow> pc_hash s ?h) (ys @ zs)
      = chain (relink (last_opt ys) (entry_next s e) (entry_next s)) (case last_opt ys of None \<Rightarrow> entry_next s e | Some y \<Rightarrow> pc_hash s ?h) (ys @ zs)"
      using rm(2) by (intro chain_cong) (auto simp: nx)
    then show ?thesis using chain_unlink [OF chh [unfolded ys]] True rm(1)
      by (cases "last_opt ys") (simp_all add: hs)
  next
    case False
    have "x \<notin> set (H ?h)" if "x \<in> set (H h)" for x
      using pc_repD(6) [OF rep h that] pc_repD(6) [OF rep ce(2), of x] False by auto
    then have "chain (entry_next t) (pc_hash s h) (H h) = chain (entry_next s) (pc_hash s h) (H h)"
      using far by (intro chain_cong) auto
    then show ?thesis using pc_repD(4) [OF rep h] False by (cases "last_opt ys") (simp_all add: hs)
  qed
  moreover have "set (?H h) \<inter> set (e # F) = {}" "\<forall>x \<in> set (?H h). entry_hash t x = h" if h: "h < 256" for h
  proof -
    have sub: "set (?H h) \<subseteq> set (H h) - {e}" using dist pc_repD(6) [OF rep h] by auto
    then show "set (?H h) \<inter> set (e # F) = {}" using pc_repD(5) [OF rep h] by auto
    show "\<forall>x \<in> set (?H h). entry_hash t x = h" using sub pc_repD(6) [OF rep h] entry_keptD(6) [OF kept] by auto
  qed
  moreover have "set (lru_order t) = (\<Union>h < 256. set (?H h))"
  proof -
    have "(\<Union>h < 256. set (?H h)) = (\<Union>h < 256. set (H h)) - {e}"
      using dist pc_repD(6) [OF rep, of _ e] by (auto split: if_splits)
    then show ?thesis using set_ord pc_repD(9) [OF rep] by simp
  qed
  moreover have "pc_total_pages (cache_stats t) = of_nat (length (lru_order t))"
    using fl(4) pc_repD(12) [OF rep] e length_pos_if_in_set [OF e]
    by (cases "length (lru_order s)") (simp_all add: ord length_remove1)
  moreover have "lru_tail t = last_opt (lru_order t)" using ln(4) lr(3) by (simp add: ord)
  moreover have "set (e # F) \<subseteq> {..<512}" using pc_repD(2) [OF rep] ce(4) by simp
  moreover have "x = y" if "x \<in> set (lru_order t)" "y \<in> set (lru_order t)"
    "pe_inode (pc_pool t x) = pe_inode (pc_pool t y)" "pe_offset (pc_pool t x) = pe_offset (pc_pool t y)" for x y
    using pc_repD(10) [OF rep, of x y] that set_ord entry_keptD(1,2) [OF kept] by simp
  moreover have "in_window (pc_frames t) (pe_phys_addr (pc_pool t x))" if "x \<in> set (lru_order t)" for x
    using pc_repD(11) [OF rep, of x] that set_ord fl(3) entry_keptD(3) [OF kept] by simp
  ultimately have "pc_rep t (e # F) ?H" using wl' unfolding pc_rep_def by blast
  with t ord fl(3) kept show ?thesis by blast
qed

subsection \<open>Eviction\<close>

definition victims :: "nat \<Rightarrow> pcache \<Rightarrow> nat list" where
  "victims n s = take n (filter (\<lambda>e. \<not> pinned s e) (rev (lru_order s)))"

lemma find_filter:
  assumes "List.find P xs = Some e" and "distinct xs"
  shows "filter P xs = e # filter P (remove1 e xs)"
  using assms by (induction xs) (auto split: if_splits dest: find_Some_mem)

lemma rev_remove1: "distinct xs \<Longrightarrow> rev (remove1 e xs) = remove1 e (rev xs)"
  by (simp add: distinct_remove1_removeAll removeAll_filter_not_eq rev_filter)

lemma filter_remove1: "distinct xs \<Longrightarrow> filter (\<lambda>x. x \<notin> set vs) (remove1 e xs) = filter (\<lambda>x. x \<notin> set (e # vs)) xs"
  by (auto simp: distinct_remove1_removeAll removeAll_filter_not_eq intro!: filter_cong)

lemma lru_rev_chain: "pc_rep s F H \<Longrightarrow> chain (newer s) (lru_tail s) (rev (lru_order s))"
  using dll_rev [OF lru_dll(1) [OF pc_repD(7)]] pc_repD(8) by metis

lemma evict_loop_rep:
  assumes "pc_rep s F H"
  shows "\<exists>t H'. evict_loop n s = Some t \<and> pc_rep t (rev (victims n s) @ F) H'
    \<and> lru_order t = filter (\<lambda>e. e \<notin> set (victims n s)) (lru_order s)
    \<and> in_window (pc_frames t) = in_window (pc_frames s) \<and> (\<forall>x. entry_kept s t x)"
  using assms
proof (induction n arbitrary: s F H)
  case 0
  then show ?case by (auto simp: victims_def entry_kept_def)
next
  case (Suc n)
  note rep = Suc.prems
  have dist: "distinct (lru_order s)" using lru_dll(3) [OF pc_repD(7) [OF rep]] .
  have find: "chain_find (newer s) (\<lambda>e. \<not> pinned s e) (lru_tail s) = Some (List.find (\<lambda>e. \<not> pinned s e) (rev (lru_order s)))"
    using chain_find_chain [OF lru_rev_chain [OF rep]] .
  show ?case
  proof (cases "List.find (\<lambda>e. \<not> pinned s e) (rev (lru_order s))")
    case None
    then have "victims (Suc n) s = []" by (auto simp: victims_def find_None_iff filter_empty_conv)
    moreover have "evict_loop (Suc n) s = Some s" using None find by simp
    ultimately show ?thesis using rep by (auto simp: entry_kept_def)
  next
    case (Some e)
    then have e: "e \<in> set (lru_order s)" by (auto dest: find_Some_mem)
    then have tl: "lru_tail s \<noteq> None" using pc_repD(8) [OF rep] by (cases "lru_order s") auto
    obtain s1 where s1: "vmm_page_cache_remove (Some e) s = Some s1"
      "pc_rep s1 (e # F) (H(entry_hash s e := remove1 e (H (entry_hash s e))))" "lru_order s1 = remove1 e (lru_order s)"
      "in_window (pc_frames s1) = in_window (pc_frames s)" "\<And>x. entry_kept s s1 x" using remove_rep [OF rep e] by blast
    let ?u = "upd_stats (\<lambda>t. t\<lparr>pc_evictions := pc_evictions t + 1\<rparr>) s1"
    have u: "pc_rep ?u (e # F) (H(entry_hash s e := remove1 e (H (entry_hash s e))))" "lru_order ?u = lru_order s1"
      by (rule pc_rep_stats [OF s1(2)]; simp)+
    have "pinned ?u x = pinned s x" for x using entry_keptD(4) [OF s1(5)] by (simp add: pinned_def)
    then have v: "victims (Suc n) s = e # victims n ?u"
      using find_filter [OF Some] dist u(2) s1(3) rev_remove1 [OF dist] by (simp add: victims_def)
    obtain t H' where t: "evict_loop n ?u = Some t" "pc_rep t (rev (victims n ?u) @ e # F) H'"
      "lru_order t = filter (\<lambda>e. e \<notin> set (victims n ?u)) (lru_order ?u)"
      "in_window (pc_frames t) = in_window (pc_frames ?u)" "\<And>x. entry_kept ?u t x" using Suc.IH [OF u(1)] by blast
    have "evict_loop (Suc n) s = Some t" using tl find Some s1(1) t(1) by auto
    moreover have "lru_order t = filter (\<lambda>e. e \<notin> set (victims (Suc n) s)) (lru_order s)"
      using t(3) u(2) s1(3) v filter_remove1 [OF dist] by simp
    moreover have "entry_kept s t x" for x
      using s1(5) [of x] t(5) [of x] by (simp add: entry_kept_def)
    ultimately show ?thesis using t(2,4) s1(4) v by auto
  qed
qed

subsection \<open>Insertion\<close>

lemma take_entry_rep:
  assumes rep: "pc_rep s (e # F) H"
  shows "\<exists>t. take_entry s = (Some e, t) \<and> pc_rep t F H \<and> lru_order t = lru_order s \<and> e \<notin> set (lru_order t) \<and> e \<notin> set F \<and> e < 512
    \<and> (\<forall>x. x \<noteq> e \<longrightarrow> pc_pool t x = pc_pool s x) \<and> pc_frames t = pc_frames s
    \<and> pe_dirty (pc_pool t e) = False \<and> pe_locked (pc_pool t e) = False"
proof -
  have fl: "pc_free_list s = Some e" "e \<notin> set F" "e < 512"
    using pc_repD(1,2) [OF rep] pp.free_slots_distinct [OF pc_repD(1) [OF rep]] by (auto simp: pp.free_slots_def)
  have eo: "e \<notin> set (lru_order s)" using pc_repD(5,9) [OF rep] by auto
  define t where "t = snd (take_entry s)"
  have t: "take_entry s = (Some e, t)" "pp.free_slots t F"
    using pp.pop_free_slots [OF pc_repD(1) [OF rep]] fl by (simp_all add: t_def take_entry_def)
  have same: "pc_pool t x = pc_pool s x" if "x \<noteq> e" for x using that fl by (simp add: t_def take_entry_def)
  have fr: "pc_hash t = pc_hash s" "lru_head t = lru_head s" "lru_tail t = lru_tail s" "pc_frames t = pc_frames s"
    "cache_stats t = cache_stats s" "pe_dirty (pc_pool t e) = False" "pe_locked (pc_pool t e) = False"
    using fl by (simp_all add: t_def take_entry_def)
  have lo: "lists_ok (older t) (newer t) (lru_heads t) (Suc 0) 512 (\<lambda>q. lru_order s)"
  proof -
    have "dll (older t) (newer t) (lru_head s) (lru_order s) = dll (older s) (newer s) (lru_head s) (lru_order s)"
    proof (rule dll_cong)
      fix x assume "x \<in> set (lru_order s)"
      then have "x \<noteq> e" using eo by auto
      then show "older t x = older s x \<and> newer t x = newer s x" using same by (simp add: entry_maps)
    qed
    then show ?thesis using lru_dll [OF pc_repD(7) [OF rep]] fr by (simp add: lists_ok_def lru_heads_def)
  qed
  have wl: "lru.well_linked t" using lru.well_linkedI(1) [OF lo] .
  have ord: "lru_order t = lru_order s" using lru.well_linkedI(2) [OF lo, of 0] by simp
  have "chain (entry_next t) (pc_hash t h) (H h)" "set (H h) \<inter> set F = {}" "\<forall>x \<in> set (H h). entry_hash t x = h" if h: "h < 256" for h
  proof -
    have ne: "x \<noteq> e" if "x \<in> set (H h)" for x using that pc_repD(5) [OF rep h] by auto
    then have "chain (entry_next t) (pc_hash s h) (H h) = chain (entry_next s) (pc_hash s h) (H h)"
      using same by (intro chain_cong) (auto simp: entry_next_def)
    then show "chain (entry_next t) (pc_hash t h) (H h)" using pc_repD(4) [OF rep h] fr by simp
    show "set (H h) \<inter> set F = {}" using pc_repD(5) [OF rep h] by auto
    show "\<forall>x \<in> set (H h). entry_hash t x = h" using pc_repD(6) [OF rep h] ne same by (simp add: entry_hash_def)
  qed
  moreover have ne: "x \<noteq> e" if "x \<in> set (lru_order t)" for x using that eo ord by auto
  have "x = y" if "x \<in> set (lru_order t)" "y \<in> set (lru_order t)"
    "pe_inode (pc_pool t x) = pe_inode (pc_pool t y)" "pe_offset (pc_pool t x) = pe_offset (pc_pool t y)" for x y
    using pc_repD(10) [OF rep, of x y] that ord same [OF ne [OF that(1)]] same [OF ne [OF that(2)]] by simp
  moreover have "in_window (pc_frames t) (pe_phys_addr (pc_pool t x))" if "x \<in> set (lru_order t)" for x
    using pc_repD(11) [OF rep, of x] that ord same [OF ne [OF that]] fr by simp
  moreover have "lru_tail t = last_opt (lru_order t)" "set (lru_order t) = (\<Union>h < 256. set (H h))"
    "pc_total_pages (cache_stats t) = of_nat (length (lru_order t))" "set F \<subseteq> {..<512}"
    using pc_repD(2,8,9,12) [OF rep] ord fr by simp_all
  ultimately have "pc_rep t F H" using wl t(2) unfolding pc_rep_def by blast
  with t ord eo fl same fr show ?thesis by auto
qed

definition fill_entry :: "u32 \<Rightarrow> u32 \<Rightarrow> u32 \<Rightarrow> nat \<Rightarrow> pcache \<Rightarrow> pcache" where
  "fill_entry inode offset phys_addr e s2 =
     (let h = page_cache_hash_fn inode offset;
          s3 = upd_entry (\<lambda>x. x\<lparr>pe_inode := inode, pe_offset := offset, pe_phys_addr := phys_addr,
                 pe_ref_count := 1, pe_uptodate := True, pe_hash_next := pc_hash s2 h\<rparr>) e s2;
          s4 = s3\<lparr>pc_hash := (pc_hash s3)(h := Some e)\<rparr>
      in upd_stats (\<lambda>t. t\<lparr>pc_total_pages := pc_total_pages t + 1\<rparr>) (lru_add e s4))"

lemma fill_entry_maps:
  fixes s :: pcache and i k p :: u32 and e :: nat
  assumes wl: "lru.well_linked s" "lru_tail s = last_opt (lru_order s)" and e: "e \<notin> set (lru_order s)" "e < 512"
  defines "t \<equiv> fill_entry i k p e s" and "h \<equiv> page_cache_hash_fn i k"
  shows "lru.well_linked t" "lru_order t = e # lru_order s" "lru_tail t = last_opt (lru_order t)"
    "entry_next t = (entry_next s)(e := pc_hash s h)" "pc_hash t = (pc_hash s)(h := Some e)"
    "pc_free_list t = pc_free_list s" "pc_initialized t = pc_initialized s" "pc_frames t = pc_frames s"
    "pc_total_pages (cache_stats t) = pc_total_pages (cache_stats s) + 1" "\<And>x. x \<noteq> e \<Longrightarrow> entry_kept s t x"
    "pe_inode (pc_pool t e) = i" "pe_offset (pc_pool t e) = k" "pe_phys_addr (pc_pool t e) = p"
    "pe_ref_count (pc_pool t e) = 1" "pe_dirty (pc_pool t e) = pe_dirty (pc_pool s e)" "pe_locked (pc_pool t e) = pe_locked (pc_pool s e)"
proof -
  define s4 where "s4 = (upd_entry (\<lambda>x. x\<lparr>pe_inode := i, pe_offset := k, pe_phys_addr := p,
                 pe_ref_count := 1, pe_uptodate := True, pe_hash_next := pc_hash s h\<rparr>) e s)\<lparr>pc_hash := (pc_hash s)(h := Some e)\<rparr>"
  have t: "t = upd_stats (\<lambda>t. t\<lparr>pc_total_pages := pc_total_pages t + 1\<rparr>) (lru_add e s4)"
    by (simp add: t_def fill_entry_def s4_def h_def Let_def)
  have ln: "older s4 = older s" "newer s4 = newer s" "lru_heads s4 = lru_heads s" "lru_head s4 = lru_head s" "lru_tail s4 = lru_tail s"
    by (auto simp: s4_def entry_maps lru_heads_def fun_eq_iff)
  have wl4: "lru.well_linked s4" and ord4: "lru_order s4 = lru_order s"
    using lru.frame_well_linked(1) [of s4 s] wl(1) ln by (simp_all add: lru_order_def)
  note ad = lru_add_rep [OF wl4 _ e(2), unfolded ord4, OF _ e(1), unfolded ln, OF wl(2)]
  have st: "older t = older (lru_add e s4)" "newer t = newer (lru_add e s4)" "lru_head t = lru_head (lru_add e s4)"
    "lru_tail t = lru_tail (lru_add e s4)" "lru_heads t = lru_heads (lru_add e s4)"
    by (auto simp: t entry_maps lru_heads_def fun_eq_iff)
  show "lru.well_linked t" using lru.frame_well_linked(1) [of t "lru_add e s4"] st ad(1) by simp
  show ord: "lru_order t = e # lru_order s" using ad(2) st by (simp add: lru_order_def)
  show "lru_tail t = last_opt (lru_order t)" using ad(3) st ord by simp
  note d = same_entriesD [OF lru_same_entries(1) [of s4 e]]
  show "entry_kept s t x" if "x \<noteq> e" for x using that d(1-6) [of x] by (simp add: entry_kept_def t s4_def)
  show "pe_inode (pc_pool t e) = i" "pe_offset (pc_pool t e) = k" "pe_phys_addr (pc_pool t e) = p"
      "pe_ref_count (pc_pool t e) = 1" "pe_dirty (pc_pool t e) = pe_dirty (pc_pool s e)" "pe_locked (pc_pool t e) = pe_locked (pc_pool s e)"
    using d(1-6) [of e] by (simp_all add: t s4_def)
  have "entry_next t = entry_next (lru_add e s4)" by (simp add: t entry_next_def fun_eq_iff)
  also have "\<dots> = entry_next s4" by (rule d(7))
  also have "\<dots> = (entry_next s)(e := pc_hash s h)" by (auto simp: s4_def entry_next_def fun_eq_iff)
  finally show "entry_next t = (entry_next s)(e := pc_hash s h)" .
  show "pc_hash t = (pc_hash s)(h := Some e)" "pc_free_list t = pc_free_list s" "pc_initialized t = pc_initialized s"
    "pc_frames t = pc_frames s" "pc_total_pages (cache_stats t) = pc_total_pages (cache_stats s) + 1"
    using d(8-12) by (simp_all add: t s4_def)
qed

lemma fill_entry_rep:
  assumes rep: "pc_rep s F H" and e: "e \<notin> set (lru_order s)" "e \<notin> set F" "e < 512"
    and new: "\<And>x. x \<in> set (lru_order s) \<Longrightarrow> \<not> has_key s i k x" and w: "in_window (pc_frames s) p"
  defines "t \<equiv> fill_entry i k p e s" and "h \<equiv> page_cache_hash_fn i k"
  shows "pc_rep t F (H(h := e # H h))"
proof -
  note mp = fill_entry_maps [OF pc_repD(7,8) [OF rep] e(1,3), where i = i and k = k and p = p, folded t_def h_def]
  note ord = mp(2) and kept = mp(10) and new_e = mp(11-16)
  have h: "h < 256" by (simp add: h_def)
  have out: "e \<notin> set (H g)" if "g < 256" for g using pc_repD(9) [OF rep] e(1) that by auto
  have "pp.free_slots t F = pp.free_slots s F" using mp(4-7) e(2) by (intro pp.free_slots_cong) auto
  then have "pp.free_slots t F" using pc_repD(1) [OF rep] by simp
  moreover have "chain (entry_next t) (pc_hash t g) ((H(h := e # H h)) g)" if g: "g < 256" for g
  proof -
    have "chain (entry_next t) (pc_hash s g) (H g) = chain (entry_next s) (pc_hash s g) (H g)"
      using out [OF g] by (intro chain_cong) (auto simp: mp(4))
    then show ?thesis using pc_repD(4) [OF rep g] mp(4,5) by auto
  qed
  moreover have eh: "entry_hash t e = h" using new_e by (simp add: entry_hash_def h_def)
  have "set ((H(h := e # H h)) g) \<inter> set F = {}" "\<forall>x \<in> set ((H(h := e # H h)) g). entry_hash t x = g" if g: "g < 256" for g
  proof -
    show "set ((H(h := e # H h)) g) \<inter> set F = {}" using pc_repD(5) [OF rep g] e(2) by auto
    have "entry_hash t x = g" if "x \<in> set (H g)" for x
    proof -
      have "x \<noteq> e" using that out [OF g] by auto
      then show ?thesis using entry_keptD(6) [OF kept] pc_repD(6) [OF rep g that] by simp
    qed
    then show "\<forall>x \<in> set ((H(h := e # H h)) g). entry_hash t x = g" using eh by auto
  qed
  moreover have "set (lru_order t) = (\<Union>g < 256. set ((H(h := e # H h)) g))"
    using ord pc_repD(9) [OF rep] h by (auto split: if_splits)
  moreover have "x = y" if xy: "x \<in> set (lru_order t)" "y \<in> set (lru_order t)"
    "pe_inode (pc_pool t x) = pe_inode (pc_pool t y)" "pe_offset (pc_pool t x) = pe_offset (pc_pool t y)" for x y
  proof -
    have old: "\<not> has_key t i k z" if "z \<in> set (lru_order s)" for z
      using new [OF that] entry_keptD(7) [OF kept, of z] that e(1) by (cases "z = e") auto
    show ?thesis
    proof (cases "x = e \<or> y = e")
      case True
      then show ?thesis using xy old [of x] old [of y] ord new_e(1,2) by (auto simp: has_key_def)
    next
      case False
      then show ?thesis using pc_repD(10) [OF rep, of x y] xy ord entry_keptD(1,2) [OF kept, of x] entry_keptD(1,2) [OF kept, of y] by simp
    qed
  qed
  moreover have "in_window (pc_frames t) (pe_phys_addr (pc_pool t x))" if "x \<in> set (lru_order t)" for x
    using that ord pc_repD(11) [OF rep, of x] entry_keptD(3) [OF kept, of x] w new_e mp(8) by (cases "x = e") auto
  moreover have "pc_total_pages (cache_stats t) = of_nat (length (lru_order t))"
    using mp(9) pc_repD(12) [OF rep] ord by simp
  ultimately show ?thesis using mp(1,3) pc_repD(2) [OF rep] unfolding pc_rep_def by blast
qed

lemma insert_rep:
  assumes rep: "pc_rep s F H" and w: "in_window (pc_frames s) p"
  shows "cached s i k = Some e \<Longrightarrow> \<exists>t. vmm_page_cache_insert i k p s = Some (Some e, t) \<and> pc_rep t F H
      \<and> (\<forall>x. entry_kept s t x)"
    and "cached s i k = None \<Longrightarrow> \<exists>r t F' H'. vmm_page_cache_insert i k p s = Some (r, t) \<and> pc_rep t F' H'
      \<and> (let V = (if F = [] then victims 4 s else []); rest = filter (\<lambda>x. x \<notin> set V) (lru_order s)
         in case r of
              None \<Rightarrow> F = [] \<and> V = [] \<and> lru_order t = rest
            | Some e \<Rightarrow> e \<notin> set rest \<and> lru_order t = e # rest \<and> has_key t i k e \<and> pe_phys_addr (pc_pool t e) = p
                \<and> pe_ref_count (pc_pool t e) = 1 \<and> (\<forall>x \<in> set rest. entry_kept s t x))"
proof -
  obtain s1 where s1: "vmm_page_cache_lookup i k s = Some (cached s i k, s1)" "pc_rep s1 F H"
    "cached s i k = None \<longrightarrow> lru_order s1 = lru_order s"
    "pc_frames s1 = pc_frames s" and k1: "\<And>x. entry_kept s s1 x" using lookup_rep [OF rep, of i k] by metis
  show "\<exists>t. vmm_page_cache_insert i k p s = Some (Some e, t) \<and> pc_rep t F H \<and> (\<forall>x. entry_kept s t x)" if "cached s i k = Some e"
    using s1 that k1 pc_repD(3) [OF rep] by (auto simp: vmm_page_cache_insert_def)
  assume none: "cached s i k = None"
  let ?V = "if F = [] then victims 4 s else []" and ?rest = "filter (\<lambda>x. x \<notin> set (if F = [] then victims 4 s else [])) (lru_order s)"
  have pv: "pinned s1 x = pinned s x" for x using entry_keptD(4) [OF k1] .
  obtain u H' where u: "(if pc_free_list s1 = None then vmm_page_cache_evict 4 s1 else Some s1) = Some u"
    "pc_rep u (rev ?V @ F) H'" "lru_order u = ?rest" "in_window (pc_frames u) = in_window (pc_frames s)" "\<And>x. entry_kept s u x"
  proof (cases "F = []")
    case True
    have "pc_free_list s1 = None" using pc_repD(1) [OF s1(2)] True by (simp add: pp.free_slots_def)
    moreover have "victims 4 s1 = victims 4 s" using s1(3) none pv by (simp add: victims_def)
    moreover have "in_window (pc_frames s1) = in_window (pc_frames s)" using s1(4) by simp
    ultimately show ?thesis using evict_loop_rep [OF s1(2), of 4] True none s1(3) pc_repD(3) [OF s1(2)] k1
      by (auto simp: vmm_page_cache_evict_def intro!: that dest: entry_kept_trans)
  next
    case False
    have "pc_free_list s1 \<noteq> None" using pc_repD(1) [OF s1(2)] False by (cases F) (auto simp: pp.free_slots_def)
    then show ?thesis using False s1 none k1 by (intro that [of s1 H]) auto
  qed
  show "\<exists>r t F' H'. vmm_page_cache_insert i k p s = Some (r, t) \<and> pc_rep t F' H'
      \<and> (let V = ?V; rest = filter (\<lambda>x. x \<notin> set V) (lru_order s)
         in case r of
              None \<Rightarrow> F = [] \<and> V = [] \<and> lru_order t = rest
            | Some e \<Rightarrow> e \<notin> set rest \<and> lru_order t = e # rest \<and> has_key t i k e \<and> pe_phys_addr (pc_pool t e) = p
                \<and> pe_ref_count (pc_pool t e) = 1 \<and> (\<forall>x \<in> set rest. entry_kept s t x))"
  proof (cases "rev ?V @ F")
    case Nil
    have "pp.free_slots u []" using pc_repD(1) [OF u(2)] unfolding Nil .
    then have "take_entry u = (None, u)" by (simp add: take_entry_def pp.free_slots_def)
    then have "vmm_page_cache_insert i k p s = Some (None, u)"
      using s1(1) none u(1) pc_repD(3) [OF rep] by (simp add: vmm_page_cache_insert_def cache_entry_alloc_def)
    then show ?thesis using u(2,3) Nil by (auto simp: Let_def split: if_splits)
  next
    case (Cons e F')
    obtain v where v: "take_entry u = (Some e, v)" "pc_rep v F' H'" "lru_order v = lru_order u" "e \<notin> set (lru_order v)"
      "e \<notin> set F'" "e < 512" "\<And>x. x \<noteq> e \<Longrightarrow> pc_pool v x = pc_pool u x" "pc_frames v = pc_frames u"
      using take_entry_rep [OF u(2) [unfolded Cons]] by blast
    let ?t = "fill_entry i k p e v"
    have ins: "vmm_page_cache_insert i k p s = Some (Some e, ?t)"
      using s1(1) none u(1) v(1) pc_repD(3) [OF rep]
      by (simp add: vmm_page_cache_insert_def cache_entry_alloc_def fill_entry_def Let_def)
    have kv: "entry_kept s v x" if "x \<noteq> e" for x using u(5) [of x] v(7) [OF that] by (simp add: entry_kept_def)
    have "\<not> has_key v i k x" if "x \<in> set (lru_order v)" for x
    proof -
      have "x \<noteq> e" "x \<in> set (lru_order s)" using that v(3,4) u(3) by auto
      then show ?thesis using none entry_keptD(7) [OF kv, of x i k] by (auto simp: cached_def find_None_iff)
    qed
    then have "pc_rep ?t F' (H'(page_cache_hash_fn i k := e # H' (page_cache_hash_fn i k)))"
      using fill_entry_rep [OF v(2) v(4,5,6)] w u(4) v(8) by simp
    moreover note mp = fill_entry_maps [OF pc_repD(7,8) [OF v(2)] v(4,6), where i = i and k = k and p = p]
    moreover have "entry_kept s ?t x" if "x \<in> set ?rest" for x
      using that v(3,4) u(3) by (intro entry_kept_trans [OF kv mp(10)]) auto
    ultimately show ?thesis using ins v(3,4) u(3) by (auto simp: Let_def has_key_def simp del: filter_filter)
  qed
qed

subsection \<open>Set-up, writing back, invalidating\<close>

lemma pcache_init_rep:
  assumes "\<not> pc_initialized s"
  shows "pc_rep (vmm_page_cache_init s) [0..<512] (\<lambda>h. [])" and "lru_order (vmm_page_cache_init s) = []"
proof -
  let ?f = "\<lambda>i. upd_entry (pe_hash_next_update (\<lambda>_. Some (Suc i))) i" and ?g = "\<lambda>i (s :: pcache). s\<lparr>pc_hash := (pc_hash s)(i := None)\<rparr>"
  let ?t = "vmm_page_cache_init s"
  have f: "\<forall>i < 511. entry_next (for_range 0 511 ?f s) i = Some (Suc i)"
    by (rule for_range_rule [where I = "\<lambda>k t. \<forall>i < k. entry_next t i = Some (Suc i)"]) (auto simp: entry_next_def less_Suc_eq)
  have g: "pc_pool (for_range 0 256 ?g u) = pc_pool u \<and> pc_free_list (for_range 0 256 ?g u) = pc_free_list u
      \<and> (\<forall>i < 256. pc_hash (for_range 0 256 ?g u) i = None)" for u
    by (rule for_range_rule [where I = "\<lambda>k t. pc_pool t = pc_pool u \<and> pc_free_list t = pc_free_list u
          \<and> (\<forall>i < k. pc_hash t i = None)"]) (auto simp: less_Suc_eq)
  have t: "pc_initialized ?t" "pc_free_list ?t = Some 0" "lru_head ?t = None" "lru_tail ?t = None"
    "pc_total_pages (cache_stats ?t) = 0" "\<forall>h < 256. pc_hash ?t h = None"
    using assms g by (simp_all add: vmm_page_cache_init_def Let_def)
  have "entry_next ?t i = (if Suc i < 512 then Some (Suc i) else None)" if "i < 512" for i
    using assms that f g by (simp add: vmm_page_cache_init_def Let_def entry_next_def less_Suc_eq)
  from chain_upto [OF this, of 0] have "pp.free_slots ?t [0..<512]" using t by (simp add: pp.free_slots_def)
  moreover have wl: "lru.well_linked ?t" using lru.empty_well_linked(1) [of ?t] t by (simp add: lru_heads_def)
  moreover show ord: "lru_order ?t = []"
    using lru.empty_well_linked(2) [of ?t 0] t by (simp add: lru_heads_def)
  ultimately show "pc_rep ?t [0..<512] (\<lambda>h. [])"
    using t unfolding pc_rep_def by (auto simp del: upt_rec_numeral)
qed

lemma sync_entry_rep:
  assumes "pc_rep s F H"
  shows "pc_rep (sync_entry want e s) F H" and "lru_order (sync_entry want e s) = lru_order s"
proof -
  have "pc_rep (sync_entry want e s) F H \<and> lru_order (sync_entry want e s) = lru_order s"
  proof (cases "want (pc_pool s e) \<and> pe_dirty (pc_pool s e)")
    case True
    then have eq: "sync_entry want e s = upd_stats (\<lambda>t. t\<lparr>pc_writebacks := pc_writebacks t + 1\<rparr>) (upd_entry (pe_dirty_update (\<lambda>_. False)) e s)"
      by (simp add: sync_entry_def)
    show ?thesis unfolding eq
      using pc_rep_frame [OF assms, of "upd_stats (\<lambda>t. t\<lparr>pc_writebacks := pc_writebacks t + 1\<rparr>) (upd_entry (pe_dirty_update (\<lambda>_. False)) e s)"]
      by (simp add: entry_maps entry_hash_def fun_eq_iff)
  qed (use assms in \<open>auto simp: sync_entry_def\<close>)
  then show "pc_rep (sync_entry want e s) F H" "lru_order (sync_entry want e s) = lru_order s" by simp_all
qed

lemma sync_buckets_rep:
  assumes "pc_rep s F H"
  shows "\<exists>t. sync_buckets want s = Some t \<and> pc_rep t F H \<and> lru_order t = lru_order s"
  unfolding sync_buckets_def
proof (rule for_range_opt_rule [where I = "\<lambda>i t. pc_rep t F H \<and> lru_order t = lru_order s"])
  fix i t assume i: "i < (256 :: nat)" and t: "pc_rep t F H \<and> lru_order t = lru_order s"
  have "entry_next (sync_entry want x u) = entry_next u" for x u
    by (simp add: sync_entry_def entry_next_def fun_eq_iff)
  then have run: "chain_run entry_next (sync_entry want) (pc_hash t i) t = Some (fold (sync_entry want) (H i) t)"
    using pc_repD(4) [of t F H i] t i by (intro chain_run_chain) auto
  have "pc_rep (fold (sync_entry want) es u) F H \<and> lru_order (fold (sync_entry want) es u) = lru_order u"
    if "pc_rep u F H" for es u
    using that
  proof (induction es arbitrary: u)
    case (Cons x es)
    then show ?case using sync_entry_rep [OF Cons.prems, of want x] by simp
  qed simp
  with run t show "\<exists>t'. chain_run entry_next (sync_entry want) (pc_hash t i) t = Some t' \<and> pc_rep t' F H \<and> lru_order t' = lru_order s"
    by simp
qed (use assms in auto)

lemma chain_suffix:
  assumes "chain nx p (us @ ys)"
  shows "chain nx (head_opt ys) ys"
  using assms by (cases ys) (auto dest: chain_append)

lemma chain_head: "chain nx p ys \<Longrightarrow> p = head_opt ys"
  by (cases ys) auto

lemma invalidate_chain_rep:
  assumes "pc_rep s F H" and "h < 256" and "H h = us @ xs" and "p = head_opt xs"
  shows "\<exists>t F' H'. invalidate_chain inode p s = Some t \<and> pc_rep t F' H' \<and> (\<forall>x. entry_kept s t x)
    \<and> lru_order t = filter (\<lambda>e. \<not> (e \<in> set xs \<and> pe_inode (pc_pool s e) = inode)) (lru_order s)"
  using assms
proof (induction xs arbitrary: s F H us p)
  case Nil
  then show ?case by (auto simp: invalidate_chain.simps entry_kept_def)
next
  case (Cons x xs)
  note rep = Cons.prems(1)
  have ch: "chain (entry_next s) (pc_hash s h) (us @ x # xs)" using pc_repD(4) [OF rep Cons.prems(2)] Cons.prems(3) by simp
  have nxt: "entry_next s x = head_opt xs" using chain_suffix [OF ch] by (auto dest: chain_head)
  have dist: "distinct (us @ x # xs)" using chain_distinct [OF ch] .
  have do: "distinct (lru_order s)" using lru_dll(3) [OF pc_repD(7) [OF rep]] .
  have "x \<in> (\<Union>h < 256. set (H h))" using Cons.prems(2,3) by (intro UN_I [of h]) auto
  then have x: "x \<in> set (lru_order s)" using pc_repD(9) [OF rep] by simp
  have hx: "entry_hash s x = h" using pc_repD(6) [OF rep Cons.prems(2)] Cons.prems(3) by simp
  show ?case
  proof (cases "pe_inode (pc_pool s x) = inode")
    case True
    obtain s1 where s1: "vmm_page_cache_remove (Some x) s = Some s1" "pc_rep s1 (x # F) (H(h := remove1 x (H h)))"
      "lru_order s1 = remove1 x (lru_order s)" "\<And>y. entry_kept s s1 y" using remove_rep [OF rep x] hx by blast
    have H1: "(H(h := remove1 x (H h))) h = us @ xs" using Cons.prems(3) dist by (simp add: remove1_append)
    obtain t F' H' where t: "invalidate_chain inode (head_opt xs) s1 = Some t" "pc_rep t F' H'" "\<And>y. entry_kept s1 t y"
      "lru_order t = filter (\<lambda>e. \<not> (e \<in> set xs \<and> pe_inode (pc_pool s1 e) = inode)) (lru_order s1)"
      using Cons.IH [OF s1(2) Cons.prems(2) H1 refl] by blast
    have "lru_order t = filter (\<lambda>e. \<not> (e \<in> set (x # xs) \<and> pe_inode (pc_pool s e) = inode)) (lru_order s)"
      using t(4) s1(3) entry_keptD(1) [OF s1(4)] do True
      by (auto simp: distinct_remove1_removeAll removeAll_filter_not_eq intro!: filter_cong)
    moreover have "invalidate_chain inode p s = Some t"
      using Cons.prems(4) True s1(1) t(1) nxt by (simp add: invalidate_chain.simps [of inode "Some x"] entry_next_def)
    moreover have "entry_kept s t y" for y using entry_kept_trans [OF s1(4) t(3)] .
    ultimately show ?thesis using t(2) by blast
  next
    case False
    obtain t F' H' where t: "invalidate_chain inode (head_opt xs) s = Some t" "pc_rep t F' H'" "\<And>y. entry_kept s t y"
      "lru_order t = filter (\<lambda>e. \<not> (e \<in> set xs \<and> pe_inode (pc_pool s e) = inode)) (lru_order s)"
      using Cons.IH [OF rep Cons.prems(2), of "us @ [x]"] Cons.prems(3) by auto
    have "invalidate_chain inode p s = Some t"
      using Cons.prems(4) False t(1) nxt by (simp add: invalidate_chain.simps [of inode "Some x"] entry_next_def)
    moreover have "lru_order t = filter (\<lambda>e. \<not> (e \<in> set (x # xs) \<and> pe_inode (pc_pool s e) = inode)) (lru_order s)"
      using t(4) False by (auto intro!: filter_cong)
    ultimately show ?thesis using t(2,3) by blast
  qed
qed

lemma shrink_loop_rep:
  assumes "pc_rep s F H"
  shows "\<exists>r t F' H'. shrink_loop n k s = Some (r, t) \<and> pc_rep t F' H' \<and> set (lru_order t) \<subseteq> set (lru_order s)"
  using assms
proof (induction n arbitrary: s F H k)
  case (Suc n)
  let ?P = "\<lambda>e. \<not> (pinned s e \<or> pe_dirty (pc_pool s e))"
  have find: "chain_find (newer s) ?P (lru_tail s) = Some (List.find ?P (rev (lru_order s)))"
    using chain_find_chain [OF lru_rev_chain [OF Suc.prems]] .
  show ?case
  proof (cases "pc_total_pages (cache_stats s) = 0 \<or> List.find ?P (rev (lru_order s)) = None")
    case True
    then have "shrink_loop (Suc n) k s = Some (k, s)" using find by auto
    then show ?thesis using Suc.prems by blast
  next
    case False
    then obtain e where e: "List.find ?P (rev (lru_order s)) = Some e" by auto
    then have eo: "e \<in> set (lru_order s)" by (auto dest: find_Some_mem)
    obtain s1 where s1: "vmm_page_cache_remove (Some e) s = Some s1"
      "pc_rep s1 (e # F) (H(entry_hash s e := remove1 e (H (entry_hash s e))))" "lru_order s1 = remove1 e (lru_order s)"
      using remove_rep [OF Suc.prems eo] by blast
    obtain r t F' H' where t: "shrink_loop n (k + 1) s1 = Some (r, t)" "pc_rep t F' H'" "set (lru_order t) \<subseteq> set (lru_order s1)"
      using Suc.IH [OF s1(2)] by blast
    have "shrink_loop (Suc n) k s = Some (r, t)" using False find e s1(1) t(1) by simp
    moreover have "set (lru_order t) \<subseteq> set (lru_order s)" using t(3) s1(3) set_remove1_subset by fastforce
    ultimately show ?thesis using t(2) by blast
  qed
qed auto

lemma invalidate_rep:
  assumes "pc_rep s F H"
  shows "\<exists>t F' H'. vmm_page_cache_invalidate inode s = Some t \<and> pc_rep t F' H' \<and> (\<forall>x. entry_kept s t x)
    \<and> lru_order t = filter (\<lambda>e. pe_inode (pc_pool s e) \<noteq> inode) (lru_order s)"
proof -
  let ?I = "\<lambda>i t. (\<exists>F' H'. pc_rep t F' H') \<and> (\<forall>x. entry_kept s t x)
    \<and> lru_order t = filter (\<lambda>e. \<not> (entry_hash s e < i \<and> pe_inode (pc_pool s e) = inode)) (lru_order s)"
  have "\<exists>t. for_range_opt 0 256 (\<lambda>i s. invalidate_chain inode (pc_hash s i) s) s = Some t \<and> ?I 256 t"
  proof (rule for_range_opt_rule [where I = ?I])
    show "?I 0 s" using assms by (auto simp: entry_kept_def)
    fix i t assume i: "i < (256 :: nat)" and t: "?I i t"
    then obtain F1 H1 where rep: "pc_rep t F1 H1" and k: "\<And>x. entry_kept s t x" by blast
    have hd: "pc_hash t i = head_opt (H1 i)" using chain_head [OF pc_repD(4) [OF rep i]] .
    obtain u F' H' where u: "invalidate_chain inode (pc_hash t i) t = Some u" "pc_rep u F' H'" "\<And>x. entry_kept t u x"
      "lru_order u = filter (\<lambda>e. \<not> (e \<in> set (H1 i) \<and> pe_inode (pc_pool t e) = inode)) (lru_order t)"
      using invalidate_chain_rep [OF rep i _ hd, where us = "[]" and inode = inode] by (metis append_Nil)
    have mem: "e \<in> set (H1 i) \<longleftrightarrow> entry_hash s e = i" if "e \<in> set (lru_order t)" for e
      using cached_in_chain(1) [OF rep that] pc_repD(6) [OF rep i, of e] entry_keptD(6) [OF k, of e] by auto
    have "lru_order u = filter (\<lambda>e. \<not> (entry_hash s e = i \<and> pe_inode (pc_pool s e) = inode)) (lru_order t)"
      unfolding u(4) using mem entry_keptD(1) [OF k] by (intro filter_cong) auto
    then have "lru_order u = filter (\<lambda>e. \<not> (entry_hash s e < Suc i \<and> pe_inode (pc_pool s e) = inode)) (lru_order s)"
      using t by (auto simp: less_Suc_eq intro!: filter_cong)
    moreover have "entry_kept s u x" for x using entry_kept_trans [OF k u(3)] .
    ultimately show "\<exists>u. invalidate_chain inode (pc_hash t i) t = Some u \<and> ?I (Suc i) u" using u(1,2) by blast
  qed simp
  then obtain t where t: "for_range_opt 0 256 (\<lambda>i s. invalidate_chain inode (pc_hash s i) s) s = Some t" "?I 256 t" by blast
  moreover have "entry_hash s e < 256" for e by (simp add: entry_hash_def)
  ultimately show ?thesis using pc_repD(3) [OF assms] by (auto simp: vmm_page_cache_invalidate_def)
qed

subsection \<open>Properties\<close>

text \<open>
  C39. Eviction takes the least recently used pages first and never a pinned one: evicting \<open>n\<close> pages from a
  consistent cache ends, removes exactly the last \<open>n\<close> entries of the use order that are neither locked nor
  referenced by more than one user (all of them if there are fewer), keeps the other entries in their order and
  unchanged, and leaves the cache consistent.
\<close>

theorem page_cache_evict_lru:
  assumes "pc_rep s F H"
  shows "\<exists>t F' H'. vmm_page_cache_evict n s = Some t \<and> pc_rep t F' H'
    \<and> lru_order t = filter (\<lambda>e. e \<notin> set (take (unat n) (filter (\<lambda>e. \<not> pinned s e) (rev (lru_order s))))) (lru_order s)
    \<and> (\<forall>e \<in> set (lru_order s). pinned s e \<longrightarrow> e \<in> set (lru_order t)) \<and> (\<forall>e. entry_kept s t e)"
proof -
  obtain t H' where t: "evict_loop (unat n) s = Some t" "pc_rep t (rev (victims (unat n) s) @ F) H'"
    "lru_order t = filter (\<lambda>e. e \<notin> set (victims (unat n) s)) (lru_order s)" "\<And>x. entry_kept s t x"
    using evict_loop_rep [OF assms, of "unat n"] by blast
  have "e \<in> set (lru_order t)" if "e \<in> set (lru_order s)" "pinned s e" for e
    using that t(3) by (auto simp: victims_def dest: in_set_takeD)
  then show ?thesis using t pc_repD(3) [OF assms] unfolding victims_def by (auto simp: vmm_page_cache_evict_def)
qed

text \<open>
  C38. A page put into the cache is found there: if the page is not cached yet and a slot is free or some
  entry can be evicted, \<open>vmm_page_cache_insert\<close> returns an entry and the following lookup of the same page
  returns that entry, which holds the physical address that was put in. A page that was cached before and was
  not evicted to make room is still found in its entry with its address.
\<close>

theorem page_cache_insert_lookup:
  assumes rep: "pc_rep s F H" and w: "in_window (pc_frames s) p" and new: "cached s i k = None"
    and room: "F \<noteq> [] \<or> (\<exists>e \<in> set (lru_order s). \<not> pinned s e)"
  shows "\<exists>e t u. vmm_page_cache_insert i k p s = Some (Some e, t) \<and> vmm_page_cache_lookup i k t = Some (Some e, u)
    \<and> pe_phys_addr (pc_pool u e) = p
    \<and> (\<forall>i' k' e'. cached s i' k' = Some e' \<longrightarrow> e' \<notin> set (if F = [] then victims 4 s else []) \<longrightarrow>
         cached t i' k' = Some e' \<and> pe_phys_addr (pc_pool t e') = pe_phys_addr (pc_pool s e'))"
proof -
  let ?V = "if F = [] then victims 4 s else []" and ?rest = "filter (\<lambda>x. x \<notin> set (if F = [] then victims 4 s else [])) (lru_order s)"
  have nV: "F \<noteq> [] \<or> ?V \<noteq> []" using room by (auto simp: victims_def filter_empty_conv)
  obtain r t F' H' where ins: "vmm_page_cache_insert i k p s = Some (r, t)" "pc_rep t F' H'"
    and post: "case r of None \<Rightarrow> F = [] \<and> ?V = [] \<and> lru_order t = ?rest
       | Some e \<Rightarrow> e \<notin> set ?rest \<and> lru_order t = e # ?rest \<and> has_key t i k e \<and> pe_phys_addr (pc_pool t e) = p
           \<and> pe_ref_count (pc_pool t e) = 1 \<and> (\<forall>x \<in> set ?rest. entry_kept s t x)"
    using insert_rep(2) [OF rep w new] unfolding Let_def by blast
  then obtain e where r: "r = Some e" using nV by (cases r) auto
  have e: "lru_order t = e # ?rest" "has_key t i k e" "pe_phys_addr (pc_pool t e) = p" "\<forall>x \<in> set ?rest. entry_kept s t x"
    using post r by auto
  have "cached t i k = Some e" using cached_unique [OF ins(2)] e by simp
  then obtain u where u: "vmm_page_cache_lookup i k t = Some (Some e, u)" "\<And>x. entry_kept t u x"
    using lookup_rep [OF ins(2), of i k] by metis
  have "cached t i' k' = Some e' \<and> pe_phys_addr (pc_pool t e') = pe_phys_addr (pc_pool s e')"
    if c: "cached s i' k' = Some e'" "e' \<notin> set ?V" for i' k' e'
  proof -
    have e': "e' \<in> set ?rest" "has_key s i' k' e'" using c by (auto simp: cached_def dest: find_Some_mem)
    then have "entry_kept s t e'" using e(4) by blast
    then show ?thesis using cached_unique [OF ins(2), of e' i' k'] e(1) e' entry_keptD by simp
  qed
  with ins(1) r u(1) e(3) entry_keptD(3) [OF u(2)] show ?thesis by blast
qed

text \<open>A cache with two pages: entry 0, used last, is referenced twice; entry 1 can be evicted.\<close>

definition demo_cache :: pcache where
  "demo_cache = \<lparr>pc_pool = (\<lambda>e. \<lparr>pe_inode = (if e = 0 then 1 else 2), pe_offset = 0, pe_phys_addr = (if e = 0 then 0x200000 else 0x201000),
       pe_flags = 0, pe_ref_count = (if e = 0 then 2 else 1), pe_access_time = 0, pe_dirty = False, pe_locked = False,
       pe_uptodate = True, pe_hash_next = None, pe_lru_next = (if e = 0 then Some 1 else None),
       pe_lru_prev = (if e = 0 then None else Some 0)\<rparr>),
     pc_free_list = None, pc_hash = (\<lambda>h. if h = 1 then Some 0 else if h = 2 then Some 1 else None),
     lru_head = Some 0, lru_tail = Some 1,
     cache_stats = \<lparr>pc_hits = 0, pc_misses = 0, pc_evictions = 0, pc_writebacks = 0, pc_total_pages = 2\<rparr>,
     cache_clock = 2, pc_initialized = True, pc_frames = full_pmm\<rparr>"

lemma demo_cache_order: "lru.well_linked demo_cache" "lru_order demo_cache = [0, 1]"
proof -
  have ok: "lists_ok (older demo_cache) (newer demo_cache) (lru_heads demo_cache) (Suc 0) 512 (\<lambda>q. [0, 1])"
    by (simp add: lists_ok_def dll_def entry_maps lru_heads_def demo_cache_def)
  show "lru.well_linked demo_cache" using ok by (rule lru.well_linkedI)
  show "lru_order demo_cache = [0, 1]" using lru.well_linkedI(2) [OF ok, of 0] by simp
qed

lemma demo_cache_rep: "pc_rep demo_cache [] (\<lambda>h. if h = 1 then [0] else if h = 2 then [1] else [])"
proof -
  have "in_window full_pmm 0x200000" "in_window full_pmm 0x201000"
    using full_pmm(1) by (simp_all add: in_window_def pmm_inv_def unat_div)
  moreover have "(\<Union>h < 256 :: nat. set (if h = 1 then [0 :: nat] else if h = 2 then [1] else [])) = {0, 1}"
    by (auto split: if_splits) (rule bexI [of _ 2]; simp)
  ultimately show ?thesis
    unfolding pc_rep_def demo_cache_order(2) using demo_cache_order(1)
    by (simp add: pp.free_slots_def demo_cache_def entry_next_def entry_hash_def page_cache_hash_fn_def)
qed

theorem page_cache_evict_lru_witness:
  "pc_rep demo_cache [] (\<lambda>h. if h = 1 then [0] else if h = 2 then [1] else []) \<and>
   (\<exists>t F' H'. vmm_page_cache_evict 4 demo_cache = Some t \<and> pc_rep t F' H' \<and> lru_order t = [0])"
proof -
  have "pinned demo_cache 0" "\<not> pinned demo_cache 1" by (simp_all add: pinned_def demo_cache_def)
  with page_cache_evict_lru [OF demo_cache_rep, of 4] demo_cache_rep show ?thesis
    by (simp add: demo_cache_order(2)) blast
qed

theorem page_cache_insert_lookup_witness:
  "\<exists>e t u. vmm_page_cache_insert 7 3 0x202000 demo_cache = Some (Some e, t)
    \<and> vmm_page_cache_lookup 7 3 t = Some (Some e, u) \<and> pe_phys_addr (pc_pool u e) = 0x202000
    \<and> cached t 1 0 = Some 0 \<and> pe_phys_addr (pc_pool t 0) = 0x200000"
proof -
  have "cached demo_cache 7 3 = None" "cached demo_cache 1 0 = Some 0"
    unfolding cached_def demo_cache_order(2) by (simp_all add: has_key_def demo_cache_def)
  moreover have "\<not> pinned demo_cache 1" "0 \<notin> set (victims 4 demo_cache)"
    unfolding victims_def demo_cache_order(2) by (simp_all add: pinned_def demo_cache_def)
  moreover have "in_window (pc_frames demo_cache) 0x202000"
    using full_pmm(1) by (simp add: in_window_def pmm_inv_def unat_div demo_cache_def)
  moreover have "\<exists>e \<in> set (lru_order demo_cache). \<not> pinned demo_cache e"
    using calculation by (simp add: demo_cache_order(2))
  ultimately obtain e t u where r: "vmm_page_cache_insert 7 3 0x202000 demo_cache = Some (Some e, t)"
    "vmm_page_cache_lookup 7 3 t = Some (Some e, u)" "pe_phys_addr (pc_pool u e) = 0x202000"
    and keep: "\<And>i' k' e'. cached demo_cache i' k' = Some e' \<Longrightarrow> e' \<notin> set (victims 4 demo_cache) \<Longrightarrow>
       cached t i' k' = Some e' \<and> pe_phys_addr (pc_pool t e') = pe_phys_addr (pc_pool demo_cache e')"
    using page_cache_insert_lookup [OF demo_cache_rep, of "0x202000" 7 3] by auto
  have "pe_phys_addr (pc_pool demo_cache 0) = 0x200000" by (simp add: demo_cache_def)
  with r keep [of 1 0 0] \<open>cached demo_cache 1 0 = Some 0\<close> \<open>0 \<notin> set (victims 4 demo_cache)\<close> show ?thesis by auto
qed

text \<open>
  The states the cache can reach: it is set up once and then changed by its own operations, by
  users of an entry they looked up that pin it or mark it dirty, and by nothing else.
\<close>

inductive pcache_reachable :: "pcache \<Rightarrow> bool" where
  start: "\<not> pc_initialized s \<Longrightarrow> pcache_reachable (vmm_page_cache_init s)"
| lookup: "pcache_reachable s \<Longrightarrow> vmm_page_cache_lookup i k s = Some (r, t) \<Longrightarrow> pcache_reachable t"
| insertion: "pcache_reachable s \<Longrightarrow> in_window (pc_frames s) p \<Longrightarrow> vmm_page_cache_insert i k p s = Some (r, t) \<Longrightarrow>
    pcache_reachable t"
| removal: "pcache_reachable s \<Longrightarrow> e \<in> set (lru_order s) \<Longrightarrow> vmm_page_cache_remove (Some e) s = Some t \<Longrightarrow>
    pcache_reachable t"
| dirty: "pcache_reachable s \<Longrightarrow> e \<in> set (lru_order s) \<Longrightarrow> pcache_reachable (vmm_page_cache_mark_dirty (Some e) s)"
| pin: "pcache_reachable s \<Longrightarrow> pcache_reachable (upd_entry (\<lambda>x. x\<lparr>pe_ref_count := c, pe_locked := l\<rparr>) e s)"
| sync: "pcache_reachable s \<Longrightarrow> vmm_page_cache_sync inode s = Some t \<Longrightarrow> pcache_reachable t"
| sync_all: "pcache_reachable s \<Longrightarrow> vmm_page_cache_sync_all s = Some t \<Longrightarrow> pcache_reachable t"
| evict: "pcache_reachable s \<Longrightarrow> vmm_page_cache_evict n s = Some t \<Longrightarrow> pcache_reachable t"
| shrink: "pcache_reachable s \<Longrightarrow> vmm_page_cache_shrink n s = Some (r, t) \<Longrightarrow> pcache_reachable t"
| invalidate: "pcache_reachable s \<Longrightarrow> vmm_page_cache_invalidate inode s = Some t \<Longrightarrow> pcache_reachable t"

lemma pcache_reachable_rep: "pcache_reachable s \<Longrightarrow> \<exists>F H. pc_rep s F H"
proof (induction rule: pcache_reachable.induct)
  case (start s)
  then show ?case using pcache_init_rep(1) by blast
next
  case (lookup s i k r t)
  then obtain F H where rep: "pc_rep s F H" by blast
  with lookup lookup_rep [OF rep, of i k] show ?case by auto
next
  case (insertion s p i k r t)
  then obtain F H where rep: "pc_rep s F H" by blast
  have "\<exists>r t F' H'. vmm_page_cache_insert i k p s = Some (r, t) \<and> pc_rep t F' H'"
    using insert_rep [OF rep insertion(2)] by (cases "cached s i k") blast+
  with insertion(3) show ?case by auto
next
  case (removal s e t)
  then obtain F H where rep: "pc_rep s F H" by blast
  with removal remove_rep [OF rep removal(2)] show ?case by auto
next
  case (dirty s e)
  then obtain F H where rep: "pc_rep s F H" by blast
  let ?u = "upd_entry (pe_dirty_update (\<lambda>_. True)) e s"
  have "pc_rep ?u F H" "lru_order ?u = lru_order s"
    by (rule pc_rep_frame [OF rep]; simp add: entry_maps entry_hash_def fun_eq_iff)+
  with dirty lru_touch_rep(1) [of ?u F H e] show ?case by (auto simp: vmm_page_cache_mark_dirty_def)
next
  case (pin s l c e)
  then obtain F H where rep: "pc_rep s F H" by blast
  have "pc_rep (upd_entry (\<lambda>x. x\<lparr>pe_ref_count := c, pe_locked := l\<rparr>) e s) F H"
    by (rule pc_rep_frame(1) [OF rep]) (simp_all add: entry_maps entry_hash_def fun_eq_iff)
  then show ?case by blast
next
  case (sync s inode t)
  then obtain F H where rep: "pc_rep s F H" by blast
  with sync sync_buckets_rep [OF rep, of "\<lambda>x. pe_inode x = inode"] pc_repD(3) [OF rep] show ?case by (auto simp: vmm_page_cache_sync_def)
next
  case (sync_all s t)
  then obtain F H where rep: "pc_rep s F H" by blast
  with sync_all sync_buckets_rep [OF rep, of "\<lambda>x. True"] pc_repD(3) [OF rep] show ?case by (auto simp: vmm_page_cache_sync_all_def)
next
  case (evict s n t)
  then obtain F H where rep: "pc_rep s F H" by blast
  with evict evict_loop_rep [OF rep, of "unat n"] pc_repD(3) [OF rep] show ?case by (auto simp: vmm_page_cache_evict_def)
next
  case (shrink s n r t)
  then obtain F H where rep: "pc_rep s F H" by blast
  with shrink shrink_loop_rep [OF rep, of "unat n" 0] show ?case by (auto simp: vmm_page_cache_shrink_def)
next
  case (invalidate s inode t)
  then obtain F H where rep: "pc_rep s F H" by blast
  with invalidate invalidate_rep [OF rep, of inode] show ?case by auto
qed

text \<open>
  C20. Every reachable state of the page cache is consistent: free list, hash chains and use order share the
  pool without overlap, no page is cached twice, every cached page is in the chain its hash selects, and the count of
  cached pages is right. Every lookup ends, and it finds exactly the entry that holds the page.
\<close>

theorem pcache_reachable_consistent:
  assumes "pcache_reachable s"
  shows "(\<exists>F H. pc_rep s F H) \<and>
    (\<exists>r t. vmm_page_cache_lookup i k s = Some (r, t) \<and> (\<forall>e. r = Some e \<longleftrightarrow> e \<in> set (lru_order s) \<and> has_key s i k e))"
proof -
  obtain F H where rep: "pc_rep s F H" using pcache_reachable_rep [OF assms] by blast
  have "cached s i k = Some e \<longleftrightarrow> e \<in> set (lru_order s) \<and> has_key s i k e" for e
    using cached_unique [OF rep, of e i k] find_Some_mem [of "has_key s i k" "lru_order s" e] by (auto simp: cached_def)
  with lookup_rep [OF rep, of i k] rep show ?thesis by blast
qed

theorem pcache_reachable_consistent_witness:
  "\<exists>t. pcache_reachable t \<and> (\<exists>F H. pc_rep t F H)
     \<and> (\<exists>r u. vmm_page_cache_lookup 7 3 t = Some (r, u)
          \<and> (\<forall>e. r = Some e \<longleftrightarrow> e \<in> set (lru_order t) \<and> has_key t 7 3 e))"
proof -
  have "pcache_reachable (vmm_page_cache_init (demo_cache\<lparr>pc_initialized := False\<rparr>))"
    by (rule pcache_reachable.start) simp
  with pcache_reachable_consistent [of _ 7 3] show ?thesis by blast
qed

end
