(* ===== verification/DemandProps.thy ===== *)
theory DemandProps
  imports Demand SwapProps VmaProps PageCacheProps
begin

unbundle bit_operations_syntax

text \<open>
  Page faults: what each way of resolving one does to the page tables and to physical memory, and when a
  fault is refused. The frame, content and translation of a page that is brought in come from \<open>fresh_page\<close>
  of theory \<open>SwapProps\<close>; the areas are those that \<open>areas_rep\<close> of theory \<open>VmaProps\<close> describes.
\<close>

subsection \<open>Parts of the state\<close>

lemma vmem_simps [simp]:
  "vs_vmm (set_vmm v s) = v" "vs_areas (set_vmm v s) = vs_areas s" "vs_cache (set_vmm v s) = vs_cache s"
  "current_mm (set_vmm v s) = current_mm s" "set_vmm v (set_vmm w s) = set_vmm v s"
  "vs_vmm (s\<lparr>vs_areas := a\<rparr>) = vs_vmm s" "vs_vmm (s\<lparr>vs_cache := c\<rparr>) = vs_vmm s"
  "vs_vmm (s\<lparr>total_faults := n\<rparr>) = vs_vmm s" "vs_vmm (s\<lparr>minor_faults := n\<rparr>) = vs_vmm s"
  "vs_vmm (s\<lparr>major_faults := n\<rparr>) = vs_vmm s" "vs_vmm (s\<lparr>cow_faults := n\<rparr>) = vs_vmm s"
  "vs_vmm (s\<lparr>segfaults := n\<rparr>) = vs_vmm s" "vs_swap (set_vmm v s) = (vs_swap s)\<lparr>sw_vmm := v\<rparr>"
  by (simp_all add: vs_vmm_def set_vmm_def)

lemma area_of_simps [simp]: "area_of (s\<lparr>total_faults := n\<rparr>) v = area_of s v" "area_of (set_vmm w s) v = area_of s v"
  by (simp_all add: area_of_def)

lemma count_rss_simps [simp]:
  "vs_vmm (count_rss s) = vs_vmm s" "current_mm (count_rss s) = current_mm s" "vs_cache (count_rss s) = vs_cache s"
  "vma_pool (vs_areas (count_rss s)) = vma_pool (vs_areas s)"
  by (simp_all add: count_rss_def vs_vmm_def upd_mm_def split: option.split)

lemma frame_bits_idem [simp]: "frame_bits (frame_bits a) = frame_bits a"
  by (simp add: frame_bits_def and.assoc)

subsection \<open>The entry of a page\<close>

lemma get_pte_vm_pte:
  "get_pte va v = (if vm_present v (dir_index va) then Some (entry_addr (frame_bits (vm_pde v (dir_index va))) (table_index va)) else None)"
  by (simp add: get_pte_def vm_present_def vm_pde_def Let_def)

definition pte_of :: "u32 \<Rightarrow> vmm \<Rightarrow> u32" where
  "pte_of va v = (case get_pte va v of Some p \<Rightarrow> vm_words v p | None \<Rightarrow> 0)"

lemma pte_of_vm_pte: "pte_of va v = (if vm_present v (dir_index va) then vm_pte v (dir_index va) (table_index va) else 0)"
  by (simp add: pte_of_def get_pte_vm_pte vm_pte_def)

lemma get_physical_pte_of: "vmm_get_physical va v = (if pte_of va v AND PAGE_PRESENT \<noteq> 0 then frame_bits (pte_of va v) else 0)"
  by (simp add: vmm_get_physical_pte pte_of_vm_pte)

subsection \<open>Filling a frame\<close>

lemma fill_agrees: "unat t = p * 4096 \<Longrightarrow> agrees v p (fill_table t f (vm_words v))"
  using entry_addr_page [of t] by (auto simp: agrees_def intro!: fill_table_other)

lemma entry_in_frame: "unat t = p * 4096 \<Longrightarrow> i < 1024 \<Longrightarrow> unat (entry_addr t i) div 4096 = p"
  by (simp add: entry_addr_page)

lemma copy_words_fill:
  assumes "unat t mod 4096 = 0" and "unat o' mod 4096 = 0" and "unat t div 4096 \<noteq> unat o' div 4096"
  shows "for_range 0 1024 (\<lambda>i m. m(entry_addr t i := m (entry_addr o' i))) m = fill_table t (\<lambda>i. m (entry_addr o' i)) m"
proof -
  have ne: "entry_addr o' j \<noteq> entry_addr t i" if "i < 1024" "j < 1024" for i j
    using entry_addr_page [OF assms(1) that(1)] entry_addr_page [OF assms(2) that(2)] assms(3) by auto
  let ?f = "\<lambda>i m. m(entry_addr t i := m (entry_addr o' i))" and ?g = "\<lambda>i m'. m'(entry_addr t i := m (entry_addr o' i))"
  have "for_range 0 n ?f m = for_range 0 n ?g m \<and> (\<forall>j < 1024. for_range 0 n ?g m (entry_addr o' j) = m (entry_addr o' j))"
    if "n \<le> 1024" for n
    using that
  proof (induction n)
    case (Suc n)
    then have n: "n < 1024" by simp
    with Suc.IH have ih: "for_range 0 n ?f m = for_range 0 n ?g m"
      and old: "\<And>j. j < 1024 \<Longrightarrow> for_range 0 n ?g m (entry_addr o' j) = m (entry_addr o' j)" by (blast intro: less_imp_le)+
    have "?f n (for_range 0 n ?g m) = ?g n (for_range 0 n ?g m)" using old [OF n] by simp
    moreover have "?g n (for_range 0 n ?g m) (entry_addr o' j) = m (entry_addr o' j)" if "j < 1024" for j
      using ne [OF n that] old [OF that] by simp
    ultimately show ?case unfolding for_range_Suc [OF le0] ih by blast
  qed (simp add: for_range_skip)
  from this [of 1024] show ?thesis by (simp add: fill_table_def)
qed

subsection \<open>Bringing in a page\<close>

text \<open>What the system calls and fault handlers promise about a page they bring in at \<open>va\<close>.\<close>

definition page_in :: "u32 \<Rightarrow> u32 \<Rightarrow> (nat \<Rightarrow> u32) \<Rightarrow> vmm \<Rightarrow> vmm \<Rightarrow> bool" where
  "page_in va fl f v v' \<longleftrightarrow> (\<exists>p. p \<notin> pmm_used (vm_frames v)
     \<and> vmm_inv v' \<and> vmm_get_physical va v' = of_nat p * PAGE_SIZE \<and> of_nat p * PAGE_SIZE \<noteq> (0 :: u32)
     \<and> pte_of va v' = of_nat p * PAGE_SIZE OR PAGE_PRESENT OR fl
     \<and> (\<forall>i < 1024. vm_words v' (entry_addr (of_nat p * PAGE_SIZE) i) = f i)
     \<and> (\<forall>vb. unat vb div 4096 \<noteq> unat va div 4096 \<longrightarrow> vmm_get_physical vb v' = vmm_get_physical vb v)
     \<and> (\<forall>a. data_frame v (unat a div 4096) \<longrightarrow> vm_words v' a = vm_words v a))"

lemma page_in_frame_bits [simp]: "page_in (frame_bits va) fl f v v' = page_in va fl f v v'"
  by (simp add: page_in_def get_physical_pte_of pte_of_vm_pte unat_frame_bits)

lemma page_in_writable:
  assumes "page_in va fl f v v'"
  shows "pte_of va v' AND PAGE_WRITE = fl AND PAGE_WRITE"
proof -
  have "(of_nat p * PAGE_SIZE :: u32) AND PAGE_WRITE = 0" for p
  proof -
    have "(of_nat p * PAGE_SIZE :: u32) = push_bit 12 (of_nat p)" by (simp add: push_bit_eq_mult)
    then have "\<not> bit (of_nat p * PAGE_SIZE :: u32) 1" by (simp add: bit_push_bit_iff)
    then show ?thesis using and_mask_bit_iff [of 1 "of_nat p * PAGE_SIZE :: u32"] by (simp add: push_bit_eq_mult)
  qed
  then show ?thesis using assms by (auto simp: page_in_def bit.conj_disj_distrib2)
qed

lemma install_page_in:
  assumes fresh: "fresh_frame v fl p fr"
  shows "page_in va fl f v (install_page va p fl fr (fill_table (of_nat p * PAGE_SIZE) f (vm_words v)) v)"
proof -
  let ?p = "of_nat p * PAGE_SIZE :: u32"
  let ?m = "fill_table ?p f (vm_words v)"
  note d = fresh_frameD [OF fresh]
  have ag: "agrees v p ?m" by (rule fill_agrees [OF d(3)])
  have "vm_words (install_page va p fl fr ?m v) (entry_addr ?p i) = f i" if "i < 1024" for i
    using d(7) [OF ag entry_in_frame [OF d(3) that]] fill_table_entry [OF _ that, of ?p] d(3) by simp
  then show ?thesis
    unfolding page_in_def using d(2,4,5,6,8,9,10) ag by (intro exI [of _ p]) (simp add: pte_of_vm_pte)
qed

definition anon_flags :: "u32 \<Rightarrow> u32" where
  "anon_flags fl = (if fl AND VM_WRITE \<noteq> 0 then PAGE_PRESENT OR PAGE_USER OR PAGE_WRITE else PAGE_PRESENT OR PAGE_USER)"

lemma small_flags: "unat (anon_flags fl) < 4096" "unat (PAGE_PRESENT OR PAGE_WRITE OR PAGE_USER) < 4096"
  by (simp_all add: anon_flags_def)

lemma alloc_and_map_page_in:
  assumes "vmm_inv (vs_vmm s)" and "card (pmm_used (vm_frames (vs_vmm s))) + 2 \<le> TOTAL_PAGES"
  shows "\<exists>v'. alloc_and_map_page va fl s = (0, count_rss (set_vmm v' s)) \<and> page_in va (anon_flags fl) (\<lambda>i. 0) (vs_vmm s) v'"
proof -
  obtain p fr where fresh: "fresh_frame (vs_vmm s) (anon_flags fl) p fr"
    using fresh_page [OF assms small_flags(1)] by blast
  show ?thesis
    using fresh_frameD(1,2) [OF fresh] install_page_in [OF fresh]
    by (auto simp: alloc_and_map_page_def alloc_frame_def write_words_def map_frame_def install_page_def
        anon_flags_def [symmetric])
qed

lemma cow_page_in:
  assumes v: "vmm_inv (vs_vmm s)" "card (pmm_used (vm_frames (vs_vmm s))) + 2 \<le> TOTAL_PAGES"
    and old: "data_frame (vs_vmm s) (unat pte div 4096)"
  shows "\<exists>v'. handle_cow_fault va pte s = (0, (count_rss (set_vmm v' s))\<lparr>cow_faults := cow_faults (count_rss (set_vmm v' s)) + 1\<rparr>)
    \<and> page_in va (PAGE_PRESENT OR PAGE_WRITE OR PAGE_USER) (\<lambda>i. vm_words (vs_vmm s) (entry_addr (frame_bits pte) i)) (vs_vmm s) v'"
proof -
  let ?fl = "PAGE_PRESENT OR PAGE_WRITE OR PAGE_USER :: u32"
  obtain p fr where fresh: "fresh_frame (vs_vmm s) ?fl p fr"
    using fresh_page [OF v small_flags(2)] by blast
  note d = fresh_frameD [OF fresh]
  have "unat pte div 4096 \<noteq> p" using old d(4) by (auto simp: data_frame_def)
  then have "for_range 0 1024 (\<lambda>i m. m(entry_addr (of_nat p * PAGE_SIZE) i := m (entry_addr (frame_bits pte) i))) m
      = fill_table (of_nat p * PAGE_SIZE) (\<lambda>i. m (entry_addr (frame_bits pte) i)) m" for m
    using d(3) by (intro copy_words_fill) (auto simp: unat_frame_bits)
  with d(1,2) install_page_in [OF fresh, of va "\<lambda>i. vm_words (vs_vmm s) (entry_addr (frame_bits pte) i)"] show ?thesis
    by (auto simp: handle_cow_fault_def alloc_frame_def map_frame_def install_page_def Let_def)
qed

subsection \<open>The fault handler\<close>

definition in_space :: "vmem \<Rightarrow> nat list \<Rightarrow> nat list \<Rightarrow> (nat \<Rightarrow> nat list) \<Rightarrow> nat \<Rightarrow> bool" where
  "in_space s F M L m \<longleftrightarrow> areas_rep (vs_areas s) F M L \<and> current_mm s = Some m \<and> m < 64 \<and> m \<notin> set M"

lemma in_space_find:
  assumes "in_space s F M L m"
  shows "vma_find (Some m) addr (vs_areas s) = Some (List.find (area_has (vs_areas s) addr) (L m))"
    and "vma_find_nearest (Some m) addr (vs_areas s) = Some (List.find (\<lambda>v. addr < vm_end (vma_pool (vs_areas s) v)) (L m))"
  using assms vma_find_rep [of "vs_areas s"] nearest_rep [of "vs_areas s"] by (auto simp: in_space_def)

lemma in_space_area:
  assumes "in_space s F M L m" and "v \<in> set (L m)" and "area_has (vs_areas s) addr v"
  shows "vma_find (Some m) addr (vs_areas s) = Some (Some v)"
proof -
  have "List.find (area_has (vs_areas s) addr) (L m) = Some v"
    using assms(2,3) area_unique [of "vs_areas s" F M L m _ v addr] assms(1)
    unfolding in_space_def by (intro find_unique) blast+
  then show ?thesis using in_space_find(1) [OF assms(1)] by simp
qed

definition allowed :: "u32 \<Rightarrow> u32 \<Rightarrow> bool" where
  "allowed error_code fl \<longleftrightarrow> (error_code AND PF_WRITE \<noteq> 0 \<longrightarrow> fl AND VM_WRITE \<noteq> 0)
     \<and> (error_code AND PF_USER \<noteq> 0 \<longrightarrow> fl AND (VM_READ OR VM_WRITE OR VM_EXEC) \<noteq> 0)"

lemma fault_unmapped:
  assumes "pte_of addr (vs_vmm s) = 0" and "current_mm s = Some m"
  defines "s1 \<equiv> s\<lparr>total_faults := total_faults s + 1\<rparr>"
  shows "handle_page_fault addr ec s = do {
             found \<leftarrow> vma_find (Some m) addr (vs_areas s);
             (case found of
                Some v \<Rightarrow> fault_in_area v addr ec s1
              | None \<Rightarrow> do {
                  nearest \<leftarrow> vma_find_nearest (Some m) addr (vs_areas s);
                  (case nearest of
                     Some v \<Rightarrow>
                       if vm_flags (area_of s v) AND VM_STACK \<noteq> 0 then
                         let (r, s2) = handle_stack_growth m v addr s1
                         in Some (if r = 0 then (PF_HANDLED, s2) else segfault s2)
                       else Some (segfault s1)
                   | None \<Rightarrow> Some (segfault s1)) }) }"
  unfolding s1_def handle_page_fault_def Let_def using assms(1,2)
  by (cases "get_pte addr (vs_vmm s)") (simp_all add: pte_of_def)

lemma fault_in_area_allowed:
  assumes "allowed ec (vm_flags (area_of s v))" and "vm_flags (area_of s v) AND VM_ANONYMOUS \<noteq> 0"
  shows "fault_in_area v addr ec s =
    (let (r, s1) = demand_page_anon v addr s in Some (if r < 0 then PF_OOM else PF_HANDLED, s1))"
  using assms by (auto simp: fault_in_area_def allowed_def Let_def split: prod.split)

text \<open>
  C16. A fault on an unmapped page of an anonymous area that allows the access brings in a zero page: the page
  translates to a frame that nobody used, the frame is all zeros, the entry is writable exactly when the area is, every
  other page translates as before and no frame that holds data is changed. Two free frames are enough.
\<close>

theorem anon_fault_zero_page:
  assumes "in_space s F M L m" and "v \<in> set (L m)" and "area_has (vs_areas s) addr v"
    and "allowed ec (vm_flags (area_of s v))" and "vm_flags (area_of s v) AND VM_ANONYMOUS \<noteq> 0"
    and "pte_of addr (vs_vmm s) = 0"
    and "vmm_inv (vs_vmm s)" and "card (pmm_used (vm_frames (vs_vmm s))) + 2 \<le> TOTAL_PAGES"
  shows "\<exists>s'. handle_page_fault addr ec s = Some (PF_HANDLED, s')
    \<and> page_in addr (anon_flags (vm_flags (area_of s v))) (\<lambda>i. 0) (vs_vmm s) (vs_vmm s')
    \<and> (pte_of addr (vs_vmm s') AND PAGE_WRITE \<noteq> 0 \<longleftrightarrow> vm_flags (area_of s v) AND VM_WRITE \<noteq> 0)"
proof -
  let ?s1 = "s\<lparr>total_faults := total_faults s + 1\<rparr>" and ?fl = "vm_flags (area_of s v)"
  have mm: "current_mm s = Some m" using assms(1) by (simp add: in_space_def)
  obtain v' where v': "alloc_and_map_page (frame_bits addr) ?fl ?s1 = (0, count_rss (set_vmm v' ?s1))"
      "page_in addr (anon_flags ?fl) (\<lambda>i. 0) (vs_vmm s) v'"
    using alloc_and_map_page_in [of ?s1 "frame_bits addr" ?fl] assms(7,8) by auto
  have "handle_page_fault addr ec s = Some (PF_HANDLED, (count_rss (set_vmm v' ?s1))\<lparr>minor_faults := minor_faults (count_rss (set_vmm v' ?s1)) + 1\<rparr>)"
    using fault_unmapped [OF assms(6) mm, of ec] in_space_area [OF assms(1-3)] fault_in_area_allowed [of ec ?s1 v addr] assms(4,5) v'(1)
    by (simp add: demand_page_anon_def)
  moreover have "pte_of addr v' AND PAGE_WRITE \<noteq> 0 \<longleftrightarrow> ?fl AND VM_WRITE \<noteq> 0"
    using page_in_writable [OF v'(2)] by (simp add: anon_flags_def)
  ultimately show ?thesis using v'(2) by auto
qed

text \<open>
  C17. A write to a page that is mapped copy-on-write gives the writer a private copy: the page is remapped,
  writable, to a frame that nobody used and that has the content of the old one; the old frame, every other frame that
  holds data and every other translation stay as they were.
\<close>

theorem cow_fault_copies:
  assumes "vmm_inv (vs_vmm s)" and "card (pmm_used (vm_frames (vs_vmm s))) + 2 \<le> TOTAL_PAGES"
    and "pte_of addr (vs_vmm s) AND PAGE_PRESENT \<noteq> 0" and "pte_of addr (vs_vmm s) AND PAGE_COW \<noteq> 0"
    and "ec AND PF_PRESENT \<noteq> 0" and "ec AND PF_WRITE \<noteq> 0"
    and "data_frame (vs_vmm s) (unat (vmm_get_physical addr (vs_vmm s)) div 4096)"
  shows "\<exists>s'. handle_page_fault addr ec s = Some (PF_HANDLED, s')
    \<and> page_in addr (PAGE_PRESENT OR PAGE_WRITE OR PAGE_USER)
         (\<lambda>i. vm_words (vs_vmm s) (entry_addr (vmm_get_physical addr (vs_vmm s)) i)) (vs_vmm s) (vs_vmm s')
    \<and> pte_of addr (vs_vmm s') AND PAGE_WRITE \<noteq> 0"
proof -
  let ?s1 = "s\<lparr>total_faults := total_faults s + 1\<rparr>" and ?e = "pte_of addr (vs_vmm s)" and ?fl = "PAGE_PRESENT OR PAGE_WRITE OR PAGE_USER :: u32"
  have phys: "vmm_get_physical addr (vs_vmm s) = frame_bits ?e" using assms(3) by (simp add: get_physical_pte_of)
  then have old: "data_frame (vs_vmm ?s1) (unat ?e div 4096)" using assms(7) by (simp add: unat_frame_bits)
  obtain v' where v': "handle_cow_fault addr ?e ?s1 =
      (0, (count_rss (set_vmm v' ?s1))\<lparr>cow_faults := cow_faults (count_rss (set_vmm v' ?s1)) + 1\<rparr>)"
      "page_in addr ?fl (\<lambda>i. vm_words (vs_vmm s) (entry_addr (frame_bits ?e) i)) (vs_vmm s) v'"
    using cow_page_in [of ?s1 ?e addr] assms(1,2) old by auto
  obtain q where "get_pte addr (vs_vmm s) = Some q" using assms(3) by (cases "get_pte addr (vs_vmm s)") (auto simp: pte_of_def)
  then have "handle_page_fault addr ec s = Some (PF_HANDLED, snd (handle_cow_fault addr ?e ?s1))"
    unfolding handle_page_fault_def Let_def using assms(3-6) v'(1) by (auto simp: pte_of_def)
  then show ?thesis using v' page_in_writable [OF v'(2)] unfolding phys by auto
qed

text \<open>
  C19. Without a page table entry (so neither a copy-on-write nor a swapped page), a fault is resolved only for an address
  inside an area of the current address space whose flags allow the access, or for an address in the page just
  below a stack area, which then includes it.
\<close>

theorem page_fault_needs_rights:
  assumes "in_space s F M L m" and "pte_of addr (vs_vmm s) = 0"
    and "handle_page_fault addr ec s = Some (PF_HANDLED, s')"
  shows "(\<exists>v \<in> set (L m). area_has (vs_areas s) addr v \<and> allowed ec (vm_flags (area_of s v)))
    \<or> (\<exists>v \<in> set (L m). vm_flags (area_of s v) AND VM_STACK \<noteq> 0 \<and> addr < vm_start (area_of s v)
         \<and> vm_start (area_of s v) - PAGE_SIZE \<le> addr \<and> vm_start (area_of s' v) = vm_start (area_of s v) - PAGE_SIZE)"
proof -
  let ?s1 = "s\<lparr>total_faults := total_faults s + 1\<rparr>"
  have mm: "current_mm s = Some m" using assms(1) by (simp add: in_space_def)
  note step = assms(3) [unfolded fault_unmapped [OF assms(2) mm] in_space_find [OF assms(1)]]
  show ?thesis
  proof (cases "List.find (area_has (vs_areas s) addr) (L m)")
    case (Some v)
    then have "fault_in_area v addr ec ?s1 = Some (PF_HANDLED, s')" using step by simp
    then have "allowed ec (vm_flags (area_of s v))"
      by (auto simp: fault_in_area_def allowed_def segfault_def Let_def split: if_splits)
    then show ?thesis using find_Some_mem [OF Some] by blast
  next
    case None
    then obtain v where v: "List.find (\<lambda>v. addr < vm_end (vma_pool (vs_areas s) v)) (L m) = Some v"
        "vm_flags (area_of s v) AND VM_STACK \<noteq> 0" and "fst (handle_stack_growth m v addr ?s1) = 0" "s' = snd (handle_stack_growth m v addr ?s1)"
      using step by (auto simp: segfault_def split: option.splits if_splits prod.splits)
    then have "addr < vm_start (area_of s v) \<and> vm_start (area_of s v) - PAGE_SIZE \<le> addr
        \<and> vm_start (area_of s' v) = vm_start (area_of s v) - PAGE_SIZE"
      by (auto simp: handle_stack_growth_def alloc_and_map_page_def alloc_frame_def write_words_def map_frame_def
          area_of_def Let_def split: if_splits prod.splits)
    then show ?thesis using find_Some_mem [OF v(1)] v(2) by blast
  qed
qed

text \<open>
  C40. The fault handler loses swapped pages. On a fault for a swapped page \<open>handle_swap_in\<close> takes a frame, lets
  \<open>swap_in_page\<close> read the page into a frame of its own and map it, and then maps the first frame over it: the
  page ends up with whatever that frame held before, and the slot's free count is raised twice.
\<close>

theorem swap_fault_stale_page:
  assumes "vmm_inv (vs_vmm s)" and "card (pmm_used (vm_frames (vs_vmm s))) + 3 \<le> TOTAL_PAGES"
    and "swap_inv (vs_swap s)" and "k < 256" and "(0, k) \<in> slots_used (vs_swap s)"
    and "pte_of addr (vs_vmm s) = swap_pte (slot_code 0 k)"
  shows "\<exists>s' p. handle_page_fault addr ec s = Some (PF_HANDLED, s') \<and> p \<notin> pmm_used (vm_frames (vs_vmm s))
    \<and> vmm_get_physical addr (vs_vmm s') = of_nat p * PAGE_SIZE
    \<and> (\<forall>a. unat a div 4096 = p \<longrightarrow> vm_words (vs_vmm s') a = vm_words (vs_vmm s) a)
    \<and> sa_free_pages (swap_areas (vs_swap s') 0) = sa_free_pages (swap_areas (vs_swap s) 0) + 2"
proof -
  let ?v = "vs_vmm s" and ?w = "vs_swap s" and ?pte = "swap_pte (slot_code 0 k)" and ?fl = "PAGE_PRESENT OR PAGE_WRITE OR PAGE_USER :: u32"
  let ?s1 = "s\<lparr>total_faults := total_faults s + 1\<rparr>" and ?va = "frame_bits addr"
  have "card (pmm_used (vm_frames ?v)) < TOTAL_PAGES" using assms(2) by simp
  from take_frame [OF assms(1) this] obtain p fr where page: "pmm_alloc_page (vm_frames ?v) = (of_nat p * PAGE_SIZE, fr)"
      "of_nat p * PAGE_SIZE \<noteq> (0 :: u32)" "frame_bits (of_nat p * PAGE_SIZE) = of_nat p * PAGE_SIZE"
      "p \<notin> pmm_used (vm_frames ?v)" "card (pmm_used fr) = Suc (card (pmm_used (vm_frames ?v)))"
    and v1: "vmm_inv (?v\<lparr>vm_frames := fr\<rparr>)" "data_frame (?v\<lparr>vm_frames := fr\<rparr>) p" .
  let ?p = "of_nat p * PAGE_SIZE :: u32" and ?v1 = "?v\<lparr>vm_frames := fr\<rparr>"
  have w1: "swap_inv (?w\<lparr>sw_vmm := ?v1\<rparr>)" "(0, k) \<in> slots_used (?w\<lparr>sw_vmm := ?v1\<rparr>)"
    "vmm_inv (sw_vmm (?w\<lparr>sw_vmm := ?v1\<rparr>))" "card (pmm_used (vm_frames (sw_vmm (?w\<lparr>sw_vmm := ?v1\<rparr>)))) + 2 \<le> TOTAL_PAGES"
    using assms(2,3,5) v1(1) page(5) by simp_all
  obtain w2 where w2: "swap_in_page ?va ?pte (?w\<lparr>sw_vmm := ?v1\<rparr>) = Some (0, w2)" "vmm_inv (sw_vmm w2)"
      "\<forall>a. data_frame ?v1 (unat a div 4096) \<longrightarrow> vm_words (sw_vmm w2) a = vm_words ?v1 a"
      "\<forall>f. data_frame ?v1 f \<longrightarrow> data_frame (sw_vmm w2) f" "vm_present (sw_vmm w2) (dir_index ?va)"
      "swap_areas w2 = swap_areas (give_slot 0 k (?w\<lparr>sw_vmm := ?v1\<rparr>))" "swap_inv w2"
    by (rule swap_in_page_effect [OF w1(1) assms(4) w1(2-4), of ?va]) simp
  have slot: "drop_bit 12 ?pte = slot_code 0 k" by (simp add: swap_pte_slot slot_code_low assms(4))
  have again: "swap_free_slot (slot_code 0 k) w2 = Some (give_slot 0 k w2)"
    using swap_invD(4,6) [OF w2(7)] assms(4) by (intro swap_free_slot_in [OF w2(7)]) simp_all
  let ?v3 = "vmm_map_page ?va ?p ?fl (sw_vmm w2)"
  have d2: "data_frame (sw_vmm w2) p" using w2(4) v1(2) by blast
  have v3: "vmm_get_physical addr ?v3 = ?p"
    using map_page_effect [OF w2(2) small_flags(2) disjI1 [OF w2(5)], of ?p addr] page(3) by (simp add: unat_frame_bits)
  have mem: "vm_words ?v3 a = vm_words ?v a" if "unat a div 4096 = p" for a
    using map_page_memory [OF w2(2) disjI1 [OF w2(5)], of a] w2(3) d2 v1(2) that by simp
  have "on_swap (swap_in_page ?va ?pte) (set_vmm ?v1 ?s1) = Some (0, (set_vmm ?v1 ?s1)\<lparr>vs_swap := w2\<rparr>)"
    using w2(1) by (simp add: on_swap_def)
  then obtain s' where s': "handle_swap_in addr ?pte ?s1 = Some (0, s')" "vs_swap s' = (give_slot 0 k w2)\<lparr>sw_vmm := ?v3\<rparr>"
    using page(1,2) again
    by (simp add: handle_swap_in_def alloc_frame_def Let_def slot map_frame_def vs_vmm_def set_vmm_def count_rss_def
        split: option.splits)
  obtain q where "get_pte addr ?v = Some q" "vm_words ?v q = ?pte"
    using assms(6) swap_pte_flags(1) [of "slot_code 0 k"] by (cases "get_pte addr ?v") (auto simp: pte_of_def)
  then have "handle_page_fault addr ec s = Some (PF_HANDLED, s')"
    unfolding handle_page_fault_def Let_def using s'(1) swap_pte_flags [of "slot_code 0 k"] by simp
  moreover have "sa_free_pages (swap_areas (vs_swap s') 0) = sa_free_pages (swap_areas ?w 0) + 2"
    using s'(2) w2(6) by (simp add: give_slot_def upd_area_def)
  moreover have "vs_vmm s' = ?v3" using s'(2) by (simp add: vs_vmm_def)
  ultimately show ?thesis using page(4) v3 mem by auto
qed

subsection \<open>Concrete states\<close>

text \<open>
  An address space with two adjacent anonymous, private, writable areas from \<open>0x40000000\<close> on, of which the first is marked as a
  stack, on the page tables of \<open>booted_vmm\<close>.
\<close>

definition demo_space :: areas where
  "demo_space = demo_areas\<lparr>vma_pool := (\<lambda>i. (new_area (if i = 0 then 0x40001000 else 0x40002000) (if i = 0 then 0x40002000 else 0x40003000)
       (if i = 0 then 0x833 else 0x33)) \<lparr>vm_next := if i = 0 then Some 1 else None, vm_prev := if i = 0 then None else Some 0\<rparr>)\<rparr>"

lemma demo_space_rep: "areas_rep demo_space [] [] (\<lambda>q. if q = 0 then [0, 1] else [])"
  by (auto simp: areas_rep_def demo_space_def demo_areas_def vp.free_slots_def mp.free_slots_def lists_ok_def dll_def area_maps
      laid_out_def area_view_def area_data_def new_area_def page_aligned_def)

definition demo_vmem :: "swap \<Rightarrow> vmem" where
  "demo_vmem w = \<lparr>vs_areas = demo_space, vs_cache = demo_cache, vs_swap = w, current_mm = Some 0,
     total_faults = 0, minor_faults = 0, major_faults = 0, cow_faults = 0, segfaults = 0\<rparr>"

lemma demo_vmem_simps [simp]:
  "vs_swap (demo_vmem w) = w" "vs_vmm (demo_vmem w) = sw_vmm w" "area_of (demo_vmem w) v = vma_pool demo_space v"
  "vs_areas (demo_vmem w) = demo_space"
  by (simp_all add: demo_vmem_def vs_vmm_def area_of_def)

lemma demo_in_space: "in_space (demo_vmem w) [] [] (\<lambda>q. if q = 0 then [0, 1] else []) 0"
  using demo_space_rep by (simp add: in_space_def demo_vmem_def)

lemma demo_area_fields:
  "vm_start (vma_pool demo_space 0) = 0x40001000" "vm_end (vma_pool demo_space 0) = 0x40002000"
  "vm_flags (vma_pool demo_space 0) = 0x833" "vm_flags (vma_pool demo_space (Suc 0)) = 0x33"
  by (simp_all add: demo_space_def demo_areas_def new_area_def)

lemma booted_few: "card (pmm_used (vm_frames booted_vmm)) + 3 \<le> TOTAL_PAGES"
  unfolding booted_frames [THEN conjunct2] by simp

lemma booted_pte: "pte_of va booted_vmm = (if dir_index va = 0 then of_nat (table_index va) * 4096 OR PAGE_PRESENT OR PAGE_WRITE else 0)"
  unfolding booted_vmm_def by (simp add: pte_of_vm_pte vmm_init_present vmm_init_pte)

theorem anon_fault_zero_page_witness:
  "\<exists>s'. handle_page_fault 0x40001234 PF_WRITE (demo_vmem demo_swap) = Some (PF_HANDLED, s')
     \<and> page_in 0x40001234 (anon_flags 0x833) (\<lambda>i. 0) booted_vmm (vs_vmm s')
     \<and> pte_of 0x40001234 (vs_vmm s') AND PAGE_WRITE \<noteq> 0"
proof -
  have "pte_of 0x40001234 booted_vmm = 0" by (simp add: booted_pte dir_index_def)
  moreover have "card (pmm_used (vm_frames booted_vmm)) + 2 \<le> TOTAL_PAGES" using booted_few by simp
  moreover have "area_has demo_space 0x40001234 0" by (simp add: area_has_def demo_area_fields)
  ultimately show ?thesis
    using anon_fault_zero_page [OF demo_in_space [of demo_swap], of 0 "0x40001234" PF_WRITE] booted_inv
    by (simp add: demo_area_fields demo_swap_state allowed_def)
qed

definition demo_cow :: vmm where
  "demo_cow = vmm_map_page 0x40001000 0x100000 0x204 booted_vmm"

lemma demo_cow_state:
  "vmm_inv demo_cow" "pte_of 0x40001000 demo_cow = 0x100205" "data_frame demo_cow 0x100"
  "card (pmm_used (vm_frames demo_cow)) + 2 \<le> TOTAL_PAGES"
proof -
  note room = disjI2 [OF booted_room, of "vm_present booted_vmm (dir_index 0x40001000)"]
  note eff = map_page_effect [OF booted_inv _ room, of "0x204" "0x100000"]
  show "vmm_inv demo_cow" using eff by (simp add: demo_cow_def)
  show "pte_of 0x40001000 demo_cow = 0x100205"
    using map_page_entry [OF booted_inv room, of "0x100000" "0x204"] by (simp add: demo_cow_def pte_of_vm_pte)
  have "data_frame booted_vmm 0x100"
    unfolding data_frame_def booted_frames [THEN conjunct2]
    by (auto simp: booted_vmm_def vmm_init_present vm_table_def vmm_init_pde)
  then show "data_frame demo_cow 0x100" unfolding demo_cow_def by (rule map_page_data [OF booted_inv room])
  have "vm_frames demo_cow = snd (pmm_alloc_page (vm_frames booted_vmm))"
    using eff by (simp add: demo_cow_def booted_vmm_def vmm_init_present dir_index_def)
  moreover obtain p fr where "pmm_alloc_page (vm_frames booted_vmm) = (of_nat p * PAGE_SIZE, fr)"
      "card (pmm_used fr) = Suc (card (pmm_used (vm_frames booted_vmm)))"
    by (rule take_frame [OF booted_inv]) (use booted_few in auto)
  ultimately show "card (pmm_used (vm_frames demo_cow)) + 2 \<le> TOTAL_PAGES" using booted_few by simp
qed

theorem cow_fault_copies_witness:
  "\<exists>s'. handle_page_fault 0x40001000 7 (demo_vmem (demo_swap\<lparr>sw_vmm := demo_cow\<rparr>)) = Some (PF_HANDLED, s')
     \<and> page_in 0x40001000 (PAGE_PRESENT OR PAGE_WRITE OR PAGE_USER) (\<lambda>i. vm_words demo_cow (entry_addr 0x100000 i)) demo_cow (vs_vmm s')
     \<and> pte_of 0x40001000 (vs_vmm s') AND PAGE_WRITE \<noteq> 0"
proof -
  have "vmm_get_physical 0x40001000 demo_cow = 0x100000"
    by (simp add: get_physical_pte_of demo_cow_state frame_bits_def)
  then show ?thesis
    using cow_fault_copies [of "demo_vmem (demo_swap\<lparr>sw_vmm := demo_cow\<rparr>)" "0x40001000" 7] demo_cow_state by simp
qed

theorem page_fault_needs_rights_witness:
  "\<exists>s'. handle_page_fault 0x40000010 PF_WRITE (demo_vmem demo_swap) = Some (PF_HANDLED, s')
     \<and> vm_start (area_of s' 0) = 0x40000000"
proof -
  let ?s = "demo_vmem demo_swap" and ?L = "\<lambda>q. if q = 0 then [0, Suc 0] else []"
  have pte: "pte_of 0x40000010 booted_vmm = 0" by (simp add: booted_pte dir_index_def)
  have no: "\<not> area_has demo_space 0x40000010 v" for v
    by (simp add: area_has_def demo_space_def demo_areas_def new_area_def)
  let ?s1 = "?s\<lparr>total_faults := total_faults ?s + 1\<rparr>"
  have "fst (handle_stack_growth 0 0 0x40000010 ?s1) = 0"
  proof -
    have few: "card (pmm_used (vm_frames booted_vmm)) + 2 \<le> TOTAL_PAGES" using booted_few by simp
    have "\<exists>v'. alloc_and_map_page va fl (?s1\<lparr>vs_areas := a\<rparr>) = (0, count_rss (set_vmm v' (?s1\<lparr>vs_areas := a\<rparr>)))" for va fl a
      using alloc_and_map_page_in [of "?s1\<lparr>vs_areas := a\<rparr>" va fl] booted_inv few by (auto simp: demo_swap_state)
    then have "fst (alloc_and_map_page va fl (?s1\<lparr>vs_areas := a\<rparr>)) = 0" for va fl a by (metis fst_conv)
    then show ?thesis by (simp add: handle_stack_growth_def demo_area_fields Let_def)
  qed
  then obtain s' where s': "handle_page_fault 0x40000010 PF_WRITE ?s = Some (PF_HANDLED, s')"
    using fault_unmapped [of "0x40000010" ?s 0 PF_WRITE] in_space_find [OF demo_in_space [of demo_swap], of "0x40000010"] pte no
    by (auto simp: demo_vmem_def [of demo_swap, THEN arg_cong [where f = current_mm]] demo_swap_state demo_area_fields
        split: prod.splits)
  have "vm_start (area_of s' 0) = 0x40000000"
    using page_fault_needs_rights [OF demo_in_space [of demo_swap] _ s'] pte no
    by (auto simp: demo_swap_state demo_area_fields)
  with s' show ?thesis by blast
qed

theorem swap_fault_stale_page_witness:
  "\<exists>w s' p. handle_page_fault 0x300000 PF_USER (demo_vmem w) = Some (PF_HANDLED, s')
     \<and> vmm_get_physical 0x300000 (vs_vmm s') = of_nat p * PAGE_SIZE
     \<and> (\<forall>a. unat a div 4096 = p \<longrightarrow> vm_words (vs_vmm s') a = vm_words (sw_vmm w) a)"
proof -
  have d: "vm_present booted_vmm 0" by (simp add: booted_vmm_def vmm_init_present)
  define v where "v = booted_vmm\<lparr>vm_words := (vm_words booted_vmm)
      (entry_addr (frame_bits (vm_pde booted_vmm 0)) 0x300 := swap_pte (slot_code 0 7))\<rparr>"
  note w = write_pte [OF booted_inv d, where t = "0x300" and v = "swap_pte (slot_code 0 7)", folded v_def]
  have v: "vmm_inv v" "pte_of 0x300000 v = swap_pte (slot_code 0 7)" "card (pmm_used (vm_frames v)) + 3 \<le> TOTAL_PAGES"
    using w d booted_few by (simp_all add: pte_of_vm_pte dir_index_def table_index_def v_def)
  have free: "(0, 7) \<notin> slots_used demo_swap" by (simp add: demo_swap_state)
  note inv = demo_swap_state(1)
  have "swap_inv (take_slot 0 7 demo_swap)" "(0, 7) \<in> slots_used (take_slot 0 7 demo_swap)"
    using take_slot_spec [OF inv swap_invD(4) [OF inv], of 7] swap_invD(4,6) [OF inv] free by (auto simp: slots_used_def)
  then show ?thesis
    using swap_fault_stale_page [of "demo_vmem ((take_slot 0 7 demo_swap)\<lparr>sw_vmm := v\<rparr>)" 7 "0x300000" PF_USER] v
    by (intro exI [of _ "(take_slot 0 7 demo_swap)\<lparr>sw_vmm := v\<rparr>"]) auto
qed

end
