(* ===== verification/MmapProps.thy ===== *)
theory MmapProps
  imports Mmap DemandProps
begin

unbundle bit_operations_syntax

text \<open>
  Address spaces as a whole. The page loops end on the ranges that areas have; \<open>mmap\<close> and \<open>munmap\<close> are described
  by what they do to the area lists, which stay sorted and disjoint, and to the translation of addresses. \<open>brk\<close> and
  fixed mappings can break this: the last theorems say when.
\<close>

subsection \<open>Loops over pages\<close>

lemma page_aligned_iff: "page_aligned a \<longleftrightarrow> unat a mod 4096 = 0"
proof -
  have "a AND 0xFFF = take_bit 12 a" by (simp add: low_mask12 take_bit_eq_mask)
  then show ?thesis by (simp add: page_aligned_def word_unat_eq_iff take_bit_eq_mod unat_mod)
qed

lemma next_page:
  assumes "page_aligned a" and "page_aligned e" and "a < e"
  shows "unat (a + PAGE_SIZE) = unat a + 4096" and "page_aligned (a + PAGE_SIZE)" and "a + PAGE_SIZE \<le> e"
proof -
  have less: "unat a < unat e" using assms(3) by (simp add: word_less_nat_alt)
  have le: "unat a + 4096 \<le> unat e"
    using assms(1,2) less unfolding page_aligned_iff by (auto simp: mod_eq_0_iff_dvd elim!: dvdE)
  then show u: "unat (a + PAGE_SIZE) = unat a + 4096"
    using unat_below [of e] by (subst unat_plus_small) simp_all
  then show "page_aligned (a + PAGE_SIZE)" "a + PAGE_SIZE \<le> e"
    using assms(1) le by (simp_all add: page_aligned_iff word_le_nat_alt)
qed

lemma page_loop_rule:
  assumes "page_aligned a" and "page_aligned e" and "a \<le> e" and "I a s"
    and step: "\<And>x s. a \<le> x \<Longrightarrow> x < e \<Longrightarrow> page_aligned x \<Longrightarrow> I x s \<Longrightarrow> \<exists>s'. f x s = Some s' \<and> I (x + PAGE_SIZE) s'"
  shows "\<exists>s'. page_loop f a e s = Some s' \<and> I e s'"
  using assms
proof (induction "unat e - unat a" arbitrary: a s rule: less_induct)
  case less
  show ?case
  proof (cases "a < e")
    case False
    then have "a = e" using less.prems(3) by simp
    then show ?thesis using less.prems(4) by (subst page_loop.simps) simp
  next
    case True
    note nx = next_page [OF less.prems(1,2) True]
    obtain s1 where s1: "f a s = Some s1" "I (a + PAGE_SIZE) s1"
      using less.prems(5) [OF order_refl True less.prems(1,4)] by blast
    have smaller: "unat e - unat (a + PAGE_SIZE) < unat e - unat a"
      using True nx(1) by (simp add: word_less_nat_alt)
    have up: "a \<le> a + PAGE_SIZE" using nx(1) by (simp add: word_le_nat_alt)
    have "\<exists>s'. page_loop f (a + PAGE_SIZE) e s1 = Some s' \<and> I e s'"
      by (rule less.hyps [OF smaller nx(2) less.prems(2) nx(3) s1(2)])
        (rule less.prems(5), use up in \<open>auto intro: order_trans\<close>)
    then show ?thesis using True s1(1) by (subst page_loop.simps) simp
  qed
qed

lemma page_loop_inv:
  assumes "page_loop f a e s = Some s'" and "I s" and "\<And>x s t. I s \<Longrightarrow> f x s = Some t \<Longrightarrow> I t"
  shows "I s'"
proof (rule page_loop.raw_induct [where P = "\<lambda>g a e s r. g = f \<longrightarrow> I s \<longrightarrow> I r", rule_format, OF _ assms(1) refl assms(2)])
  fix loop and g :: "u32 \<Rightarrow> 'a \<Rightarrow> 'a option" and x e :: u32 and t r
  assume ih: "\<And>g' x' e' t' r'. loop g' x' e' t' = Some r' \<Longrightarrow> g' = f \<Longrightarrow> I t' \<Longrightarrow> I r'"
    and body: "(if x < e then g x t \<bind> loop g (x + PAGE_SIZE) e else Some t) = Some r" and "g = f" "I t"
  show "I r"
  proof (cases "x < e")
    case True
    then obtain t1 where "f x t = Some t1" "loop f (x + PAGE_SIZE) e t1 = Some r"
      using body \<open>g = f\<close> by (auto simp: bind_eq_Some_conv)
    then show ?thesis using ih assms(3) \<open>I t\<close> by blast
  qed (use body \<open>I t\<close> in simp)
qed

subsection \<open>Small changes to the pools\<close>

lemma set_areas_simps [simp]:
  "vs_areas (set_areas a s) = a" "vs_vmm (set_areas a s) = vs_vmm s" "current_mm (set_areas a s) = current_mm s"
  "set_areas a (set_areas b s) = set_areas a s" "area_of (set_areas a s) v = vma_pool a v" "vs_cache (set_areas a s) = vs_cache s"
  by (simp_all add: set_areas_def vs_vmm_def area_of_def)

lemma set_vmm_areas: "set_vmm v (set_areas a s) = set_areas a (set_vmm v s)"
  by (simp add: set_vmm_def set_areas_def)

lemma areas_rep_mm:
  assumes "areas_rep s F M L" and "\<And>k. mm_vmas (g k) = mm_vmas k \<and> mm_vma_count (g k) = mm_vma_count k"
  shows "areas_rep (upd_mm g m s) F M L"
proof (rule areas_rep_frame [OF assms(1)])
  show "mm_link (upd_mm g m s) = mm_link s" using assms(2) by (auto simp: mm_link_def fun_eq_iff)
  show "laid_out (area_view (upd_mm g m s) (L q))" if "q < 64" for q
    using areas_repD(7) [OF assms(1) that] by (simp add: area_view_def)
qed (use assms(2) in \<open>auto simp: area_maps fun_eq_iff\<close>)

lemma laid_out_cong:
  assumes "\<And>w. w \<in> set vs \<Longrightarrow> vm_start (p w) = vm_start (q w) \<and> vm_end (p w) = vm_end (q w)"
  shows "laid_out (map (\<lambda>w. area_data (p w)) vs) = laid_out (map (\<lambda>w. area_data (q w)) vs)"
proof -
  have "sorted_wrt (\<lambda>a b. vm_end (p a) \<le> vm_start (p b)) vs = sorted_wrt (\<lambda>a b. vm_end (q a) \<le> vm_start (q b)) vs"
    using assms by (induction vs) auto
  then show ?thesis using assms by (auto simp: laid_out_def sorted_wrt_map)
qed

lemma areas_rep_vma:
  assumes "areas_rep s F M L"
    and "\<And>a. vm_next (g a) = vm_next a \<and> vm_prev (g a) = vm_prev a \<and> vm_start (g a) = vm_start a \<and> vm_end (g a) = vm_end a
           \<and> vm_ref_count (g a) = vm_ref_count a"
  shows "areas_rep (upd_vma g v s) F M L"
proof (rule areas_rep_frame [OF assms(1)])
  show "laid_out (area_view (upd_vma g v s) (L q))" if "q < 64" for q
    using areas_repD(7) [OF assms(1) that] laid_out_cong [of "L q" "vma_pool (upd_vma g v s)" "vma_pool s"] assms(2)
    by (simp add: area_view_def)
qed (use assms(2) in \<open>auto simp: area_maps fun_eq_iff\<close>)

lemma in_space_mm:
  assumes "in_space s F M L m" and "areas_rep a F' M L'"
  shows "in_space (set_areas a s) F' M L' m"
  using assms by (simp add: in_space_def)

subsection \<open>Mapping\<close>

definition described :: "vma \<Rightarrow> u32 \<Rightarrow> u32 \<Rightarrow> u32 \<Rightarrow> int \<Rightarrow> u32 \<Rightarrow> bool" where
  "described a start end_addr fl fd offset \<longleftrightarrow> vm_start a = start \<and> vm_end a = end_addr \<and> vm_flags a = fl
     \<and> vm_fd a = fd \<and> vm_file_offset a = offset"

lemma described_data:
  assumes "area_data a = area_data b"
  shows "described a st en fl fd off = described b st en fl fd off"
  unfolding described_def using assms by (metis area_data_simps(1-3,5,7))

lemma map_new_area:
  fixes fl off :: u32 and fd :: int
  assumes rep: "areas_rep a F M L" and m: "m < 64" "m \<notin> set M" and g: "good_range st en" and F: "F = v # F'"
  defines "b \<equiv> upd_vma (\<lambda>x. x\<lparr>vm_fd := fd, vm_file_offset := off\<rparr>) v (snd (vma_create st en fl a))"
  shows "vma_create st en fl a = (Some v, snd (vma_create st en fl a))"
    and "\<exists>w \<in> set (L m). st < vm_end (vma_pool a w) \<and> vm_start (vma_pool a w) < en \<Longrightarrow>
      vma_insert (Some m) (Some v) b = Some (- 1, b) \<and> areas_rep (vma_destroy (Some v) b) F M L
      \<and> (\<forall>w. w \<noteq> v \<longrightarrow> vma_pool (vma_destroy (Some v) b) w = vma_pool a w)"
    and "\<not> (\<exists>w \<in> set (L m). st < vm_end (vma_pool a w) \<and> vm_start (vma_pool a w) < en) \<Longrightarrow>
      \<exists>t vs. vma_insert (Some m) (Some v) b = Some (0, t) \<and> areas_rep t F' M (L(m := vs)) \<and> set vs = insert v (set (L m))
        \<and> v \<notin> set (L m) \<and> described (vma_pool t v) st en fl fd off
        \<and> (\<forall>w. w \<noteq> v \<longrightarrow> area_data (vma_pool t w) = area_data (vma_pool a w)) \<and> same_mm m a t"
proof -
  obtain c where c: "vma_create st en fl a = (Some v, c)" "areas_rep c F' M L" "detached v F' L"
      "vma_pool c = (vma_pool a)(v := new_area st en fl)" "mm_pool c = mm_pool a"
    using vma_create_rep(3) [OF rep g F, where fl = fl] by blast
  then show "vma_create st en fl a = (Some v, snd (vma_create st en fl a))" by simp
  have b: "b = upd_vma (\<lambda>x. x\<lparr>vm_fd := fd, vm_file_offset := off\<rparr>) v c" using c(1) by (simp add: b_def)
  have rb: "areas_rep b F' M L" unfolding b by (rule detached_upd [OF c(2,3)])
  have vb: "vma_pool b v = (new_area st en fl)\<lparr>vm_fd := fd, vm_file_offset := off\<rparr>" "\<And>w. w \<noteq> v \<Longrightarrow> vma_pool b w = vma_pool a w"
    "mm_pool b = mm_pool a" using c(4,5) by (simp_all add: b)
  have out: "w \<in> set (L m) \<Longrightarrow> w \<noteq> v" for w using c(3) m by (auto simp: detached_def)
  have ov: "(\<exists>w \<in> set (L m). overlaps (vma_pool b v) (vma_pool b w)) \<longleftrightarrow>
      (\<exists>w \<in> set (L m). st < vm_end (vma_pool a w) \<and> vm_start (vma_pool a w) < en)"
    using out vb by (auto simp: overlaps_def new_area_def)
  have r1: "vm_ref_count (vma_pool b v) = 1" and gb: "good_range (vm_start (vma_pool b v)) (vm_end (vma_pool b v))"
    using vb(1) g by (simp_all add: new_area_def)
  note ins = vma_insert_rep [OF rb m c(3) r1 gb]
  show "\<exists>w \<in> set (L m). st < vm_end (vma_pool a w) \<and> vm_start (vma_pool a w) < en \<Longrightarrow>
      vma_insert (Some m) (Some v) b = Some (- 1, b) \<and> areas_rep (vma_destroy (Some v) b) F M L
      \<and> (\<forall>w. w \<noteq> v \<longrightarrow> vma_pool (vma_destroy (Some v) b) w = vma_pool a w)"
    using ins(1) ov vma_destroy_rep [OF rb c(3) r1] F vb by simp
  assume "\<not> (\<exists>w \<in> set (L m). st < vm_end (vma_pool a w) \<and> vm_start (vma_pool a w) < en)"
  then obtain t where t: "vma_insert (Some m) (Some v) b = Some (0, t)" "areas_rep t F' M (L(m := placed b v (L m)))"
      "same_areas b t" "same_mm m b t" using ins(2) ov by blast
  have data: "area_data (vma_pool t w) = area_data (vma_pool b w)" for w using t(3) by (simp add: same_areas_def)
  then have "described (vma_pool t v) st en fl fd off"
    using described_data [OF data [of v]] vb(1) by (simp add: described_def new_area_def)
  moreover have "same_mm m a t" using t(4) vb(3) by (simp add: same_mm_def)
  moreover have "v \<notin> set (L m)" using out by blast
  ultimately show "\<exists>t vs. vma_insert (Some m) (Some v) b = Some (0, t) \<and> areas_rep t F' M (L(m := vs)) \<and> set vs = insert v (set (L m))
        \<and> v \<notin> set (L m) \<and> described (vma_pool t v) st en fl fd off
        \<and> (\<forall>w. w \<noteq> v \<longrightarrow> area_data (vma_pool t w) = area_data (vma_pool a w)) \<and> same_mm m a t"
    using t(1,2) data vb(2) by (intro exI [of _ t] exI [of _ "placed b v (L m)"]) simp
qed

definition crowded :: "vmem \<Rightarrow> nat list \<Rightarrow> u32 \<Rightarrow> u32 \<Rightarrow> bool" where
  "crowded s vs st en \<longleftrightarrow> (\<exists>w \<in> set vs. st < vm_end (area_of s w) \<and> vm_start (area_of s w) < en)"

lemma set_areas_self [simp]: "set_areas (vs_areas s) s = s"
  by (simp add: set_areas_def)

lemma mmap_at:
  fixes st en fl off :: u32 and fd :: int
  assumes sp: "in_space s F M L m"
  defines "attempt \<equiv> (case vma_create st en fl (vs_areas s) of
      (None, a) \<Rightarrow> Some (MAP_FAILED, set_areas a s)
    | (Some v, a) \<Rightarrow> do {
        (r, b) \<leftarrow> vma_insert (Some m) (Some v) (upd_vma (\<lambda>x. x\<lparr>vm_fd := fd, vm_file_offset := off\<rparr>) v a);
        if r < 0 then Some (MAP_FAILED, set_areas (vma_destroy (Some v) b) s) else Some (st, set_areas b s) })"
  shows "\<not> good_range st en \<or> F = [] \<Longrightarrow> attempt = Some (MAP_FAILED, s)"
    and "good_range st en \<Longrightarrow> F \<noteq> [] \<Longrightarrow> crowded s (L m) st en \<Longrightarrow>
      \<exists>s'. attempt = Some (MAP_FAILED, s') \<and> in_space s' F M L m \<and> vs_vmm s' = vs_vmm s
        \<and> (\<forall>w \<in> set (L m). area_of s' w = area_of s w)"
    and "good_range st en \<Longrightarrow> F \<noteq> [] \<Longrightarrow> \<not> crowded s (L m) st en \<Longrightarrow>
      \<exists>s' v vs. attempt = Some (st, s') \<and> st \<noteq> MAP_FAILED \<and> in_space s' (tl F) M (L(m := vs)) m \<and> vs_vmm s' = vs_vmm s
        \<and> set vs = insert v (set (L m)) \<and> v \<notin> set (L m) \<and> described (area_of s' v) st en fl fd off
        \<and> (\<forall>w \<in> set (L m). area_data (area_of s' w) = area_data (area_of s w))"
proof -
  have rep: "areas_rep (vs_areas s) F M L" and m: "m < 64" "m \<notin> set M" using sp by (auto simp: in_space_def)
  show "attempt = Some (MAP_FAILED, s)" if "\<not> good_range st en \<or> F = []"
    using that vma_create_rep(1,2) [OF rep] by (auto simp: attempt_def)
  assume g: "good_range st en" and "F \<noteq> []"
  then obtain v F' where F: "F = v # F'" by (cases F) auto
  note new = map_new_area(1) [OF rep m g F, where fl = fl] map_new_area(2,3) [OF rep m g F, where fl = fl and fd = fd and off = off]
  have vl: "w \<noteq> v" if "w \<in> set (L m)" for w using areas_repD(6) [OF rep m(1)] F that by auto
  have cr: "crowded s (L m) st en \<longleftrightarrow> (\<exists>w \<in> set (L m). st < vm_end (vma_pool (vs_areas s) w) \<and> vm_start (vma_pool (vs_areas s) w) < en)"
    by (simp add: crowded_def area_of_def)
  define b where "b = upd_vma (\<lambda>x. x\<lparr>vm_fd := fd, vm_file_offset := off\<rparr>) v (snd (vma_create st en fl (vs_areas s)))"
  have attempt: "attempt = do { (r, b) \<leftarrow> vma_insert (Some m) (Some v) b;
        if r < 0 then Some (MAP_FAILED, set_areas (vma_destroy (Some v) b) s) else Some (st, set_areas b s) }"
    unfolding attempt_def b_def by (subst new(1)) simp
  show "\<exists>s'. attempt = Some (MAP_FAILED, s') \<and> in_space s' F M L m \<and> vs_vmm s' = vs_vmm s
      \<and> (\<forall>w \<in> set (L m). area_of s' w = area_of s w)" if "crowded s (L m) st en"
    using new(2) [folded b_def] that cr vl in_space_mm [OF sp] by (auto simp: attempt area_of_def [of s])
  assume "\<not> crowded s (L m) st en"
  then obtain t vs where t: "vma_insert (Some m) (Some v) b = Some (0, t)" "areas_rep t F' M (L(m := vs))" "set vs = insert v (set (L m))"
      "v \<notin> set (L m)" "described (vma_pool t v) st en fl fd off"
      "\<forall>w. w \<noteq> v \<longrightarrow> area_data (vma_pool t w) = area_data (vma_pool (vs_areas s) w)"
    using new(3) [folded b_def] cr by blast
  have "st \<noteq> MAP_FAILED" using g by (auto simp: good_range_def page_aligned_def)
  with t show "\<exists>s' v vs. attempt = Some (st, s') \<and> st \<noteq> MAP_FAILED \<and> in_space s' (tl F) M (L(m := vs)) m \<and> vs_vmm s' = vs_vmm s
        \<and> set vs = insert v (set (L m)) \<and> v \<notin> set (L m) \<and> described (area_of s' v) st en fl fd off
        \<and> (\<forall>w \<in> set (L m). area_data (area_of s' w) = area_data (area_of s w))"
    using in_space_mm [OF sp t(2)] vl F by (intro exI [of _ "set_areas t s"] exI [of _ v] exI [of _ vs]) (simp add: attempt area_of_def [of s])
qed


subsection \<open>Unmapping\<close>

text \<open>A frame that a user page may use: above the kernel's first 2 MiB and not a page table.\<close>

definition user_frame :: "vmm \<Rightarrow> nat \<Rightarrow> bool" where
  "user_frame v f \<longleftrightarrow> 512 \<le> f \<and> f < TOTAL_PAGES \<and> (\<forall>i. vm_present v i \<longrightarrow> vm_table v i \<noteq> f)"

definition user_mapped :: "vmm \<Rightarrow> u32 \<Rightarrow> u32 \<Rightarrow> bool" where
  "user_mapped v a e \<longleftrightarrow> (\<forall>vb. a \<le> vb \<and> vb < e \<and> vmm_get_physical vb v \<noteq> 0 \<longrightarrow> user_frame v (unat (vmm_get_physical vb v) div 4096))"

definition frames_of :: "vmm \<Rightarrow> u32 \<Rightarrow> u32 \<Rightarrow> nat set" where
  "frames_of v a e = {unat (vmm_get_physical vb v) div 4096 | vb. a \<le> vb \<and> vb < e \<and> vmm_get_physical vb v \<noteq> 0}"

lemma unmap_tables:
  assumes "vmm_inv v"
  shows "vm_present (vmm_unmap_page va v) i = vm_present v i"
    and "vm_present v i \<Longrightarrow> vm_table (vmm_unmap_page va v) i = vm_table v i"
proof -
  have "vm_present (vmm_unmap_page va v) i = vm_present v i \<and> (vm_present v i \<longrightarrow> vm_table (vmm_unmap_page va v) i = vm_table v i)"
  proof (cases "vm_present v (dir_index va)")
    case True
    note w = write_pte(1,3) [OF assms True index_bounds(2) [of va], where v = 0]
    have "vmm_unmap_page va v =
        v\<lparr>vm_words := (vm_words v)(entry_addr (frame_bits (vm_pde v (dir_index va))) (table_index va) := 0)\<rparr>"
      using True by (simp add: vmm_unmap_page_def vm_present_def vm_pde_def Let_def)
    then show ?thesis using w by (auto simp: vm_table_def vm_present_def)
  next
    case False
    then have "vmm_unmap_page va v = v" by (simp add: vmm_unmap_page_def vm_present_def vm_pde_def Let_def)
    then show ?thesis by simp
  qed
  then show "vm_present (vmm_unmap_page va v) i = vm_present v i"
    "vm_present v i \<Longrightarrow> vm_table (vmm_unmap_page va v) i = vm_table v i" by auto
qed

lemma get_physical_same_page: "unat vb div 4096 = unat va div 4096 \<Longrightarrow> vmm_get_physical vb v = vmm_get_physical va v"
  using same_page_iff [of vb va] by (simp add: vmm_get_physical_pte)

lemma release_mapping_effect:
  assumes inv: "vmm_inv (vs_vmm s)" and user: "vmm_get_physical a (vs_vmm s) \<noteq> 0 \<Longrightarrow> user_frame (vs_vmm s) (unat (vmm_get_physical a (vs_vmm s)) div 4096)"
  shows "\<exists>v'. release_mapping a s = Some (set_vmm v' s) \<and> vmm_inv v' \<and> user_frame v' = user_frame (vs_vmm s)
    \<and> (\<forall>vb. vmm_get_physical vb v' = (if unat vb div 4096 = unat a div 4096 then 0 else vmm_get_physical vb (vs_vmm s)))
    \<and> pmm_used (vm_frames v') = pmm_used (vm_frames (vs_vmm s))
        - (if vmm_get_physical a (vs_vmm s) = 0 then {} else {unat (vmm_get_physical a (vs_vmm s)) div 4096})"
proof (cases "vmm_get_physical a (vs_vmm s) = 0")
  case True
  have "vmm_get_physical vb (vs_vmm s) = 0" if "unat vb div 4096 = unat a div 4096" for vb
    using True get_physical_same_page [OF that] by simp
  moreover have "set_vmm (vs_vmm s) s = s" by (simp add: set_vmm_def vs_vmm_def)
  ultimately show ?thesis
    using True inv by (intro exI [of _ "vs_vmm s"]) (simp add: release_mapping_def vmm_virt_to_phys_def)
next
  case False
  let ?v = "vs_vmm s" and ?f = "unat (vmm_get_physical a (vs_vmm s)) div 4096"
  let ?u = "vmm_unmap_page a ?v"
  note f = user [OF False]
  note un = unmap_page_effect [OF inv, of a]
  have fr: "pmm_inv (vm_frames ?v)" using inv by (simp add: vmm_inv_def)
  have "unat (vmm_get_physical a ?v) < 134217728" using f by (auto simp: user_frame_def)
  then obtain g where g: "pmm_free_page (vmm_get_physical a ?v) (vm_frames ?v) = Some g" "pmm_inv g"
      "pmm_used g = pmm_used (vm_frames ?v) - {?f}"
    using pmm_free_page_spec [OF fr, of "vmm_get_physical a ?v"] by auto
  let ?w = "?u\<lparr>vm_frames := g\<rparr>"
  have tab: "vm_present ?w i = vm_present ?v i" "vm_present ?v i \<Longrightarrow> vm_table ?w i = vm_table ?v i" for i
    using unmap_tables [OF inv] by (simp_all add: vm_present_def vm_table_def vm_pde_def)
  have "vmm_inv ?w"
    using inv f g(2,3) tab unfolding vmm_inv_def user_frame_def by (auto simp: inj_on_def)
  moreover have "user_frame ?w = user_frame ?v" using tab by (auto simp: user_frame_def fun_eq_iff)
  moreover have "release_mapping a s = Some (set_vmm ?w s)"
    using False g(1) un by (simp add: release_mapping_def vmm_virt_to_phys_def free_frame_def)
  ultimately show ?thesis using un g(3) False by (intro exI [of _ ?w]) simp
qed

lemma page_range:
  assumes "page_aligned x" and "page_aligned e" and "x < e"
  shows "unat vb div 4096 = unat x div 4096 \<longleftrightarrow> x \<le> vb \<and> vb < x + PAGE_SIZE"
proof -
  have u: "unat (x + PAGE_SIZE) = unat x + 4096" using next_page [OF assms] by simp
  have "unat x = unat x div 4096 * 4096" using assms(1) by (simp add: page_aligned_iff mod_0_imp_dvd)
  then have "unat vb div 4096 = unat x div 4096 \<longleftrightarrow> unat x \<le> unat vb \<and> unat vb < unat x + 4096" by auto
  then show ?thesis using u by (simp add: word_le_nat_alt word_less_nat_alt)
qed

text \<open>The page tables after the pages from \<open>a\<close> up to \<open>x\<close> have been unmapped and their frames given back.\<close>

definition released :: "vmm \<Rightarrow> u32 \<Rightarrow> u32 \<Rightarrow> vmm \<Rightarrow> bool" where
  "released v a x v' \<longleftrightarrow> vmm_inv v' \<and> user_frame v' = user_frame v
     \<and> (\<forall>vb. vmm_get_physical vb v' = (if a \<le> vb \<and> vb < x then 0 else vmm_get_physical vb v))
     \<and> pmm_used (vm_frames v') = pmm_used (vm_frames v) - frames_of v a x"

definition unmapped :: "nat \<Rightarrow> vmem \<Rightarrow> u32 \<Rightarrow> u32 \<Rightarrow> vmem \<Rightarrow> bool" where
  "unmapped m s a x t \<longleftrightarrow> (\<exists>n v'. t = set_areas (upd_mm (mm_rss_update (\<lambda>_. n)) m (vs_areas s)) (set_vmm v' s)
     \<and> released (vs_vmm s) a x v')"

lemma released_refl: "vmm_inv v \<Longrightarrow> released v a a v"
  by (auto simp: released_def frames_of_def)

lemma frames_of_next:
  assumes "page_aligned x" and "page_aligned e" and "x < e" and "a \<le> x"
  shows "frames_of v a (x + PAGE_SIZE) =
    frames_of v a x \<union> (if vmm_get_physical x v = 0 then {} else {unat (vmm_get_physical x v) div 4096})"
proof -
  note nx = next_page [OF assms(1-3)]
  have split: "a \<le> vb \<and> vb < x + PAGE_SIZE \<longleftrightarrow> a \<le> vb \<and> vb < x \<or> unat vb div 4096 = unat x div 4096" for vb
    using page_range [OF assms(1-3), of vb] assms(4) nx(1) by (auto simp: word_le_nat_alt word_less_nat_alt)
  have same: "vmm_get_physical vb v = vmm_get_physical x v" if "unat vb div 4096 = unat x div 4096" for vb
    using get_physical_same_page [OF that] .
  let ?x = "{unat (vmm_get_physical vb v) div 4096 | vb. unat vb div 4096 = unat x div 4096 \<and> vmm_get_physical vb v \<noteq> 0}"
  have "frames_of v a (x + PAGE_SIZE) =
      {unat (vmm_get_physical vb v) div 4096 | vb. (a \<le> vb \<and> vb < x + PAGE_SIZE) \<and> vmm_get_physical vb v \<noteq> 0}"
    by (auto simp: frames_of_def)
  also have "\<dots> = frames_of v a x \<union> ?x" unfolding split frames_of_def by blast
  also have "?x = (if vmm_get_physical x v = 0 then {} else {unat (vmm_get_physical x v) div 4096})"
  proof (cases "vmm_get_physical x v = 0")
    case True
    then show ?thesis by (simp, metis same)
  next
    case False
    have "f \<in> ?x \<longleftrightarrow> f = unat (vmm_get_physical x v) div 4096" for f
    proof
      assume "f \<in> ?x"
      then obtain vb where "unat vb div 4096 = unat x div 4096" "f = unat (vmm_get_physical vb v) div 4096" by blast
      then show "f = unat (vmm_get_physical x v) div 4096" using same [of vb] by argo
    qed (use False in blast)
    then have "?x = {unat (vmm_get_physical x v) div 4096}" by blast
    with False show ?thesis by argo
  qed
  finally show ?thesis .
qed

lemma release_step:
  assumes rel: "released v a x (vs_vmm t)" and x: "a \<le> x" "x < e" "page_aligned x" "page_aligned e" and user: "user_mapped v a e"
  shows "\<exists>v'. release_mapping x t = Some (set_vmm v' t) \<and> released v a (x + PAGE_SIZE) v'"
proof -
  note r = rel [unfolded released_def]
  have px: "vmm_get_physical x (vs_vmm t) = vmm_get_physical x v" using r by simp
  have "vmm_get_physical x (vs_vmm t) \<noteq> 0 \<Longrightarrow> user_frame (vs_vmm t) (unat (vmm_get_physical x (vs_vmm t)) div 4096)"
    using user x r px by (simp add: user_mapped_def)
  from release_mapping_effect [OF _ this] obtain v' where v': "release_mapping x t = Some (set_vmm v' t)" "vmm_inv v'"
      "user_frame v' = user_frame (vs_vmm t)"
      "\<And>vb. vmm_get_physical vb v' = (if unat vb div 4096 = unat x div 4096 then 0 else vmm_get_physical vb (vs_vmm t))"
      "pmm_used (vm_frames v') = pmm_used (vm_frames (vs_vmm t))
         - (if vmm_get_physical x v = 0 then {} else {unat (vmm_get_physical x v) div 4096})"
    using r px by auto
  have "pmm_used (vm_frames v') = pmm_used (vm_frames v) - frames_of v a (x + PAGE_SIZE)"
    using v'(5) r unfolding frames_of_next [OF x(3,4,2,1)] by auto
  moreover have "(a \<le> vb \<and> vb < x + PAGE_SIZE) \<longleftrightarrow> (a \<le> vb \<and> vb < x) \<or> unat vb div 4096 = unat x div 4096" for vb
    using page_range [OF x(3,4,2), of vb] x(1) next_page(1) [OF x(3,4,2)]
    by (auto simp: word_le_nat_alt word_less_nat_alt)
  then have "vmm_get_physical vb v' = (if a \<le> vb \<and> vb < x + PAGE_SIZE then 0 else vmm_get_physical vb v)" for vb
    using v'(4) r by simp
  ultimately show ?thesis using v'(1-3) r unfolding released_def by (intro exI [of _ v']) simp
qed

lemma munmap_pages:
  assumes inv: "vmm_inv (vs_vmm s)" and ae: "page_aligned a" "page_aligned e" "a \<le> e" and user: "user_mapped (vs_vmm s) a e"
  shows "\<exists>t. page_loop (munmap_page m) a e s = Some t \<and> unmapped m s a e t"
proof (rule page_loop_rule [OF ae])
  have "s = set_areas (upd_mm (mm_rss_update (\<lambda>_. mm_rss (the_mm s m))) m (vs_areas s)) (set_vmm (vs_vmm s) s)"
    by (simp add: set_areas_def set_vmm_def vs_vmm_def upd_mm_def the_mm_def)
  then show "unmapped m s a a s" unfolding unmapped_def using released_refl [OF inv] by blast
  fix x t
  assume x: "a \<le> x" "x < e" "page_aligned x" and "unmapped m s a x t"
  then obtain n v1 where t: "t = set_areas (upd_mm (mm_rss_update (\<lambda>_. n)) m (vs_areas s)) (set_vmm v1 s)"
    and v1: "released (vs_vmm s) a x (vs_vmm t)" unfolding unmapped_def by auto
  from release_step [OF v1 x ae(2) user] obtain v2
    where v2: "release_mapping x t = Some (set_vmm v2 t)" "released (vs_vmm s) a (x + PAGE_SIZE) v2" by blast
  let ?r = "\<lambda>k. set_areas (upd_mm (mm_rss_update (\<lambda>_. k)) m (vs_areas s)) (set_vmm v2 s)"
  have "munmap_page m x t = Some (?r (if vmm_get_physical x v1 = 0 then n else n - 1))"
    using v2(1) t by (simp add: munmap_page_def vmm_virt_to_phys_def set_vmm_areas upd_mm_def)
  then show "\<exists>t'. munmap_page m x t = Some t' \<and> unmapped m s a (x + PAGE_SIZE) t'"
    unfolding unmapped_def using v2(2) by blast
qed

definition inside :: "u32 \<Rightarrow> u32 \<Rightarrow> vma \<Rightarrow> bool" where
  "inside st en a \<longleftrightarrow> st \<le> vm_start a \<and> vm_end a \<le> en"

lemma area_range:
  assumes "areas_rep (vs_areas s) F M L" and "m < 64" and "v \<in> set (L m)"
  shows "good_range (vm_start (area_of s v)) (vm_end (area_of s v))"
  using laid_out_mem [OF areas_repD(7) [OF assms(1,2)], of "area_data (area_of s v)"] assms(3)
  by (auto simp: area_view_def area_of_def)

lemma munmap_area_rep:
  assumes rep: "areas_rep (vs_areas s) F M L" and m: "m < 64" "m \<notin> set M" and v: "v \<in> set (L m)" and inv: "vmm_inv (vs_vmm s)"
  defines "a \<equiv> area_of s v"
  shows "\<not> inside st en a \<Longrightarrow> munmap_area m st en v s = Some s"
    and "inside st en a \<Longrightarrow> user_mapped (vs_vmm s) (vm_start a) (vm_end a) \<Longrightarrow>
      \<exists>t. munmap_area m st en v s = Some t \<and> areas_rep (vs_areas t) (v # F) M (L(m := remove1 v (L m)))
        \<and> (\<forall>w. w \<noteq> v \<longrightarrow> area_data (area_of t w) = area_data (area_of s w)) \<and> current_mm t = current_mm s
        \<and> vmm_inv (vs_vmm t) \<and> user_frame (vs_vmm t) = user_frame (vs_vmm s)
        \<and> (\<forall>vb. vmm_get_physical vb (vs_vmm t) =
             (if vm_start a \<le> vb \<and> vb < vm_end a then 0 else vmm_get_physical vb (vs_vmm s)))
        \<and> pmm_used (vm_frames (vs_vmm t)) = pmm_used (vm_frames (vs_vmm s)) - frames_of (vs_vmm s) (vm_start a) (vm_end a)"
proof -
  have g: "vm_start a < vm_end a" "page_aligned (vm_start a)" "page_aligned (vm_end a)"
    using area_range [OF rep m(1) v] by (auto simp: good_range_def a_def)
  show "\<not> inside st en a \<Longrightarrow> munmap_area m st en v s = Some s"
    by (auto simp: munmap_area_def inside_def a_def Let_def)
  assume ins: "inside st en a" and user: "user_mapped (vs_vmm s) (vm_start a) (vm_end a)"
  obtain n v' where loop: "page_loop (munmap_page m) (vm_start a) (vm_end a) s =
        Some (set_areas (upd_mm (mm_rss_update (\<lambda>_. n)) m (vs_areas s)) (set_vmm v' s))"
    and v': "vmm_inv v'" "user_frame v' = user_frame (vs_vmm s)"
      "\<forall>vb. vmm_get_physical vb v' = (if vm_start a \<le> vb \<and> vb < vm_end a then 0 else vmm_get_physical vb (vs_vmm s))"
      "pmm_used (vm_frames v') = pmm_used (vm_frames (vs_vmm s)) - frames_of (vs_vmm s) (vm_start a) (vm_end a)"
    using munmap_pages [OF inv g(2,3) less_imp_le [OF g(1)] user, of m] unfolding unmapped_def released_def by blast
  let ?b = "upd_mm (mm_rss_update (\<lambda>_. n)) m (vs_areas s)"
  have rb: "areas_rep ?b F M L" by (rule areas_rep_mm [OF rep]) simp
  note rm = vma_remove_rep [OF rb m v]
  let ?c = "snd (vma_remove (Some m) (Some v) ?b)"
  have data: "area_data (vma_pool ?c w) = area_data (area_of s w)" for w
    using rm(4) by (simp add: same_areas_def area_of_def)
  then have r1: "vm_ref_count (vma_pool ?c v) = 1"
    using areas_repD(8) [OF rep m(1) v] area_data_fields(4) [of "vma_pool ?c v" "area_of s v"] by (simp add: area_of_def)
  note ds = vma_destroy_rep [OF rm(2,3) r1]
  have "\<not> (vm_end a \<le> st \<or> vm_start a \<ge> en)" using ins g(1) by (auto simp: inside_def)
  then have "munmap_area m st en v s = Some (set_areas (vma_destroy (Some v) ?c) (set_vmm v' s))"
    using ins loop by (auto simp: munmap_area_def inside_def a_def [symmetric] Let_def)
  then show "\<exists>t. munmap_area m st en v s = Some t \<and> areas_rep (vs_areas t) (v # F) M (L(m := remove1 v (L m)))
        \<and> (\<forall>w. w \<noteq> v \<longrightarrow> area_data (area_of t w) = area_data (area_of s w)) \<and> current_mm t = current_mm s
        \<and> vmm_inv (vs_vmm t) \<and> user_frame (vs_vmm t) = user_frame (vs_vmm s)
        \<and> (\<forall>vb. vmm_get_physical vb (vs_vmm t) =
             (if vm_start a \<le> vb \<and> vb < vm_end a then 0 else vmm_get_physical vb (vs_vmm s)))
        \<and> pmm_used (vm_frames (vs_vmm t)) = pmm_used (vm_frames (vs_vmm s)) - frames_of (vs_vmm s) (vm_start a) (vm_end a)"
    using ds v' data by (intro exI [of _ "set_areas (vma_destroy (Some v) ?c) (set_vmm v' s)"]) simp
qed

text \<open>The areas of \<open>vs\<close> that lie inside a range, the addresses they cover and the frames behind them.\<close>

definition covers :: "(nat \<Rightarrow> vma) \<Rightarrow> u32 \<Rightarrow> u32 \<Rightarrow> nat list \<Rightarrow> u32 \<Rightarrow> bool" where
  "covers d st en vs vb \<longleftrightarrow> (\<exists>w \<in> set vs. inside st en (d w) \<and> vm_start (d w) \<le> vb \<and> vb < vm_end (d w))"

definition freed :: "(nat \<Rightarrow> vma) \<Rightarrow> u32 \<Rightarrow> u32 \<Rightarrow> nat list \<Rightarrow> vmm \<Rightarrow> nat set" where
  "freed d st en vs v = {unat (vmm_get_physical vb v) div 4096 | vb. covers d st en vs vb \<and> vmm_get_physical vb v \<noteq> 0}"

definition user_covered :: "(nat \<Rightarrow> vma) \<Rightarrow> u32 \<Rightarrow> u32 \<Rightarrow> nat list \<Rightarrow> vmm \<Rightarrow> bool" where
  "user_covered d st en vs v \<longleftrightarrow> (\<forall>vb. covers d st en vs vb \<and> vmm_get_physical vb v \<noteq> 0 \<longrightarrow> user_frame v (unat (vmm_get_physical vb v) div 4096))"

lemma munmap_areas_rep:
  assumes "areas_rep (vs_areas s) F M L" and m: "m < 64" "m \<notin> set M" and "L m = pre @ todo"
    and "\<forall>w \<in> set todo. area_data (area_of s w) = d w"
    and "vmm_inv (vs_vmm s)" and "user_covered d st en todo (vs_vmm s)"
  shows "\<exists>t F'. munmap_areas m st en (head_opt todo) s = Some t
    \<and> areas_rep (vs_areas t) F' M (L(m := pre @ filter (\<lambda>w. \<not> inside st en (d w)) todo))
    \<and> (\<forall>w. (w \<in> set todo \<longrightarrow> \<not> inside st en (d w)) \<longrightarrow> area_data (area_of t w) = area_data (area_of s w)) \<and> current_mm t = current_mm s
    \<and> vmm_inv (vs_vmm t)
    \<and> (\<forall>vb. vmm_get_physical vb (vs_vmm t) = (if covers d st en todo vb then 0 else vmm_get_physical vb (vs_vmm s)))
    \<and> pmm_used (vm_frames (vs_vmm t)) = pmm_used (vm_frames (vs_vmm s)) - freed d st en todo (vs_vmm s)"
  using assms(1,4-)
proof (induction todo arbitrary: s F L pre)
  case Nil
  then show ?case by (subst munmap_areas.simps) (auto simp: covers_def freed_def)
next
  case (Cons v todo)
  have v: "v \<in> set (L m)" using Cons.prems(2) by simp
  have d: "vm_start (area_of s v) = vm_start (d v)" "vm_end (area_of s v) = vm_end (d v)"
    using Cons.prems(3) area_data_simps(1,2) by (metis list.set_intros(1))+
  then have ins: "inside st en (area_of s v) = inside st en (d v)" by (simp add: inside_def)
  have nx: "vm_next (area_of s v) = head_opt todo"
    using area_neighbours(2) [OF Cons.prems(1) m Cons.prems(2)] by (simp add: area_next_def area_of_def)
  have dist: "distinct (L m)" using lists_okD(3) [OF areas_repD(5) [OF Cons.prems(1)] m(1)] .
  have step: "munmap_areas m st en (head_opt (v # todo)) s =
      Option.bind (munmap_area m st en v s) (munmap_areas m st en (head_opt todo))"
    by (subst munmap_areas.simps) (simp add: nx)
  note one = munmap_area_rep [OF Cons.prems(1) m v Cons.prems(4), of st en]
  show ?case
  proof (cases "inside st en (d v)")
    case False
    then have skip: "munmap_area m st en v s = Some s" using one(1) ins by simp
    have cov: "covers d st en (v # todo) = covers d st en todo" using False by (auto simp: covers_def fun_eq_iff)
    have "L m = (pre @ [v]) @ todo" "\<forall>w \<in> set todo. area_data (area_of s w) = d w"
      "user_covered d st en todo (vs_vmm s)" using Cons.prems by (simp_all add: user_covered_def cov)
    from Cons.IH [OF Cons.prems(1) this(1,2) Cons.prems(4) this(3)] show ?thesis
      using skip False unfolding step by (simp add: cov freed_def)
  next
    case True
    let ?r = "\<lambda>vb. vm_start (d v) \<le> vb \<and> vb < vm_end (d v)"
    have cov: "covers d st en (v # todo) vb \<longleftrightarrow> ?r vb \<or> covers d st en todo vb" for vb
      using True by (auto simp: covers_def)
    have "laid_out (area_view (vs_areas s) (L m))" by (rule areas_repD(7) [OF Cons.prems(1) m(1)])
    then have "vm_end (area_of s v) \<le> vm_start (area_of s w)" if "w \<in> set todo" for w
      using that unfolding Cons.prems(2) by (auto simp: area_view_def laid_out_append laid_out_Cons area_of_def)
    moreover have "vm_start (area_of s w) = vm_start (d w)" if "w \<in> set todo" for w
      using Cons.prems(3) that area_data_simps(1) by (metis list.set_intros(2))
    ultimately have apart: "\<not> ?r vb" if "covers d st en todo vb" for vb
      using that d(2) by (fastforce simp: covers_def)
    have "user_mapped (vs_vmm s) (vm_start (area_of s v)) (vm_end (area_of s v))"
      using Cons.prems(5) unfolding user_mapped_def user_covered_def cov d by blast
    with True one(2) obtain t where t: "munmap_area m st en v s = Some t"
        "areas_rep (vs_areas t) (v # F) M (L(m := remove1 v (L m)))"
        "\<forall>w. w \<noteq> v \<longrightarrow> area_data (area_of t w) = area_data (area_of s w)" "current_mm t = current_mm s"
        "vmm_inv (vs_vmm t)" "user_frame (vs_vmm t) = user_frame (vs_vmm s)"
        "\<forall>vb. vmm_get_physical vb (vs_vmm t) = (if ?r vb then 0 else vmm_get_physical vb (vs_vmm s))"
        "pmm_used (vm_frames (vs_vmm t)) = pmm_used (vm_frames (vs_vmm s)) - frames_of (vs_vmm s) (vm_start (d v)) (vm_end (d v))"
      unfolding ins d by blast
    have rest: "remove1 v (L m) = pre @ todo" "v \<notin> set todo" using Cons.prems(2) dist by (auto simp: remove1_append)
    have tr: "vmm_get_physical vb (vs_vmm t) = vmm_get_physical vb (vs_vmm s)" if "covers d st en todo vb" for vb
      by (simp only: t(7) [rule_format] apart [OF that] if_False)
    have uc: "user_covered d st en todo (vs_vmm t)"
      using Cons.prems(5) tr t(6) unfolding user_covered_def cov by metis
    have fr: "freed d st en todo (vs_vmm t) = freed d st en todo (vs_vmm s)"
      using tr unfolding freed_def by (metis (no_types, lifting))
    have "(L(m := remove1 v (L m))) m = pre @ todo" "\<forall>w \<in> set todo. area_data (area_of t w) = d w"
      using rest t(3) Cons.prems(3) by auto
    from Cons.IH [OF t(2) this t(5) uc] obtain u F' where u: "munmap_areas m st en (head_opt todo) t = Some u"
        "areas_rep (vs_areas u) F' M (L(m := pre @ filter (\<lambda>w. \<not> inside st en (d w)) todo))"
        "\<forall>w. (w \<in> set todo \<longrightarrow> \<not> inside st en (d w)) \<longrightarrow> area_data (area_of u w) = area_data (area_of t w)"
        "current_mm u = current_mm t" "vmm_inv (vs_vmm u)"
        "\<forall>vb. vmm_get_physical vb (vs_vmm u) = (if covers d st en todo vb then 0 else vmm_get_physical vb (vs_vmm t))"
        "pmm_used (vm_frames (vs_vmm u)) = pmm_used (vm_frames (vs_vmm t)) - freed d st en todo (vs_vmm t)"
      unfolding fun_upd_upd by blast
    have "freed d st en (v # todo) (vs_vmm s) = frames_of (vs_vmm s) (vm_start (d v)) (vm_end (d v)) \<union> freed d st en todo (vs_vmm s)"
      unfolding freed_def frames_of_def cov by blast
    then have "pmm_used (vm_frames (vs_vmm u)) = pmm_used (vm_frames (vs_vmm s)) - freed d st en (v # todo) (vs_vmm s)"
      unfolding u(7) t(8) fr by blast
    moreover have "vmm_get_physical vb (vs_vmm u) = (if covers d st en (v # todo) vb then 0 else vmm_get_physical vb (vs_vmm s))" for vb
      by (simp only: u(6) [rule_format] t(7) [rule_format] cov) auto
    moreover have "area_data (area_of u w) = area_data (area_of s w)" if "w \<in> set (v # todo) \<longrightarrow> \<not> inside st en (d w)" for w
      using u(3) t(3) that True by auto
    moreover have "munmap_areas m st en (head_opt (v # todo)) s = Some u" unfolding step using t(1) u(1) by simp
    moreover have "filter (\<lambda>w. \<not> inside st en (d w)) (v # todo) = filter (\<lambda>w. \<not> inside st en (d w)) todo" using True by simp
    moreover have "current_mm u = current_mm s" using t(4) u(4) by simp
    ultimately show ?thesis using u(2,5) by (intro exI [of _ u] exI [of _ F']) metis
  qed
qed

text \<open>
  C15. \<open>sys_munmap\<close> removes exactly the areas of the current address space that lie inside the range, rounded to pages; areas that
  overlap it only in part stay as they are, because splitting is not implemented. The pages of the removed areas are no longer
  translated and their frames are given back; every other translation is as before. The pages of the removed areas have to be
  mapped to user frames: the code does not check this.
\<close>

theorem sys_munmap_removes:
  assumes "in_space s F M L m" and "vmm_inv (vs_vmm s)"
    and "user_covered (area_of s) (round_down addr) (round_down addr + round_up len) (L m) (vs_vmm s)"
  defines "st \<equiv> round_down addr" and "en \<equiv> round_down addr + round_up len"
  shows "\<exists>t F'. sys_munmap addr len s = Some (0, t)
    \<and> in_space t F' M (L(m := filter (\<lambda>w. \<not> inside st en (area_of s w)) (L m))) m
    \<and> (\<forall>w \<in> set (L m). \<not> inside st en (area_of s w) \<longrightarrow> area_data (area_of t w) = area_data (area_of s w))
    \<and> vmm_inv (vs_vmm t)
    \<and> (\<forall>vb. vmm_get_physical vb (vs_vmm t) = (if covers (area_of s) st en (L m) vb then 0 else vmm_get_physical vb (vs_vmm s)))
    \<and> pmm_used (vm_frames (vs_vmm t)) = pmm_used (vm_frames (vs_vmm s)) - freed (area_of s) st en (L m) (vs_vmm s)"
proof -
  let ?d = "\<lambda>w. area_data (area_of s w)"
  have rep: "areas_rep (vs_areas s) F M L" and m: "m < 64" "m \<notin> set M" and mm: "current_mm s = Some m"
    using assms(1) by (auto simp: in_space_def)
  have ins: "inside st en (?d w) = inside st en (area_of s w)" for w by (simp add: inside_def)
  then have cov: "covers ?d st en vs = covers (area_of s) st en vs" for vs by (auto simp: covers_def fun_eq_iff)
  then have fr: "freed ?d st en vs v = freed (area_of s) st en vs v" for vs v by (simp add: freed_def)
  have "user_covered ?d st en (L m) (vs_vmm s)"
    using assms(3) unfolding user_covered_def cov by (simp add: st_def en_def)
  from munmap_areas_rep [OF rep m _ _ assms(2) this, of "[]"] obtain t F' where
    t: "munmap_areas m st en (head_opt (L m)) s = Some t"
      "areas_rep (vs_areas t) F' M (L(m := filter (\<lambda>w. \<not> inside st en (area_of s w)) (L m)))"
      "\<forall>w. (w \<in> set (L m) \<longrightarrow> \<not> inside st en (area_of s w)) \<longrightarrow> area_data (area_of t w) = area_data (area_of s w)"
      "current_mm t = current_mm s" "vmm_inv (vs_vmm t)"
      "\<forall>vb. vmm_get_physical vb (vs_vmm t) = (if covers (area_of s) st en (L m) vb then 0 else vmm_get_physical vb (vs_vmm s))"
      "pmm_used (vm_frames (vs_vmm t)) = pmm_used (vm_frames (vs_vmm s)) - freed (area_of s) st en (L m) (vs_vmm s)"
    unfolding ins cov fr by auto
  have "mm_vmas (the_mm s m) = head_opt (L m)"
    using areas_rep_chain(1) [OF rep m] by (cases "L m") (auto simp: the_mm_def)
  then have "sys_munmap addr len s = Some (0, t)" using mm t(1) by (simp add: sys_munmap_def Let_def st_def en_def)
  moreover have "in_space t F' M (L(m := filter (\<lambda>w. \<not> inside st en (area_of s w)) (L m))) m"
    using t(2,4) m mm by (simp add: in_space_def)
  ultimately show ?thesis using t(3,5-7) by blast
qed

subsection \<open>What the code does not check\<close>

text \<open>
  \<open>sys_brk\<close> extends the heap area without looking at its neighbours: when another area starts below the new end of
  the heap, the call succeeds and leaves two areas of the address space overlapping.
\<close>

lemma sys_brk_overlaps:
  assumes "in_space s F M L m" and "v \<in> set (L m)" and "w \<in> set (L m)" and "w \<noteq> v"
    and "area_has (vs_areas s) (mm_heap_start (the_mm s m)) v"
    and "addr \<noteq> 0" and "mm_heap_start (the_mm s m) \<le> round_up addr" and "mm_heap_end (the_mm s m) < round_up addr"
    and "round_up addr \<le> mm_stack_start (the_mm s m) - 0x100000"
    and "vm_start (area_of s v) < vm_end (area_of s w)" and "vm_start (area_of s w) < round_up addr"
  shows "\<exists>t. sys_brk addr s = Some (round_up addr, t) \<and> overlaps (area_of t v) (area_of t w)"
proof -
  let ?t = "set_areas (upd_vma (vm_end_update (\<lambda>_. round_up addr)) v (vs_areas s)) s"
  have mm: "current_mm s = Some m" using assms(1) by (simp add: in_space_def)
  have "extend_heap m (round_up addr) s = Some (True, ?t)"
    using in_space_area [OF assms(1,2,5)] by (simp add: extend_heap_def)
  moreover have "\<not> round_up addr < mm_heap_start (the_mm s m)" "\<not> mm_stack_start (the_mm s m) - 0x100000 < round_up addr"
    using assms(7,9) by simp_all
  ultimately have "sys_brk addr s = Some (round_up addr,
      set_areas (upd_mm (mm_heap_end_update (\<lambda>_. round_up addr)) m (vs_areas ?t)) ?t)"
    using assms(6,8) mm by (simp add: sys_brk_def Let_def)
  then show ?thesis using assms(4,10,11) by (auto simp: overlaps_def area_of_def)
qed

text \<open>
  \<open>sys_munmap\<close> gives back whatever frame an address of the area translates to. For an area on a page that the kernel has
  mapped (a fixed mapping may be placed anywhere from \<open>0x1000\<close> up, so also in the identity-mapped first 4 MiB), it
  removes the kernel's mapping and frees the kernel's frame.
\<close>

lemma munmap_frees_kernel_frame:
  assumes "in_space s F M L m" and "L m = [v]" and "vm_start (area_of s v) = a" and "vm_end (area_of s v) = a + PAGE_SIZE"
    and "vmm_inv (vs_vmm s)" and "vmm_get_physical a (vs_vmm s) \<noteq> 0" and "unat (vmm_get_physical a (vs_vmm s)) < 134217728"
  shows "\<exists>t. sys_munmap a PAGE_SIZE s = Some (0, t) \<and> vmm_get_physical a (vs_vmm t) = 0
    \<and> pmm_used (vm_frames (vs_vmm t)) = pmm_used (vm_frames (vs_vmm s)) - {unat (vmm_get_physical a (vs_vmm s)) div 4096}"
proof -
  let ?p = "vmm_get_physical a (vs_vmm s)" and ?u = "vmm_unmap_page a (vs_vmm s)"
  have rep: "areas_rep (vs_areas s) F M L" and m: "m < 64" "m \<notin> set M" and mm: "current_mm s = Some m"
    using assms(1) by (auto simp: in_space_def)
  have g: "a < a + PAGE_SIZE" "page_aligned a"
    using area_range [OF rep m(1), of v] assms(2-4) by (auto simp: good_range_def)
  have fr: "pmm_inv (vm_frames (vs_vmm s))" using assms(5) by (simp add: vmm_inv_def)
  obtain f where f: "pmm_free_page ?p (vm_frames (vs_vmm s)) = Some f" "pmm_used f = pmm_used (vm_frames (vs_vmm s)) - {unat ?p div 4096}"
    using pmm_free_page_spec [OF fr, of ?p] assms(7) by auto
  note un = unmap_page_effect [OF assms(5), of a a]
  let ?v' = "?u\<lparr>vm_frames := f\<rparr>"
  define t1 where "t1 = set_areas (upd_mm (\<lambda>k. k\<lparr>mm_rss := mm_rss k - 1\<rparr>) m (vs_areas s)) (set_vmm ?v' s)"
  have "munmap_page m a s = Some t1"
    using assms(6) f(1) un by (simp add: munmap_page_def release_mapping_def vmm_virt_to_phys_def free_frame_def t1_def)
  then have loop: "page_loop (munmap_page m) a (a + PAGE_SIZE) s = Some t1"
    using g by (subst page_loop.simps, simp) (subst page_loop.simps, simp)
  have "round_down a = frame_bits a" by (simp add: round_down_def frame_bits_def)
  then have round: "round_down a = a" "round_up PAGE_SIZE = PAGE_SIZE"
    using g(2) unat_frame_bits [of a] by (auto simp: round_up_def page_aligned_iff word_unat_eq_iff)
  have nxt: "vm_next (area_of s v) = None"
    using area_neighbours(2) [OF rep m, of "[]" v "[]"] assms(2) by (simp add: area_next_def area_of_def)
  have head: "mm_vmas (the_mm s m) = Some v"
    using areas_rep_chain(1) [OF rep m] assms(2) by (auto simp: the_mm_def)
  define t where "t = set_areas (vma_destroy (Some v) (snd (vma_remove (Some m) (Some v) (vs_areas t1)))) t1"
  have "munmap_area m a (a + PAGE_SIZE) v s = Some t"
    using loop g(1) assms(3,4) by (simp add: munmap_area_def Let_def t_def not_le [symmetric])
  moreover have tv: "vs_vmm t = ?v'" by (simp add: t_def t1_def)
  ultimately have "sys_munmap a PAGE_SIZE s = Some (0, t)"
    using mm head nxt by (simp add: sys_munmap_def Let_def round) (subst munmap_areas.simps, simp, subst munmap_areas.simps, simp)
  then show ?thesis using un f(2) tv by auto
qed

subsection \<open>Concrete states\<close>

definition fresh_space :: areas where
  "fresh_space = snd (mm_alloc (vma_allocator_init (demo_areas\<lparr>vma_initialized := False\<rparr>)))"

lemma fresh_space_rep: "areas_rep fresh_space [0..<256] [Suc 0..<64] (\<lambda>q. [])"
proof -
  have rep: "areas_rep (vma_allocator_init (demo_areas\<lparr>vma_initialized := False\<rparr>)) [0..<256] [0..<64] (\<lambda>q. [])"
    by (rule areas_rep_init) simp
  have "[0..<64] = 0 # [Suc 0..<64]" by (rule upt_conv_Cons) simp
  then show ?thesis using mm_alloc_rep(2) [OF rep] unfolding fresh_space_def by blast
qed


lemma booted_unmapped: "0x40001000 \<le> va \<Longrightarrow> vmm_get_physical va booted_vmm = 0"
proof -
  assume "0x40001000 \<le> va"
  then have "unat va \<ge> unat (0x40001000 :: u32)" by (simp add: word_le_nat_alt)
  then have "dir_index va \<noteq> 0" by (simp add: dir_index_def drop_bit_eq_div unat_div)
  then show ?thesis by (simp add: get_physical_pte_of booted_pte)
qed

text \<open>An address space of two areas, the first with a page that is mapped to an allocated frame.\<close>

lemma mapped_page:
  obtains p v where "vmm_inv v" and "user_frame v p" and "p \<in> pmm_used (vm_frames v)" and "of_nat p * PAGE_SIZE \<noteq> (0 :: u32)"
    and "unat (of_nat p * PAGE_SIZE :: u32) = p * 4096"
    and "\<And>vb. vmm_get_physical vb v = (if unat vb div 4096 = 0x40001 then of_nat p * PAGE_SIZE else vmm_get_physical vb booted_vmm)"
proof -
  have "card (pmm_used (vm_frames booted_vmm)) + 2 \<le> TOTAL_PAGES" using booted_few by simp
  from fresh_page [OF booted_inv this, of 6] obtain p fr where fresh: "fresh_frame booted_vmm 6 p fr" by auto
  note d = fresh_frameD [OF fresh]
  let ?v = "install_page 0x40001000 p 6 fr (vm_words booted_vmm) booted_vmm"
  have ag: "agrees booted_vmm p (vm_words booted_vmm)" by (simp add: agrees_def)
  have "data_frame ?v p" using d(11) [OF ag] by blast
  then have "user_frame ?v p" "p \<in> pmm_used (vm_frames ?v)"
    using vmm_inv_low [OF booted_inv d(4)]
    by (auto simp: data_frame_def user_frame_def pmm_used_def bm_used_def)
  with that [of ?v p] d(2,3,5,6) ag show ?thesis by simp
qed

theorem sys_munmap_removes_witness:
  "\<exists>s t f F'. vmm_get_physical 0x40001000 (vs_vmm s) = of_nat f * PAGE_SIZE \<and> of_nat f * PAGE_SIZE \<noteq> (0 :: u32)
     \<and> f \<in> pmm_used (vm_frames (vs_vmm s)) \<and> in_space s [] [] (\<lambda>q. if q = 0 then [0, 1] else []) 0
     \<and> sys_munmap 0x40001000 0x1000 s = Some (0, t)
     \<and> in_space t F' [] ((\<lambda>q. if q = 0 then [0, 1] else [])(0 := [1])) 0
     \<and> vmm_get_physical 0x40001000 (vs_vmm t) = 0 \<and> f \<notin> pmm_used (vm_frames (vs_vmm t))
     \<and> vmm_get_physical 0x1000 (vs_vmm t) = 0x1000"
proof -
  obtain f v where inv: "vmm_inv v" and f: "user_frame v f" "f \<in> pmm_used (vm_frames v)" "of_nat f * PAGE_SIZE \<noteq> (0 :: u32)"
      "unat (of_nat f * PAGE_SIZE :: u32) = f * 4096"
    and tr: "\<And>vb. vmm_get_physical vb v = (if unat vb div 4096 = 0x40001 then of_nat f * PAGE_SIZE else vmm_get_physical vb booted_vmm)"
    by (rule mapped_page) blast
  let ?s = "demo_vmem (demo_swap\<lparr>sw_vmm := v\<rparr>)" and ?L = "\<lambda>q :: nat. if q = 0 then [0, 1] else [] :: nat list"
  have r: "round_down 0x40001000 = 0x40001000" "round_up 0x1000 = 0x1000" by (simp_all add: round_down_def round_up_def)
  have ins: "inside 0x40001000 0x40002000 (vma_pool demo_space w) \<longleftrightarrow> w = 0" for w
    by (simp add: inside_def demo_space_def new_area_def)
  have cov: "covers (area_of ?s) 0x40001000 0x40002000 (?L 0) vb \<longleftrightarrow> 0x40001000 \<le> vb \<and> vb < 0x40002000" for vb
    by (simp add: covers_def ins demo_area_fields)
  have vs: "vs_vmm ?s = v" by simp
  have at: "unat vb div 4096 = 0x40001" if "0x40001000 \<le> vb" "vb < 0x40002000" for vb :: u32
    using that by (simp add: word_le_nat_alt word_less_nat_alt)
  have uc: "user_covered (area_of ?s) 0x40001000 0x40002000 (?L 0) (vs_vmm ?s)"
    unfolding user_covered_def cov vs using f(1,4) at by (simp add: tr)
  have fr: "f \<in> freed (area_of ?s) 0x40001000 0x40002000 (?L 0) v"
    unfolding freed_def cov using f(3,4) by (auto simp: tr intro!: exI [of _ "0x40001000"])
  have en: "(0x40001000 :: u32) + 0x1000 = 0x40002000" by simp
  have inv': "vmm_inv (vs_vmm ?s)" using inv vs by simp
  from sys_munmap_removes [OF demo_in_space [of "demo_swap\<lparr>sw_vmm := v\<rparr>"] inv', of "0x40001000" "0x1000", unfolded r en, OF uc]
  obtain t F' where t: "sys_munmap 0x40001000 0x1000 ?s = Some (0, t)"
      "in_space t F' [] (?L(0 := filter (\<lambda>w. \<not> inside 0x40001000 0x40002000 (area_of ?s w)) (?L 0))) 0"
      "\<forall>vb. vmm_get_physical vb (vs_vmm t) =
         (if covers (area_of ?s) 0x40001000 0x40002000 (?L 0) vb then 0 else vmm_get_physical vb (vs_vmm ?s))"
      "pmm_used (vm_frames (vs_vmm t)) = pmm_used (vm_frames v) - freed (area_of ?s) 0x40001000 0x40002000 (?L 0) v"
    unfolding vs by blast
  have "vmm_get_physical 0x1000 booted_vmm = 0x1000"
    by (simp add: get_physical_pte_of booted_pte dir_index_def table_index_def frame_bits_def)
  then have "vmm_get_physical 0x40001000 (vs_vmm t) = 0 \<and> vmm_get_physical 0x1000 (vs_vmm t) = 0x1000"
    unfolding t(3) [rule_format] cov vs by (simp add: tr)
  moreover have "filter (\<lambda>w. \<not> inside 0x40001000 0x40002000 (area_of ?s w)) (?L 0) = [1]" by (simp add: ins)
  moreover have "f \<notin> pmm_used (vm_frames (vs_vmm t))" using t(4) fr by blast
  moreover have "vmm_get_physical 0x40001000 (vs_vmm ?s) = of_nat f * PAGE_SIZE" unfolding vs by (simp add: tr)
  ultimately show ?thesis using t(1,2) f(2,3) demo_in_space [of "demo_swap\<lparr>sw_vmm := v\<rparr>"]
    by (intro exI [of _ ?s] exI [of _ t] exI [of _ f] exI [of _ F']) simp
qed

end
