(* ===== verification/AddressSpace.thy ===== *)
theory AddressSpace
  imports MmapProps
begin

unbundle bit_operations_syntax

text \<open>
  Address spaces from creation to the end: what \<open>mm_destroy\<close> gives back, what \<open>mm_create\<close> sets up and that
  \<open>mm_clone\<close> makes a second address space with the same areas.
\<close>

subsection \<open>Destroying an address space\<close>

abbreviation (input) "TOP_ADDR \<equiv> (0xFFFFFFFF :: u32)"

lemma set_vmm_rest [simp]: "vs_areas (set_vmm v s) = vs_areas s" "current_mm (set_vmm v s) = current_mm s"
  by (simp_all add: set_vmm_def)

lemma inside_all [simp]: "inside 0 TOP_ADDR a"
  using unat_below [of "vm_end a"] by (simp add: inside_def word_le_nat_alt)

lemma release_pages:
  assumes "vmm_inv (vs_vmm s)" and ae: "page_aligned a" "page_aligned e" "a \<le> e" and user: "user_mapped (vs_vmm s) a e"
  shows "\<exists>v'. page_loop release_mapping a e s = Some (set_vmm v' s) \<and> released (vs_vmm s) a e v'"
proof -
  have "\<exists>t. page_loop release_mapping a e s = Some t \<and> (\<exists>v'. t = set_vmm v' s \<and> released (vs_vmm s) a e v')"
  proof (rule page_loop_rule [OF ae])
    have "s = set_vmm (vs_vmm s) s" by (simp add: set_vmm_def vs_vmm_def)
    then show "\<exists>v'. s = set_vmm v' s \<and> released (vs_vmm s) a a v'" using released_refl [OF assms(1)] by blast
    fix x t
    assume x: "a \<le> x" "x < e" "page_aligned x" and "\<exists>v'. t = set_vmm v' s \<and> released (vs_vmm s) a x v'"
    then obtain v1 where t: "t = set_vmm v1 s" "released (vs_vmm s) a x (vs_vmm t)" by auto
    from release_step [OF t(2) x ae(2) user]
    show "\<exists>t'. release_mapping x t = Some t' \<and> (\<exists>v'. t' = set_vmm v' s \<and> released (vs_vmm s) a (x + PAGE_SIZE) v')"
      using t(1) by auto
  qed
  then show ?thesis by blast
qed

lemma hide_destroy:
  assumes "vm_ref_count (vma_pool a v) = 1"
  shows "hide m (vma_destroy (Some v) a) = vma_destroy (Some v) (hide m a)"
  using assms by (simp add: hide_def vma_destroy_def vma_free_def upd_mm_def upd_vma_def)

text \<open>The areas of a list, none of which belongs to an address space any more.\<close>

definition orphans :: "nat list \<Rightarrow> (nat \<Rightarrow> nat list) \<Rightarrow> (nat \<Rightarrow> vma) \<Rightarrow> nat list \<Rightarrow> bool" where
  "orphans F L d vs \<longleftrightarrow> distinct vs \<and> laid_out (map d vs) \<and> (\<forall>w \<in> set vs. detached w F L \<and> vm_ref_count (d w) = 1)
     \<and> chain (\<lambda>w. vm_next (d w)) (head_opt vs) vs"

lemma orphans_tl:
  assumes "orphans F L d (v # vs)"
  shows "orphans (v # F) L d vs" and "vm_next (d v) = head_opt vs"
proof -
  have "chain (\<lambda>w. vm_next (d w)) (vm_next (d v)) vs" using assms by (simp add: orphans_def)
  then show "vm_next (d v) = head_opt vs" by (cases vs) auto
  then show "orphans (v # F) L d vs" using assms by (auto simp: orphans_def detached_def laid_out_Cons)
qed

lemma destroy_areas_rep:
  assumes "areas_rep (hide m (vs_areas s)) F M L" and "orphans F L d todo" and "\<forall>w \<in> set todo. area_of s w = d w"
    and "vmm_inv (vs_vmm s)" and "user_covered d 0 TOP_ADDR todo (vs_vmm s)"
  shows "\<exists>t. destroy_areas (head_opt todo) s = Some t \<and> areas_rep (hide m (vs_areas t)) (rev todo @ F) M L
    \<and> (\<forall>w. w \<notin> set todo \<longrightarrow> area_of t w = area_of s w) \<and> mm_pool (vs_areas t) = mm_pool (vs_areas s)
    \<and> current_mm t = current_mm s \<and> vmm_inv (vs_vmm t) \<and> user_frame (vs_vmm t) = user_frame (vs_vmm s)
    \<and> (\<forall>vb. vmm_get_physical vb (vs_vmm t) = (if covers d 0 TOP_ADDR todo vb then 0 else vmm_get_physical vb (vs_vmm s)))
    \<and> pmm_used (vm_frames (vs_vmm t)) = pmm_used (vm_frames (vs_vmm s)) - freed d 0 TOP_ADDR todo (vs_vmm s)"
  using assms
proof (induction todo arbitrary: s F)
  case Nil
  then show ?case by (subst destroy_areas.simps) (auto simp: covers_def freed_def)
next
  case (Cons v todo)
  let ?r = "\<lambda>vb. vm_start (d v) \<le> vb \<and> vb < vm_end (d v)"
  note orph = Cons.prems(2)
  have dv: "area_of s v = d v" using Cons.prems(3) by simp
  have g: "vm_start (d v) < vm_end (d v)" "page_aligned (vm_start (d v))" "page_aligned (vm_end (d v))"
    using orph by (auto simp: orphans_def laid_out_def)
  have cov: "covers d 0 TOP_ADDR (v # todo) vb \<longleftrightarrow> ?r vb \<or> covers d 0 TOP_ADDR todo vb" for vb
    by (auto simp: covers_def)
  have apart: "\<not> ?r vb" if "covers d 0 TOP_ADDR todo vb" for vb
    using that orph by (fastforce simp: covers_def orphans_def laid_out_Cons)
  have "user_mapped (vs_vmm s) (vm_start (d v)) (vm_end (d v))"
    using Cons.prems(5) unfolding user_mapped_def user_covered_def cov by blast
  from release_pages [OF Cons.prems(4) g(2,3) less_imp_le [OF g(1)] this] obtain v' where
    loop: "page_loop release_mapping (vm_start (d v)) (vm_end (d v)) s = Some (set_vmm v' s)"
    and rel: "released (vs_vmm s) (vm_start (d v)) (vm_end (d v)) v'" by blast
  have r: "vmm_inv v'" "user_frame v' = user_frame (vs_vmm s)"
      "vmm_get_physical vb v' = (if ?r vb then 0 else vmm_get_physical vb (vs_vmm s))"
      "pmm_used (vm_frames v') = pmm_used (vm_frames (vs_vmm s)) - frames_of (vs_vmm s) (vm_start (d v)) (vm_end (d v))" for vb
    using rel unfolding released_def by auto
  define t where "t = set_areas (vma_destroy (Some v) (vs_areas s)) (set_vmm v' s)"
  have ref: "vm_ref_count (vma_pool (vs_areas s) v) = 1" using orph dv by (simp add: orphans_def area_of_def)
  have v: "detached v F L" using orph by (simp add: orphans_def)
  note ds = vma_destroy_rep [OF Cons.prems(1) v]
  have rep: "areas_rep (hide m (vs_areas t)) (v # F) M L"
    using ds(1) ref hide_destroy [OF ref, of m] by (simp add: t_def hide_def)
  have tv: "vs_vmm t = v'" by (simp add: t_def)
  have pool: "area_of t w = area_of s w" if "w \<noteq> v" for w
    using that ref by (simp add: t_def vma_destroy_def vma_free_def area_of_def)
  have mp: "mm_pool (vs_areas t) = mm_pool (vs_areas s)" by (simp add: t_def vma_destroy_def vma_free_def Let_def)
  have d: "\<forall>w \<in> set todo. area_of t w = d w"
    using Cons.prems(3) orph pool unfolding orphans_def by (metis distinct.simps(2) list.set_intros(2))
  have tr: "vmm_get_physical vb (vs_vmm t) = vmm_get_physical vb (vs_vmm s)" if "covers d 0 TOP_ADDR todo vb" for vb
    unfolding tv r(3) using apart [OF that] by argo
  have uc: "user_covered d 0 TOP_ADDR todo (vs_vmm t)"
    using Cons.prems(5) tr r(2) unfolding user_covered_def cov tv by metis
  have fr: "freed d 0 TOP_ADDR todo (vs_vmm t) = freed d 0 TOP_ADDR todo (vs_vmm s)"
    using tr unfolding freed_def by (metis (no_types, lifting))
  have inv: "vmm_inv (vs_vmm t)" using r(1) tv by simp
  obtain u where u: "destroy_areas (head_opt todo) t = Some u" "areas_rep (hide m (vs_areas u)) (rev todo @ v # F) M L"
      "\<forall>w. w \<notin> set todo \<longrightarrow> area_of u w = area_of t w" "mm_pool (vs_areas u) = mm_pool (vs_areas t)"
      "current_mm u = current_mm t" "vmm_inv (vs_vmm u)" "user_frame (vs_vmm u) = user_frame (vs_vmm t)"
      "\<forall>vb. vmm_get_physical vb (vs_vmm u) = (if covers d 0 TOP_ADDR todo vb then 0 else vmm_get_physical vb (vs_vmm t))"
      "pmm_used (vm_frames (vs_vmm u)) = pmm_used (vm_frames (vs_vmm t)) - freed d 0 TOP_ADDR todo (vs_vmm t)"
    using Cons.IH [OF rep orphans_tl(1) [OF orph] d inv uc] by blast
  have "destroy_areas (head_opt (v # todo)) s = destroy_areas (head_opt todo) t"
    using loop orphans_tl(2) [OF orph] by (subst destroy_areas.simps) (simp add: dv t_def)
  moreover have "freed d 0 TOP_ADDR (v # todo) (vs_vmm s) =
      frames_of (vs_vmm s) (vm_start (d v)) (vm_end (d v)) \<union> freed d 0 TOP_ADDR todo (vs_vmm s)"
    unfolding freed_def frames_of_def cov by blast
  then have "pmm_used (vm_frames (vs_vmm u)) = pmm_used (vm_frames (vs_vmm s)) - freed d 0 TOP_ADDR (v # todo) (vs_vmm s)"
    unfolding u(9) fr unfolding tv r(4) by blast
  moreover have "vmm_get_physical vb (vs_vmm u) = (if covers d 0 TOP_ADDR (v # todo) vb then 0 else vmm_get_physical vb (vs_vmm s))" for vb
    unfolding u(8) [rule_format] cov tv r(3) by argo
  moreover have "area_of u w = area_of s w" if "w \<notin> set (v # todo)" for w using u(3) pool that by simp
  moreover have "current_mm u = current_mm s" using u(5) by (simp add: t_def)
  ultimately show ?case using u(1,2,4,6,7) mp r(2) tv by (intro exI [of _ u]) simp
qed

lemma free_user_frame:
  assumes inv: "vmm_inv v" and f: "user_frame v (unat p div 4096)"
  shows "\<exists>g. pmm_free_page p (vm_frames v) = Some g \<and> vmm_inv (v\<lparr>vm_frames := g\<rparr>)
    \<and> pmm_used g = pmm_used (vm_frames v) - {unat p div 4096}"
proof -
  have fr: "pmm_inv (vm_frames v)" using inv by (simp add: vmm_inv_def)
  have "unat p < 134217728" using f by (auto simp: user_frame_def)
  then obtain g where g: "pmm_free_page p (vm_frames v) = Some g" "pmm_inv g" "pmm_used g = pmm_used (vm_frames v) - {unat p div 4096}"
    using pmm_free_page_spec [OF fr, of p] by auto
  have "vm_present (v\<lparr>vm_frames := g\<rparr>) i = vm_present v i" "vm_table (v\<lparr>vm_frames := g\<rparr>) i = vm_table v i" for i
    by (simp_all add: vm_present_def vm_table_def vm_pde_def)
  then have "vmm_inv (v\<lparr>vm_frames := g\<rparr>)" using inv f g(2,3) unfolding vmm_inv_def user_frame_def by (auto simp: inj_on_def)
  with g show ?thesis by blast
qed

text \<open>
  C22. \<open>mm_destroy\<close> ends and gives back everything an address space holds: its descriptor and all its areas are free
  again, no page of an area is translated any more, and the frames of these pages and the frame of the page directory
  are free. The areas of every other address space and every other translation are as before. As for \<open>sys_munmap\<close>, the
  pages have to be mapped to user frames.
\<close>

theorem mm_destroy_releases:
  assumes rep: "areas_rep (vs_areas s) F M L" and m: "m < 64" "m \<notin> set M" and inv: "vmm_inv (vs_vmm s)"
    and user: "user_covered (area_of s) 0 TOP_ADDR (L m) (vs_vmm s)"
    and dir: "user_frame (vs_vmm s) (unat (mm_page_directory (the_mm s m)) div 4096)"
  shows "\<exists>t. mm_destroy (Some m) s = Some t \<and> areas_rep (vs_areas t) (rev (L m) @ F) (m # M) (L(m := []))
    \<and> (\<forall>w. w \<notin> set (L m) \<longrightarrow> area_of t w = area_of s w) \<and> vmm_inv (vs_vmm t)
    \<and> (\<forall>vb. vmm_get_physical vb (vs_vmm t) = (if covers (area_of s) 0 TOP_ADDR (L m) vb then 0 else vmm_get_physical vb (vs_vmm s)))
    \<and> pmm_used (vm_frames (vs_vmm t)) = pmm_used (vm_frames (vs_vmm s))
        - freed (area_of s) 0 TOP_ADDR (L m) (vs_vmm s) - {unat (mm_page_directory (the_mm s m)) div 4096}"
proof -
  let ?dir = "mm_page_directory (the_mm s m)"
  have head: "mm_vmas (the_mm s m) = head_opt (L m)"
    using areas_rep_chain(1) [OF rep m] by (cases "L m") (auto simp: the_mm_def)
  have "laid_out (map (area_of s) (L m))"
    using areas_repD(7) [OF rep m(1)] by (auto simp: area_view_def area_of_def laid_out_def sorted_wrt_map)
  moreover have "area_next (vs_areas s) = (\<lambda>w. vm_next (area_of s w))" by (simp add: fun_eq_iff area_next_def area_of_def)
  then have "chain (\<lambda>w. vm_next (area_of s w)) (head_opt (L m)) (L m)"
    using areas_rep_chain(1) [OF rep m] head by (simp add: the_mm_def)
  ultimately have orph: "orphans F (L(m := [])) (area_of s) (L m)"
    using lists_okD(3) [OF areas_repD(5) [OF rep] m(1)] hide_rep(2) [OF rep m] areas_repD(8) [OF rep m(1)]
    by (simp add: orphans_def area_of_def)
  from destroy_areas_rep [OF hide_rep(1) [OF rep m] orph _ inv user] obtain u where
    u: "destroy_areas (head_opt (L m)) s = Some u" "areas_rep (hide m (vs_areas u)) (rev (L m) @ F) M (L(m := []))"
      "\<forall>w. w \<notin> set (L m) \<longrightarrow> area_of u w = area_of s w" "mm_pool (vs_areas u) = mm_pool (vs_areas s)"
      "vmm_inv (vs_vmm u)" "user_frame (vs_vmm u) = user_frame (vs_vmm s)"
      "\<forall>vb. vmm_get_physical vb (vs_vmm u) =
         (if covers (area_of s) 0 TOP_ADDR (L m) vb then 0 else vmm_get_physical vb (vs_vmm s))"
      "pmm_used (vm_frames (vs_vmm u)) = pmm_used (vm_frames (vs_vmm s)) - freed (area_of s) 0 TOP_ADDR (L m) (vs_vmm s)"
    by blast
  have d: "mm_page_directory (the_mm u m) = ?dir" using u(4) by (simp add: the_mm_def)
  have "?dir \<noteq> 0" using dir by (auto simp: user_frame_def)
  obtain g where g: "pmm_free_page ?dir (vm_frames (vs_vmm u)) = Some g" "vmm_inv ((vs_vmm u)\<lparr>vm_frames := g\<rparr>)"
      "pmm_used g = pmm_used (vm_frames (vs_vmm u)) - {unat ?dir div 4096}"
    using free_user_frame [OF u(5), of ?dir] dir u(6) by auto
  define t where "t = set_areas (mm_free_struct (Some m) (vs_areas u)) (set_vmm ((vs_vmm u)\<lparr>vm_frames := g\<rparr>) u)"
  have "mm_destroy (Some m) s = Some t"
    using u(1) g(1) \<open>?dir \<noteq> 0\<close> by (simp add: mm_destroy_def head d free_frame_def t_def)
  moreover have "areas_rep (vs_areas t) (rev (L m) @ F) (m # M) (L(m := []))"
    using mm_free_struct_rep [OF u(2) m] by (simp add: t_def)
  moreover have "area_of t w = area_of u w" for w by (simp add: t_def mm_free_struct_def area_of_def)
  moreover have "vs_vmm t = (vs_vmm u)\<lparr>vm_frames := g\<rparr>" by (simp add: t_def)
  ultimately show ?thesis using u(3,7,8) g(2,3) by (intro exI [of _ t]) simp
qed

subsection \<open>Creating an address space\<close>

definition kernel_entries :: "u32 \<Rightarrow> word_mem \<Rightarrow> word_mem" where
  "kernel_entries dir m =
     for_range 768 1024 (\<lambda>i w. w(entry_addr dir i := w (entry_addr KERNEL_DIRECTORY i))) (fill_table dir (\<lambda>i. 0) m)"

lemma kernel_entries_words:
  assumes p: "unat dir = p * 4096" and "p \<noteq> 0x9C"
  shows "(\<forall>a. unat a div 4096 \<noteq> p \<longrightarrow> kernel_entries dir m a = m a)
    \<and> (\<forall>i < 1024. kernel_entries dir m (entry_addr dir i) = (if i < 768 then 0 else m (entry_addr KERNEL_DIRECTORY i)))"
proof -
  let ?I = "\<lambda>k w. (\<forall>a. unat a div 4096 \<noteq> p \<longrightarrow> w a = m a)
    \<and> (\<forall>i < 1024. w (entry_addr dir i) = (if i < 768 \<or> k \<le> i then 0 else m (entry_addr KERNEL_DIRECTORY i)))"
  have frame: "unat (entry_addr dir i) div 4096 = p" if "i < 1024" for i
    using entry_addr_page [of dir i] that p by simp
  have kd: "unat (entry_addr KERNEL_DIRECTORY i) div 4096 \<noteq> p" if "i < 1024" for i
    using entry_addr_page [of KERNEL_DIRECTORY i] that assms(2) by simp
  have inj: "entry_addr dir i = entry_addr dir j \<longleftrightarrow> i = j" if "i < 1024" "j < 1024" for i j
    using entry_addr_eq_iff [of dir dir i j] that p by simp
  have "?I 768 (fill_table dir (\<lambda>i. 0) m)"
  proof (intro conjI allI impI)
    show "fill_table dir (\<lambda>i. 0) m a = m a" if "unat a div 4096 \<noteq> p" for a
      by (rule fill_table_other) (use that frame in blast)
    show "fill_table dir (\<lambda>i. 0) m (entry_addr dir i) = (if i < 768 \<or> 768 \<le> i then 0 else m (entry_addr KERNEL_DIRECTORY i))"
      if "i < 1024" for i
    proof -
      have "i < 768 \<or> 768 \<le> i" and "unat dir mod 4096 = 0" using p by auto
      then show ?thesis using fill_table_entry [OF _ that, of dir "\<lambda>i. 0" m] by argo
    qed
  qed
  then have "?I 1024 (kernel_entries dir m)" unfolding kernel_entries_def
  proof (rule for_range_rule [where I = ?I])
    fix k w
    assume k: "768 \<le> k" "k < 1024" and I: "?I k w"
    let ?w = "w(entry_addr dir k := w (entry_addr KERNEL_DIRECTORY k))"
    have "?w a = m a" if "unat a div 4096 \<noteq> p" for a using I frame [OF k(2)] that by auto
    moreover have "?w (entry_addr dir i) = (if i < 768 \<or> Suc k \<le> i then 0 else m (entry_addr KERNEL_DIRECTORY i))" if "i < 1024" for i
      using I kd [OF k(2)] inj [OF that k(2)] that k(1) by auto
    ultimately show "?I (Suc k) ?w" by blast
  qed simp
  then show ?thesis by auto
qed

text \<open>
  \<open>mm_create\<close> takes the next free descriptor and one frame for its page directory, whose upper quarter is the one of the
  kernel and whose rest is empty. No area and no translation changes.
\<close>

definition created :: "vmem \<Rightarrow> nat \<Rightarrow> vmem \<Rightarrow> bool" where
  "created s m t \<longleftrightarrow> vma_pool (vs_areas t) = vma_pool (vs_areas s) \<and> current_mm t = current_mm s
     \<and> (\<forall>q. q \<noteq> m \<longrightarrow> the_mm t q = the_mm s q) \<and> vmm_inv (vs_vmm t)
     \<and> (\<forall>vb. vmm_get_physical vb (vs_vmm t) = vmm_get_physical vb (vs_vmm s))
     \<and> (let dir = mm_page_directory (the_mm t m)
        in unat dir div 4096 \<notin> pmm_used (vm_frames (vs_vmm s))
           \<and> pmm_used (vm_frames (vs_vmm t)) = insert (unat dir div 4096) (pmm_used (vm_frames (vs_vmm s)))
           \<and> (\<forall>i < 1024. vm_words (vs_vmm t) (entry_addr dir i) =
                (if i < 768 then 0 else vm_words (vs_vmm s) (entry_addr KERNEL_DIRECTORY i)))
           \<and> (\<forall>a. unat a div 4096 \<noteq> unat dir div 4096 \<longrightarrow> vm_words (vs_vmm t) a = vm_words (vs_vmm s) a))"

lemma mm_create_rep:
  assumes rep: "areas_rep (vs_areas s) F (m # M) L" and inv: "vmm_inv (vs_vmm s)"
    and room: "card (pmm_used (vm_frames (vs_vmm s))) < TOTAL_PAGES"
  shows "\<exists>t. mm_create s = (Some m, t) \<and> areas_rep (vs_areas t) F M L \<and> m < 64 \<and> m \<notin> set M \<and> L m = [] \<and> created s m t"
proof -
  from take_frame [OF inv room] obtain p fr where
    page: "pmm_alloc_page (vm_frames (vs_vmm s)) = (of_nat p * PAGE_SIZE, fr)" "of_nat p * PAGE_SIZE \<noteq> (0 :: u32)"
      "unat (of_nat p * PAGE_SIZE :: u32) = p * 4096" "p \<notin> pmm_used (vm_frames (vs_vmm s))"
      "pmm_used fr = insert p (pmm_used (vm_frames (vs_vmm s)))"
    and v1: "vmm_inv ((vs_vmm s)\<lparr>vm_frames := fr\<rparr>)" "data_frame ((vs_vmm s)\<lparr>vm_frames := fr\<rparr>) p" .
  let ?dir = "of_nat p * PAGE_SIZE :: u32"
  let ?w = "kernel_entries ?dir (vm_words (vs_vmm s))"
  let ?v = "(vs_vmm s)\<lparr>vm_frames := fr, vm_words := ?w\<rparr>"
  have "p \<noteq> 0x9C" using vmm_inv_low [OF inv page(4)] by auto
  note kw = kernel_entries_words [OF page(3) this, of "vm_words (vs_vmm s)"]
  have agree: "\<forall>a. unat a div 4096 \<noteq> p \<longrightarrow> ?w a = vm_words ((vs_vmm s)\<lparr>vm_frames := fr\<rparr>) a" using kw by simp
  note dw = data_write [OF v1 agree]
  obtain a where ma: "mm_alloc (vs_areas s) = (Some m, a)"
    using mm_alloc_rep(2) [OF rep refl] by (metis prod.collapse)
  note al = mm_alloc_rep(2) [OF rep refl, unfolded ma snd_conv]
  have hd: "mm_free_list (vs_areas s) = Some m" "vma_initialized (vs_areas s)"
    using areas_repD(3,10) [OF rep] by (simp_all add: mp.free_slots_def)
  have other: "mm_pool a q = mm_pool (vs_areas s) q" if "q \<noteq> m" for q
    using ma hd that by (auto simp: mm_alloc_def Let_def)
  define t where "t = set_areas (upd_mm (mm_page_directory_update (\<lambda>_. ?dir)) m a) (set_vmm ?v s)"
  have "alloc_frame (set_areas a s) = (?dir, set_areas a (set_vmm ((vs_vmm s)\<lparr>vm_frames := fr\<rparr>) s))"
    using page(1) by (simp add: alloc_frame_def set_vmm_areas)
  then have "mm_create s = (Some m, t)"
    unfolding mm_create_def ma using page(2)
    by (simp add: Let_def write_words_def set_vmm_areas t_def kernel_entries_def)
  moreover have "areas_rep (vs_areas t) F M L" using areas_rep_mm [of a F M L] al by (simp add: t_def)
  moreover have "mm_page_directory (the_mm t m) = ?dir" by (simp add: t_def the_mm_def)
  then have "created s m t"
    using dw(2,3) al other page(3,4,5) kw by (simp add: created_def t_def the_mm_def)
  ultimately show ?thesis using al by blast
qed

subsection \<open>Cloning an address space\<close>

definition cloned :: "vma \<Rightarrow> vma \<Rightarrow> bool" where
  "cloned a b \<longleftrightarrow> vm_start b = vm_start a \<and> vm_end b = vm_end a \<and> vm_flags b = vm_flags a
     \<and> vm_file_inode b = vm_file_inode a \<and> vm_file_offset b = vm_file_offset a \<and> vm_fd b = vm_fd a"

lemma cloned_data: "area_data a = area_data a' \<Longrightarrow> area_data b = area_data b' \<Longrightarrow> cloned a b = cloned a' b'"
  unfolding cloned_def by (metis area_data_simps(1-3,5-7))

text \<open>\<open>vmm_mark_cow\<close> is a stub: marking the pages of an area ends and changes nothing.\<close>

lemma mark_area_cow_id:
  assumes "good_range (vm_start (area_of s v)) (vm_end (area_of s v))"
  shows "mark_area_cow v s = Some s"
proof -
  have "set_vmm (vs_vmm s) s = s" by (simp add: set_vmm_def vs_vmm_def)
  then have "\<exists>s'. page_loop (\<lambda>addr s. Some (set_vmm (snd (vmm_mark_cow addr (vs_vmm s))) s))
      (vm_start (area_of s v)) (vm_end (area_of s v)) s = Some s' \<and> s' = s"
    using assms by (intro page_loop_rule [where I = "\<lambda>x t. t = s"]) (auto simp: vmm_mark_cow_def good_range_def)
  then show ?thesis by (auto simp: mark_area_cow_def Let_def)
qed

lemma placed_last: "\<forall>c \<in> set vs. vm_start (vma_pool s c) < vm_start (vma_pool s v) \<Longrightarrow> placed s v vs = vs @ [v]"
  by (simp add: placed_def takeWhile_eq_all_conv [THEN iffD2] dropWhile_eq_Nil_conv [THEN iffD2])

lemma clone_area_rep:
  assumes rep: "areas_rep (vs_areas s) (w # F) M L" and dst: "dst < 64" "dst \<notin> set M" and src: "src < 64" "v \<in> set (L src)"
    and below: "\<forall>c \<in> set (L dst). vm_end (area_of s c) \<le> vm_start (area_of s v)"
  shows "\<exists>a. clone_area dst v s = Some (True, set_areas a s) \<and> areas_rep a F M (L(dst := L dst @ [w]))
    \<and> (\<forall>i. i \<noteq> w \<longrightarrow> area_data (vma_pool a i) = area_data (area_of s i)) \<and> cloned (area_of s v) (vma_pool a w)
    \<and> same_mm dst (vs_areas s) a"
proof -
  let ?a = "area_of s v"
  have g: "good_range (vm_start ?a) (vm_end ?a)" by (rule area_range [OF rep src])
  obtain b where b: "vma_create (vm_start ?a) (vm_end ?a) (vm_flags ?a) (vs_areas s) = (Some w, b)" "areas_rep b F M L" "detached w F L"
      "vma_pool b = (vma_pool (vs_areas s))(w := new_area (vm_start ?a) (vm_end ?a) (vm_flags ?a))" "mm_pool b = mm_pool (vs_areas s)"
    using vma_create_rep(3) [OF rep g refl] by blast
  have vw: "v \<noteq> w" "\<And>c. c \<in> set (L dst) \<Longrightarrow> c \<noteq> w" using b(3) src dst by (auto simp: detached_def)
  define c where "c = upd_vma (\<lambda>x. x\<lparr>vm_file_inode := vm_file_inode (vma_pool b v), vm_file_offset := vm_file_offset (vma_pool b v),
                        vm_fd := vm_fd (vma_pool b v)\<rparr>) w b"
  have cw: "vm_start (vma_pool c w) = vm_start ?a" "vm_end (vma_pool c w) = vm_end ?a" "vm_ref_count (vma_pool c w) = 1"
      "cloned ?a (vma_pool c w)"
    using vw by (simp_all add: c_def b(4) new_area_def cloned_def area_of_def)
  have co: "vma_pool c i = area_of s i" if "i \<noteq> w" for i using that by (simp add: c_def b(4) area_of_def)
  have low: "vm_start (vma_pool c i) < vm_start (vma_pool c w) \<and> vm_end (vma_pool c i) \<le> vm_start (vma_pool c w)" if "i \<in> set (L dst)" for i
    using below that area_range [OF rep dst(1) that] co [OF vw(2) [OF that]] cw(1) by (auto simp: good_range_def)
  then have nov: "\<not> (\<exists>i \<in> set (L dst). overlaps (vma_pool c w) (vma_pool c i))" by (auto simp: overlaps_def not_less)
  have rc: "areas_rep c F M L" unfolding c_def by (rule detached_upd [OF b(2,3)])
  obtain t where t: "vma_insert (Some dst) (Some w) c = Some (0, t)" "areas_rep t F M (L(dst := L dst @ [w]))"
      "same_areas c t" "same_mm dst c t"
    using vma_insert_rep(2) [OF rc dst b(3) cw(3) _ nov] g cw(1,2) placed_last [of "L dst" c w] low by auto
  have data: "area_data (vma_pool t i) = area_data (vma_pool c i)" for i using t(3) by (simp add: same_areas_def)
  have mm: "same_mm dst (vs_areas s) t" using t(4) b(5) by (simp add: same_mm_def c_def)
  have "area_data (area_of (set_areas t s) v) = area_data ?a" using data [of v] co [OF vw(1)] by simp
  then have "mark_area_cow v (set_areas t s) = Some (set_areas t s)"
    using g mark_area_cow_id [of "set_areas t s" v] by (metis area_data_fields(1,2))
  then have "clone_area dst v s = Some (True, set_areas t s)"
    using b(1) t(1) by (simp add: clone_area_def Let_def c_def [symmetric])
  moreover have "cloned ?a (vma_pool t w)" using cw(4) cloned_data [OF refl data] by blast
  ultimately show ?thesis using t(2) data co mm by auto
qed

text \<open>The bounds of code, data, heap and stack, and the base of the mappings.\<close>

definition regions :: "mm_struct \<Rightarrow> (u32 \<times> u32) \<times> (u32 \<times> u32) \<times> (u32 \<times> u32) \<times> (u32 \<times> u32) \<times> u32" where
  "regions k = ((mm_code_start k, mm_code_end k), (mm_data_start k, mm_data_end k), (mm_heap_start k, mm_heap_end k),
     (mm_stack_start k, mm_stack_end k), mm_mmap_base k)"

lemma mm_data_fields:
  assumes "mm_data k = mm_data k'"
  shows "regions k = regions k'" "mm_page_directory k = mm_page_directory k'"
  using arg_cong [OF assms, of regions] arg_cong [OF assms, of mm_page_directory] by (simp_all add: mm_data_def regions_def)

lemma same_mm_trans: "same_mm m a b \<Longrightarrow> same_mm m b c \<Longrightarrow> same_mm m a c"
  by (simp add: same_mm_def)

lemma clone_areas_rep:
  assumes "areas_rep (vs_areas s) F M L" and dst: "dst < 64" "dst \<notin> set M" and src: "src < 64" "src \<notin> set M" "src \<noteq> dst"
    and "L src = pre @ todo" and "length todo \<le> length F"
    and "\<forall>c \<in> set (L dst). \<forall>v \<in> set todo. vm_end (area_of s c) \<le> vm_start (area_of s v)"
  defines "n \<equiv> length todo"
  shows "\<exists>a. clone_areas dst (head_opt todo) s = Some (True, set_areas a s) \<and> areas_rep a (drop n F) M (L(dst := L dst @ take n F))
    \<and> (\<forall>i. i \<notin> set (take n F) \<longrightarrow> area_data (vma_pool a i) = area_data (area_of s i))
    \<and> list_all2 (\<lambda>v w. cloned (area_of s v) (vma_pool a w)) todo (take n F) \<and> same_mm dst (vs_areas s) a"
  using assms(1,7-9) unfolding n_def
proof (induction todo arbitrary: s F L pre)
  case Nil
  have "set_areas (vs_areas s) s = s" by (simp add: set_areas_def)
  then show ?case using Nil by (subst clone_areas.simps, intro exI [of _ "vs_areas s"]) (simp add: area_of_def same_mm_def)
next
  case (Cons v todo)
  from Cons.prems(3) obtain w F' where F: "F = w # F'" by (cases F) auto
  note rep = Cons.prems(1) [unfolded F]
  have v: "v \<in> set (L src)" using Cons.prems(2) by simp
  have "\<forall>c \<in> set (L dst). vm_end (area_of s c) \<le> vm_start (area_of s v)" using Cons.prems(4) by simp
  from clone_area_rep [OF rep dst src(1) v this] obtain a where a: "clone_area dst v s = Some (True, set_areas a s)"
      "areas_rep a F' M (L(dst := L dst @ [w]))" "\<And>i. i \<noteq> w \<Longrightarrow> area_data (vma_pool a i) = area_data (area_of s i)"
      "cloned (area_of s v) (vma_pool a w)" "same_mm dst (vs_areas s) a" by blast
  let ?s = "set_areas a s" and ?L = "L(dst := L dst @ [w])"
  have out: "w \<notin> set F'" "w \<notin> set (L src)" "w \<notin> set (L dst)"
    using vp.free_slots_distinct [OF areas_repD(1) [OF rep]] areas_repD(6) [OF rep src(1)] areas_repD(6) [OF rep dst(1)] by auto
  have keep: "vm_start (area_of ?s i) = vm_start (area_of s i)" "vm_end (area_of ?s i) = vm_end (area_of s i)" if "i \<noteq> w" for i
    using area_data_fields(1,2) [OF a(3) [OF that]] by simp_all
  have "laid_out (area_view (vs_areas s) (L src))" by (rule areas_repD(7) [OF rep src(1)])
  then have after: "vm_end (area_of s v) \<le> vm_start (area_of s u)" if "u \<in> set todo" for u
    using that unfolding Cons.prems(2) by (auto simp: area_view_def laid_out_append laid_out_Cons area_of_def)
  have below: "\<forall>c \<in> set (?L dst). \<forall>u \<in> set todo. vm_end (area_of ?s c) \<le> vm_start (area_of ?s u)"
  proof (intro ballI)
    fix c u
    assume c: "c \<in> set (?L dst)" and u: "u \<in> set todo"
    have "u \<noteq> w" using u out(2) Cons.prems(2) by auto
    then have start: "vm_start (area_of ?s u) = vm_start (area_of s u)" by (rule keep(1))
    show "vm_end (area_of ?s c) \<le> vm_start (area_of ?s u)"
    proof (cases "c = w")
      case True
      then have "vm_end (area_of ?s c) = vm_end (area_of s v)" using a(4) by (simp add: cloned_def)
      then show ?thesis unfolding start using after [OF u] by argo
    next
      case False
      then have "c \<in> set (L dst)" using c by auto
      then show ?thesis unfolding start keep(2) [OF False] using Cons.prems(4) u by simp
    qed
  qed
  have L: "?L src = (pre @ [v]) @ todo" using Cons.prems(2) src(3) by simp
  have len: "length todo \<le> length F'" using Cons.prems(3) F by simp
  have rs: "areas_rep (vs_areas ?s) F' M ?L" using a(2) by simp
  note ih = Cons.IH [OF rs L len below, unfolded set_areas_simps fun_upd_same fun_upd_upd]
  from ih obtain b where b: "clone_areas dst (head_opt todo) ?s = Some (True, set_areas b s)"
      "areas_rep b (drop (length todo) F') M (L(dst := (L dst @ [w]) @ take (length todo) F'))"
      "\<And>i. i \<notin> set (take (length todo) F') \<Longrightarrow> area_data (vma_pool b i) = area_data (vma_pool a i)"
      "list_all2 (\<lambda>v w. cloned (vma_pool a v) (vma_pool b w)) todo (take (length todo) F')" "same_mm dst a b"
    by blast
  have nx: "vm_next (area_of ?s v) = head_opt todo"
    using area_neighbours(2) [OF a(2) src(1,2), of pre v todo] Cons.prems(2) src(3) by (simp add: area_next_def)
  have run: "clone_areas dst (head_opt (v # todo)) s = Some (True, set_areas b s)"
    using a(1) b(1) nx by (subst clone_areas.simps) simp
  have wb: "area_data (vma_pool b w) = area_data (vma_pool a w)" using b(3) out(1) by (meson in_set_takeD)
  then have "cloned (area_of s v) (vma_pool b w)" using a(4) cloned_data [OF refl wb] by blast
  moreover have "cloned (area_of s u) x = cloned (vma_pool a u) x" if "u \<in> set todo" for u x
  proof (rule cloned_data [OF _ refl])
    have "u \<noteq> w" using that out(2) Cons.prems(2) by auto
    then show "area_data (area_of s u) = area_data (vma_pool a u)" using a(3) by simp
  qed
  then have "list_all2 (\<lambda>v w. cloned (area_of s v) (vma_pool b w)) todo (take (length todo) F')"
    using b(4) by (auto simp: list_all2_conv_all_nth)
  moreover have "area_data (vma_pool b i) = area_data (area_of s i)" if "i \<notin> set (take (length (v # todo)) F)" for i
    using that b(3) a(3) F by simp
  ultimately show ?case using run b(2) F same_mm_trans [OF a(5) b(5)] by (intro exI [of _ b]) (simp del: fun_upd_apply)
qed

text \<open>
  C21. \<open>mm_clone\<close> makes a second address space with the same layout. With a free descriptor, a free area slot for each
  area of the source and one free frame, it succeeds: the areas of the new address space are, in order, copies of those of
  the source in range, rights and file, the bounds of its code, data, heap and stack and the base of its mappings are those of
  the source, and it has a page directory of its own,
  with the kernel's entries. The areas of all address spaces and all translations stay as they were: no page is shared or marked
  copy-on-write, because \<open>vmm_mark_cow\<close> does nothing.
\<close>

theorem mm_clone_copies:
  assumes rep: "areas_rep (vs_areas s) F (dst # M) L" and src: "src < 64" "src \<notin> set (dst # M)"
    and inv: "vmm_inv (vs_vmm s)" and room: "card (pmm_used (vm_frames (vs_vmm s))) < TOTAL_PAGES"
    and slots: "length (L src) \<le> length F"
  defines "n \<equiv> length (L src)"
  shows "\<exists>t. mm_clone (Some src) s = Some (Some dst, t) \<and> areas_rep (vs_areas t) (drop n F) M (L(dst := take n F))
    \<and> list_all2 (\<lambda>v w. cloned (area_of s v) (area_of t w)) (L src) (take n F)
    \<and> (\<forall>q < 64. \<forall>w \<in> set (L q). area_data (area_of t w) = area_data (area_of s w))
    \<and> regions (the_mm t dst) = regions (the_mm s src)
    \<and> vmm_inv (vs_vmm t) \<and> (\<forall>vb. vmm_get_physical vb (vs_vmm t) = vmm_get_physical vb (vs_vmm s))
    \<and> unat (mm_page_directory (the_mm t dst)) div 4096 \<notin> pmm_used (vm_frames (vs_vmm s))
    \<and> pmm_used (vm_frames (vs_vmm t)) = insert (unat (mm_page_directory (the_mm t dst)) div 4096) (pmm_used (vm_frames (vs_vmm s)))
    \<and> (\<forall>i < 1024. vm_words (vs_vmm t) (entry_addr (mm_page_directory (the_mm t dst)) i) =
         (if i < 768 then 0 else vm_words (vs_vmm s) (entry_addr KERNEL_DIRECTORY i)))"
proof -
  from mm_create_rep [OF rep inv room] obtain u where u: "mm_create s = (Some dst, u)" "areas_rep (vs_areas u) F M L"
      "dst < 64" "dst \<notin> set M" "L dst = []" "created s dst u" by blast
  note cr = u(6) [unfolded created_def Let_def]
  let ?u = "set_areas (copy_regions src dst (vs_areas u)) u"
  have ne: "src \<noteq> dst" "src \<notin> set M" using src(2) by auto
  have rep2: "areas_rep (vs_areas ?u) F M L"
    by (simp add: copy_regions_def Let_def) (rule areas_rep_mm [OF u(2)], simp)
  have pool: "area_of ?u w = area_of s w" for w using cr by (simp add: copy_regions_def Let_def area_of_def)
  from clone_areas_rep [OF rep2 u(3,4) src(1) ne(2,1), of "[]" "L src"] slots u(5) obtain a where
    a: "clone_areas dst (head_opt (L src)) ?u = Some (True, set_areas a u)" "areas_rep a (drop n F) M (L(dst := take n F))"
      "\<And>i. i \<notin> set (take n F) \<Longrightarrow> area_data (vma_pool a i) = area_data (area_of s i)"
      "list_all2 (\<lambda>v w. cloned (area_of s v) (vma_pool a w)) (L src) (take n F)" "same_mm dst (vs_areas ?u) a"
    unfolding pool n_def by auto
  have "mm_vmas (the_mm s src) = head_opt (L src)"
    using areas_rep_chain(1) [OF rep src] by (cases "L src") (auto simp: the_mm_def)
  then have head: "mm_vmas (the_mm u src) = head_opt (L src)" using cr ne by simp
  have run: "mm_clone (Some src) s = Some (Some dst, set_areas a u)"
    using u(1) a(1) head by (simp add: mm_clone_def)
  have keep: "area_data (vma_pool a w) = area_data (area_of s w)" if "q < 64" "w \<in> set (L q)" for q w
    using a(3) areas_repD(6) [OF rep that(1)] that(2) by (meson disjoint_iff in_set_takeD)
  have mm: "mm_data (mm_pool a dst) = mm_data (mm_pool (vs_areas ?u) dst)" using a(5) by (simp add: same_mm_def)
  have us: "mm_pool (vs_areas u) src = the_mm s src" using cr ne by (simp add: the_mm_def)
  have fields: "regions (mm_pool a dst) = regions (the_mm s src)" "mm_page_directory (mm_pool a dst) = mm_page_directory (the_mm u dst)"
    unfolding mm_data_fields [OF mm] using us by (simp_all add: copy_regions_def regions_def Let_def the_mm_def)
  have t: "the_mm (set_areas a u) dst = mm_pool a dst" "area_of (set_areas a u) w = vma_pool a w" for w by (simp_all add: the_mm_def)
  show ?thesis
    unfolding n_def [symmetric] using run a(2,4) keep cr
    by (intro exI [of _ "set_areas a u"]) (simp add: t fields del: fun_upd_apply)
qed

subsection \<open>Concrete states\<close>

text \<open>An address space with one area, and its page directory in frame \<open>0x500\<close>.\<close>

abbreviation (input) "one_list \<equiv> (\<lambda>q :: nat. [] :: nat list)(0 := [0])"

lemma one_area:
  "\<exists>a. areas_rep a [Suc 0..<256] [Suc 0..<64] one_list \<and> vm_start (vma_pool a 0) = 0x40001000
     \<and> vm_end (vma_pool a 0) = 0x40002000 \<and> mm_page_directory (mm_pool a 0) = 0x500000"
proof -
  let ?n = "new_area 0x40001000 0x40002000 0x33"
  have F: "[0..<256] = 0 # [Suc 0..<256]" by (rule upt_conv_Cons) simp
  have g: "good_range 0x40001000 0x40002000" by (simp add: good_range_def page_aligned_def)
  obtain b where b: "areas_rep b [Suc 0..<256] [Suc 0..<64] (\<lambda>q. [])" "detached 0 [Suc 0..<256] (\<lambda>q. [])" "vma_pool b 0 = ?n"
    using vma_create_rep(3) [OF fresh_space_rep g F, of "0x33"] by auto
  have v: "vm_ref_count (vma_pool b 0) = 1" "good_range (vm_start (vma_pool b 0)) (vm_end (vma_pool b 0))"
    using b(3) g by (simp_all add: new_area_def)
  have m: "0 < (64 :: nat)" "0 \<notin> set [Suc 0..<64]" by simp_all
  have "placed b 0 [] = [0]" by (simp add: placed_def)
  then obtain c where c: "areas_rep c [Suc 0..<256] [Suc 0..<64] one_list" "same_areas b c"
    using vma_insert_rep(2) [OF b(1) m b(2) v] by (auto simp del: upt_rec_numeral fun_upd_apply)
  let ?c = "upd_mm (mm_page_directory_update (\<lambda>_. 0x500000)) 0 c"
  have d: "area_data (vma_pool ?c 0) = area_data ?n" using c(2) b(3) by (simp add: same_areas_def)
  have "areas_rep ?c [Suc 0..<256] [Suc 0..<64] one_list" by (rule areas_rep_mm [OF c(1)]) simp
  moreover have "mm_page_directory (mm_pool ?c 0) = 0x500000" by simp
  moreover have "vm_start (vma_pool ?c 0) = 0x40001000" "vm_end (vma_pool ?c 0) = 0x40002000"
    unfolding area_data_fields(1,2) [OF d] by (simp_all add: new_area_def)
  ultimately show ?thesis by blast
qed

lemma booted_user_frame: "512 \<le> f \<Longrightarrow> f < TOTAL_PAGES \<Longrightarrow> user_frame booted_vmm f"
  using booted_inv booted_frames unfolding user_frame_def vmm_inv_def by fastforce

theorem mm_destroy_releases_witness:
  "\<exists>s t. mm_page_directory (the_mm s 0) = 0x500000 \<and> mm_destroy (Some 0) s = Some t
     \<and> areas_rep (vs_areas t) (0 # [Suc 0..<256]) (0 # [Suc 0..<64]) (\<lambda>q. [])"
proof -
  obtain a where a: "areas_rep a [Suc 0..<256] [Suc 0..<64] one_list" "vm_start (vma_pool a 0) = 0x40001000"
      "vm_end (vma_pool a 0) = 0x40002000" "mm_page_directory (mm_pool a 0) = 0x500000" using one_area by blast
  let ?s = "set_areas a (demo_vmem demo_swap)"
  have v: "vs_vmm ?s = booted_vmm" by (simp add: demo_swap_state)
  have rep: "areas_rep (vs_areas ?s) [Suc 0..<256] [Suc 0..<64] one_list" using a(1) by simp
  have "covers (area_of ?s) 0 TOP_ADDR (one_list 0) vb \<Longrightarrow> vmm_get_physical vb booted_vmm = 0" for vb
    using a(2) booted_unmapped [of vb] by (simp add: covers_def)
  then have user: "user_covered (area_of ?s) 0 TOP_ADDR (one_list 0) (vs_vmm ?s)" unfolding user_covered_def v by blast
  have dir: "user_frame (vs_vmm ?s) (unat (mm_page_directory (the_mm ?s 0)) div 4096)"
    unfolding v using a(4) booted_user_frame [of "0x500"] by (simp add: the_mm_def)
  have inv: "vmm_inv (vs_vmm ?s)" using booted_inv v by simp
  have m: "0 < (64 :: nat)" "0 \<notin> set [Suc 0..<64]" by simp_all
  from mm_destroy_releases [OF rep m inv user dir] obtain t where "mm_destroy (Some 0) ?s = Some t"
      "areas_rep (vs_areas t) (rev (one_list 0) @ [Suc 0..<256]) (0 # [Suc 0..<64]) (one_list(0 := []))" by blast
  moreover have "one_list(0 := []) = (\<lambda>q. [])" by auto
  ultimately have "mm_destroy (Some 0) ?s = Some t \<and> areas_rep (vs_areas t) (0 # [Suc 0..<256]) (0 # [Suc 0..<64]) (\<lambda>q. [])"
    by (simp del: upt_rec_numeral)
  moreover have "mm_page_directory (the_mm ?s 0) = 0x500000" using a(4) by (simp add: the_mm_def)
  ultimately show ?thesis by blast
qed

theorem mm_clone_copies_witness:
  "\<exists>s t. vm_start (area_of s 0) = 0x40001000 \<and> mm_clone (Some 0) s = Some (Some 1, t) \<and> cloned (area_of s 0) (area_of t 1)
     \<and> regions (the_mm t 1) = regions (the_mm s 0) \<and> vmm_get_physical 0x3000 (vs_vmm t) = vmm_get_physical 0x3000 (vs_vmm s)"
proof -
  obtain a where a: "areas_rep a [Suc 0..<256] [Suc 0..<64] one_list" "vm_start (vma_pool a 0) = 0x40001000"
    using one_area by blast
  let ?s = "set_areas a (demo_vmem demo_swap)"
  have v: "vs_vmm ?s = booted_vmm" by (simp add: demo_swap_state)
  have M: "[Suc 0..<64] = 1 # [2..<64]" "[Suc 0..<256] = 1 # [2..<256]" by (simp_all only: upt_conv_Cons numeral_2_eq_2 One_nat_def)
  have rep: "areas_rep (vs_areas ?s) (1 # [2..<256]) (1 # [2..<64]) one_list" using a(1) M by simp
  have "vmm_inv (vs_vmm ?s)" "card (pmm_used (vm_frames (vs_vmm ?s))) < TOTAL_PAGES" using booted_inv booted_few v by auto
  from mm_clone_copies [OF rep _ _ this, of 0] obtain t where "mm_clone (Some 0) ?s = Some (Some 1, t)"
      "list_all2 (\<lambda>v w. cloned (area_of ?s v) (area_of t w)) (one_list 0) (take (length (one_list 0)) (1 # [2..<256]))"
      "regions (the_mm t 1) = regions (the_mm ?s 0)"
      "vmm_get_physical 0x3000 (vs_vmm t) = vmm_get_physical 0x3000 (vs_vmm ?s)" by (auto simp del: upt_rec_numeral)
  then have "mm_clone (Some 0) ?s = Some (Some 1, t) \<and> cloned (area_of ?s 0) (area_of t 1)
     \<and> regions (the_mm t 1) = regions (the_mm ?s 0) \<and> vmm_get_physical 0x3000 (vs_vmm t) = vmm_get_physical 0x3000 (vs_vmm ?s)" by (simp del: upt_rec_numeral)
  moreover have "vm_start (area_of ?s 0) = 0x40001000" using a(2) by simp
  ultimately show ?thesis by blast
qed

end
